(* ===== verification/Esp_Prelude.thy ===== *)
theory Esp_Prelude
  imports Main "HOL-Library.Word" "HOL-Library.Finite_Map"
begin

text \<open>
  Shared vocabulary of the development: the Rust types the components use (bytes, machine
  integers, strings, hash maps), the state-and-error monad in which the stateful code is
  written, byte-order conversions, UTF-8 validation, and the generic lemmas on lists,
  options and maps that the component theories rely on.

  A Rust \<open>String\<close> or \<open>&str\<close> is a \<^typ>\<open>string\<close>: one \<^typ>\<open>char\<close> per byte of its
  UTF-8 encoding, so \<open>len()\<close> is \<^const>\<open>length\<close>. A \<open>&[u8]\<close> or \<open>Vec<u8>\<close> is a list of
  8-bit words. A \<open>HashMap\<close> is a finite map, whose \<open>len()\<close> is \<open>hm_len\<close>; its
  iteration order is unspecified in Rust, so results that depend on it are finite sets.
\<close>

unbundle bit_operations_syntax

section \<open>Rust types\<close>

type_synonym byte = "8 word"
type_synonym bytes = "8 word list"
type_synonym u16 = "16 word"
type_synonym u32 = "32 word"
type_synonym u64 = "64 word"
type_synonym str = string
type_synonym ('k, 'v) hashmap = "('k, 'v) fmap"

text \<open>\<open>usize\<close> is 32 bits wide on every supported chip: its values are below this limit.\<close>

definition usize_limit :: nat where "usize_limit = 2 ^ 32"

named_theorems io_simps \<open>equations of the state-and-error monad\<close>

section \<open>Bytes and strings\<close>

definition byte_of_char :: "char \<Rightarrow> byte" where
  "byte_of_char c = word_of_nat (of_char c)"

definition char_of_byte :: "byte \<Rightarrow> char" where
  "char_of_byte b = char_of (unat b)"

text \<open>\<open>str::as_bytes\<close>, and byte-string literals such as \<open>b"device"\<close>.\<close>

definition as_bytes :: "str \<Rightarrow> bytes" where
  "as_bytes s = map byte_of_char s"

definition str_of_bytes :: "bytes \<Rightarrow> str" where
  "str_of_bytes bs = map char_of_byte bs"

lemma char_of_byte_of_char [simp]: "char_of_byte (byte_of_char c) = c"
  by (simp add: char_of_byte_def byte_of_char_def unat_of_nat take_bit_eq_mod)

lemma byte_of_char_of_byte [simp]: "byte_of_char (char_of_byte b) = b"
proof -
  have "unat b < 256" using unsigned_less [of b] by simp
  then show ?thesis by (simp add: char_of_byte_def byte_of_char_def)
qed

lemma str_of_bytes_as_bytes [simp]: "str_of_bytes (as_bytes s) = s"
  by (simp add: str_of_bytes_def as_bytes_def comp_def)

lemma as_bytes_str_of_bytes [simp]: "as_bytes (str_of_bytes bs) = bs"
  by (simp add: str_of_bytes_def as_bytes_def comp_def)

lemma length_as_bytes [simp]: "length (as_bytes s) = length s"
  by (simp add: as_bytes_def)

lemma as_bytes_append: "as_bytes (s @ t) = as_bytes s @ as_bytes t"
  by (simp add: as_bytes_def)

lemma as_bytes_inject [simp]: "as_bytes s = as_bytes t \<longleftrightarrow> s = t"
  by (metis str_of_bytes_as_bytes)

lemma unat_byte_less [simp]: "unat (b :: byte) < 256"
  using unsigned_less [of b] by simp

text \<open>\<open>str::strip_prefix\<close>.\<close>

definition strip_prefix :: "str \<Rightarrow> str \<Rightarrow> str option" where
  "strip_prefix pre s = (if take (length pre) s = pre then Some (drop (length pre) s) else None)"

subsection \<open>UTF-8 validation (\<open>std::str::from_utf8\<close>)\<close>

definition in_range :: "nat \<Rightarrow> nat \<Rightarrow> byte \<Rightarrow> bool" where
  "in_range lo hi b \<longleftrightarrow> lo \<le> unat b \<and> unat b \<le> hi"

abbreviation cont_byte :: "byte \<Rightarrow> bool" where
  "cont_byte \<equiv> in_range 0x80 0xBF"

fun utf8_valid :: "bytes \<Rightarrow> bool" where
  "utf8_valid [] = True"
| "utf8_valid (b # bs) =
     (if unat b < 0x80 then utf8_valid bs
      else if in_range 0xC2 0xDF b then
        (case bs of c1 # r \<Rightarrow> cont_byte c1 \<and> utf8_valid r | _ \<Rightarrow> False)
      else if in_range 0xE0 0xEF b then
        (case bs of c1 # c2 # r \<Rightarrow>
           in_range (if unat b = 0xE0 then 0xA0 else 0x80)
                    (if unat b = 0xED then 0x9F else 0xBF) c1
           \<and> cont_byte c2 \<and> utf8_valid r | _ \<Rightarrow> False)
      else if in_range 0xF0 0xF4 b then
        (case bs of c1 # c2 # c3 # r \<Rightarrow>
           in_range (if unat b = 0xF0 then 0x90 else 0x80)
                    (if unat b = 0xF4 then 0x8F else 0xBF) c1
           \<and> cont_byte c2 \<and> cont_byte c3 \<and> utf8_valid r | _ \<Rightarrow> False)
      else False)"

text \<open>\<open>String::from_utf8\<close> and \<open>str::from_utf8\<close>: the string, or nothing.\<close>

definition from_utf8 :: "bytes \<Rightarrow> str option" where
  "from_utf8 bs = (if utf8_valid bs then Some (str_of_bytes bs) else None)"

text \<open>The invariant the Rust type \<open>str\<close> carries: its bytes are valid UTF-8.\<close>

definition valid_str :: "str \<Rightarrow> bool" where
  "valid_str s \<longleftrightarrow> utf8_valid (as_bytes s)"

lemma from_utf8_as_bytes [simp]: "valid_str s \<Longrightarrow> from_utf8 (as_bytes s) = Some s"
  by (simp add: from_utf8_def valid_str_def)

lemma from_utf8_SomeD: "from_utf8 bs = Some s \<Longrightarrow> bs = as_bytes s \<and> valid_str s"
  by (auto simp: from_utf8_def valid_str_def split: if_splits)

lemma utf8_valid_ascii: "\<forall>b \<in> set bs. unat b < 0x80 \<Longrightarrow> utf8_valid bs"
  by (induction bs) auto

subsection \<open>Byte order\<close>

text \<open>\<open>to_le_bytes\<close>/\<open>from_le_bytes\<close> and their big-endian counterparts, at any width.\<close>

fun le_bytes :: "nat \<Rightarrow> nat \<Rightarrow> bytes" where
  "le_bytes 0 x = []"
| "le_bytes (Suc n) x = word_of_nat (x mod 256) # le_bytes n (x div 256)"

fun le_val :: "bytes \<Rightarrow> nat" where
  "le_val [] = 0"
| "le_val (b # bs) = unat b + 256 * le_val bs"

definition be_bytes :: "nat \<Rightarrow> nat \<Rightarrow> bytes" where
  "be_bytes n x = rev (le_bytes n x)"

definition be_val :: "bytes \<Rightarrow> nat" where
  "be_val bs = le_val (rev bs)"

lemma length_le_bytes [simp]: "length (le_bytes n x) = n"
  by (induction n arbitrary: x) auto

lemma length_be_bytes [simp]: "length (be_bytes n x) = n"
  by (simp add: be_bytes_def)

lemma unat_word_of_nat_byte [simp]: "unat (word_of_nat x :: byte) = x mod 256"
  by (simp add: unat_of_nat take_bit_eq_mod)

lemma le_val_le_bytes: "x < 256 ^ n \<Longrightarrow> le_val (le_bytes n x) = x"
proof (induction n arbitrary: x)
  case 0
  then show ?case by simp
next
  case (Suc n)
  then have "x div 256 < 256 ^ n" by (simp add: less_mult_imp_div_less mult.commute)
  then show ?case by (simp add: Suc.IH)
qed

lemma le_val_bound: "le_val bs < 256 ^ length bs"
proof (induction bs)
  case Nil
  then show ?case by simp
next
  case (Cons b bs)
  with unat_byte_less [of b] show ?case by (simp del: unat_byte_less)
qed

lemma le_bytes_le_val: "le_bytes (length bs) (le_val bs) = bs"
  by (induction bs) (simp_all add: mod_mult_self2 div_mult_self2)

lemma be_val_be_bytes: "x < 256 ^ n \<Longrightarrow> be_val (be_bytes n x) = x"
  by (simp add: be_val_def be_bytes_def le_val_le_bytes)

lemma be_bytes_be_val: "be_bytes (length bs) (be_val bs) = bs"
  by (metis be_bytes_def be_val_def le_bytes_le_val length_rev rev_rev_ident)

lemma be_val_bound: "be_val bs < 256 ^ length bs"
  using le_val_bound [of "rev bs"] by (simp add: be_val_def)

text \<open>\<open>u32::to_le_bytes\<close> and \<open>u32::from_le_bytes\<close>.\<close>

definition u32_to_le :: "u32 \<Rightarrow> bytes" where
  "u32_to_le w = le_bytes 4 (unat w)"

definition u32_from_le :: "bytes \<Rightarrow> u32" where
  "u32_from_le bs = word_of_nat (le_val bs)"

lemma length_u32_to_le [simp]: "length (u32_to_le w) = 4"
  by (simp add: u32_to_le_def)

lemma u32_le_roundtrip [simp]: "u32_from_le (u32_to_le w) = w"
proof -
  have "unat w < 256 ^ 4" using unsigned_less [of w] by simp
  then show ?thesis by (simp add: u32_from_le_def u32_to_le_def le_val_le_bytes)
qed

lemma u32_to_le_inject [simp]: "u32_to_le v = u32_to_le w \<longleftrightarrow> v = w"
  by (metis u32_le_roundtrip)

section \<open>Results, and state with errors\<close>

text \<open>
  A fallible computation returns \<open>Inl e\<close> for an error and \<open>Inr x\<close> for a value. A
  stateful fallible computation also returns the state it leaves behind, on error too:
  Rust's \<open>?\<close> returns early but undoes nothing.
\<close>

type_synonym ('s, 'e, 'a) io = "'s \<Rightarrow> ('e + 'a) \<times> 's"

definition retE :: "'a \<Rightarrow> ('s, 'e, 'a) io" where
  "retE x = (\<lambda>s. (Inr x, s))"

definition throwE :: "'e \<Rightarrow> ('s, 'e, 'a) io" where
  "throwE e = (\<lambda>s. (Inl e, s))"

definition bindE :: "('s, 'e, 'a) io \<Rightarrow> ('a \<Rightarrow> ('s, 'e, 'b) io) \<Rightarrow> ('s, 'e, 'b) io" where
  "bindE m f = (\<lambda>s. case m s of (Inl e, s') \<Rightarrow> (Inl e, s') | (Inr x, s') \<Rightarrow> f x s')"

text \<open>A result computed without touching the state, lifted into the monad.\<close>

definition liftE :: "('e + 'a) \<Rightarrow> ('s, 'e, 'a) io" where
  "liftE r = (\<lambda>s. (r, s))"

definition getE :: "('s \<Rightarrow> 'a) \<Rightarrow> ('s, 'e, 'a) io" where
  "getE f = (\<lambda>s. (Inr (f s), s))"

definition modifyE :: "('s \<Rightarrow> 's) \<Rightarrow> ('s, 'e, unit) io" where
  "modifyE f = (\<lambda>s. (Inr (), f s))"

text \<open>\<open>if c { return Err(e) }\<close>.\<close>

definition failE_if :: "bool \<Rightarrow> 'e \<Rightarrow> ('s, 'e, unit) io" where
  "failE_if c e = (if c then throwE e else retE ())"

text \<open>\<open>.map_err(f)\<close>.\<close>

definition map_errE :: "('d \<Rightarrow> 'e) \<Rightarrow> ('s, 'd, 'a) io \<Rightarrow> ('s, 'e, 'a) io" where
  "map_errE f m = (\<lambda>s. case m s of (Inl e, s') \<Rightarrow> (Inl (f e), s') | (Inr x, s') \<Rightarrow> (Inr x, s'))"

lemma retE_apply [io_simps, simp]: "retE x s = (Inr x, s)"
  by (simp add: retE_def)

lemma throwE_apply [io_simps, simp]: "throwE e s = (Inl e, s)"
  by (simp add: throwE_def)

lemma liftE_apply [io_simps, simp]: "liftE r s = (r, s)"
  by (simp add: liftE_def)

lemma getE_apply [io_simps, simp]: "getE f s = (Inr (f s), s)"
  by (simp add: getE_def)

lemma modifyE_apply [io_simps, simp]: "modifyE f s = (Inr (), f s)"
  by (simp add: modifyE_def)

lemma failE_if_apply [io_simps, simp]:
  "failE_if c e s = (if c then (Inl e, s) else (Inr (), s))"
  by (simp add: failE_if_def)

lemma bindE_Inr [io_simps]: "m s = (Inr x, s') \<Longrightarrow> bindE m f s = f x s'"
  by (simp add: bindE_def)

lemma bindE_Inl [io_simps]: "m s = (Inl e, s') \<Longrightarrow> bindE m f s = (Inl e, s')"
  by (simp add: bindE_def)

lemma bindE_retE [io_simps, simp]: "bindE (retE x) f = f x"
  by (simp add: bindE_def fun_eq_iff)

lemma bindE_throwE [io_simps, simp]: "bindE (throwE e) f = throwE e"
  by (simp add: bindE_def fun_eq_iff)

lemma bindE_getE [io_simps, simp]: "bindE (getE g) f s = f (g s) s"
  by (simp add: bindE_def)

lemma bindE_modifyE [io_simps, simp]: "bindE (modifyE g) f s = f () (g s)"
  by (simp add: bindE_def)

lemma bindE_failE_if [io_simps, simp]:
  "bindE (failE_if c e) f s = (if c then (Inl e, s) else f () s)"
  by (simp add: bindE_def)

lemma bindE_liftE [io_simps, simp]:
  "bindE (liftE r) f s = (case r of Inl e \<Rightarrow> (Inl e, s) | Inr x \<Rightarrow> f x s)"
  by (simp add: bindE_def)

lemma bindE_assoc: "bindE (bindE m f) g = bindE m (\<lambda>x. bindE (f x) g)"
  by (auto simp: bindE_def fun_eq_iff split: prod.splits sum.splits)

text \<open>Inversion: a sequence ended well exactly when both parts did.\<close>

lemma bindE_InrE:
  assumes "bindE m f s = (Inr y, s'')"
  obtains x s' where "m s = (Inr x, s')" and "f x s' = (Inr y, s'')"
  using assms by (auto simp: bindE_def split: prod.splits sum.splits)

lemma bindE_cases:
  assumes "bindE m f s = (r, s'')"
  obtains (err) e where "m s = (Inl e, s'')" and "r = Inl e"
    | (ok) x s' where "m s = (Inr x, s')" and "f x s' = (r, s'')"
  using assms by (auto simp: bindE_def split: prod.splits sum.splits)

subsection \<open>Triples over results and states\<close>

text \<open>
  \<open>triple P m Q\<close>: from a state with \<open>P\<close>, whatever \<open>m\<close> returns, the result and the
  final state satisfy \<open>Q\<close>. Errors are results, so a triple speaks about the state an
  early return leaves behind.
\<close>

definition triple ::
  "('s \<Rightarrow> bool) \<Rightarrow> ('s, 'e, 'a) io \<Rightarrow> ('e + 'a \<Rightarrow> 's \<Rightarrow> bool) \<Rightarrow> bool" where
  "triple P m Q \<longleftrightarrow> (\<forall>s r s'. P s \<longrightarrow> m s = (r, s') \<longrightarrow> Q r s')"

lemma tripleI: "(\<And>s r s'. P s \<Longrightarrow> m s = (r, s') \<Longrightarrow> Q r s') \<Longrightarrow> triple P m Q"
  by (simp add: triple_def)

lemma tripleD: "triple P m Q \<Longrightarrow> P s \<Longrightarrow> m s = (r, s') \<Longrightarrow> Q r s'"
  by (simp add: triple_def)

lemma triple_bindE:
  assumes "triple P m R" and "\<And>x. triple (R (Inr x)) (f x) Q"
    and "\<And>e s. R (Inl e) s \<Longrightarrow> Q (Inl e) s"
  shows "triple P (bindE m f) Q"
proof (rule tripleI)
  fix s r s'
  assume "P s" and "bindE m f s = (r, s')"
  from this(2) show "Q r s'"
  proof (cases rule: bindE_cases)
    case (err e)
    with \<open>P s\<close> assms(1,3) show ?thesis by (auto dest: tripleD)
  next
    case (ok x t)
    with \<open>P s\<close> assms(1,2) show ?thesis by (blast dest: tripleD)
  qed
qed

lemma triple_conseq:
  "triple P m Q \<Longrightarrow> (\<And>s. P' s \<Longrightarrow> P s) \<Longrightarrow> (\<And>r s. Q r s \<Longrightarrow> Q' r s) \<Longrightarrow> triple P' m Q'"
  by (simp add: triple_def) blast

text \<open>The special case of an invariant kept on every path.\<close>

abbreviation preserves :: "('s \<Rightarrow> bool) \<Rightarrow> ('s, 'e, 'a) io \<Rightarrow> bool" where
  "preserves I m \<equiv> triple I m (\<lambda>_. I)"

named_theorems keeps \<open>operations that keep an invariant on every path\<close>

lemma preserves_bindE [keeps]:
  "preserves I m \<Longrightarrow> (\<And>x. preserves I (f x)) \<Longrightarrow> preserves I (bindE m f)"
  by (rule triple_bindE) auto

lemma preserves_retE [keeps]: "preserves I (retE x)"
  by (simp add: triple_def)

lemma preserves_throwE [keeps]: "preserves I (throwE e)"
  by (simp add: triple_def)

lemma preserves_liftE [keeps]: "preserves I (liftE r)"
  by (simp add: triple_def)

lemma preserves_getE [keeps]: "preserves I (getE f)"
  by (simp add: triple_def)

lemma preserves_failE_if [keeps]: "preserves I (failE_if c e)"
  by (simp add: triple_def)

lemma preserves_modifyE: "(\<And>s. I s \<Longrightarrow> I (f s)) \<Longrightarrow> preserves I (modifyE f)"
  by (simp add: triple_def)

lemma preserves_if [keeps]: "preserves I m \<Longrightarrow> preserves I n \<Longrightarrow> preserves I (if c then m else n)"
  by simp

lemma preserves_option [keeps]:
  "preserves I m \<Longrightarrow> (\<And>x. preserves I (f x)) \<Longrightarrow>
   preserves I (case r of None \<Rightarrow> m | Some x \<Rightarrow> f x)"
  by (cases r) auto

section \<open>Hash maps\<close>

definition hm_len :: "('k, 'v) hashmap \<Rightarrow> nat" where
  "hm_len m = fcard (fmdom m)"

definition hm_contains :: "('k, 'v) hashmap \<Rightarrow> 'k \<Rightarrow> bool" where
  "hm_contains m k \<longleftrightarrow> fmlookup m k \<noteq> None"

text \<open>\<open>HashMap::retain\<close> and \<open>HashMap::keys().any()\<close>.\<close>

definition hm_retain :: "('k \<Rightarrow> 'v \<Rightarrow> bool) \<Rightarrow> ('k, 'v) hashmap \<Rightarrow> ('k, 'v) hashmap" where
  "hm_retain p m = fmfilter (\<lambda>k. case fmlookup m k of None \<Rightarrow> False | Some v \<Rightarrow> p k v) m"

lemma hm_len_empty [simp]: "hm_len fmempty = 0"
  by (simp add: hm_len_def)

lemma hm_contains_iff: "hm_contains m k \<longleftrightarrow> k |\<in>| fmdom m"
  by (auto simp: hm_contains_def fmdom_notD fmdomI)

lemma fmdom'_card: "hm_len m = card (fmdom' m)"
  by (simp add: hm_len_def fcard.rep_eq fmdom'_alt_def)

lemma hm_len_upd:
  "hm_len (fmupd k v m) = (if hm_contains m k then hm_len m else Suc (hm_len m))"
  by (auto simp: hm_len_def hm_contains_iff fcard_finsert_if)

lemma hm_len_drop:
  "hm_len (fmdrop k m) = (if hm_contains m k then hm_len m - 1 else hm_len m)"
  by (auto simp: fmdom'_card hm_contains_iff fmdom'_alt_def card_Diff_singleton)

lemma lookup_hm_retain:
  "fmlookup (hm_retain p m) k =
     (case fmlookup m k of None \<Rightarrow> None | Some v \<Rightarrow> if p k v then Some v else None)"
  by (auto simp: hm_retain_def split: option.splits)

end
