(* ===== verification/Record_Codec.thy ===== *)
theory Record_Codec
  imports Esp_Prelude
begin

text \<open>
  The record format of the NVS store (\<open>src/storage.rs\<close>): the errors a store operation can
  return, the limits, the header codec \<open>encode_record\<close>/\<open>decode_record\<close>, the 15-character
  physical name \<open>record_name\<close> derived from SHA-256 of the logical key, and the key decoders
  used when the namespaces are read back at boot. SHA-256 itself is the \<open>sha2\<close> crate: a
  parameter, of which only the 32-byte digest length is used.
\<close>

section \<open>Limits\<close>

definition RECORD_MAGIC :: bytes where "RECORD_MAGIC = as_bytes ''WA1''"
definition RECORD_HEADER_LEN :: nat where "RECORD_HEADER_LEN = 5"
definition MAX_LOGICAL_KEY_LEN :: nat where "MAX_LOGICAL_KEY_LEN = 512"
definition MAX_DEVICE_LEN :: nat where "MAX_DEVICE_LEN = 64 * 1024"
definition MAX_SIGNAL_RECORD_LEN :: nat where "MAX_SIGNAL_RECORD_LEN = 64 * 1024"
definition MAX_IDENTITIES :: nat where "MAX_IDENTITIES = 2048"
definition MAX_SESSIONS :: nat where "MAX_SESSIONS = 2048"
definition MAX_PREKEYS :: nat where "MAX_PREKEYS = 256"
definition MAX_SIGNED_PREKEYS :: nat where "MAX_SIGNED_PREKEYS = 16"
definition MAX_SENDER_KEYS :: nat where "MAX_SENDER_KEYS = 2048"
definition MAX_SYNC_KEYS :: nat where "MAX_SYNC_KEYS = 256"

lemmas store_limits =
  RECORD_HEADER_LEN_def MAX_LOGICAL_KEY_LEN_def MAX_DEVICE_LEN_def MAX_SIGNAL_RECORD_LEN_def
  MAX_IDENTITIES_def MAX_SESSIONS_def MAX_PREKEYS_def MAX_SIGNED_PREKEYS_def
  MAX_SENDER_KEYS_def MAX_SYNC_KEYS_def

section \<open>Errors\<close>

text \<open>
  The \<open>StoreError\<close> values the store constructs. The source formats a message into
  \<open>StoreError::Validation\<close>; here each message is a constructor carrying the values that
  the message prints.
\<close>

type_synonym esp_err = int

datatype validation =
    DeviceWrongKey
  | DeviceTooLarge nat
  | LabelRecordTooLarge str nat
  | TooManyRecords str nat nat
  | RecordDisappeared str str
  | MismatchedKey str str
  | NamedRecordTooLarge str str nat
  | LoadedTooLarge str nat
  | KeyTooLong nat
  | KeyCollision str str
  | LimitReached str nat
  | LatestWrongKey
  | SyncKeyIdTooLong nat
  | BlobTooLarge str nat
  | BlobDisappeared str
  | InvalidHeader
  | InvalidKeyLength
  | InvalidStringKey str
  | InvalidRecordName str
  | StorageSealed
  | SessionTooLarge nat

datatype store_error =
    NvsError esp_err
  | OutOfMemory
  | WorkerStopped
  | WorkerDroppedResult
  | EraseFailed str "erase_failure option"
  | Validation validation
  | Serialization
and erase_failure = RemainingRecords nat | EraseError store_error

section \<open>The record header\<close>

text \<open>
  \<open>usize\<close> is 32 bits on every supported chip, so the two \<open>checked_add\<close>s fail from
  \<open>2 ^ 32\<close> on. The allocation (\<open>try_reserve_exact\<close>) is the argument \<open>reserve\<close>: whether
  the heap can serve a request of that many bytes.
\<close>

definition checked_add_usize :: "nat \<Rightarrow> nat \<Rightarrow> nat option" where
  "checked_add_usize a b = (if a + b < usize_limit then Some (a + b) else None)"

definition encode_record :: "(nat \<Rightarrow> bool) \<Rightarrow> bytes \<Rightarrow> bytes \<Rightarrow> store_error + bytes" where
  "encode_record reserve logical_key value =
     (if length logical_key > MAX_LOGICAL_KEY_LEN
      then Inl (Validation (KeyTooLong (length logical_key)))
      else
        let key_len = (word_of_nat (length logical_key) :: u16) in
        case Option.bind (checked_add_usize RECORD_HEADER_LEN (length logical_key))
               (\<lambda>len. checked_add_usize len (length value)) of
          None \<Rightarrow> Inl OutOfMemory
        | Some len \<Rightarrow>
            if \<not> reserve len then Inl OutOfMemory
            else Inr (RECORD_MAGIC @ le_bytes 2 (unat key_len) @ logical_key @ value))"

definition decode_record :: "bytes \<Rightarrow> store_error + (bytes \<times> bytes)" where
  "decode_record rec =
     (if length rec < RECORD_HEADER_LEN \<or> take 3 rec \<noteq> RECORD_MAGIC
      then Inl (Validation InvalidHeader)
      else
        let key_len = le_val [rec ! 3, rec ! 4] in
        if key_len > MAX_LOGICAL_KEY_LEN \<or> key_len > length rec - RECORD_HEADER_LEN
        then Inl (Validation InvalidKeyLength)
        else
          let value_offset = RECORD_HEADER_LEN + key_len in
          Inr (take (value_offset - RECORD_HEADER_LEN) (drop RECORD_HEADER_LEN rec),
               drop value_offset rec))"

section \<open>The physical name\<close>

definition ALPHABET :: string where
  "ALPHABET = ''abcdefghijklmnopqrstuvwxyz234567''"

text \<open>One iteration of the loop of \<open>record_name\<close>: the five bits at \<open>index\<close>.\<close>

definition name_value :: "bytes \<Rightarrow> nat \<Rightarrow> byte" where
  "name_value digest index =
     (let bit = index * 5; byte = bit div 8; shift = bit mod 8;
          value = push_bit shift (digest ! byte);
          value = (if shift > 3 then value OR drop_bit (8 - shift) (digest ! (byte + 1))
                   else value)
      in drop_bit 3 value)"

definition record_name :: "(bytes \<Rightarrow> bytes) \<Rightarrow> bytes \<Rightarrow> str" where
  "record_name sha256 logical_key =
     (let digest = sha256 logical_key in
      map (\<lambda>index. ALPHABET ! unat (name_value digest index)) [0..<15])"

section \<open>Keys of the namespaces\<close>

text \<open>\<open>decode_string_key\<close> and \<open>decode_u32_key\<close>; their errors are \<open>anyhow\<close> messages.\<close>

datatype key_error = InvalidUtf8Key str | InvalidNumericKey str nat

definition decode_string_key :: "bytes \<Rightarrow> str \<Rightarrow> key_error + str" where
  "decode_string_key key label =
     (case from_utf8 key of None \<Rightarrow> Inl (InvalidUtf8Key label) | Some s \<Rightarrow> Inr s)"

definition decode_u32_key :: "bytes \<Rightarrow> str \<Rightarrow> key_error + u32" where
  "decode_u32_key key label =
     (if length key = 4 then Inr (u32_from_le key)
      else Inl (InvalidNumericKey label (length key)))"

definition ensure_insert_capacity :: "bool \<Rightarrow> nat \<Rightarrow> nat \<Rightarrow> str \<Rightarrow> store_error + unit" where
  "ensure_insert_capacity exists len limit label =
     (if \<not> exists \<and> len \<ge> limit then Inl (Validation (LimitReached label limit)) else Inr ())"

section \<open>Codec lemmas\<close>

lemma length_RECORD_MAGIC [simp]: "length RECORD_MAGIC = 3"
  by (simp add: RECORD_MAGIC_def)

lemma unat_u16_small: "n < 65536 \<Longrightarrow> unat (word_of_nat n :: u16) = n"
  by (simp add: unat_of_nat take_bit_eq_mod)

text \<open>The encoder's only failures, and what it writes otherwise.\<close>

lemma encode_record_Inr_iff:
  "encode_record reserve k v = Inr r \<longleftrightarrow>
     length k \<le> MAX_LOGICAL_KEY_LEN \<and>
     RECORD_HEADER_LEN + length k + length v < usize_limit \<and>
     reserve (RECORD_HEADER_LEN + length k + length v) \<and>
     r = RECORD_MAGIC @ le_bytes 2 (length k) @ k @ v"
  by (auto simp: encode_record_def checked_add_usize_def Let_def store_limits usize_limit_def
      unat_u16_small split: if_splits)

lemma encode_record_length:
  "encode_record reserve k v = Inr r \<Longrightarrow> length r = RECORD_HEADER_LEN + length k + length v"
  by (simp add: encode_record_Inr_iff RECORD_HEADER_LEN_def)

lemma take_drop_header:
  "take 3 (RECORD_MAGIC @ le_bytes 2 n @ r) = RECORD_MAGIC"
  "drop 5 (RECORD_MAGIC @ le_bytes 2 n @ r) = r"
  by simp_all

lemma le_val_header:
  "n < 65536 \<Longrightarrow>
   le_val [(RECORD_MAGIC @ le_bytes 2 n @ r) ! 3, (RECORD_MAGIC @ le_bytes 2 n @ r) ! 4] = n"
proof -
  assume "n < 65536"
  moreover have "[(RECORD_MAGIC @ le_bytes 2 n @ r) ! 3, (RECORD_MAGIC @ le_bytes 2 n @ r) ! 4]
      = le_bytes 2 n"
    by (simp add: nth_append numeral_2_eq_2)
  ultimately show ?thesis by (simp only: le_val_le_bytes) (simp add: le_val_le_bytes)
qed

lemma decode_record_layout:
  assumes "length k \<le> MAX_LOGICAL_KEY_LEN"
  shows "decode_record (RECORD_MAGIC @ le_bytes 2 (length k) @ k @ v) = Inr (k, v)"
proof -
  let ?r = "RECORD_MAGIC @ le_bytes 2 (length k) @ k @ v"
  have "length k < 65536" using assms by (simp add: MAX_LOGICAL_KEY_LEN_def)
  then have "le_val [?r ! 3, ?r ! 4] = length k" by (rule le_val_header)
  moreover have "drop (5 + length k) ?r = v"
    by (metis add.commute append_eq_conv_conj drop_drop take_drop_header(2))
  ultimately show ?thesis
    using assms by (simp add: decode_record_def Let_def RECORD_HEADER_LEN_def)
qed

text \<open>What decodes is exactly what the encoder would have laid out: the format is canonical.\<close>

lemma decode_record_InrD:
  assumes "decode_record r = Inr (k, v)"
  shows "length k \<le> MAX_LOGICAL_KEY_LEN" and "r = RECORD_MAGIC @ le_bytes 2 (length k) @ k @ v"
proof -
  let ?n = "le_val [r ! 3, r ! 4]"
  from assms have len: "5 \<le> length r" and magic: "take 3 r = RECORD_MAGIC"
    and n: "?n \<le> MAX_LOGICAL_KEY_LEN" "?n \<le> length r - 5"
    and k: "k = take ?n (drop 5 r)" and v: "v = drop (5 + ?n) r"
    by (auto simp: decode_record_def Let_def RECORD_HEADER_LEN_def split: if_splits)
  from n k have lk: "length k = ?n" by simp
  with n show "length k \<le> MAX_LOGICAL_KEY_LEN" by simp
  have two: "take 2 (drop 3 r) = le_bytes 2 ?n"
    using len le_bytes_le_val [of "[r ! 3, r ! 4]"]
    by (simp add: take_Suc_conv_app_nth numeral_2_eq_2 nth_drop)
  have rest: "drop 2 (drop 3 r) = k @ v"
    using append_take_drop_id [of ?n "drop 5 r"] by (simp add: k v add.commute del: le_val.simps)
  have "r = take 3 r @ take 2 (drop 3 r) @ drop 2 (drop 3 r)"
    by (simp only: append_take_drop_id)
  also have "\<dots> = RECORD_MAGIC @ le_bytes 2 (length k) @ k @ v"
    by (simp only: magic two rest lk)
  finally show "r = RECORD_MAGIC @ le_bytes 2 (length k) @ k @ v" .
qed

lemma decode_record_total:
  "decode_record r = Inl e \<Longrightarrow> e = Validation InvalidHeader \<or> e = Validation InvalidKeyLength"
  by (auto simp: decode_record_def Let_def split: if_splits)

section \<open>The name as a base-32 numeral\<close>

lemma bit_le_val: "bit (le_val bs) k \<longleftrightarrow> k div 8 < length bs \<and> bit (bs ! (k div 8)) (k mod 8)"
proof (induction bs arbitrary: k)
  case Nil
  then show ?case by simp
next
  case (Cons b bs)
  show ?case
  proof (cases "k < 8")
    case True
    have "bit (le_val (b # bs)) k \<longleftrightarrow> bit (take_bit 8 (unat b + 256 * le_val bs)) k"
      using True by (simp add: bit_take_bit_iff)
    also have "take_bit 8 (unat b + 256 * le_val bs) = unat b"
      by (simp add: take_bit_eq_mod)
    finally show ?thesis using True by (simp add: bit_unsigned_iff)
  next
    case False
    then have "bit (le_val (b # bs)) k \<longleftrightarrow> bit (drop_bit 8 (unat b + 256 * le_val bs)) (k - 8)"
      by (simp add: bit_drop_bit_eq)
    also have "drop_bit 8 (unat b + 256 * le_val bs) = le_val bs"
      by (simp add: drop_bit_eq_div)
    finally show ?thesis using False Cons.IH [of "k - 8"]
      by (simp add: le_div_geq le_mod_geq)
  qed
qed

text \<open>The first 75 bits of a digest, as a number: ten bytes, most significant first, less five bits.\<close>

definition prefix75 :: "bytes \<Rightarrow> nat" where
  "prefix75 digest = be_val (take 10 digest) div 32"

lemma prefix75_bound: "prefix75 digest < 32 ^ 15"
proof -
  have "be_val (take 10 digest) < 256 ^ length (take 10 digest)" by (rule be_val_bound)
  also have "\<dots> \<le> 256 ^ 10" by (rule power_increasing) auto
  finally show ?thesis by (simp add: prefix75_def div_less_iff_less_mult)
qed

lemma eight_split:
  fixes q r :: nat
  assumes "x = 8 * q + r" and "r < 8"
  shows "x div 8 = q" and "x mod 8 = r"
  using assms by simp_all

lemma eight_exists: "\<exists>q r. (x :: nat) = 8 * q + r \<and> r < 8"
  by (intro exI [of _ "x div 8"] exI [of _ "x mod 8"]) simp

text \<open>Bit \<open>p\<close> of the digest, counted from the most significant bit of its first byte.\<close>

lemma bit_be_val_take:
  assumes "10 \<le> length d" and "p = 8 * a + b" and "b < 8" and "p < 80"
  shows "bit (be_val (take 10 d)) (79 - p) \<longleftrightarrow> bit (d ! a) (7 - b)"
proof -
  have "79 - p = 8 * (9 - a) + (7 - b)" and "7 - b < 8" and "a < 10" using assms by linarith+
  note e = eight_split [OF this(1,2)] and a = this(3)
  have "10 - Suc (9 - a) = a" using a by linarith
  moreover have "9 - a < 10" by linarith
  ultimately show ?thesis using assms(1) a by (simp add: be_val_def bit_le_val rev_nth e)
qed

lemma bit_name_value:
  assumes i: "i < 15" and d: "10 \<le> length d" and j: "j < 5"
  shows "bit (name_value d i) j \<longleftrightarrow> bit (be_val (take 10 d)) (79 - (i * 5 + 4 - j))"
proof -
  obtain q s where qs: "i * 5 = 8 * q + s" and s: "s < 8" using eight_exists by blast
  note iq = eight_split [OF qs s]
  have p80: "i * 5 + 4 - j < 80" using i by linarith
  show ?thesis
  proof (cases "s \<le> j + 3")
    case True
    have "i * 5 + 4 - j = 8 * q + (s + 4 - j)" and "s + 4 - j < 8" and "7 - (s + 4 - j) = j + 3 - s"
      using qs j True by linarith+
    then show ?thesis using True j s bit_be_val_take [OF d _ _ p80, of q "s + 4 - j"]
      by (auto simp: name_value_def Let_def iq bit_simps bit_or_iff dest: bit_imp_le_length)
  next
    case False
    then have "i * 5 + 4 - j = 8 * (q + 1) + (s - (4 + j))" and "s - (4 + j) < 8" and "7 - (s - (4 + j)) = j + 11 - s"
      using qs j s by simp_all
    then show ?thesis using False j s bit_be_val_take [OF d _ _ p80, of "q + 1" "s - (4 + j)"]
      by (auto simp: name_value_def Let_def iq bit_simps bit_or_iff add.commute)
  qed
qed

lemma name_value_eq:
  assumes "i < 15" and "10 \<le> length d"
  shows "unat (name_value d i) = prefix75 d div 32 ^ (14 - i) mod 32"
proof (rule bit_eqI)
  fix j :: nat
  have "prefix75 d div 32 ^ (14 - i) mod 32 = take_bit 5 (drop_bit (5 * (14 - i)) (drop_bit 5 (be_val (take 10 d))))"
    by (simp add: prefix75_def take_bit_eq_mod drop_bit_eq_div power_mult)
  moreover have "j < 5 \<Longrightarrow> j + (5 * (14 - i) + 5) = 79 - (i * 5 + 4 - j)"
    using assms(1) by linarith
  moreover have "\<not> j < 5 \<Longrightarrow> \<not> bit (name_value d i) j"
    by (auto simp: name_value_def Let_def bit_simps dest: bit_imp_le_length)
  ultimately show "bit (unat (name_value d i)) j \<longleftrightarrow> bit (prefix75 d div 32 ^ (14 - i) mod 32) j"
    using bit_name_value [OF assms, of j]
    by (cases "j < 5") (simp_all add: bit_take_bit_iff bit_drop_bit_eq bit_unsigned_iff ac_simps)
qed

text \<open>
  The reference definition: the 75-bit prefix of the digest written as a 15-digit base-32
  numeral, most significant digit first.
\<close>

definition base32_numeral :: "nat \<Rightarrow> str" where
  "base32_numeral n = map (\<lambda>i. ALPHABET ! (n div 32 ^ (14 - i) mod 32)) [0..<15]"

lemma record_name_base32:
  "10 \<le> length (sha256 k) \<Longrightarrow> record_name sha256 k = base32_numeral (prefix75 (sha256 k))"
  by (simp add: record_name_def base32_numeral_def name_value_eq)

lemma length_record_name [simp]: "length (record_name sha256 k) = 15"
  by (simp add: record_name_def)

lemma ALPHABET_inject:
  assumes "a < 32" and "b < 32" and "ALPHABET ! a = ALPHABET ! b" shows "a = b"
proof -
  have "distinct ALPHABET" and "length ALPHABET = 32" by (simp_all add: ALPHABET_def)
  with assms show ?thesis by (simp add: nth_eq_iff_index_eq)
qed

lemma digits_inject:
  fixes m n :: nat
  assumes "m < 32 ^ k" and "n < 32 ^ k" and "\<And>i. i < k \<Longrightarrow> m div 32 ^ i mod 32 = n div 32 ^ i mod 32"
  shows "m = n"
  using assms
proof (induction k arbitrary: m n)
  case 0
  then show ?case by simp
next
  case (Suc k)
  have "m div 32 = n div 32"
  proof (rule Suc.IH)
    show "m div 32 < 32 ^ k" and "n div 32 < 32 ^ k"
      using Suc.prems by (simp_all add: div_less_iff_less_mult mult.commute)
    show "m div 32 div 32 ^ i mod 32 = n div 32 div 32 ^ i mod 32" if "i < k" for i
      using Suc.prems(3) [of "Suc i"] that by (simp add: div_mult2_eq)
  qed
  moreover have "m mod 32 = n mod 32" using Suc.prems(3) [of 0] by simp
  ultimately show ?case by (metis div_mult_mod_eq)
qed

lemma base32_numeral_inject:
  assumes "m < 32 ^ 15" and "n < 32 ^ 15" and "base32_numeral m = base32_numeral n"
  shows "m = n"
proof (rule digits_inject [OF assms(1,2)])
  fix i :: nat
  assume "i < 15"
  then have "14 - i < 15" and "14 - (14 - i) = i" by simp_all
  from arg_cong [OF assms(3), of "\<lambda>xs. xs ! (14 - i)"] this
  have "ALPHABET ! (m div 32 ^ i mod 32) = ALPHABET ! (n div 32 ^ i mod 32)"
    by (simp add: base32_numeral_def)
  then show "m div 32 ^ i mod 32 = n div 32 ^ i mod 32"
    by (rule ALPHABET_inject [rotated 2]) simp_all
qed

section \<open>Properties\<close>

text \<open>C8: the record codec is a bijection between what it encodes and what it decodes:
  \<open>encode_record\<close> produces the bytes \<open>rec\<close> for a key and a value exactly when
  \<open>decode_record\<close> reads that key and that value back from \<open>rec\<close>, the total length fits
  \<open>usize\<close> and the allocation succeeds. So every stored record reads back unchanged, and no
  two byte strings decode to the same pair.\<close>

theorem record_codec_bijection:
  "encode_record reserve k v = Inr rec \<longleftrightarrow>
     decode_record rec = Inr (k, v) \<and> length rec < usize_limit \<and> reserve (length rec)"
proof
  assume e: "encode_record reserve k v = Inr rec"
  then have "length rec = RECORD_HEADER_LEN + length k + length v" by (rule encode_record_length)
  with e show "decode_record rec = Inr (k, v) \<and> length rec < usize_limit \<and> reserve (length rec)"
    by (auto simp: encode_record_Inr_iff decode_record_layout add.assoc)
next
  assume d: "decode_record rec = Inr (k, v) \<and> length rec < usize_limit \<and> reserve (length rec)"
  then have "decode_record rec = Inr (k, v)" by simp
  note l = decode_record_InrD [OF this]
  from l(2) have "length rec = RECORD_HEADER_LEN + length k + length v"
    by (simp add: RECORD_HEADER_LEN_def)
  with d l show "encode_record reserve k v = Inr rec"
    by (auto simp: encode_record_Inr_iff add.assoc)
qed

text \<open>The bit-slicing loop of \<open>record_name\<close> writes the first 75 bits of the digest as a
  15-digit base-32 numeral, and two logical keys get the same physical name exactly when
  their digests agree on those 75 bits; the name fits the 15 characters NVS allows and holds
  no NUL.\<close>

lemma record_name_numeral:
  assumes "\<And>k. length (sha256 k) = 32"
  shows "record_name sha256 a = base32_numeral (prefix75 (sha256 a)) \<and>
         (record_name sha256 a = record_name sha256 b \<longleftrightarrow> prefix75 (sha256 a) = prefix75 (sha256 b)) \<and>
         length (record_name sha256 a) = 15 \<and> CHR 0x00 \<notin> set (record_name sha256 a)"
proof -
  have n: "record_name sha256 k = base32_numeral (prefix75 (sha256 k))" for k
    by (rule record_name_base32) (simp add: assms)
  have "CHR 0x00 \<notin> set (base32_numeral m)" for m
  proof -
    have "CHR 0x00 \<notin> set ALPHABET" "length ALPHABET = 32" by (simp_all add: ALPHABET_def)
    then have "ALPHABET ! (i mod 32) \<noteq> CHR 0x00" for i by (metis mod_less_divisor nth_mem zero_less_numeral)
    then show ?thesis by (auto simp: base32_numeral_def dest: sym)
  qed
  then show ?thesis
    using n length_record_name [of sha256 a] base32_numeral_inject [OF prefix75_bound prefix75_bound]
    by auto
qed

end
