(* ===== verification/Session_Slots.thy ===== *)
theory Session_Slots
  imports Esp_Prelude
begin

text \<open>
  \<open>src/storage/session_slots.rs\<close>: the bounded memory of NVS session slots that were read
  and validated in this process, as a queue of (physical name, logical key) pairs with the
  most recently remembered at the back. The locale \<open>slot_cache\<close> is the interface the flash
  layer relies on: what is remembered may be forgotten at any time, but never altered.
\<close>

type_synonym session_slots = "(str \<times> bytes) list"

text \<open>\<open>SessionSlots::default\<close>, \<open>matches\<close>, \<open>remember\<close> and \<open>clear\<close>.\<close>

definition slots_default :: session_slots where
  "slots_default = []"

definition slots_matches :: "session_slots \<Rightarrow> str \<Rightarrow> bytes \<Rightarrow> bool option" where
  "slots_matches slots name key =
     map_option (\<lambda>(_, stored_key). stored_key = key) (find (\<lambda>(stored, _). stored = name) slots)"

text \<open>
  \<open>iter().position(p)\<close> followed by \<open>VecDeque::remove\<close>: drop the first element that
  satisfies the predicate, if there is one.
\<close>

fun remove_first :: "('a \<Rightarrow> bool) \<Rightarrow> 'a list \<Rightarrow> 'a list" where
  "remove_first p [] = []"
| "remove_first p (x # xs) = (if p x then xs else x # remove_first p xs)"

definition slots_remember :: "session_slots \<Rightarrow> str \<Rightarrow> bytes \<Rightarrow> session_slots" where
  "slots_remember slots name key =
     (let slots = remove_first (\<lambda>(stored, _). stored = name) slots;
          slots = (if length slots = 8 then tl slots else slots)
      in slots @ [(name, key)])"

definition slots_clear :: "session_slots \<Rightarrow> session_slots" where
  "slots_clear slots = []"

section \<open>Lists without their first match\<close>

lemma set_remove_first_subset: "set (remove_first p xs) \<subseteq> set xs"
  by (induction xs) auto

lemma length_remove_first_le: "length (remove_first p xs) \<le> length xs"
  by (induction xs) auto

lemma remove_first_eq_remove1: "remove_first (\<lambda>x. x = a) xs = remove1 a xs"
  by (induction xs) auto

lemma distinct_map_remove_first: "distinct (map f xs) \<Longrightarrow> distinct (map f (remove_first p xs))"
  by (induction xs) (use set_remove_first_subset in fastforce)+

lemma remove_first_key:
  "distinct (map fst xs) \<Longrightarrow> a \<notin> fst ` set (remove_first (\<lambda>(b, _). b = a) xs)"
  by (induction xs) (auto simp: image_iff)

lemma map_of_append_self: "a \<notin> fst ` set xs \<Longrightarrow> map_of (xs @ [(a, v)]) a = Some v"
  by (induction xs) auto

lemma remove_first_other:
  "b \<noteq> a \<Longrightarrow> map_of (remove_first (\<lambda>(c, _). c = a) xs) b = map_of xs b"
  by (induction xs) auto

lemma map_of_append_other: "k \<noteq> a \<Longrightarrow> map_of (xs @ [(a, v)]) k = map_of xs k"
  by (simp add: map_add_def split: option.splits)

lemma set_tl_subset: "set (tl xs) \<subseteq> set xs"
  by (cases xs) auto

section \<open>The interface\<close>

locale slot_cache =
  fixes matches :: "'c \<Rightarrow> 'n \<Rightarrow> 'k \<Rightarrow> bool option"
    and remember :: "'c \<Rightarrow> 'n \<Rightarrow> 'k \<Rightarrow> 'c"
    and clear :: "'c \<Rightarrow> 'c"
    and stored :: "'c \<Rightarrow> 'n \<Rightarrow> 'k option"
    and invar :: "'c \<Rightarrow> bool"
  assumes matches_stored: "matches c n k = map_option (\<lambda>k'. k' = k) (stored c n)"
    and stored_remember: "invar c \<Longrightarrow> stored (remember c n k) n = Some k"
    and stored_remember_other:
      "invar c \<Longrightarrow> n' \<noteq> n \<Longrightarrow> stored (remember c n k) n' = Some k' \<Longrightarrow> stored c n' = Some k'"
    and stored_clear: "stored (clear c) n = None"
    and invar_remember: "invar c \<Longrightarrow> invar (remember c n k)"
    and invar_clear: "invar (clear c)"
begin

text \<open>
  The cache is sound for a table of owners when every slot it remembers is owned, in that
  table, by the key it remembers. Soundness is what lets a write skip the flash read.
\<close>

definition sound_for :: "('n \<Rightarrow> 'k option) \<Rightarrow> 'c \<Rightarrow> bool" where
  "sound_for owner c \<longleftrightarrow> invar c \<and> (\<forall>n k. stored c n = Some k \<longrightarrow> owner n = Some k)"

lemma sound_clear: "sound_for owner (clear c)"
  by (simp add: sound_for_def stored_clear invar_clear)

lemma sound_remember:
  assumes "sound_for owner c" and "owner n = Some k"
  shows "sound_for owner (remember c n k)"
proof -
  from assms(1) have inv: "invar c" and own: "\<And>m l. stored c m = Some l \<Longrightarrow> owner m = Some l"
    by (auto simp: sound_for_def)
  have "owner m = Some l" if "stored (remember c n k) m = Some l" for m l
    using that own stored_remember_other [OF inv] stored_remember [OF inv] assms(2)
    by (cases "m = n") auto
  then show ?thesis using inv by (simp add: sound_for_def invar_remember)
qed

lemma sound_mono:
  "sound_for owner c \<Longrightarrow> (\<And>n k. owner n = Some k \<Longrightarrow> owner' n = Some k) \<Longrightarrow> sound_for owner' c"
  by (auto simp: sound_for_def)

lemma sound_matches:
  assumes "sound_for owner c" and "matches c n k = Some b"
  shows "\<exists>k'. owner n = Some k' \<and> b = (k' = k)"
  using assms by (auto simp: sound_for_def matches_stored)

end

section \<open>The queue implements it\<close>

definition slots_stored :: "session_slots \<Rightarrow> str \<Rightarrow> bytes option" where
  "slots_stored slots = map_of slots"

definition slots_ok :: "session_slots \<Rightarrow> bool" where
  "slots_ok slots \<longleftrightarrow> distinct (map fst slots) \<and> length slots \<le> 8"

lemma find_fst_map_of: "map_option snd (find (\<lambda>(a, _). a = n) xs) = map_of xs n"
  by (induction xs) auto

lemma map_of_tl:
  "distinct (map fst xs) \<Longrightarrow> map_of (tl xs) n = Some k \<Longrightarrow> map_of xs n = Some k"
  by (cases xs) (auto dest: map_of_SomeD split: if_splits intro: rev_image_eqI)

lemma slots_remember_props:
  assumes "slots_ok c"
  shows slots_ok_remember: "slots_ok (slots_remember c n k)"
    and slots_stored_remember: "slots_stored (slots_remember c n k) n = Some k"
    and slots_stored_remember_other:
      "m \<noteq> n \<Longrightarrow> slots_stored (slots_remember c n k) m = Some l \<Longrightarrow> slots_stored c m = Some l"
proof -
  let ?r = "remove_first (\<lambda>(stored, _). stored = n) c"
  let ?t = "if length ?r = 8 then tl ?r else ?r"
  have d: "distinct (map fst ?r)" and n: "n \<notin> fst ` set ?r" and len: "length ?r \<le> 8"
    using assms length_remove_first_le [of "\<lambda>(s, _). s = n" c]
    by (auto simp: slots_ok_def distinct_map_remove_first remove_first_key)
  have dt: "distinct (map fst ?t)" and nt: "n \<notin> fst ` set ?t" and lent: "length ?t \<le> 7"
    using d n len set_tl_subset [of ?r] by (auto simp: map_tl distinct_tl image_iff)
  have eq: "slots_remember c n k = ?t @ [(n, k)]"
    by (simp add: slots_remember_def)
  show "slots_ok (slots_remember c n k)"
    unfolding eq slots_ok_def using dt nt lent by auto
  show "slots_stored (slots_remember c n k) n = Some k"
    unfolding eq slots_stored_def by (rule map_of_append_self [OF nt])
  show "slots_stored c m = Some l"
    if "m \<noteq> n" and "slots_stored (slots_remember c n k) m = Some l"
  proof -
    from that have "map_of ?t m = Some l"
      unfolding eq slots_stored_def using map_of_append_other [of m n ?t k] by simp
    then have "map_of ?r m = Some l" using map_of_tl [OF d] by (auto split: if_splits)
    with that show ?thesis by (simp add: slots_stored_def remove_first_other)
  qed
qed

interpretation slots: slot_cache slots_matches slots_remember slots_clear slots_stored slots_ok
proof unfold_locales
  show "slots_matches c n k = map_option (\<lambda>k'. k' = k) (slots_stored c n)" for c n k
    unfolding slots_matches_def slots_stored_def find_fst_map_of [symmetric]
    by (simp add: option.map_comp comp_def case_prod_unfold)
qed (erule slots_stored_remember slots_ok_remember slots_stored_remember_other; assumption
    | simp add: slots_stored_def slots_clear_def slots_ok_def)+

lemma slots_default_ok [simp]: "slots_ok slots_default" "slots_stored slots_default n = None"
  by (simp_all add: slots_default_def slots_ok_def slots_stored_def)

end
