(* ===== verification/Nvs_Flash.thy ===== *)
theory Nvs_Flash
  imports Record_Codec Session_Slots
begin

text \<open>
  The flash layer of \<open>src/storage.rs\<close>: the blob helpers (\<open>set_blob\<close>, \<open>read_blob\<close>,
  \<open>erase_namespace\<close>, ...) and the methods of \<open>FlashNamespaces\<close>, over the ESP-IDF NVS
  driver. The driver is not part of the repository, so it is a parameter: the record
  \<open>nvs_api\<close> of the calls the source makes, over an environment state \<open>'n\<close> that also
  decides every failure. What the code relies on is the locale \<open>nvs_driver\<close> of the theory
  \<open>Nvs_Driver\<close>.
\<close>

section \<open>Namespaces\<close>

text \<open>The fields of \<open>FlashNamespaces\<close>, and the NVS namespace each is opened on.\<close>

datatype ns =
    Control | Device | Identities | Sessions | Prekeys | Signed_Prekeys | Sender_Keys | Sync_Keys

fun ns_name :: "ns \<Rightarrow> str" where
  "ns_name Control = ''control''"
| "ns_name Device = ''device''"
| "ns_name Identities = ''identity''"
| "ns_name Sessions = ''session''"
| "ns_name Prekeys = ''prekey''"
| "ns_name Signed_Prekeys = ''signedpre''"
| "ns_name Sender_Keys = ''senderkey''"
| "ns_name Sync_Keys = ''synckey''"

section \<open>The driver interface\<close>

text \<open>
  \<open>nvs_get_blob ns name n\<close> reads into a buffer of \<open>n\<close> bytes and returns the bytes it
  filled; \<open>nvs_keys\<close> is the iteration of \<open>keys(Some(NvsDataType::Blob))\<close> to its end;
  \<open>heap_has\<close> says whether \<open>try_reserve_exact\<close> succeeds in the current environment.
\<close>

record 'n nvs_api =
  nvs_blob_len :: "ns \<Rightarrow> str \<Rightarrow> ('n, esp_err, nat option) io"
  nvs_get_blob :: "ns \<Rightarrow> str \<Rightarrow> nat \<Rightarrow> ('n, esp_err, bytes option) io"
  nvs_set_blob :: "ns \<Rightarrow> str \<Rightarrow> bytes \<Rightarrow> ('n, esp_err, unit) io"
  nvs_commit :: "ns \<Rightarrow> ('n, esp_err, unit) io"
  nvs_remove :: "ns \<Rightarrow> str \<Rightarrow> ('n, esp_err, bool) io"
  nvs_erase_all :: "ns \<Rightarrow> ('n, esp_err, unit) io"
  nvs_keys :: "ns \<Rightarrow> ('n, esp_err, str list) io"
  heap_has :: "'n \<Rightarrow> nat \<Rightarrow> bool"

text \<open>\<open>nvs_error\<close> wraps an ESP error code; here it is the constructor.\<close>

definition nvs_error :: "esp_err \<Rightarrow> store_error" where
  "nvs_error error = NvsError error"

definition commit :: "'n nvs_api \<Rightarrow> ns \<Rightarrow> ('n, store_error, unit) io" where
  "commit api ns = map_errE nvs_error (nvs_commit api ns)"

definition set_blob :: "'n nvs_api \<Rightarrow> ns \<Rightarrow> str \<Rightarrow> bytes \<Rightarrow> ('n, store_error, unit) io" where
  "set_blob api ns name value =
     (if CHR 0x00 \<in> set name then throwE (Validation (InvalidRecordName name))
      else bindE (map_errE nvs_error (nvs_set_blob api ns name value)) (\<lambda>_. commit api ns))"

definition remove_blob :: "'n nvs_api \<Rightarrow> ns \<Rightarrow> str \<Rightarrow> ('n, store_error, unit) io" where
  "remove_blob api ns name =
     bindE (map_errE nvs_error (nvs_blob_len api ns name)) (\<lambda>len.
     if len = None then retE ()
     else bindE (map_errE nvs_error (nvs_remove api ns name)) (\<lambda>_. commit api ns))"

text \<open>Both iterate the namespace's blob keys; an error opening the iterator is returned.\<close>

definition record_names :: "'n nvs_api \<Rightarrow> ns \<Rightarrow> ('n, store_error, str list) io" where
  "record_names api ns = map_errE nvs_error (nvs_keys api ns)"

definition record_count :: "'n nvs_api \<Rightarrow> ns \<Rightarrow> ('n, store_error, nat) io" where
  "record_count api ns =
     bindE (map_errE nvs_error (nvs_keys api ns)) (\<lambda>names. retE (length names))"

text \<open>
  The loop of \<open>erase_namespace\<close>: \<open>n\<close> attempts are left and \<open>last_error\<close> is what the
  previous one reported. An attempt succeeds only if the erase did and the verification
  walk found the namespace empty.
\<close>

fun erase_attempts ::
  "'n nvs_api \<Rightarrow> ns \<Rightarrow> str \<Rightarrow> nat \<Rightarrow> erase_failure option \<Rightarrow> ('n, store_error, unit) io" where
  "erase_attempts api ns label 0 last_error = throwE (EraseFailed label last_error)"
| "erase_attempts api ns label (Suc n) last_error = (\<lambda>s.
     case map_errE nvs_error (nvs_erase_all api ns) s of
       (Inl error, s') \<Rightarrow> erase_attempts api ns label n (Some (EraseError error)) s'
     | (Inr _, s') \<Rightarrow>
         (case record_names api ns s' of
            (Inl error, s'') \<Rightarrow> erase_attempts api ns label n (Some (EraseError error)) s''
          | (Inr names, s'') \<Rightarrow>
              if names = [] then (Inr (), s'')
              else erase_attempts api ns label n (Some (RemainingRecords (length names))) s''))"

definition erase_namespace :: "'n nvs_api \<Rightarrow> ns \<Rightarrow> str \<Rightarrow> ('n, store_error, unit) io" where
  "erase_namespace api ns label = erase_attempts api ns label 3 None"

definition read_blob :: "'n nvs_api \<Rightarrow> ns \<Rightarrow> str \<Rightarrow> nat \<Rightarrow> ('n, store_error, bytes option) io" where
  "read_blob api ns name max_len =
     bindE (map_errE nvs_error (nvs_blob_len api ns name)) (\<lambda>r.
     case r of
       None \<Rightarrow> retE None
     | Some len \<Rightarrow>
         bindE (failE_if (len > max_len) (Validation (BlobTooLarge name len))) (\<lambda>_.
         bindE (\<lambda>n. (if heap_has api n len then Inr () else Inl OutOfMemory, n)) (\<lambda>_.
         bindE (map_errE nvs_error (nvs_get_blob api ns name len)) (\<lambda>data.
         case data of
           None \<Rightarrow> throwE (Validation (BlobDisappeared name))
         | Some bs \<Rightarrow> retE (Some bs)))))"

text \<open>\<open>encode_record\<close> with the allocation answered by the environment.\<close>

definition encode_recordE :: "'n nvs_api \<Rightarrow> bytes \<Rightarrow> bytes \<Rightarrow> ('n, store_error, bytes) io" where
  "encode_recordE api key value = (\<lambda>n. (encode_record (heap_has api n) key value, n))"

text \<open>
  \<open>namespace_addresses\<close>: the decoded logical keys of every record, one read at a time. A
  record that vanished between the walk and the read is skipped.
\<close>

fun addresses_of :: "'n nvs_api \<Rightarrow> ns \<Rightarrow> str \<Rightarrow> str list \<Rightarrow> ('n, store_error, str list) io" where
  "addresses_of api ns label [] = retE []"
| "addresses_of api ns label (name # names) =
     bindE (read_blob api ns name
              (RECORD_HEADER_LEN + MAX_LOGICAL_KEY_LEN + MAX_SIGNAL_RECORD_LEN)) (\<lambda>r.
     case r of
       None \<Rightarrow> addresses_of api ns label names
     | Some rec \<Rightarrow>
         bindE (liftE (decode_record rec)) (\<lambda>(key, _).
         case from_utf8 key of
           None \<Rightarrow> throwE (Validation (InvalidStringKey label))
         | Some address \<Rightarrow>
             bindE (addresses_of api ns label names) (\<lambda>rest. retE (address # rest))))"

definition namespace_addresses :: "'n nvs_api \<Rightarrow> ns \<Rightarrow> str \<Rightarrow> ('n, store_error, str list) io" where
  "namespace_addresses api ns label = bindE (record_names api ns) (addresses_of api ns label)"

section \<open>\<open>FlashNamespaces\<close>\<close>

text \<open>
  The state the \<open>wa-nvs\<close> worker owns: the open driver and the validated session slots.
  The device and the sync keys are JSON (\<open>serde_json\<close>), the digest is the \<open>sha2\<close> crate:
  both are parameters, collected with the driver and the board's memory in \<open>platform\<close>.
\<close>

record 'n flash_namespaces =
  driver :: 'n
  validated_sessions :: session_slots

record ('n, 'd, 'k) platform =
  nvs :: "'n nvs_api"
  sha256 :: "bytes \<Rightarrow> bytes"
  device_to_json :: "'d \<Rightarrow> bytes option"
  device_from_json :: "bytes \<Rightarrow> 'd option"
  sync_key_to_json :: "'k \<Rightarrow> bytes option"
  sync_key_from_json :: "bytes \<Rightarrow> 'k option"
  sync_key_timestamp :: "'k \<Rightarrow> int"
  has_psram :: bool

type_synonym ('n, 'a) flash_io = "('n flash_namespaces, store_error, 'a) io"

text \<open>Run a blob helper on the driver the namespaces hold.\<close>

definition on_driver :: "('n, 'e, 'a) io \<Rightarrow> ('n flash_namespaces, 'e, 'a) io" where
  "on_driver m = (\<lambda>s. case m (driver s) of (r, n) \<Rightarrow> (r, s\<lparr>driver := n\<rparr>))"

definition remember_session_slot :: "ns \<Rightarrow> str \<Rightarrow> bytes \<Rightarrow> ('n, unit) flash_io" where
  "remember_session_slot ns name key =
     (if ns \<noteq> Sessions then retE ()
      else modifyE (\<lambda>s. s\<lparr>validated_sessions := slots_remember (validated_sessions s) name key\<rparr>))"

definition clear_session_slots :: "('n, unit) flash_io" where
  "clear_session_slots =
     modifyE (\<lambda>s. s\<lparr>validated_sessions := slots_clear (validated_sessions s)\<rparr>)"

definition load_device :: "('n, 'd, 'k) platform \<Rightarrow> ('n, 'd option) flash_io" where
  "load_device p =
     bindE (on_driver (read_blob (nvs p) Device ''current''
              (RECORD_HEADER_LEN + length (as_bytes ''device'') + MAX_DEVICE_LEN))) (\<lambda>r.
     case r of
       None \<Rightarrow> retE None
     | Some rec \<Rightarrow>
         bindE (liftE (decode_record rec)) (\<lambda>(logical_key, payload).
         bindE (failE_if (logical_key \<noteq> as_bytes ''device'') (Validation DeviceWrongKey)) (\<lambda>_.
         case device_from_json p payload of
           None \<Rightarrow> throwE Serialization
         | Some device \<Rightarrow> retE (Some device))))"

definition save_device :: "('n, 'd, 'k) platform \<Rightarrow> 'd \<Rightarrow> ('n, unit) flash_io" where
  "save_device p device =
     (case device_to_json p device of
        None \<Rightarrow> throwE Serialization
      | Some payload \<Rightarrow>
          bindE (failE_if (length payload > MAX_DEVICE_LEN)
                   (Validation (DeviceTooLarge (length payload)))) (\<lambda>_.
          bindE (on_driver (encode_recordE (nvs p) (as_bytes ''device'') payload)) (\<lambda>rec.
          on_driver (set_blob (nvs p) Device ''current'' rec))))"

text \<open>One record of the startup walk: read, decode, and check name and size.\<close>

definition load_named ::
  "('n, 'd, 'k) platform \<Rightarrow> ns \<Rightarrow> str \<Rightarrow> nat \<Rightarrow> str \<Rightarrow> ('n, bytes \<times> bytes) flash_io" where
  "load_named p ns label max_value_len name =
     bindE (on_driver (read_blob (nvs p) ns name
              (RECORD_HEADER_LEN + MAX_LOGICAL_KEY_LEN + max_value_len))) (\<lambda>r.
     case r of
       None \<Rightarrow> throwE (Validation (RecordDisappeared label name))
     | Some rec \<Rightarrow>
         bindE (liftE (decode_record rec)) (\<lambda>(logical_key, value).
         bindE (failE_if (record_name (sha256 p) logical_key \<noteq> name)
                  (Validation (MismatchedKey label name))) (\<lambda>_.
         bindE (failE_if (length value > max_value_len)
                  (Validation (NamedRecordTooLarge label name (length value)))) (\<lambda>_.
         retE (logical_key, value)))))"

fun load_all ::
  "('n, 'd, 'k) platform \<Rightarrow> ns \<Rightarrow> str \<Rightarrow> nat \<Rightarrow> str list \<Rightarrow> ('n, (bytes \<times> bytes) list) flash_io" where
  "load_all p ns label max_value_len [] = retE []"
| "load_all p ns label max_value_len (name # names) =
     bindE (load_named p ns label max_value_len name) (\<lambda>kv.
     bindE (load_all p ns label max_value_len names) (\<lambda>rest. retE (kv # rest)))"

definition load_records ::
  "('n, 'd, 'k) platform \<Rightarrow> ns \<Rightarrow> str \<Rightarrow> nat \<Rightarrow> nat \<Rightarrow> ('n, (bytes \<times> bytes) list) flash_io" where
  "load_records p ns label max_entries max_value_len =
     bindE (on_driver (record_names (nvs p) ns)) (\<lambda>names.
     bindE (failE_if (length names > max_entries)
              (Validation (TooManyRecords label (length names) max_entries))) (\<lambda>_.
     load_all p ns label max_value_len names))"

definition load_record ::
  "('n, 'd, 'k) platform \<Rightarrow> ns \<Rightarrow> bytes \<Rightarrow> nat \<Rightarrow> ('n, bytes option) flash_io" where
  "load_record p ns logical_key max_value_len =
     (let name = record_name (sha256 p) logical_key in
      bindE (on_driver (read_blob (nvs p) ns name
               (RECORD_HEADER_LEN + MAX_LOGICAL_KEY_LEN + max_value_len))) (\<lambda>r.
      case r of
        None \<Rightarrow> retE None
      | Some rec \<Rightarrow>
          bindE (liftE (decode_record rec)) (\<lambda>(stored_key, value).
          if stored_key \<noteq> logical_key then retE None
          else
            bindE (failE_if (length value > max_value_len)
                     (Validation (LoadedTooLarge name (length value)))) (\<lambda>_.
            bindE (remember_session_slot ns name logical_key) (\<lambda>_.
            retE (Some (take (length value) (drop (length rec - length value) rec))))))))"

definition load_sync_key :: "('n, 'd, 'k) platform \<Rightarrow> bytes \<Rightarrow> ('n, 'k option) flash_io" where
  "load_sync_key p key_id =
     bindE (load_record p Sync_Keys key_id MAX_SIGNAL_RECORD_LEN) (\<lambda>r.
     case r of
       None \<Rightarrow> retE None
     | Some value \<Rightarrow>
         (case sync_key_from_json p value of
            None \<Rightarrow> throwE Serialization
          | Some key \<Rightarrow> retE (Some key)))"

definition check_record_slot ::
  "('n, 'd, 'k) platform \<Rightarrow> ns \<Rightarrow> bytes \<Rightarrow> nat \<Rightarrow> str \<Rightarrow> nat \<Rightarrow> ('n, str) flash_io" where
  "check_record_slot p ns logical_key value_len label max_entries =
     bindE (failE_if (value_len > MAX_SIGNAL_RECORD_LEN)
              (Validation (LabelRecordTooLarge label value_len))) (\<lambda>_.
     bindE (failE_if (length logical_key > MAX_LOGICAL_KEY_LEN)
              (Validation (KeyTooLong (length logical_key)))) (\<lambda>_.
     let name = record_name (sha256 p) logical_key in
     bindE (getE (\<lambda>s. if ns = Sessions
                       then slots_matches (validated_sessions s) name logical_key
                       else None)) (\<lambda>cached.
     case cached of
       Some matches \<Rightarrow>
         if \<not> matches then throwE (Validation (KeyCollision label name)) else retE name
     | None \<Rightarrow>
         bindE (on_driver (read_blob (nvs p) ns name
                  (RECORD_HEADER_LEN + MAX_LOGICAL_KEY_LEN + MAX_SIGNAL_RECORD_LEN))) (\<lambda>existing.
         case existing of
           Some rec \<Rightarrow>
             bindE (liftE (decode_record rec)) (\<lambda>(stored_key, _).
             if stored_key \<noteq> logical_key then throwE (Validation (KeyCollision label name))
             else bindE (remember_session_slot ns name logical_key) (\<lambda>_. retE name))
         | None \<Rightarrow>
             bindE (on_driver (record_count (nvs p) ns)) (\<lambda>count.
             bindE (liftE (ensure_insert_capacity False count max_entries label)) (\<lambda>_.
             retE name))))))"

definition prepare_record ::
  "('n, 'd, 'k) platform \<Rightarrow> ns \<Rightarrow> bytes \<Rightarrow> bytes \<Rightarrow> str \<Rightarrow> nat \<Rightarrow> ('n, str \<times> bytes) flash_io" where
  "prepare_record p ns logical_key value label max_entries =
     bindE (check_record_slot p ns logical_key (length value) label max_entries) (\<lambda>name.
     bindE (on_driver (encode_recordE (nvs p) logical_key value)) (\<lambda>rec. retE (name, rec)))"

definition put_record ::
  "('n, 'd, 'k) platform \<Rightarrow> ns \<Rightarrow> bytes \<Rightarrow> bytes \<Rightarrow> str \<Rightarrow> nat \<Rightarrow> ('n, unit) flash_io" where
  "put_record p ns logical_key value label max_entries =
     bindE (prepare_record p ns logical_key value label max_entries) (\<lambda>(name, rec).
     on_driver (set_blob (nvs p) ns name rec))"

definition delete_record ::
  "('n, 'd, 'k) platform \<Rightarrow> ns \<Rightarrow> bytes \<Rightarrow> str \<Rightarrow> ('n, unit) flash_io" where
  "delete_record p ns logical_key label =
     bindE (if ns = Sessions then clear_session_slots else retE ()) (\<lambda>_.
     let name = record_name (sha256 p) logical_key in
     bindE (on_driver (read_blob (nvs p) ns name
              (RECORD_HEADER_LEN + MAX_LOGICAL_KEY_LEN + MAX_SIGNAL_RECORD_LEN))) (\<lambda>existing.
     case existing of
       None \<Rightarrow> retE ()
     | Some rec \<Rightarrow>
         bindE (liftE (decode_record rec)) (\<lambda>(stored_key, _).
         if stored_key \<noteq> logical_key then throwE (Validation (KeyCollision label name))
         else
           bindE (on_driver (map_errE nvs_error (nvs_remove (nvs p) ns name))) (\<lambda>_.
           on_driver (commit (nvs p) ns)))))"

fun any_records :: "('n, 'd, 'k) platform \<Rightarrow> ns list \<Rightarrow> ('n, bool) flash_io" where
  "any_records p [] = retE False"
| "any_records p (ns # rest) =
     bindE (on_driver (record_names (nvs p) ns)) (\<lambda>names.
     if names \<noteq> [] then retE True else any_records p rest)"

definition has_signal_records :: "('n, 'd, 'k) platform \<Rightarrow> ('n, bool) flash_io" where
  "has_signal_records p =
     any_records p [Identities, Sessions, Prekeys, Signed_Prekeys, Sender_Keys, Sync_Keys]"

definition erase_signal :: "('n, 'd, 'k) platform \<Rightarrow> ('n, unit) flash_io" where
  "erase_signal p =
     bindE clear_session_slots (\<lambda>_.
     bindE (on_driver (remove_blob (nvs p) Control ''latestsync'')) (\<lambda>_.
     bindE (on_driver (erase_namespace (nvs p) Identities ''identity'')) (\<lambda>_.
     bindE (on_driver (erase_namespace (nvs p) Sessions ''session'')) (\<lambda>_.
     bindE (on_driver (erase_namespace (nvs p) Prekeys ''prekey'')) (\<lambda>_.
     bindE (on_driver (erase_namespace (nvs p) Signed_Prekeys ''signed prekey'')) (\<lambda>_.
     bindE (on_driver (erase_namespace (nvs p) Sender_Keys ''sender key'')) (\<lambda>_.
     bindE (on_driver (erase_namespace (nvs p) Sync_Keys ''sync key'')) (\<lambda>_.
     retE ()))))))))"

definition erase_all :: "('n, 'd, 'k) platform \<Rightarrow> ('n, unit) flash_io" where
  "erase_all p =
     bindE (on_driver (erase_namespace (nvs p) Device ''device'')) (\<lambda>_. erase_signal p)"

definition load_latest_sync_key_id :: "('n, 'd, 'k) platform \<Rightarrow> ('n, bytes option) flash_io" where
  "load_latest_sync_key_id p =
     bindE (on_driver (read_blob (nvs p) Control ''latestsync''
              (RECORD_HEADER_LEN + length (as_bytes ''latestsync'') + MAX_LOGICAL_KEY_LEN))) (\<lambda>r.
     case r of
       None \<Rightarrow> retE None
     | Some rec \<Rightarrow>
         bindE (liftE (decode_record rec)) (\<lambda>(logical_key, payload).
         bindE (failE_if (logical_key \<noteq> as_bytes ''latestsync'') (Validation LatestWrongKey)) (\<lambda>_.
         retE (Some payload))))"

definition save_latest_sync_key_id ::
  "('n, 'd, 'k) platform \<Rightarrow> bytes \<Rightarrow> ('n, unit) flash_io" where
  "save_latest_sync_key_id p key_id =
     bindE (failE_if (length key_id > MAX_LOGICAL_KEY_LEN)
              (Validation (SyncKeyIdTooLong (length key_id)))) (\<lambda>_.
     bindE (on_driver (encode_recordE (nvs p) (as_bytes ''latestsync'') key_id)) (\<lambda>rec.
     on_driver (set_blob (nvs p) Control ''latestsync'' rec)))"

definition reset_pending :: "('n, 'd, 'k) platform \<Rightarrow> ('n, bool) flash_io" where
  "reset_pending p =
     bindE (on_driver (read_blob (nvs p) Control ''reset'' 1)) (\<lambda>r. retE (r \<noteq> None))"

definition complete_reset :: "('n, 'd, 'k) platform \<Rightarrow> ('n, unit) flash_io" where
  "complete_reset p =
     bindE (erase_all p) (\<lambda>_. on_driver (remove_blob (nvs p) Control ''reset''))"

definition reset_all :: "('n, 'd, 'k) platform \<Rightarrow> ('n, unit) flash_io" where
  "reset_all p =
     bindE (on_driver (set_blob (nvs p) Control ''reset'' (as_bytes ''1''))) (\<lambda>_.
     complete_reset p)"

end
