(* ===== verification/Lru_Mirror.thy ===== *)
theory Lru_Mirror
  imports Session_Slots
begin

text \<open>
  \<open>LruOrder\<close> of \<open>src/storage.rs\<close> and the eviction loop of the RAM mirrors. A mirror is a
  hash map with the order of use beside it. The locale \<open>mirror_cache\<close> is what the store
  relies on from a map that shadows a table kept elsewhere and may forget entries; its
  extension \<open>full_mirror\<close> is a map that forgets nothing.
\<close>

section \<open>\<open>LruOrder\<close>\<close>

type_synonym 'k lru_order = "'k list"

definition lru_touched :: "'k lru_order \<Rightarrow> 'k \<Rightarrow> 'k lru_order" where
  "lru_touched order key = remove_first (\<lambda>k. k = key) order @ [key]"

definition lru_removed :: "'k lru_order \<Rightarrow> 'k \<Rightarrow> 'k lru_order" where
  "lru_removed order key = remove_first (\<lambda>k. k = key) order"

definition lru_clear :: "'k lru_order \<Rightarrow> 'k lru_order" where
  "lru_clear order = []"

definition lru_overflow :: "'k lru_order \<Rightarrow> nat \<Rightarrow> nat \<Rightarrow> 'k list" where
  "lru_overflow order len cap = (if len > cap then take (len - cap) order else [])"

text \<open>The loop of the three caps: drop each key from the map and from the order.\<close>

fun evict_keys ::
  "'k list \<Rightarrow> ('k, 'v) hashmap \<times> 'k lru_order \<Rightarrow> ('k, 'v) hashmap \<times> 'k lru_order" where
  "evict_keys [] mo = mo"
| "evict_keys (key # keys) (m, order) = evict_keys keys (fmdrop key m, lru_removed order key)"

section \<open>The invariant of a mirror\<close>

definition mirror_ok :: "('k, 'v) hashmap \<Rightarrow> 'k lru_order \<Rightarrow> bool" where
  "mirror_ok m order \<longleftrightarrow> distinct order \<and> set order = fmdom' m"

lemma lru_removed_remove1 [simp]: "lru_removed order key = remove1 key order"
  by (simp add: lru_removed_def remove_first_eq_remove1)

lemma lru_touched_remove1: "lru_touched order key = remove1 key order @ [key]"
  by (simp add: lru_touched_def remove_first_eq_remove1)

lemma mirror_ok_len: "mirror_ok m order \<Longrightarrow> length order = hm_len m"
  using distinct_card [of order] by (simp add: mirror_ok_def fmdom'_card)

lemma mirror_ok_empty [simp]: "mirror_ok fmempty []"
  by (simp add: mirror_ok_def)

lemma mirror_ok_put: "mirror_ok m order \<Longrightarrow> mirror_ok (fmupd k v m) (lru_touched order k)"
  by (auto simp: mirror_ok_def lru_touched_remove1)

lemma mirror_ok_touch:
  "mirror_ok m order \<Longrightarrow> fmlookup m k = Some v \<Longrightarrow> mirror_ok m (lru_touched order k)"
  using fmdom'I [of m k v] by (auto simp: mirror_ok_def lru_touched_remove1)

lemma mirror_ok_remove: "mirror_ok m order \<Longrightarrow> mirror_ok (fmdrop k m) (lru_removed order k)"
  by (auto simp: mirror_ok_def)

lemma evict_keys_eq:
  "evict_keys ks (m, order) = (fmfilter (\<lambda>k. k \<notin> set ks) m, fold remove1 ks order)"
  by (induction ks arbitrary: m order)
    (auto simp: fmfilter_alt_defs intro!: arg_cong [where f = "\<lambda>f. fmfilter f _"])

lemma fold_remove1_distinct:
  "distinct xs \<Longrightarrow> fold remove1 ks xs = filter (\<lambda>x. x \<notin> set ks) xs"
  by (induction ks arbitrary: xs) (auto simp: distinct_remove1_removeAll removeAll_filter_not_eq conj_commute
      intro: filter_cong)

lemma mirror_ok_evict:
  assumes "mirror_ok m order" and "evict_keys ks (m, order) = (m', order')"
  shows "mirror_ok m' order'" and "order' = filter (\<lambda>x. x \<notin> set ks) order"
    and "fmlookup m' k = (if k \<in> set ks then None else fmlookup m k)"
  using assms by (auto simp: evict_keys_eq mirror_ok_def fold_remove1_distinct)

text \<open>Evicting what \<open>overflow\<close> names keeps the \<open>cap\<close> most recently used entries.\<close>

lemma filter_take_drop:
  "distinct xs \<Longrightarrow> filter (\<lambda>x. x \<notin> set (take n xs)) xs = drop n xs"
proof -
  assume d: "distinct xs"
  then have "set (take n xs) \<inter> set (drop n xs) = {}" by (simp add: set_take_disj_set_drop_if_distinct)
  then have "filter (\<lambda>x. x \<notin> set (take n xs)) (drop n xs) = drop n xs"
    by (intro filter_True) auto
  moreover have "filter (\<lambda>x. x \<notin> set (take n xs)) (take n xs) = []" by (simp add: filter_empty_conv)
  ultimately show ?thesis by (metis append_Nil append_take_drop_id filter_append)
qed

lemma evict_overflow:
  assumes "mirror_ok m order" and "evict_keys (lru_overflow order (hm_len m) cap) (m, order) = (m', order')"
  shows "mirror_ok m' order'" and "hm_len m' = min cap (hm_len m)"
    and "order' = drop (hm_len m - cap) order"
    and "fmlookup m' k = (if k \<in> set order' then fmlookup m k else None)"
proof -
  have d: "distinct order" and len: "length order = hm_len m" and dom: "set order = fmdom' m"
    using assms(1) mirror_ok_len by (auto simp: mirror_ok_def)
  note e = mirror_ok_evict [OF assms]
  show ok: "mirror_ok m' order'" by (rule e(1))
  show o: "order' = drop (hm_len m - cap) order"
    using e(2) d by (cases "hm_len m > cap") (simp_all add: lru_overflow_def filter_take_drop)
  show "hm_len m' = min cap (hm_len m)"
    using mirror_ok_len [OF ok] o len by simp
  have "set order' = set order - set (lru_overflow order (hm_len m) cap)" using e(2) by auto
  moreover have "fmlookup m k = None" if "k \<notin> set order" using that dom by (simp add: fmdom'_notD)
  ultimately show "fmlookup m' k = (if k \<in> set order' then fmlookup m k else None)"
    using e(3) [of k] by auto
qed

section \<open>The interface\<close>

locale mirror_cache =
  fixes get :: "'c \<Rightarrow> 'k \<Rightarrow> 'v option"
    and put :: "'c \<Rightarrow> 'k \<Rightarrow> 'v \<Rightarrow> 'c"
    and del :: "'c \<Rightarrow> 'k \<Rightarrow> 'c"
    and invar :: "'c \<Rightarrow> bool"
  assumes get_put: "invar c \<Longrightarrow> get (put c k v) j = Some w \<Longrightarrow> j = k \<and> w = v \<or> j \<noteq> k \<and> get c j = Some w"
    and get_del: "invar c \<Longrightarrow> get (del c k) j = (if j = k then None else get c j)"
    and invar_put: "invar c \<Longrightarrow> invar (put c k v)"
    and invar_del: "invar c \<Longrightarrow> invar (del c k)"
begin

text \<open>
  The cache never contradicts the table it shadows, except at the keys of \<open>K\<close>: those whose
  last write to the table failed and may or may not have happened.
\<close>

definition coherent :: "'k set \<Rightarrow> 'c \<Rightarrow> ('k \<Rightarrow> 'v option) \<Rightarrow> bool" where
  "coherent K c tbl \<longleftrightarrow> invar c \<and> (\<forall>k v. k \<notin> K \<longrightarrow> get c k = Some v \<longrightarrow> tbl k = Some v)"

text \<open>A read that asks the table only on a miss.\<close>

definition read_through :: "'c \<Rightarrow> ('k \<Rightarrow> 'v option) \<Rightarrow> 'k \<Rightarrow> 'v option" where
  "read_through c tbl k = (case get c k of Some v \<Rightarrow> Some v | None \<Rightarrow> tbl k)"

lemma read_through_coherent: "coherent K c tbl \<Longrightarrow> k \<notin> K \<Longrightarrow> read_through c tbl k = tbl k"
  by (auto simp: coherent_def read_through_def split: option.splits)

lemma coherent_invar: "coherent K c tbl \<Longrightarrow> invar c"
  by (simp add: coherent_def)

lemma coherent_fill: "coherent K c tbl \<Longrightarrow> tbl k = Some v \<Longrightarrow> coherent (K - {k}) (put c k v) tbl"
  using get_put unfolding coherent_def by (fastforce simp: invar_put)

lemma coherent_del: "coherent K c tbl \<Longrightarrow> coherent (K - {k}) (del c k) tbl"
  by (auto simp: coherent_def get_del invar_del)

end

locale full_mirror = mirror_cache get put del invar
  for get :: "'c \<Rightarrow> 'k \<Rightarrow> 'v option" and put and del and invar +
  assumes get_put_same: "invar c \<Longrightarrow> get (put c k v) k = Some v"
    and get_put_other: "invar c \<Longrightarrow> j \<noteq> k \<Longrightarrow> get (put c k v) j = get c j"
begin

definition complete :: "'k set \<Rightarrow> 'c \<Rightarrow> ('k \<Rightarrow> 'v option) \<Rightarrow> bool" where
  "complete K c tbl \<longleftrightarrow> invar c \<and> (\<forall>k. k \<notin> K \<longrightarrow> get c k = tbl k)"

lemma complete_coherent: "complete K c tbl \<Longrightarrow> coherent K c tbl"
  by (auto simp: complete_def coherent_def)

lemma complete_put: "complete K c tbl \<Longrightarrow> tbl k = Some v \<Longrightarrow> complete (K - {k}) (put c k v) tbl"
  unfolding complete_def by (metis DiffI get_put_other get_put_same invar_put singletonD)

lemma complete_del: "complete K c tbl \<Longrightarrow> tbl k = None \<Longrightarrow> complete (K - {k}) (del c k) tbl"
  by (auto simp: complete_def get_del invar_del)

end

section \<open>The store's mirrors implement it\<close>

text \<open>
  Insert, touch and enforce a cap, as \<open>put_identity\<close> and \<open>put_session\<close> do it; with PSRAM
  the cap is not enforced.
\<close>

definition lru_get :: "('k, 'v) hashmap \<times> 'k lru_order \<Rightarrow> 'k \<Rightarrow> 'v option" where
  "lru_get c = fmlookup (fst c)"

definition lru_put ::
  "bool \<Rightarrow> nat \<Rightarrow> ('k, 'v) hashmap \<times> 'k lru_order \<Rightarrow> 'k \<Rightarrow> 'v \<Rightarrow> ('k, 'v) hashmap \<times> 'k lru_order" where
  "lru_put psram cap c k v =
     (let m = fmupd k v (fst c); order = lru_touched (snd c) k in
      if psram then (m, order) else evict_keys (lru_overflow order (hm_len m) cap) (m, order))"

definition lru_del ::
  "('k, 'v) hashmap \<times> 'k lru_order \<Rightarrow> 'k \<Rightarrow> ('k, 'v) hashmap \<times> 'k lru_order" where
  "lru_del c k = (fmdrop k (fst c), lru_removed (snd c) k)"

definition lru_ok :: "('k, 'v) hashmap \<times> 'k lru_order \<Rightarrow> bool" where
  "lru_ok c \<longleftrightarrow> mirror_ok (fst c) (snd c)"

text \<open>Whatever an insertion evicts afterwards, the result is a mirror of the same entries.\<close>

lemma insert_evict:
  assumes "lru_ok c"
    and "d = evict_keys ks (fmupd k v (fst c), lru_touched (snd c) k)"
  shows "lru_ok d" and "lru_get d j = Some w \<Longrightarrow> j = k \<and> w = v \<or> j \<noteq> k \<and> lru_get c j = Some w"
    and "k \<notin> set ks \<Longrightarrow> lru_get d k = Some v"
proof -
  have ok: "mirror_ok (fmupd k v (fst c)) (lru_touched (snd c) k)"
    using assms(1) by (simp add: lru_ok_def mirror_ok_put)
  obtain m' o' where d: "d = (m', o')" by (rule prod.exhaust)
  have e: "evict_keys ks (fmupd k v (fst c), lru_touched (snd c) k) = (m', o')" using assms(2) d by simp
  note v = mirror_ok_evict [OF ok e]
  show "lru_ok d" using v(1) d by (simp add: lru_ok_def)
  show "lru_get d j = Some w \<Longrightarrow> j = k \<and> w = v \<or> j \<noteq> k \<and> lru_get c j = Some w"
    using v(3) [of j] d by (auto simp: lru_get_def split: if_splits)
  show "k \<notin> set ks \<Longrightarrow> lru_get d k = Some v" using v(3) [of k] d by (auto simp: lru_get_def)
qed

lemma lru_put_evict:
  "lru_put psram cap c k v =
     evict_keys (if psram then [] else
         lru_overflow (lru_touched (snd c) k) (hm_len (fmupd k v (fst c))) cap)
       (fmupd k v (fst c), lru_touched (snd c) k)"
  by (simp add: lru_put_def Let_def)

lemma lru_put_len:
  assumes "lru_ok c" and "\<not> psram" shows "hm_len (fst (lru_put psram cap c k v)) \<le> cap"
proof -
  let ?m = "fmupd k v (fst c)" and ?o = "lru_touched (snd c) k"
  have ok: "mirror_ok ?m ?o" using assms by (simp add: lru_ok_def mirror_ok_put)
  obtain m' o' where e: "evict_keys (lru_overflow ?o (hm_len ?m) cap) (?m, ?o) = (m', o')"
    by (rule prod.exhaust)
  show ?thesis using evict_overflow(2) [OF ok e] assms(2) e by (simp add: lru_put_def Let_def)
qed

lemma lru_del_ok: "lru_ok c \<Longrightarrow> lru_ok (lru_del c k)"
  unfolding lru_ok_def lru_del_def fst_conv snd_conv by (rule mirror_ok_remove)

lemma lru_del_get: "lru_get (lru_del c k) j = (if j = k then None else lru_get c j)"
  by (simp add: lru_get_def lru_del_def)

interpretation lru: mirror_cache lru_get "lru_put psram cap" lru_del lru_ok
proof
  fix c :: "('a, 'b) hashmap \<times> 'a lru_order" and k j :: 'a and v w :: 'b
  assume ok: "lru_ok c"
  show "lru_ok (lru_put psram cap c k v)" by (rule insert_evict(1) [OF ok lru_put_evict])
  show "lru_ok (lru_del c k)" by (rule lru_del_ok [OF ok])
  show "lru_get (lru_del c k) j = (if j = k then None else lru_get c j)" by (rule lru_del_get)
  show "lru_get (lru_put psram cap c k v) j = Some w \<Longrightarrow> j = k \<and> w = v \<or> j \<noteq> k \<and> lru_get c j = Some w"
    by (rule insert_evict(2) [OF ok lru_put_evict])
qed

text \<open>
  The mirror of the sync keys, whose cap spares a protected key: the excess oldest entries
  that are not it.
\<close>

definition sync_put ::
  "bool \<Rightarrow> 'k option \<Rightarrow> ('k, 'v) hashmap \<times> 'k lru_order \<Rightarrow> 'k \<Rightarrow> 'v \<Rightarrow> ('k, 'v) hashmap \<times> 'k lru_order" where
  "sync_put psram protected c k v =
     (let m = fmupd k v (fst c); order = lru_touched (snd c) k in
      evict_keys (if psram then [] else take (hm_len m - 8)
                    (filter (\<lambda>k. Some k \<noteq> protected) (lru_overflow order (hm_len m) 8))) (m, order))"

lemma sync_put_evict:
  "sync_put psram protected c k v =
     evict_keys (if psram then [] else take (hm_len (fmupd k v (fst c)) - 8)
                  (filter (\<lambda>k. Some k \<noteq> protected)
                    (lru_overflow (lru_touched (snd c) k) (hm_len (fmupd k v (fst c))) 8)))
       (fmupd k v (fst c), lru_touched (snd c) k)"
  by (simp add: sync_put_def Let_def)

interpretation sync: mirror_cache lru_get "sync_put psram protected" lru_del lru_ok
proof
  fix c :: "('a, 'b) hashmap \<times> 'a lru_order" and k j :: 'a and v w :: 'b
  assume ok: "lru_ok c"
  show "lru_ok (sync_put psram protected c k v)" by (rule insert_evict(1) [OF ok sync_put_evict])
  show "lru_ok (lru_del c k)" by (rule lru_del_ok [OF ok])
  show "lru_get (lru_del c k) j = (if j = k then None else lru_get c j)" by (rule lru_del_get)
  show "lru_get (sync_put psram protected c k v) j = Some w \<Longrightarrow> j = k \<and> w = v \<or> j \<noteq> k \<and> lru_get c j = Some w"
    by (rule insert_evict(2) [OF ok sync_put_evict])
qed

interpretation plain: full_mirror fmlookup "\<lambda>m k v. fmupd k v m" "\<lambda>m k. fmdrop k m" "\<lambda>_. True"
  by unfold_locales (auto split: if_splits)

end
