(* ===== verification/Ram_Store.thy ===== *)
theory Ram_Store
  imports Lru_Mirror
begin

text \<open>
  The RAM-only part of the store (\<open>src/storage.rs\<close>): the fields of \<open>StoreInner\<close> that are
  never written to flash, with the operations of \<open>AppSyncStore\<close> on versions and MACs, of
  \<open>ProtocolStore\<close> and of \<open>MsgSecretStore\<close>. Each runs under one lock and cannot fail, so
  it is a function on the record. The types of the client library that the code only moves
  around (\<open>HashState\<close>, the other fields of \<open>LidPnMappingEntry\<close> and
  \<open>DeviceListRecord\<close>) are type parameters, and its two merge functions for message secrets
  are arguments. Results that depend on the iteration order of a hash map are sets.
\<close>

section \<open>Data\<close>

record 'l lid_pn_entry =
  lid :: str
  phone_number :: str
  lid_details :: 'l

record 'v device_list =
  user :: str
  list_details :: 'v

record tc_token_entry =
  token :: bytes
  token_timestamp :: int
  sender_timestamp :: "int option"

record mutation_mac =
  index_mac :: bytes
  value_mac :: bytes

type_synonym msg_secret_key = "str \<times> str \<times> str"
type_synonym msg_secret_value = "bytes \<times> int \<times> int"

record msg_secret_entry =
  chat :: str
  sender :: str
  msg_id :: str
  secret :: bytes
  expires_at :: int
  message_ts :: int

record ('h, 'l, 'v) ram_inner =
  versions :: "(str, 'h) hashmap"
  mutation_macs :: "(str, (bytes, bytes) hashmap) hashmap"
  sender_key_devices :: "(str, (str \<times> bool) list) hashmap"
  lid_mappings :: "(str, 'l lid_pn_entry) hashmap"
  pn_mappings :: "(str, str) hashmap"
  base_keys :: "(str, bytes) hashmap"
  device_lists :: "(str, 'v device_list) hashmap"
  tc_tokens :: "(str, tc_token_entry) hashmap"
  sent_messages :: "(str, bytes \<times> int) hashmap"
  msg_secrets :: "(msg_secret_key, msg_secret_value) hashmap"

definition ram_default :: "('h, 'l, 'v) ram_inner" where
  "ram_default = \<lparr>versions = fmempty, mutation_macs = fmempty, sender_key_devices = fmempty,
     lid_mappings = fmempty, pn_mappings = fmempty, base_keys = fmempty, device_lists = fmempty,
     tc_tokens = fmempty, sent_messages = fmempty, msg_secrets = fmempty\<rparr>"

text \<open>\<open>entry(name).or_default()\<close> on a map of maps or lists.\<close>

definition or_default :: "'v \<Rightarrow> ('k, 'v) hashmap \<Rightarrow> 'k \<Rightarrow> 'v" where
  "or_default d m k = (case fmlookup m k of None \<Rightarrow> d | Some v \<Rightarrow> v)"

definition composite_key :: "str \<Rightarrow> str \<Rightarrow> str" where
  "composite_key a b = a @ '':'' @ b"

section \<open>\<open>AppSyncStore\<close>\<close>

definition get_version :: "('h, 'l, 'v) ram_inner \<Rightarrow> str \<Rightarrow> 'h option" where
  "get_version s name = fmlookup (versions s) name"

definition delete_version :: "str \<Rightarrow> ('h, 'l, 'v) ram_inner \<Rightarrow> ('h, 'l, 'v) ram_inner" where
  "delete_version name s = s\<lparr>versions := fmdrop name (versions s)\<rparr>"

definition set_version :: "str \<Rightarrow> 'h \<Rightarrow> ('h, 'l, 'v) ram_inner \<Rightarrow> ('h, 'l, 'v) ram_inner" where
  "set_version name state s = s\<lparr>versions := fmupd name state (versions s)\<rparr>"

definition insert_macs :: "mutation_mac list \<Rightarrow> (bytes, bytes) hashmap \<Rightarrow> (bytes, bytes) hashmap" where
  "insert_macs ms = fold (\<lambda>m. fmupd (index_mac m) (value_mac m)) ms"

definition put_mutation_macs ::
  "str \<Rightarrow> mutation_mac list \<Rightarrow> ('h, 'l, 'v) ram_inner \<Rightarrow> ('h, 'l, 'v) ram_inner" where
  "put_mutation_macs name mutations s =
     s\<lparr>mutation_macs := fmupd name (insert_macs mutations (or_default fmempty (mutation_macs s) name))
                          (mutation_macs s)\<rparr>"

definition commit_patch ::
  "str \<Rightarrow> 'h \<Rightarrow> bytes list \<Rightarrow> mutation_mac list \<Rightarrow> ('h, 'l, 'v) ram_inner \<Rightarrow> ('h, 'l, 'v) ram_inner" where
  "commit_patch name state removed_index_macs added s =
     (let m = or_default fmempty (mutation_macs s) name;
          m = fold fmdrop removed_index_macs m;
          m = insert_macs added m
      in s\<lparr>mutation_macs := fmupd name m (mutation_macs s), versions := fmupd name state (versions s)\<rparr>)"

definition get_mutation_mac :: "('h, 'l, 'v) ram_inner \<Rightarrow> str \<Rightarrow> bytes \<Rightarrow> bytes option" where
  "get_mutation_mac s name index =
     Option.bind (fmlookup (mutation_macs s) name) (\<lambda>m. fmlookup m index)"

definition delete_mutation_macs ::
  "str \<Rightarrow> bytes list \<Rightarrow> ('h, 'l, 'v) ram_inner \<Rightarrow> ('h, 'l, 'v) ram_inner" where
  "delete_mutation_macs name index_macs s =
     (case fmlookup (mutation_macs s) name of
        None \<Rightarrow> s
      | Some m \<Rightarrow> s\<lparr>mutation_macs := fmupd name (fold fmdrop index_macs m) (mutation_macs s)\<rparr>)"

definition clear_mutation_macs :: "str \<Rightarrow> ('h, 'l, 'v) ram_inner \<Rightarrow> ('h, 'l, 'v) ram_inner" where
  "clear_mutation_macs name s = s\<lparr>mutation_macs := fmdrop name (mutation_macs s)\<rparr>"

section \<open>\<open>ProtocolStore\<close>\<close>

definition get_sender_key_devices :: "('h, 'l, 'v) ram_inner \<Rightarrow> str \<Rightarrow> (str \<times> bool) list" where
  "get_sender_key_devices s group_jid = or_default [] (sender_key_devices s) group_jid"

text \<open>\<open>iter_mut().find()\<close> and assignment, or \<open>push\<close>.\<close>

fun set_status :: "str \<Rightarrow> bool \<Rightarrow> (str \<times> bool) list \<Rightarrow> (str \<times> bool) list" where
  "set_status jid status [] = [(jid, status)]"
| "set_status jid status ((j, st) # devices) =
     (if j = jid then (j, status) # devices else (j, st) # set_status jid status devices)"

definition set_sender_key_status ::
  "str \<Rightarrow> (str \<times> bool) list \<Rightarrow> ('h, 'l, 'v) ram_inner \<Rightarrow> ('h, 'l, 'v) ram_inner" where
  "set_sender_key_status group_jid entries s =
     s\<lparr>sender_key_devices :=
         fmupd group_jid (fold (\<lambda>(jid, status). set_status jid status) entries
                            (or_default [] (sender_key_devices s) group_jid))
           (sender_key_devices s)\<rparr>"

definition clear_sender_key_devices :: "str \<Rightarrow> ('h, 'l, 'v) ram_inner \<Rightarrow> ('h, 'l, 'v) ram_inner" where
  "clear_sender_key_devices group_jid s =
     s\<lparr>sender_key_devices := fmdrop group_jid (sender_key_devices s)\<rparr>"

definition clear_all_sender_key_devices :: "('h, 'l, 'v) ram_inner \<Rightarrow> ('h, 'l, 'v) ram_inner" where
  "clear_all_sender_key_devices s = s\<lparr>sender_key_devices := fmempty\<rparr>"

definition delete_sender_key_device_rows ::
  "str list \<Rightarrow> ('h, 'l, 'v) ram_inner \<Rightarrow> ('h, 'l, 'v) ram_inner" where
  "delete_sender_key_device_rows device_jids s =
     s\<lparr>sender_key_devices :=
         fmmap (filter (\<lambda>(jid, _). jid \<notin> set device_jids)) (sender_key_devices s)\<rparr>"

definition get_lid_mapping :: "('h, 'l, 'v) ram_inner \<Rightarrow> str \<Rightarrow> 'l lid_pn_entry option" where
  "get_lid_mapping s l = fmlookup (lid_mappings s) l"

definition get_pn_mapping :: "('h, 'l, 'v) ram_inner \<Rightarrow> str \<Rightarrow> 'l lid_pn_entry option" where
  "get_pn_mapping s phone =
     Option.bind (fmlookup (pn_mappings s) phone) (\<lambda>l. fmlookup (lid_mappings s) l)"

definition put_lid_mapping :: "'l lid_pn_entry \<Rightarrow> ('h, 'l, 'v) ram_inner \<Rightarrow> ('h, 'l, 'v) ram_inner" where
  "put_lid_mapping entry s =
     s\<lparr>pn_mappings := fmupd (phone_number entry) (lid entry) (pn_mappings s),
       lid_mappings := fmupd (lid entry) entry (lid_mappings s)\<rparr>"

definition get_all_lid_mappings :: "('h, 'l, 'v) ram_inner \<Rightarrow> 'l lid_pn_entry set" where
  "get_all_lid_mappings s = fmran' (lid_mappings s)"

definition save_base_key ::
  "str \<Rightarrow> str \<Rightarrow> bytes \<Rightarrow> ('h, 'l, 'v) ram_inner \<Rightarrow> ('h, 'l, 'v) ram_inner" where
  "save_base_key address message_id base_key s =
     s\<lparr>base_keys := fmupd (composite_key address message_id) base_key (base_keys s)\<rparr>"

definition has_same_base_key :: "('h, 'l, 'v) ram_inner \<Rightarrow> str \<Rightarrow> str \<Rightarrow> bytes \<Rightarrow> bool" where
  "has_same_base_key s address message_id current_base_key =
     (case fmlookup (base_keys s) (composite_key address message_id) of
        None \<Rightarrow> False | Some k \<Rightarrow> k = current_base_key)"

definition delete_base_key :: "str \<Rightarrow> str \<Rightarrow> ('h, 'l, 'v) ram_inner \<Rightarrow> ('h, 'l, 'v) ram_inner" where
  "delete_base_key address message_id s =
     s\<lparr>base_keys := fmdrop (composite_key address message_id) (base_keys s)\<rparr>"

definition update_device_list :: "'v device_list \<Rightarrow> ('h, 'l, 'v) ram_inner \<Rightarrow> ('h, 'l, 'v) ram_inner" where
  "update_device_list rec s = s\<lparr>device_lists := fmupd (user rec) rec (device_lists s)\<rparr>"

definition get_devices :: "('h, 'l, 'v) ram_inner \<Rightarrow> str \<Rightarrow> 'v device_list option" where
  "get_devices s u = fmlookup (device_lists s) u"

definition delete_devices :: "str \<Rightarrow> ('h, 'l, 'v) ram_inner \<Rightarrow> ('h, 'l, 'v) ram_inner" where
  "delete_devices u s = s\<lparr>device_lists := fmdrop u (device_lists s)\<rparr>"

subsection \<open>Trusted-contact tokens\<close>

definition get_tc_token :: "('h, 'l, 'v) ram_inner \<Rightarrow> str \<Rightarrow> tc_token_entry option" where
  "get_tc_token s jid = fmlookup (tc_tokens s) jid"

definition put_tc_token :: "str \<Rightarrow> tc_token_entry \<Rightarrow> ('h, 'l, 'v) ram_inner \<Rightarrow> ('h, 'l, 'v) ram_inner" where
  "put_tc_token jid entry s = s\<lparr>tc_tokens := fmupd jid entry (tc_tokens s)\<rparr>"

definition delete_tc_token :: "str \<Rightarrow> ('h, 'l, 'v) ram_inner \<Rightarrow> ('h, 'l, 'v) ram_inner" where
  "delete_tc_token jid s = s\<lparr>tc_tokens := fmdrop jid (tc_tokens s)\<rparr>"

definition get_all_tc_token_jids :: "('h, 'l, 'v) ram_inner \<Rightarrow> str set" where
  "get_all_tc_token_jids s = fmdom' (tc_tokens s)"

definition tc_token_live :: "int \<Rightarrow> int \<Rightarrow> tc_token_entry \<Rightarrow> bool" where
  "tc_token_live token_cutoff sender_cutoff v =
     (let token_live = (token v \<noteq> [] \<and> token_timestamp v \<ge> token_cutoff);
          sender_live = (case sender_timestamp v of None \<Rightarrow> False | Some ts \<Rightarrow> ts \<ge> sender_cutoff)
      in token_live \<or> sender_live)"

definition delete_expired_tc_tokens ::
  "int \<Rightarrow> int \<Rightarrow> ('h, 'l, 'v) ram_inner \<Rightarrow> nat \<times> ('h, 'l, 'v) ram_inner" where
  "delete_expired_tc_tokens token_cutoff sender_cutoff s =
     (let before = hm_len (tc_tokens s);
          kept = hm_retain (\<lambda>_ v. tc_token_live token_cutoff sender_cutoff v) (tc_tokens s)
      in (before - hm_len kept, s\<lparr>tc_tokens := kept\<rparr>))"

definition touch_tc_token_sender_timestamp ::
  "str \<Rightarrow> int \<Rightarrow> ('h, 'l, 'v) ram_inner \<Rightarrow> ('h, 'l, 'v) ram_inner" where
  "touch_tc_token_sender_timestamp jid ts s =
     s\<lparr>tc_tokens :=
         (case fmlookup (tc_tokens s) jid of
            Some entry \<Rightarrow>
              fmupd jid
                (entry\<lparr>sender_timestamp :=
                    Some (case sender_timestamp entry of None \<Rightarrow> ts | Some e \<Rightarrow> max e ts)\<rparr>)
                (tc_tokens s)
          | None \<Rightarrow>
              fmupd jid \<lparr>token = [], token_timestamp = ts, sender_timestamp = Some ts\<rparr> (tc_tokens s))\<rparr>"

definition store_received_tc_token ::
  "str \<Rightarrow> bytes \<Rightarrow> int \<Rightarrow> ('h, 'l, 'v) ram_inner \<Rightarrow> ('h, 'l, 'v) ram_inner" where
  "store_received_tc_token jid tok ts s =
     (case fmlookup (tc_tokens s) jid of
        Some entry \<Rightarrow>
          if token entry \<noteq> [] \<and> ts < token_timestamp entry then s
          else s\<lparr>tc_tokens := fmupd jid (entry\<lparr>token := tok, token_timestamp := ts\<rparr>) (tc_tokens s)\<rparr>
      | None \<Rightarrow>
          s\<lparr>tc_tokens :=
              fmupd jid \<lparr>token = tok, token_timestamp = ts, sender_timestamp = None\<rparr> (tc_tokens s)\<rparr>)"

subsection \<open>Sent messages\<close>

text \<open>\<open>now\<close> is the wall clock in seconds, read by the caller of the model.\<close>

definition store_sent_message ::
  "int \<Rightarrow> str \<Rightarrow> str \<Rightarrow> bytes \<Rightarrow> ('h, 'l, 'v) ram_inner \<Rightarrow> ('h, 'l, 'v) ram_inner" where
  "store_sent_message now chat_jid message_id payload s =
     s\<lparr>sent_messages := fmupd (composite_key chat_jid message_id) (payload, now) (sent_messages s)\<rparr>"

definition take_sent_message ::
  "str \<Rightarrow> str \<Rightarrow> ('h, 'l, 'v) ram_inner \<Rightarrow> bytes option \<times> ('h, 'l, 'v) ram_inner" where
  "take_sent_message chat_jid message_id s =
     (let key = composite_key chat_jid message_id in
      (map_option fst (fmlookup (sent_messages s) key),
       s\<lparr>sent_messages := fmdrop key (sent_messages s)\<rparr>))"

definition delete_expired_sent_messages ::
  "int \<Rightarrow> ('h, 'l, 'v) ram_inner \<Rightarrow> nat \<times> ('h, 'l, 'v) ram_inner" where
  "delete_expired_sent_messages cutoff s =
     (let before = hm_len (sent_messages s);
          kept = hm_retain (\<lambda>_ (_, ts). ts \<ge> cutoff) (sent_messages s)
      in (before - hm_len kept, s\<lparr>sent_messages := kept\<rparr>))"

section \<open>\<open>MsgSecretStore\<close>\<close>

definition put_msg_secret ::
  "(int \<Rightarrow> int \<Rightarrow> int) \<Rightarrow> (int \<Rightarrow> int \<Rightarrow> int) \<Rightarrow> msg_secret_entry \<Rightarrow>
   (msg_secret_key, msg_secret_value) hashmap \<Rightarrow> (msg_secret_key, msg_secret_value) hashmap" where
  "put_msg_secret merge_expiry merge_ts e m =
     (let key = (chat e, sender e, msg_id e) in
      case fmlookup m key of
        Some (_, exp, ts) \<Rightarrow>
          fmupd key (secret e, merge_expiry exp (expires_at e), merge_ts ts (message_ts e)) m
      | None \<Rightarrow> fmupd key (secret e, expires_at e, message_ts e) m)"

definition put_msg_secrets ::
  "(int \<Rightarrow> int \<Rightarrow> int) \<Rightarrow> (int \<Rightarrow> int \<Rightarrow> int) \<Rightarrow> msg_secret_entry list \<Rightarrow>
   ('h, 'l, 'v) ram_inner \<Rightarrow> nat \<times> ('h, 'l, 'v) ram_inner" where
  "put_msg_secrets merge_expiry merge_ts entries s =
     (length entries,
      s\<lparr>msg_secrets := fold (put_msg_secret merge_expiry merge_ts) entries (msg_secrets s)\<rparr>)"

definition get_stored_msg_secret ::
  "('h, 'l, 'v) ram_inner \<Rightarrow> str \<Rightarrow> str \<Rightarrow> str \<Rightarrow> (bytes \<times> int option) option" where
  "get_stored_msg_secret s c f i =
     map_option (\<lambda>(sec, _, ts). (sec, Some ts)) (fmlookup (msg_secrets s) (c, f, i))"

definition delete_expired_msg_secrets ::
  "int \<Rightarrow> ('h, 'l, 'v) ram_inner \<Rightarrow> nat \<times> ('h, 'l, 'v) ram_inner" where
  "delete_expired_msg_secrets cutoff s =
     (let before = hm_len (msg_secrets s);
          kept = hm_retain (\<lambda>_ (_, exp, _). exp = 0 \<or> exp > cutoff) (msg_secrets s)
      in (before - hm_len kept, s\<lparr>msg_secrets := kept\<rparr>))"

section \<open>Lemmas\<close>

lemma fmupd_twice [simp]: "fmupd k v (fmupd k w m) = fmupd k v m"
  by (rule fmap_ext) simp

lemma hm_len_retain_le: "hm_len (hm_retain p m) \<le> hm_len m"
  unfolding fmdom'_card hm_retain_def by (intro card_mono) auto

lemma lookup_fold_fmdrop:
  "fmlookup (fold fmdrop ks m) k = (if k \<in> set ks then None else fmlookup m k)"
  by (induction ks arbitrary: m) auto

lemma lookup_insert_macs:
  "fmlookup (insert_macs ms m) i =
     (case find (\<lambda>x. index_mac x = i) (rev ms) of Some x \<Rightarrow> Some (value_mac x) | None \<Rightarrow> fmlookup m i)"
proof (induction ms arbitrary: m)
  case Nil
  then show ?case by (simp add: insert_macs_def)
next
  case (Cons x ms)
  have "find (\<lambda>y. index_mac y = i) (rev ms @ [x]) =
      (case find (\<lambda>y. index_mac y = i) (rev ms) of
         None \<Rightarrow> if index_mac x = i then Some x else None | Some y \<Rightarrow> Some y)"
    by (induction ms rule: rev_induct) auto
  then show ?case using Cons.IH [of "fmupd (index_mac x) (value_mac x) m"]
    by (auto simp: insert_macs_def split: option.splits)
qed

lemma set_status_map:
  "map_of (set_status jid st ds) = (map_of ds)(jid \<mapsto> st)"
  "fst ` set (set_status jid st ds) = insert jid (fst ` set ds)"
  "distinct (map fst ds) \<Longrightarrow> distinct (map fst (set_status jid st ds))"
proof (induction ds)
  case (Cons d ds)
  obtain j t where d: "d = (j, t)" by fastforce
  {
    case 1
    from Cons.IH(1) show ?case by (auto simp: d fun_eq_iff)
  next
    case 2
    from Cons.IH(2) show ?case by (auto simp: d)
  next
    case 3
    with Cons.IH(2,3) show ?case by (auto simp: d)
  }
qed simp_all

lemma fold_set_status:
  "map_of (fold (\<lambda>(jid, st). set_status jid st) es ds) j =
     (case map_of (rev es) j of None \<Rightarrow> map_of ds j | Some st \<Rightarrow> Some st)"
  "distinct (map fst ds) \<Longrightarrow> distinct (map fst (fold (\<lambda>(jid, st). set_status jid st) es ds))"
  by (induction es arbitrary: ds)
    (auto simp: set_status_map map_add_def split: option.splits)

text \<open>The separator makes keys ambiguous in general; message ids hold none.\<close>

lemma composite_key_inject:
  assumes "CHR '':'' \<notin> set b" and "CHR '':'' \<notin> set b'"
  shows "composite_key a b = composite_key a' b' \<longleftrightarrow> a = a' \<and> b = b'"
proof
  assume e: "composite_key a b = composite_key a' b'"
  have split: "takeWhile (\<lambda>c. c \<noteq> CHR '':'') (rev (composite_key x y)) = rev y"
    if "CHR '':'' \<notin> set y" for x y :: str
    using that takeWhile_append2 [of "rev y" "\<lambda>c. c \<noteq> CHR '':''" "CHR '':'' # rev x"]
    by (auto simp: composite_key_def)
  from e have "rev b = rev b'" using split assms by metis
  with e show "a = a' \<and> b = b'" by (simp add: composite_key_def)
qed simp

lemma composite_key_ambiguous: "composite_key ''a:b'' ''c'' = composite_key ''a'' ''b:c''"
  by (simp add: composite_key_def)

lemma tc_update_commute [simp]:
  "e\<lparr>sender_timestamp := x, token := t, token_timestamp := u\<rparr> =
   e\<lparr>token := t, token_timestamp := u, sender_timestamp := x\<rparr>" for e :: tc_token_entry
  by (cases e) simp

section \<open>Properties\<close>

text \<open>The two writers of a trusted-contact token row own one field each and commute: whatever
  the row held, receiving a token and bumping the sender timestamp give the same store in both
  orders, and two sender bumps leave the larger of the two timestamps and the earlier one,
  whatever order they arrive in.\<close>

lemma tc_token_writers_commute:
  "store_received_tc_token jid tok ts (touch_tc_token_sender_timestamp jid st s) =
     touch_tc_token_sender_timestamp jid st (store_received_tc_token jid tok ts s) \<and>
   map_option sender_timestamp (get_tc_token
       (touch_tc_token_sender_timestamp jid a (touch_tc_token_sender_timestamp jid b s)) jid) =
     Some (Some (max (max a b)
       (case Option.bind (get_tc_token s jid) sender_timestamp of None \<Rightarrow> max a b | Some e \<Rightarrow> e)))"
  by (cases "fmlookup (tc_tokens s) jid")
    (auto simp: store_received_tc_token_def touch_tc_token_sender_timestamp_def get_tc_token_def
      max.commute max.left_commute split: option.splits)

text \<open>Expiry of trusted-contact tokens drops exactly the rows that are stale on both sides:
  a row survives unchanged when its non-empty token or its sender timestamp is within its
  cutoff, every other row is gone, and the returned count is the number of rows dropped.\<close>

lemma delete_expired_tc_tokens_exact:
  "case delete_expired_tc_tokens tc sc s of
     (n, s') \<Rightarrow>
       get_tc_token s' jid =
         (case get_tc_token s jid of
            None \<Rightarrow> None
          | Some e \<Rightarrow>
              if token e \<noteq> [] \<and> tc \<le> token_timestamp e \<or> (\<exists>t. sender_timestamp e = Some t \<and> sc \<le> t)
              then Some e else None) \<and>
       n + hm_len (tc_tokens s') = hm_len (tc_tokens s) \<and> s'\<lparr>tc_tokens := tc_tokens s\<rparr> = s"
  using hm_len_retain_le [of "\<lambda>_ v. tc_token_live tc sc v" "tc_tokens s"]
  by (auto simp: delete_expired_tc_tokens_def Let_def get_tc_token_def lookup_hm_retain
      tc_token_live_def split: option.splits)

text \<open>Base keys are found under the address and message id they were saved with and under no
  other, as long as message ids hold no colon: then the colon-joined map key is injective, so
  a saved key answers for its own pair only.\<close>

lemma base_key_lookup:
  assumes "CHR '':'' \<notin> set i" and "CHR '':'' \<notin> set i'"
  shows "has_same_base_key (save_base_key a i k s) a' i' k' =
           (if a' = a \<and> i' = i then k' = k else has_same_base_key s a' i' k')"
  using composite_key_inject [OF assms(2,1), of a' a]
  by (auto simp: has_same_base_key_def save_base_key_def split: option.splits)

text \<open>C40: a committed app-state patch publishes its version and exactly its MAC changes: an added
  index maps to the last value added for it, a removed index not added again is gone, every
  other index and every other collection is untouched.\<close>

theorem commit_patch_macs:
  "get_version (commit_patch name st removed added s) name = Some st \<and>
   (\<forall>n \<noteq> name. get_version (commit_patch name st removed added s) n = get_version s n) \<and>
   get_mutation_mac (commit_patch name st removed added s) n i =
     (if n \<noteq> name then get_mutation_mac s n i
      else case find (\<lambda>x. index_mac x = i) (rev added) of
          Some x \<Rightarrow> Some (value_mac x)
        | None \<Rightarrow> if i \<in> set removed then None else get_mutation_mac s n i)"
  by (auto simp: commit_patch_def Let_def get_version_def get_mutation_mac_def lookup_insert_macs
      lookup_fold_fmdrop or_default_def split: option.splits)

theorem commit_patch_macs_witness:
  "get_mutation_mac (commit_patch ''regular'' (7 :: nat) [[1]] [\<lparr>index_mac = [2], value_mac = [9]\<rparr>]
     (put_mutation_macs ''regular'' [\<lparr>index_mac = [1], value_mac = [8]\<rparr>]
       (ram_default :: (nat, nat, nat) ram_inner))) ''regular'' [2] = Some [9]"
  using commit_patch_macs [of "''regular''" "7 :: nat" "[[1]]" "[\<lparr>index_mac = [2], value_mac = [9]\<rparr>]"
      "put_mutation_macs ''regular'' [\<lparr>index_mac = [1], value_mac = [8]\<rparr>]
         (ram_default :: (nat, nat, nat) ram_inner)" "''regular''" "[2]"]
  by simp

end
