(* ===== verification/Nvs_Store.thy ===== *)
theory Nvs_Store
  imports Nvs_Flash Ram_Store
begin

text \<open>
  \<open>NvsStore\<close> of \<open>src/storage.rs\<close>: the RAM mirrors of \<open>StoreInner\<close> with their caps, the
  \<open>wa-nvs\<close> worker behind \<open>FlashWorker::run\<close>, and the operations of \<open>SignalStore\<close>,
  \<open>AppSyncStore\<close> (the persisted part) and \<open>DeviceStore\<close>. A write holds the operation lock
  from its first line to its last, so it is one step of the model; a read that misses its
  mirror asks flash and fills the mirror without that lock, so its parts are definitions of
  their own.
\<close>

section \<open>State\<close>

text \<open>\<open>ram\<close> groups the fields that are never persisted (theory \<open>Ram_Store\<close>).\<close>

record ('d, 'k, 'h, 'l, 'v) store_inner =
  device :: "'d option"
  device_id_counter :: "32 word"
  identities :: "(str, bytes) hashmap"
  sessions :: "(str, bytes) hashmap"
  prekeys :: "(u32, bytes) hashmap"
  signed_prekeys :: "(u32, bytes) hashmap"
  sender_keys :: "(str, bytes) hashmap"
  identity_order :: "str lru_order"
  session_order :: "str lru_order"
  sync_keys :: "(bytes, 'k) hashmap"
  latest_sync_key_id :: "bytes option"
  sync_key_order :: "bytes lru_order"
  ram :: "('h, 'l, 'v) ram_inner"

definition inner_default :: "('d, 'k, 'h, 'l, 'v) store_inner" where
  "inner_default = \<lparr>device = None, device_id_counter = 0, identities = fmempty, sessions = fmempty,
     prekeys = fmempty, signed_prekeys = fmempty, sender_keys = fmempty, identity_order = [],
     session_order = [], sync_keys = fmempty, latest_sync_key_id = None, sync_key_order = [],
     ram = ram_default\<rparr>"

text \<open>
  \<open>worker_alive\<close> says whether the worker thread still receives jobs; it only stops when a
  job panics, which is outside the model.
\<close>

record ('n, 'd, 'k, 'h, 'l, 'v) nvs_store =
  inner :: "('d, 'k, 'h, 'l, 'v) store_inner"
  flash :: "'n flash_namespaces"
  accepting_writes :: bool
  worker_alive :: bool

type_synonym ('n, 'd, 'k, 'h, 'l, 'v, 'a) store_io =
  "(('n, 'd, 'k, 'h, 'l, 'v) nvs_store, store_error, 'a) io"

definition run :: "('n, 'a) flash_io \<Rightarrow> ('n, 'd, 'k, 'h, 'l, 'v, 'a) store_io" where
  "run operation = (\<lambda>s.
     if \<not> worker_alive s then (Inl WorkerStopped, s)
     else case operation (flash s) of (r, f) \<Rightarrow> (r, s\<lparr>flash := f\<rparr>))"

definition write_operation :: "('n, 'd, 'k, 'h, 'l, 'v, unit) store_io" where
  "write_operation = (\<lambda>s.
     (if accepting_writes s then Inr () else Inl (Validation StorageSealed), s))"

text \<open>Update the state behind the store lock.\<close>

definition with_inner ::
  "(('d, 'k, 'h, 'l, 'v) store_inner \<Rightarrow> ('d, 'k, 'h, 'l, 'v) store_inner) \<Rightarrow>
   ('n, 'd, 'k, 'h, 'l, 'v, unit) store_io" where
  "with_inner f = modifyE (\<lambda>s. s\<lparr>inner := f (inner s)\<rparr>)"

section \<open>The caps of the mirrors\<close>

definition enforce_identities_cap ::
  "bool \<Rightarrow> ('d, 'k, 'h, 'l, 'v) store_inner \<Rightarrow> ('d, 'k, 'h, 'l, 'v) store_inner" where
  "enforce_identities_cap psram s =
     (if psram then s
      else case evict_keys (lru_overflow (identity_order s) (hm_len (identities s)) 8)
                  (identities s, identity_order s) of
          (m, order) \<Rightarrow> s\<lparr>identities := m, identity_order := order\<rparr>)"

definition enforce_sessions_cap ::
  "bool \<Rightarrow> ('d, 'k, 'h, 'l, 'v) store_inner \<Rightarrow> ('d, 'k, 'h, 'l, 'v) store_inner" where
  "enforce_sessions_cap psram s =
     (if psram then s
      else case evict_keys (lru_overflow (session_order s) (hm_len (sessions s)) 0)
                  (sessions s, session_order s) of
          (m, order) \<Rightarrow> s\<lparr>sessions := m, session_order := order\<rparr>)"

definition enforce_sync_keys_cap_except ::
  "bool \<Rightarrow> bytes option \<Rightarrow> ('d, 'k, 'h, 'l, 'v) store_inner \<Rightarrow> ('d, 'k, 'h, 'l, 'v) store_inner" where
  "enforce_sync_keys_cap_except psram protected s =
     (if psram then s
      else
        let excess = hm_len (sync_keys s) - 8;
            keys_to_remove =
              take excess (filter (\<lambda>k. Some k \<noteq> protected)
                (lru_overflow (sync_key_order s) (hm_len (sync_keys s)) 8))
        in case evict_keys keys_to_remove (sync_keys s, sync_key_order s) of
             (m, order) \<Rightarrow> s\<lparr>sync_keys := m, sync_key_order := order\<rparr>)"

definition enforce_sync_keys_cap ::
  "bool \<Rightarrow> ('d, 'k, 'h, 'l, 'v) store_inner \<Rightarrow> ('d, 'k, 'h, 'l, 'v) store_inner" where
  "enforce_sync_keys_cap psram s = enforce_sync_keys_cap_except psram (latest_sync_key_id s) s"

text \<open>Insert, touch and cap: the three lines every insertion into a capped mirror ends with.\<close>

definition mirror_identity ::
  "bool \<Rightarrow> str \<Rightarrow> bytes \<Rightarrow> ('d, 'k, 'h, 'l, 'v) store_inner \<Rightarrow> ('d, 'k, 'h, 'l, 'v) store_inner" where
  "mirror_identity psram address key s =
     enforce_identities_cap psram
       (s\<lparr>identities := fmupd address key (identities s),
          identity_order := lru_touched (identity_order s) address\<rparr>)"

definition mirror_session ::
  "bool \<Rightarrow> str \<Rightarrow> bytes \<Rightarrow> ('d, 'k, 'h, 'l, 'v) store_inner \<Rightarrow> ('d, 'k, 'h, 'l, 'v) store_inner" where
  "mirror_session psram address session s =
     enforce_sessions_cap psram
       (s\<lparr>sessions := fmupd address session (sessions s),
          session_order := lru_touched (session_order s) address\<rparr>)"

definition mirror_sync_key ::
  "bool \<Rightarrow> bytes \<Rightarrow> 'k \<Rightarrow> ('d, 'k, 'h, 'l, 'v) store_inner \<Rightarrow> ('d, 'k, 'h, 'l, 'v) store_inner" where
  "mirror_sync_key psram key_id key s =
     enforce_sync_keys_cap psram
       (s\<lparr>sync_keys := fmupd key_id key (sync_keys s),
          sync_key_order := lru_touched (sync_key_order s) key_id\<rparr>)"

section \<open>Maintenance\<close>

record store_stats =
  stats_sessions :: nat
  stats_identities :: nat
  stats_prekeys :: nat
  stats_sender_keys :: nat
  device_exists :: bool

text \<open>\<open>unwrap_or\<close> on a run: the value, or the fallback when the run failed.\<close>

definition unwrap_or :: "'a \<Rightarrow> ('s, 'e, 'a) io \<Rightarrow> 's \<Rightarrow> 'a \<times> 's" where
  "unwrap_or d m s = (case m s of (Inl _, s') \<Rightarrow> (d, s') | (Inr x, s') \<Rightarrow> (x, s'))"

definition stats ::
  "('n, 'd, 'k) platform \<Rightarrow> ('n, 'd, 'k, 'h, 'l, 'v) nvs_store \<Rightarrow>
   store_stats \<times> ('n, 'd, 'k, 'h, 'l, 'v) nvs_store" where
  "stats p s =
     (let i = inner s;
          ((n_sessions, n_identities), s') =
            (if has_psram p then ((hm_len (sessions i), hm_len (identities i)), s)
             else
               let (ns, s1) = unwrap_or (hm_len (sessions i))
                                (run (on_driver (record_count (nvs p) Sessions))) s;
                   (ni, s2) = unwrap_or (hm_len (identities i))
                                (run (on_driver (record_count (nvs p) Identities))) s1
               in ((ns, ni), s2))
      in (\<lparr>stats_sessions = n_sessions, stats_identities = n_identities,
           stats_prekeys = hm_len (prekeys i), stats_sender_keys = hm_len (sender_keys i),
           device_exists = (device i \<noteq> None)\<rparr>, s'))"

definition list_sessions :: "('n, 'd, 'k) platform \<Rightarrow> ('n, 'd, 'k, 'h, 'l, 'v, str set) store_io" where
  "list_sessions p =
     (if has_psram p then getE (\<lambda>s. fmdom' (sessions (inner s)))
      else bindE (run (on_driver (namespace_addresses (nvs p) Sessions ''session''))) (\<lambda>as.
           retE (set as)))"

definition clear_sessions :: "('n, 'd, 'k) platform \<Rightarrow> ('n, 'd, 'k, 'h, 'l, 'v, nat) store_io" where
  "clear_sessions p =
     bindE (run
       (bindE (on_driver (record_count (nvs p) Sessions)) (\<lambda>count.
        bindE clear_session_slots (\<lambda>_.
        bindE (on_driver (erase_namespace (nvs p) Sessions ''session'')) (\<lambda>_.
        retE count))))) (\<lambda>count.
     bindE (with_inner (\<lambda>s. s\<lparr>sessions := fmempty, session_order := lru_clear (session_order s)\<rparr>)) (\<lambda>_.
     retE count))"

definition reset :: "('n, 'd, 'k) platform \<Rightarrow> ('n, 'd, 'k, 'h, 'l, 'v, unit) store_io" where
  "reset p = bindE (run (reset_all p)) (\<lambda>_. with_inner (\<lambda>_. inner_default))"

definition seal_writes :: "('n, 'd, 'k, 'h, 'l, 'v, unit) store_io" where
  "seal_writes = modifyE (\<lambda>s. s\<lparr>accepting_writes := False\<rparr>)"

section \<open>\<open>SignalStore\<close>: identities\<close>

definition put_identity_body ::
  "('n, 'd, 'k) platform \<Rightarrow> str \<Rightarrow> bytes \<Rightarrow> ('n, 'd, 'k, 'h, 'l, 'v, unit) store_io" where
  "put_identity_body p address key =
     bindE (getE inner) (\<lambda>s.
     bindE (liftE (ensure_insert_capacity (hm_contains (identities s) address)
              (hm_len (identities s)) MAX_IDENTITIES ''identity'')) (\<lambda>_.
     bindE (run (put_record p Identities (as_bytes address) key ''identity'' MAX_IDENTITIES)) (\<lambda>_.
     with_inner (mirror_identity (has_psram p) address key))))"

definition put_identity ::
  "('n, 'd, 'k) platform \<Rightarrow> str \<Rightarrow> bytes \<Rightarrow> ('n, 'd, 'k, 'h, 'l, 'v, unit) store_io" where
  "put_identity p address key = bindE write_operation (\<lambda>_. put_identity_body p address key)"

fun put_identities_loop ::
  "('n, 'd, 'k) platform \<Rightarrow> (str \<times> bytes) list \<Rightarrow> ('n, 'd, 'k, 'h, 'l, 'v, unit) store_io" where
  "put_identities_loop p [] = retE ()"
| "put_identities_loop p ((address, key) # rest) =
     bindE (put_identity_body p address key) (\<lambda>_. put_identities_loop p rest)"

definition put_identities_batch ::
  "('n, 'd, 'k) platform \<Rightarrow> (str \<times> bytes) list \<Rightarrow> ('n, 'd, 'k, 'h, 'l, 'v, unit) store_io" where
  "put_identities_batch p entries =
     (if entries = [] then retE ()
      else bindE write_operation (\<lambda>_. put_identities_loop p entries))"

text \<open>
  \<open>load_identity\<close> has three critical sections: the mirror, the flash read, and filling
  the mirror with what was read.
\<close>

definition load_identity_hit ::
  "str \<Rightarrow> ('n, 'd, 'k, 'h, 'l, 'v, bytes option) store_io" where
  "load_identity_hit address = (\<lambda>s.
     case fmlookup (identities (inner s)) address of
       Some key \<Rightarrow>
         (Inr (Some key),
          s\<lparr>inner := (inner s)\<lparr>identity_order := lru_touched (identity_order (inner s)) address\<rparr>\<rparr>)
     | None \<Rightarrow> (Inr None, s))"

definition load_identity_flash ::
  "('n, 'd, 'k) platform \<Rightarrow> str \<Rightarrow> ('n, 'd, 'k, 'h, 'l, 'v, bytes option) store_io" where
  "load_identity_flash p address = run (load_record p Identities (as_bytes address) 32)"

definition load_identity_fill ::
  "('n, 'd, 'k) platform \<Rightarrow> str \<Rightarrow> bytes option \<Rightarrow> ('n, 'd, 'k, 'h, 'l, 'v, bytes option) store_io" where
  "load_identity_fill p address payload =
     (case payload of
        Some bs \<Rightarrow>
          if length bs = 32
          then bindE (with_inner (mirror_identity (has_psram p) address bs)) (\<lambda>_. retE (Some bs))
          else retE None
      | None \<Rightarrow> retE None)"

definition load_identity ::
  "('n, 'd, 'k) platform \<Rightarrow> str \<Rightarrow> ('n, 'd, 'k, 'h, 'l, 'v, bytes option) store_io" where
  "load_identity p address =
     bindE (load_identity_hit address) (\<lambda>hit.
     case hit of
       Some key \<Rightarrow> retE (Some key)
     | None \<Rightarrow> bindE (load_identity_flash p address) (load_identity_fill p address))"

definition delete_identity ::
  "('n, 'd, 'k) platform \<Rightarrow> str \<Rightarrow> ('n, 'd, 'k, 'h, 'l, 'v, unit) store_io" where
  "delete_identity p address =
     bindE write_operation (\<lambda>_.
     bindE (run (delete_record p Identities (as_bytes address) ''identity'')) (\<lambda>_.
     with_inner (\<lambda>s. s\<lparr>identities := fmdrop address (identities s),
                       identity_order := lru_removed (identity_order s) address\<rparr>)))"

section \<open>\<open>SignalStore\<close>: sessions\<close>

definition get_session_hit ::
  "str \<Rightarrow> ('n, 'd, 'k, 'h, 'l, 'v, bytes option) store_io" where
  "get_session_hit address = (\<lambda>s.
     case fmlookup (sessions (inner s)) address of
       Some session \<Rightarrow>
         (Inr (Some session),
          s\<lparr>inner := (inner s)\<lparr>session_order := lru_touched (session_order (inner s)) address\<rparr>\<rparr>)
     | None \<Rightarrow> (Inr None, s))"

definition get_session_flash ::
  "('n, 'd, 'k) platform \<Rightarrow> str \<Rightarrow> ('n, 'd, 'k, 'h, 'l, 'v, bytes option) store_io" where
  "get_session_flash p address =
     run (load_record p Sessions (as_bytes address) MAX_SIGNAL_RECORD_LEN)"

definition get_session_fill ::
  "('n, 'd, 'k) platform \<Rightarrow> str \<Rightarrow> bytes option \<Rightarrow> ('n, 'd, 'k, 'h, 'l, 'v, bytes option) store_io" where
  "get_session_fill p address payload =
     (case payload of
        Some bs \<Rightarrow>
          bindE (with_inner (mirror_session (has_psram p) address bs)) (\<lambda>_. retE (Some bs))
      | None \<Rightarrow> retE None)"

definition get_session ::
  "('n, 'd, 'k) platform \<Rightarrow> str \<Rightarrow> ('n, 'd, 'k, 'h, 'l, 'v, bytes option) store_io" where
  "get_session p address =
     bindE (get_session_hit address) (\<lambda>hit.
     case hit of
       Some session \<Rightarrow> retE (Some session)
     | None \<Rightarrow> bindE (get_session_flash p address) (get_session_fill p address))"

text \<open>\<open>encode_record\<close> runs on the caller's thread, in the same heap as the worker.\<close>

definition put_session ::
  "('n, 'd, 'k) platform \<Rightarrow> str \<Rightarrow> bytes \<Rightarrow> ('n, 'd, 'k, 'h, 'l, 'v, unit) store_io" where
  "put_session p address session =
     bindE (failE_if (length session > MAX_SIGNAL_RECORD_LEN)
              (Validation (SessionTooLarge (length session)))) (\<lambda>_.
     bindE write_operation (\<lambda>_.
     bindE (getE inner) (\<lambda>s.
     bindE (liftE (ensure_insert_capacity (hm_contains (sessions s) address)
              (hm_len (sessions s)) MAX_SESSIONS ''session'')) (\<lambda>_.
     let logical_key = as_bytes address in
     bindE (run (check_record_slot p Sessions logical_key (length session) ''session'' MAX_SESSIONS)) (\<lambda>name.
     bindE (\<lambda>s. (encode_record (heap_has (nvs p) (driver (flash s))) logical_key session, s)) (\<lambda>rec.
     let mirrored = drop (RECORD_HEADER_LEN + length logical_key) rec in
     bindE (run (on_driver (set_blob (nvs p) Sessions name rec))) (\<lambda>_.
     with_inner (mirror_session (has_psram p) address mirrored))))))))"

fun put_sessions_loop ::
  "('n, 'd, 'k) platform \<Rightarrow> (str \<times> bytes) list \<Rightarrow> ('n, 'd, 'k, 'h, 'l, 'v, unit) store_io" where
  "put_sessions_loop p [] = retE ()"
| "put_sessions_loop p ((address, session) # rest) =
     bindE (getE inner) (\<lambda>s.
     bindE (liftE (ensure_insert_capacity (hm_contains (sessions s) address)
              (hm_len (sessions s)) MAX_SESSIONS ''session'')) (\<lambda>_.
     bindE (run (put_record p Sessions (as_bytes address) session ''session'' MAX_SESSIONS)) (\<lambda>_.
     bindE (with_inner (mirror_session (has_psram p) address session)) (\<lambda>_.
     put_sessions_loop p rest))))"

definition put_sessions_batch ::
  "('n, 'd, 'k) platform \<Rightarrow> (str \<times> bytes) list \<Rightarrow> ('n, 'd, 'k, 'h, 'l, 'v, unit) store_io" where
  "put_sessions_batch p entries =
     (if entries = [] then retE ()
      else bindE write_operation (\<lambda>_. put_sessions_loop p entries))"

definition delete_session ::
  "('n, 'd, 'k) platform \<Rightarrow> str \<Rightarrow> ('n, 'd, 'k, 'h, 'l, 'v, unit) store_io" where
  "delete_session p address =
     bindE write_operation (\<lambda>_.
     bindE (run (delete_record p Sessions (as_bytes address) ''session'')) (\<lambda>_.
     with_inner (\<lambda>s. s\<lparr>sessions := fmdrop address (sessions s),
                       session_order := lru_removed (session_order s) address\<rparr>)))"

text \<open>\<open>matches\<close> inside \<open>has_signal_state_for_user\<close>: the user, then \<open>@\<close> or \<open>:\<close>.\<close>

definition address_matches :: "str \<Rightarrow> str \<Rightarrow> bool" where
  "address_matches address usr =
     (case strip_prefix usr address of
        None \<Rightarrow> False
      | Some rest \<Rightarrow> rest \<noteq> [] \<and> (hd rest = CHR ''@'' \<or> hd rest = CHR '':''))"

definition has_signal_state_for_user ::
  "('n, 'd, 'k) platform \<Rightarrow> str \<Rightarrow> ('n, 'd, 'k, 'h, 'l, 'v, bool) store_io" where
  "has_signal_state_for_user p usr =
     bindE (getE inner) (\<lambda>s.
     if (\<exists>k \<in> fmdom' (sessions s). address_matches k usr) \<or>
        (\<exists>k \<in> fmdom' (identities s). address_matches k usr)
     then retE True
     else if has_psram p then retE False
     else
       bindE (run
         (bindE (on_driver (namespace_addresses (nvs p) Sessions ''session'')) (\<lambda>as.
          bindE (on_driver (namespace_addresses (nvs p) Identities ''identity'')) (\<lambda>bs.
          retE (as @ bs))))) (\<lambda>addresses.
       retE (\<exists>address \<in> set addresses. address_matches address usr)))"

section \<open>\<open>SignalStore\<close>: prekeys, signed prekeys, sender keys\<close>

definition store_prekey ::
  "('n, 'd, 'k) platform \<Rightarrow> u32 \<Rightarrow> bytes \<Rightarrow> ('n, 'd, 'k, 'h, 'l, 'v, unit) store_io" where
  "store_prekey p pid rec =
     bindE write_operation (\<lambda>_.
     bindE (getE inner) (\<lambda>s.
     bindE (liftE (ensure_insert_capacity (hm_contains (prekeys s) pid) (hm_len (prekeys s))
              MAX_PREKEYS ''prekey'')) (\<lambda>_.
     bindE (run (put_record p Prekeys (u32_to_le pid) rec ''prekey'' MAX_PREKEYS)) (\<lambda>_.
     with_inner (\<lambda>s. s\<lparr>prekeys := fmupd pid rec (prekeys s)\<rparr>)))))"

definition load_prekey :: "u32 \<Rightarrow> ('n, 'd, 'k, 'h, 'l, 'v, bytes option) store_io" where
  "load_prekey pid = getE (\<lambda>s. fmlookup (prekeys (inner s)) pid)"

definition remove_prekey :: "('n, 'd, 'k) platform \<Rightarrow> u32 \<Rightarrow> ('n, 'd, 'k, 'h, 'l, 'v, unit) store_io" where
  "remove_prekey p pid =
     bindE write_operation (\<lambda>_.
     bindE (run (delete_record p Prekeys (u32_to_le pid) ''prekey'')) (\<lambda>_.
     with_inner (\<lambda>s. s\<lparr>prekeys := fmdrop pid (prekeys s)\<rparr>)))"

definition get_max_prekey_id :: "('n, 'd, 'k, 'h, 'l, 'v, u32) store_io" where
  "get_max_prekey_id =
     getE (\<lambda>s. let ids = fmdom' (prekeys (inner s)) in if ids = {} then 0 else Max ids)"

definition mark_prekeys_uploaded :: "u32 list \<Rightarrow> ('n, 'd, 'k, 'h, 'l, 'v, unit) store_io" where
  "mark_prekeys_uploaded ids = retE ()"

definition store_signed_prekey ::
  "('n, 'd, 'k) platform \<Rightarrow> u32 \<Rightarrow> bytes \<Rightarrow> ('n, 'd, 'k, 'h, 'l, 'v, unit) store_io" where
  "store_signed_prekey p pid rec =
     bindE write_operation (\<lambda>_.
     bindE (getE inner) (\<lambda>s.
     bindE (liftE (ensure_insert_capacity (hm_contains (signed_prekeys s) pid) (hm_len (signed_prekeys s))
              MAX_SIGNED_PREKEYS ''signed prekey'')) (\<lambda>_.
     bindE (run (put_record p Signed_Prekeys (u32_to_le pid) rec ''signed prekey'' MAX_SIGNED_PREKEYS)) (\<lambda>_.
     with_inner (\<lambda>s. s\<lparr>signed_prekeys := fmupd pid rec (signed_prekeys s)\<rparr>)))))"

definition load_signed_prekey :: "u32 \<Rightarrow> ('n, 'd, 'k, 'h, 'l, 'v, bytes option) store_io" where
  "load_signed_prekey pid = getE (\<lambda>s. fmlookup (signed_prekeys (inner s)) pid)"

text \<open>All pairs, in the unspecified order of the hash map: the map itself.\<close>

definition load_all_signed_prekeys :: "('n, 'd, 'k, 'h, 'l, 'v, (u32, bytes) hashmap) store_io" where
  "load_all_signed_prekeys = getE (\<lambda>s. signed_prekeys (inner s))"

definition remove_signed_prekey ::
  "('n, 'd, 'k) platform \<Rightarrow> u32 \<Rightarrow> ('n, 'd, 'k, 'h, 'l, 'v, unit) store_io" where
  "remove_signed_prekey p pid =
     bindE write_operation (\<lambda>_.
     bindE (run (delete_record p Signed_Prekeys (u32_to_le pid) ''signed prekey'')) (\<lambda>_.
     with_inner (\<lambda>s. s\<lparr>signed_prekeys := fmdrop pid (signed_prekeys s)\<rparr>)))"

definition put_sender_key ::
  "('n, 'd, 'k) platform \<Rightarrow> str \<Rightarrow> bytes \<Rightarrow> ('n, 'd, 'k, 'h, 'l, 'v, unit) store_io" where
  "put_sender_key p address rec =
     bindE write_operation (\<lambda>_.
     bindE (getE inner) (\<lambda>s.
     bindE (liftE (ensure_insert_capacity (hm_contains (sender_keys s) address) (hm_len (sender_keys s))
              MAX_SENDER_KEYS ''sender key'')) (\<lambda>_.
     bindE (run (put_record p Sender_Keys (as_bytes address) rec ''sender key'' MAX_SENDER_KEYS)) (\<lambda>_.
     with_inner (\<lambda>s. s\<lparr>sender_keys := fmupd address rec (sender_keys s)\<rparr>)))))"

definition get_sender_key :: "str \<Rightarrow> ('n, 'd, 'k, 'h, 'l, 'v, bytes option) store_io" where
  "get_sender_key address = getE (\<lambda>s. fmlookup (sender_keys (inner s)) address)"

definition delete_sender_key ::
  "('n, 'd, 'k) platform \<Rightarrow> str \<Rightarrow> ('n, 'd, 'k, 'h, 'l, 'v, unit) store_io" where
  "delete_sender_key p address =
     bindE write_operation (\<lambda>_.
     bindE (run (delete_record p Sender_Keys (as_bytes address) ''sender key'')) (\<lambda>_.
     with_inner (\<lambda>s. s\<lparr>sender_keys := fmdrop address (sender_keys s)\<rparr>)))"

section \<open>\<open>AppSyncStore\<close>: the persisted keys\<close>

definition get_sync_key ::
  "('n, 'd, 'k) platform \<Rightarrow> bytes \<Rightarrow> ('n, 'd, 'k, 'h, 'l, 'v, 'k option) store_io" where
  "get_sync_key p key_id = (\<lambda>s.
     case fmlookup (sync_keys (inner s)) key_id of
       Some key \<Rightarrow>
         (Inr (Some key),
          s\<lparr>inner := (inner s)\<lparr>sync_key_order := lru_touched (sync_key_order (inner s)) key_id\<rparr>\<rparr>)
     | None \<Rightarrow>
         bindE (run (load_sync_key p key_id)) (\<lambda>payload.
         bindE (case payload of
                  Some key \<Rightarrow> with_inner (mirror_sync_key (has_psram p) key_id key)
                | None \<Rightarrow> retE ()) (\<lambda>_.
         retE payload)) s)"

definition set_sync_key ::
  "('n, 'd, 'k) platform \<Rightarrow> bytes \<Rightarrow> 'k \<Rightarrow> ('n, 'd, 'k, 'h, 'l, 'v, unit) store_io" where
  "set_sync_key p key_id key =
     bindE write_operation (\<lambda>_.
     bindE (getE inner) (\<lambda>s.
     bindE (liftE (ensure_insert_capacity (hm_contains (sync_keys s) key_id) (hm_len (sync_keys s))
              MAX_SYNC_KEYS ''sync key'')) (\<lambda>_.
     case sync_key_to_json p key of
       None \<Rightarrow> throwE Serialization
     | Some payload \<Rightarrow>
         bindE (run
           (bindE (prepare_record p Sync_Keys key_id payload ''sync key'' MAX_SYNC_KEYS) (\<lambda>(name, rec).
            bindE (save_latest_sync_key_id p key_id) (\<lambda>_.
            on_driver (set_blob (nvs p) Sync_Keys name rec))))) (\<lambda>_.
         with_inner (\<lambda>s. mirror_sync_key (has_psram p) key_id key
                           (s\<lparr>latest_sync_key_id := Some key_id\<rparr>))))))"

definition get_latest_sync_key_id :: "('n, 'd, 'k, 'h, 'l, 'v, bytes option) store_io" where
  "get_latest_sync_key_id = getE (\<lambda>s. latest_sync_key_id (inner s))"

section \<open>\<open>DeviceStore\<close>\<close>

definition save :: "('n, 'd, 'k) platform \<Rightarrow> 'd \<Rightarrow> ('n, 'd, 'k, 'h, 'l, 'v, unit) store_io" where
  "save p dev =
     bindE write_operation (\<lambda>_.
     bindE (run (save_device p dev)) (\<lambda>_.
     with_inner (\<lambda>s. s\<lparr>device := Some dev\<rparr>)))"

definition load :: "('n, 'd, 'k, 'h, 'l, 'v, 'd option) store_io" where
  "load = getE (\<lambda>s. device (inner s))"

definition exists_device :: "('n, 'd, 'k, 'h, 'l, 'v, bool) store_io" where
  "exists_device = getE (\<lambda>s. device (inner s) \<noteq> None)"

text \<open>The counter is an \<open>i32\<close>; release builds wrap.\<close>

definition create :: "('n, 'd, 'k, 'h, 'l, 'v, 32 word) store_io" where
  "create =
     bindE write_operation (\<lambda>_.
     bindE (with_inner (\<lambda>s. s\<lparr>device_id_counter := device_id_counter s + 1\<rparr>)) (\<lambda>_.
     getE (\<lambda>s. device_id_counter (inner s))))"

end
