(* ===== verification/Nvs_Open.thy ===== *)
theory Nvs_Open
  imports Nvs_Store
begin

text \<open>
  \<open>NvsStore::open\<close> of \<open>src/storage.rs\<close>: finishing an interrupted reset, replaying the
  namespaces into the RAM mirrors, choosing the latest sync key, and discarding Signal
  records that belong to no device. The partition is initialised by ESP-IDF; its answer is
  the argument \<open>init\<close>.
\<close>

section \<open>Errors\<close>

datatype open_error =
    PartitionNeedsRepair esp_err
  | StoreErr store_error
  | TooManyEntries str nat nat
  | KeyErr key_error
  | IdentityLength str nat
  | Duplicate str
  | InvalidSyncKey

type_synonym ('n, 'a) open_io = "('n flash_namespaces, open_error, 'a) io"

section \<open>Streaming a namespace\<close>

fun visit_names ::
  "('n, 'd, 'k) platform \<Rightarrow> ns \<Rightarrow> str \<Rightarrow> nat \<Rightarrow> (bytes \<Rightarrow> bytes \<Rightarrow> 'acc \<Rightarrow> open_error + 'acc) \<Rightarrow>
   str list \<Rightarrow> 'acc \<Rightarrow> ('n, 'acc) open_io" where
  "visit_names p ns label max_value_len visit [] acc = retE acc"
| "visit_names p ns label max_value_len visit (name # names) acc =
     bindE (map_errE StoreErr (load_named p ns label max_value_len name)) (\<lambda>(key, value).
     bindE (liftE (visit key value acc)) (\<lambda>acc'.
     visit_names p ns label max_value_len visit names acc'))"

definition visit_records ::
  "('n, 'd, 'k) platform \<Rightarrow> ns \<Rightarrow> str \<Rightarrow> nat \<Rightarrow> nat \<Rightarrow>
   (bytes \<Rightarrow> bytes \<Rightarrow> 'acc \<Rightarrow> open_error + 'acc) \<Rightarrow> 'acc \<Rightarrow> ('n, 'acc) open_io" where
  "visit_records p ns label max_entries max_value_len visit acc =
     bindE (map_errE StoreErr (on_driver (record_names (nvs p) ns))) (\<lambda>names.
     bindE (failE_if (length names > max_entries) (TooManyEntries label (length names) max_entries)) (\<lambda>_.
     visit_names p ns label max_value_len visit names acc))"

section \<open>One record of each namespace\<close>

type_synonym ('d, 'k, 'h, 'l, 'v) visitor =
  "bytes \<Rightarrow> bytes \<Rightarrow> ('d, 'k, 'h, 'l, 'v) store_inner \<Rightarrow> open_error + ('d, 'k, 'h, 'l, 'v) store_inner"

definition visit_identity :: "bool \<Rightarrow> ('d, 'k, 'h, 'l, 'v) visitor" where
  "visit_identity psram key value si =
     (case decode_string_key key ''identity'' of
        Inl e \<Rightarrow> Inl (KeyErr e)
      | Inr address \<Rightarrow>
          if length value \<noteq> 32 then Inl (IdentityLength address (length value))
          else if hm_contains (identities si) address then Inl (Duplicate ''identity'')
          else Inr (mirror_identity psram address value si))"

definition visit_session :: "bool \<Rightarrow> ('d, 'k, 'h, 'l, 'v) visitor" where
  "visit_session psram key value si =
     (case decode_string_key key ''session'' of
        Inl e \<Rightarrow> Inl (KeyErr e)
      | Inr address \<Rightarrow>
          if hm_contains (sessions si) address then Inl (Duplicate ''session'')
          else Inr (mirror_session psram address value si))"

definition replay_prekey :: "bytes \<times> bytes \<Rightarrow> (u32, bytes) hashmap \<Rightarrow> open_error + (u32, bytes) hashmap" where
  "replay_prekey kv m =
     (case decode_u32_key (fst kv) ''prekey'' of
        Inl e \<Rightarrow> Inl (KeyErr e)
      | Inr n \<Rightarrow> if hm_contains m n then Inl (Duplicate ''prekey'') else Inr (fmupd n (snd kv) m))"

definition replay_signed_prekey ::
  "bytes \<times> bytes \<Rightarrow> (u32, bytes) hashmap \<Rightarrow> open_error + (u32, bytes) hashmap" where
  "replay_signed_prekey kv m =
     (case decode_u32_key (fst kv) ''signed prekey'' of
        Inl e \<Rightarrow> Inl (KeyErr e)
      | Inr n \<Rightarrow> if hm_contains m n then Inl (Duplicate ''signed-prekey'') else Inr (fmupd n (snd kv) m))"

definition replay_sender_key ::
  "bytes \<times> bytes \<Rightarrow> (str, bytes) hashmap \<Rightarrow> open_error + (str, bytes) hashmap" where
  "replay_sender_key kv m =
     (case decode_string_key (fst kv) ''sender key'' of
        Inl e \<Rightarrow> Inl (KeyErr e)
      | Inr a \<Rightarrow> if hm_contains m a then Inl (Duplicate ''sender-key'') else Inr (fmupd a (snd kv) m))"

text \<open>The \<open>for\<close> loop over the records that \<open>load_records\<close> returned.\<close>

fun replay_all :: "('r \<Rightarrow> 'm \<Rightarrow> open_error + 'm) \<Rightarrow> 'r list \<Rightarrow> 'm \<Rightarrow> open_error + 'm" where
  "replay_all f [] m = Inr m"
| "replay_all f (r # rs) m = (case f r m of Inl e \<Rightarrow> Inl e | Inr m' \<Rightarrow> replay_all f rs m')"

text \<open>
  The visitor of the sync keys also tracks the newest key by timestamp, and caps the mirror
  sparing that one.
\<close>

definition visit_sync_key ::
  "('n, 'd, 'k) platform \<Rightarrow> bytes \<Rightarrow> bytes \<Rightarrow>
   bytes option \<times> ('d, 'k, 'h, 'l, 'v) store_inner \<Rightarrow>
   open_error + (bytes option \<times> ('d, 'k, 'h, 'l, 'v) store_inner)" where
  "visit_sync_key p key_id value acc =
     (let (timestamp_latest, si) = acc in
      case sync_key_from_json p value of
        None \<Rightarrow> Inl InvalidSyncKey
      | Some key \<Rightarrow>
          let newer = (case Option.bind timestamp_latest (fmlookup (sync_keys si)) of
                         None \<Rightarrow> True
                       | Some latest \<Rightarrow> sync_key_timestamp p key \<ge> sync_key_timestamp p latest);
              timestamp_latest = (if newer then Some key_id else timestamp_latest)
          in if hm_contains (sync_keys si) key_id then Inl (Duplicate ''sync-key'')
             else Inr (timestamp_latest,
                       enforce_sync_keys_cap_except (has_psram p) timestamp_latest
                         (si\<lparr>sync_keys := fmupd key_id key (sync_keys si),
                                sync_key_order := lru_touched (sync_key_order si) key_id\<rparr>)))"

section \<open>The latest sync key\<close>

text \<open>Read the recorded id, and load its key when the capped mirror has dropped it.\<close>

definition recorded_latest ::
  "('n, 'd, 'k) platform \<Rightarrow> ('d, 'k, 'h, 'l, 'v) store_inner \<Rightarrow>
   ('n, bytes option \<times> ('d, 'k, 'h, 'l, 'v) store_inner) open_io" where
  "recorded_latest p si = (\<lambda>f.
     case load_latest_sync_key_id p f of
       (r, f1) \<Rightarrow>
         (let recorded = (case r of Inl _ \<Rightarrow> None | Inr recorded \<Rightarrow> recorded) in
          case recorded of
            None \<Rightarrow> (Inr (None, si), f1)
          | Some key_id \<Rightarrow>
              if hm_contains (sync_keys si) key_id then (Inr (recorded, si), f1)
              else
                (case load_sync_key p key_id f1 of
                   (Inr (Some key), f2) \<Rightarrow>
                     (Inr (recorded, si\<lparr>sync_keys := fmupd key_id key (sync_keys si),
                                           sync_key_order := lru_touched (sync_key_order si) key_id\<rparr>), f2)
                 | (_, f2) \<Rightarrow> (Inr (recorded, si), f2))))"

definition settle_latest ::
  "bool \<Rightarrow> bytes option \<Rightarrow> bytes option \<Rightarrow> ('d, 'k, 'h, 'l, 'v) store_inner \<Rightarrow> ('d, 'k, 'h, 'l, 'v) store_inner" where
  "settle_latest psram recorded timestamp_latest si =
     (let recorded = (case recorded of
                        Some key_id \<Rightarrow> if hm_contains (sync_keys si) key_id then Some key_id else None
                      | None \<Rightarrow> None);
          latest = (case recorded of Some key_id \<Rightarrow> Some key_id | None \<Rightarrow> timestamp_latest);
          si = si\<lparr>latest_sync_key_id := latest\<rparr>
      in if \<not> psram \<and> hm_len (sync_keys si) > 8
         then si\<lparr>sync_keys := hm_retain (\<lambda>k _. Some k = latest) (sync_keys si),
                    sync_key_order :=
                      (case latest of None \<Rightarrow> lru_clear (sync_key_order si)
                       | Some key_id \<Rightarrow> lru_touched (lru_clear (sync_key_order si)) key_id)\<rparr>
         else si)"

section \<open>\<open>NvsStore::open\<close>\<close>

definition replay :: "('n, 'd, 'k) platform \<Rightarrow> ('d, 'k, 'h, 'l, 'v) store_inner \<Rightarrow>
    ('n, ('d, 'k, 'h, 'l, 'v) store_inner) open_io" where
  "replay p inner0 =
     bindE (visit_records p Identities ''identity'' MAX_IDENTITIES 32
              (visit_identity (has_psram p)) inner0) (\<lambda>si.
     bindE (visit_records p Sessions ''session'' MAX_SESSIONS MAX_SIGNAL_RECORD_LEN
              (visit_session (has_psram p)) si) (\<lambda>si.
     bindE (map_errE StoreErr (load_records p Prekeys ''prekey'' MAX_PREKEYS MAX_SIGNAL_RECORD_LEN)) (\<lambda>kvs.
     bindE (liftE (replay_all replay_prekey kvs (prekeys si))) (\<lambda>pks.
     bindE (map_errE StoreErr
              (load_records p Signed_Prekeys ''signed prekey'' MAX_SIGNED_PREKEYS MAX_SIGNAL_RECORD_LEN)) (\<lambda>kvs.
     bindE (liftE (replay_all replay_signed_prekey kvs (signed_prekeys si))) (\<lambda>spks.
     bindE (map_errE StoreErr
              (load_records p Sender_Keys ''sender key'' MAX_SENDER_KEYS MAX_SIGNAL_RECORD_LEN)) (\<lambda>kvs.
     bindE (liftE (replay_all replay_sender_key kvs (sender_keys si))) (\<lambda>sks.
     bindE (visit_records p Sync_Keys ''sync key'' MAX_SYNC_KEYS MAX_SIGNAL_RECORD_LEN
              (visit_sync_key p)
              (None, si\<lparr>prekeys := pks, signed_prekeys := spks, sender_keys := sks\<rparr>)) (\<lambda>(timestamp_latest, si).
     bindE (recorded_latest p si) (\<lambda>(recorded, si).
     retE (settle_latest (has_psram p) recorded timestamp_latest si)))))))))))"

definition open_store ::
  "('n, 'd, 'k) platform \<Rightarrow> esp_err option \<Rightarrow> 'n \<Rightarrow>
   (open_error + ('n, 'd, 'k, 'h, 'l, 'v) nvs_store) \<times> 'n flash_namespaces" where
  "open_store p init n =
     (let fl = \<lparr>driver = n, validated_sessions = slots_default\<rparr> in
      case init of
        Some error \<Rightarrow> (Inl (PartitionNeedsRepair error), fl)
      | None \<Rightarrow>
          (case
            (bindE (map_errE StoreErr (reset_pending p)) (\<lambda>pending.
             bindE (if pending then map_errE StoreErr (complete_reset p) else retE ()) (\<lambda>_.
             bindE (map_errE StoreErr (load_device p)) (\<lambda>dev.
             let si = inner_default\<lparr>device := dev\<rparr> in
             if dev \<noteq> None then replay p si
             else
               bindE (map_errE StoreErr (has_signal_records p)) (\<lambda>orphans.
               bindE (if orphans then map_errE StoreErr (erase_signal p) else retE ()) (\<lambda>_.
               retE si)))))) fl of
             (Inl e, f) \<Rightarrow> (Inl e, f)
           | (Inr si, f) \<Rightarrow>
               (Inr \<lparr>inner = si, flash = f, accepting_writes = True, worker_alive = True\<rparr>, f)))"

end
