(* ===== verification/Nvs_Driver.thy ===== *)
theory Nvs_Driver
  imports Nvs_Flash
begin

text \<open>
  What the flash layer relies on from the ESP-IDF NVS driver (locale \<open>nvs_driver\<close>), what
  its blob helpers then guarantee, and the table of logical keys and values that the
  record layer keeps on flash (\<open>table_of\<close>): \<open>load_record\<close>, \<open>put_record\<close> and
  \<open>delete_record\<close> are lookup, insert and delete on it, whatever the driver does.
\<close>

section \<open>The contract of the driver\<close>

text \<open>
  \<open>blobs n ns\<close> is the content of a namespace. Reads change nothing. A successful write
  has its documented effect and touches nothing else; a failed write may or may not have
  happened (ESP-IDF documents that a value can be written although the call reports that
  the old copy was not removed). An erase only ever removes: its success is not trusted
  to mean that everything is gone, which is why \<open>erase_namespace\<close> verifies it. Power loss
  is covered by the failed outcomes: what a run leaves on flash when it stops early is what
  it leaves when every later call fails without effect.
\<close>

locale nvs_driver =
  fixes api :: "'n nvs_api" and blobs :: "'n \<Rightarrow> ns \<Rightarrow> (str, bytes) hashmap"
  assumes blob_len_pure: "nvs_blob_len api ns k n = (r, n') \<Longrightarrow> blobs n' = blobs n"
    and blob_len_ok:
      "nvs_blob_len api ns k n = (Inr l, n') \<Longrightarrow> l = map_option length (fmlookup (blobs n ns) k)"
    and get_blob_pure: "nvs_get_blob api ns k len n = (rg, n') \<Longrightarrow> blobs n' = blobs n"
    and get_blob_ok:
      "nvs_get_blob api ns k len n = (Inr d, n') \<Longrightarrow> d = fmlookup (blobs n ns) k"
    and keys_pure: "nvs_keys api ns n = (rk, n') \<Longrightarrow> blobs n' = blobs n"
    and keys_ok:
      "nvs_keys api ns n = (Inr ks, n') \<Longrightarrow> distinct ks \<and> set ks = fmdom' (blobs n ns)"
    and commit_pure: "nvs_commit api ns n = (rc, n') \<Longrightarrow> blobs n' = blobs n"
    and set_blob_ok:
      "nvs_set_blob api ns k v n = (Inr u, n') \<Longrightarrow>
       blobs n' = (blobs n)(ns := fmupd k v (blobs n ns))"
    and set_blob_err:
      "nvs_set_blob api ns k v n = (Inl e, n') \<Longrightarrow>
       blobs n' = blobs n \<or> blobs n' = (blobs n)(ns := fmupd k v (blobs n ns))"
    and remove_ok:
      "nvs_remove api ns k n = (Inr b, n') \<Longrightarrow> blobs n' = (blobs n)(ns := fmdrop k (blobs n ns))"
    and remove_err:
      "nvs_remove api ns k n = (Inl e, n') \<Longrightarrow>
       blobs n' = blobs n \<or> blobs n' = (blobs n)(ns := fmdrop k (blobs n ns))"
    and erase_shrinks:
      "nvs_erase_all api ns n = (re, n') \<Longrightarrow>
       \<exists>m. blobs n' = (blobs n)(ns := m) \<and> m \<subseteq>\<^sub>f blobs n ns"
begin

lemmas pure_calls = blob_len_pure get_blob_pure keys_pure commit_pure

lemma blob_len_okD:
  "nvs_blob_len api ns k n = (Inr l, n') \<Longrightarrow>
   blobs n' = blobs n \<and> l = map_option length (fmlookup (blobs n ns) k)"
  using blob_len_pure blob_len_ok by blast

lemma get_blob_okD:
  "nvs_get_blob api ns k len n = (Inr d, n') \<Longrightarrow> blobs n' = blobs n \<and> d = fmlookup (blobs n ns) k"
  using get_blob_pure get_blob_ok by blast

lemma commit_blobs: "commit api ns n = (r, n') \<Longrightarrow> blobs n' = blobs n"
  by (auto simp: commit_def map_errE_def split: prod.splits sum.splits dest: commit_pure)

lemma read_blob_blobs: "read_blob api ns k len n = (r, n') \<Longrightarrow> blobs n' = blobs n"
  by (auto simp: read_blob_def bindE_def map_errE_def failE_if_def
      split: prod.splits sum.splits option.splits if_splits dest!: pure_calls)

lemma read_blob_ok:
  assumes "read_blob api ns k len n = (Inr d, n')"
  shows "d = fmlookup (blobs n ns) k" and "d = Some b \<Longrightarrow> length b \<le> len"
proof -
  have "d = fmlookup (blobs n ns) k \<and> (\<forall>b. fmlookup (blobs n ns) k = Some b \<longrightarrow> length b \<le> len)"
    using assms
    by (auto simp: read_blob_def bindE_def map_errE_def failE_if_def
        split: prod.splits sum.splits option.splits if_splits
        dest!: blob_len_okD get_blob_okD)
  then show "d = fmlookup (blobs n ns) k" and "d = Some b \<Longrightarrow> length b \<le> len" by auto
qed

lemma record_names_blobs: "record_names api ns n = (r, n') \<Longrightarrow> blobs n' = blobs n"
  by (auto simp: record_names_def map_errE_def split: prod.splits sum.splits dest: keys_pure)

lemma record_names_ok:
  "record_names api ns n = (Inr ks, n') \<Longrightarrow> distinct ks \<and> set ks = fmdom' (blobs n ns)"
  by (auto simp: record_names_def map_errE_def split: prod.splits sum.splits dest: keys_ok)

lemma record_count_blobs: "record_count api ns n = (r, n') \<Longrightarrow> blobs n' = blobs n"
  by (auto simp: record_count_def bindE_def map_errE_def split: prod.splits sum.splits
      dest: keys_pure)

lemma record_count_ok:
  assumes "record_count api ns n = (Inr c, n')"
  shows "c = hm_len (blobs n ns)"
proof -
  from assms obtain ks where "nvs_keys api ns n = (Inr ks, n')" and "c = length ks"
    by (auto simp: record_count_def bindE_def map_errE_def split: prod.splits sum.splits)
  then show ?thesis using keys_ok by (metis distinct_card fmdom'_card)
qed

lemma set_blob_effect:
  assumes "set_blob api ns k v n = (r, n')"
  shows "blobs n' = blobs n \<or> blobs n' = (blobs n)(ns := fmupd k v (blobs n ns))"
    and "r = Inr () \<Longrightarrow> blobs n' = (blobs n)(ns := fmupd k v (blobs n ns))"
  using assms
  by (auto simp: set_blob_def bindE_def map_errE_def split: prod.splits sum.splits if_splits
      dest!: commit_blobs dest: set_blob_ok set_blob_err)

lemma remove_blob_effect:
  assumes "remove_blob api ns k n = (r, n')"
  shows "blobs n' = blobs n \<or> blobs n' = (blobs n)(ns := fmdrop k (blobs n ns))"
    and "r = Inr () \<Longrightarrow> blobs n' = (blobs n)(ns := fmdrop k (blobs n ns))"
proof -
  show "blobs n' = blobs n \<or> blobs n' = (blobs n)(ns := fmdrop k (blobs n ns))"
    using assms
    by (auto simp: remove_blob_def bindE_def map_errE_def
        split: prod.splits sum.splits if_splits
        dest!: commit_blobs blob_len_pure dest: remove_ok remove_err)
  show "blobs n' = (blobs n)(ns := fmdrop k (blobs n ns))" if "r = Inr ()"
    using assms that
    by (auto simp: remove_blob_def bindE_def map_errE_def fmdrop_idle fmdom_notI fun_upd_idem
        split: prod.splits sum.splits if_splits
        dest!: commit_blobs blob_len_okD remove_ok)
qed

lemma erase_attempts_effect:
  assumes "erase_attempts api ns label i le n = (r, n')"
  shows "\<exists>m. blobs n' = (blobs n)(ns := m) \<and> m \<subseteq>\<^sub>f blobs n ns \<and> (r = Inr () \<longrightarrow> m = fmempty)"
  using assms
proof (induction i arbitrary: le n)
  case 0
  then show ?case by (intro exI [of _ "blobs n ns"]) (auto simp: fmsubset_def)
next
  case (Suc i)
  obtain e n1 where er: "nvs_erase_all api ns n = (e, n1)" by fastforce
  then obtain m where m: "blobs n1 = (blobs n)(ns := m)" "m \<subseteq>\<^sub>f blobs n ns"
    using erase_shrinks by blast
  obtain w n2 where wk: "record_names api ns n1 = (w, n2)" by fastforce
  then have b2: "blobs n2 = blobs n1" by (rule record_names_blobs)
  have again: ?case
    if "erase_attempts api ns label i l' x = (r, n')" and "blobs x = blobs n1" for l' x
  proof -
    from Suc.IH [OF that(1)] obtain m' where "blobs n' = (blobs x)(ns := m')"
      and "m' \<subseteq>\<^sub>f blobs x ns" and "r = Inr () \<longrightarrow> m' = fmempty" by blast
    then show ?thesis using m that(2)
      by (intro exI [of _ m']) (auto simp: fmsubset_def intro: map_le_trans)
  qed
  show ?case
  proof (cases "\<exists>u. e = Inr u \<and> w = Inr []")
    case True
    then have "fmdom' (blobs n1 ns) = {}" using wk record_names_ok by fastforce
    then have "m = fmempty" using m(1) by (simp add: fmap_ext fmdom'_notD)
    then show ?thesis using True Suc.prems er wk m b2
      by (intro exI [of _ fmempty]) (auto simp: map_errE_def)
  next
    case False
    then have "\<exists>l' x. erase_attempts api ns label i l' x = (r, n') \<and> blobs x = blobs n1"
      using Suc.prems er wk b2 by (auto simp: map_errE_def split: sum.splits if_splits)
    then show ?thesis using again by blast
  qed
qed

lemma erase_namespace_effect:
  assumes "erase_namespace api ns label n = (r, n')"
  shows "\<exists>m. blobs n' = (blobs n)(ns := m) \<and> m \<subseteq>\<^sub>f blobs n ns \<and> (r = Inr () \<longrightarrow> m = fmempty)"
  using erase_attempts_effect assms by (simp add: erase_namespace_def)

end

end
