(* ===== verification/Flash_Table.thy ===== *)
theory Flash_Table
  imports Nvs_Driver
begin

text \<open>
  The record layer as a table. \<open>table_of\<close> reads a namespace as a map from logical keys to
  values; in the locale \<open>flash_platform\<close>, over any driver that keeps its contract,
  \<open>load_record\<close>, \<open>put_record\<close> and \<open>delete_record\<close> are lookup, insert and delete on that
  map, the cached session slots never disagree with flash, and a namespace never outgrows
  its limit.
\<close>

section \<open>The table a namespace holds\<close>

definition record_layout :: "bytes \<Rightarrow> bytes \<Rightarrow> bytes" where
  "record_layout k v = RECORD_MAGIC @ le_bytes 2 (length k) @ k @ v"

definition rec_owner :: "(str, bytes) hashmap \<Rightarrow> str \<Rightarrow> bytes option" where
  "rec_owner m name =
     (case fmlookup m name of
        None \<Rightarrow> None
      | Some rec \<Rightarrow> (case decode_record rec of Inl _ \<Rightarrow> None | Inr (k, _) \<Rightarrow> Some k))"

definition table_of :: "(bytes \<Rightarrow> bytes) \<Rightarrow> (str, bytes) hashmap \<Rightarrow> bytes \<Rightarrow> bytes option" where
  "table_of sha m k =
     (case fmlookup m (record_name sha k) of
        None \<Rightarrow> None
      | Some rec \<Rightarrow>
          (case decode_record rec of
             Inl _ \<Rightarrow> None
           | Inr (k', v) \<Rightarrow> if k' = k then Some v else None))"

text \<open>A slot a record of \<open>k\<close> may be written to: its own, or a free one within the limit.\<close>

definition slot_ready :: "(str, bytes) hashmap \<Rightarrow> str \<Rightarrow> bytes \<Rightarrow> nat \<Rightarrow> bool" where
  "slot_ready m name k limit =
     (case fmlookup m name of
        None \<Rightarrow> hm_len m < limit
      | Some rec \<Rightarrow> (case decode_record rec of Inl _ \<Rightarrow> False | Inr (k', _) \<Rightarrow> k' = k))"

lemma decode_layout [simp]:
  "length k \<le> MAX_LOGICAL_KEY_LEN \<Longrightarrow> decode_record (record_layout k v) = Inr (k, v)"
  by (simp add: record_layout_def decode_record_layout)

lemma encode_record_layout: "encode_record h k v = Inr r \<Longrightarrow> r = record_layout k v"
  by (simp add: encode_record_Inr_iff record_layout_def)

lemma rec_owner_layout:
  "length k \<le> MAX_LOGICAL_KEY_LEN \<Longrightarrow>
   rec_owner (fmupd name (record_layout k v) m) = (rec_owner m)(name := Some k)"
  by (auto simp: rec_owner_def fun_eq_iff)

lemma table_of_upd:
  assumes "length k \<le> MAX_LOGICAL_KEY_LEN" and "slot_ready m (record_name sha k) k limit"
  shows "table_of sha (fmupd (record_name sha k) (record_layout k v) m) = (table_of sha m)(k \<mapsto> v)"
proof
  fix j
  show "table_of sha (fmupd (record_name sha k) (record_layout k v) m) j = ((table_of sha m)(k \<mapsto> v)) j"
  proof (cases "j = k")
    case True
    then show ?thesis using assms(1) by (simp add: table_of_def)
  next
    case False
    with assms show ?thesis
      by (auto simp: table_of_def slot_ready_def split: option.splits sum.splits)
  qed
qed

lemma table_of_drop:
  assumes "\<And>rec. fmlookup m (record_name sha k) = Some rec \<Longrightarrow> \<exists>v. decode_record rec = Inr (k, v)"
  shows "table_of sha (fmdrop (record_name sha k) m) = (table_of sha m)(k := None)"
proof
  fix j
  show "table_of sha (fmdrop (record_name sha k) m) j = ((table_of sha m)(k := None)) j"
    using assms by (cases "j = k"; cases "record_name sha j = record_name sha k")
      (fastforce simp: table_of_def split: option.splits sum.splits)+
qed

lemma slot_ready_owner:
  "slot_ready m name k limit \<Longrightarrow> rec_owner m name = None \<or> rec_owner m name = Some k"
  by (auto simp: slot_ready_def rec_owner_def split: option.splits sum.splits)

lemma owner_slot_ready: "rec_owner m name = Some k \<Longrightarrow> slot_ready m name k limit"
  by (auto simp: slot_ready_def rec_owner_def split: option.splits sum.splits)

lemma slot_ready_len:
  "slot_ready m name k limit \<Longrightarrow> hm_len m \<le> limit \<Longrightarrow> hm_len (fmupd name r m) \<le> limit"
  by (auto simp: slot_ready_def hm_len_upd hm_contains_def split: option.splits)

section \<open>Running on the driver\<close>

lemma on_driverE:
  assumes "on_driver m s = (r, s')"
  obtains n where "m (driver s) = (r, n)" and "s' = s\<lparr>driver := n\<rparr>"
  using assms by (auto simp: on_driver_def split: prod.splits)

lemma on_driver_apply: "m (driver s) = (r, n) \<Longrightarrow> on_driver m s = (r, s\<lparr>driver := n\<rparr>)"
  by (simp add: on_driver_def)

locale flash_platform = nvs_driver "nvs p" blobs
  for p :: "('n, 'd, 'k) platform" and blobs
begin

text \<open>The content of the flash, and the invariant that ties the cached slots to it.\<close>

definition content :: "'n flash_namespaces \<Rightarrow> ns \<Rightarrow> (str, bytes) hashmap" where
  "content s = blobs (driver s)"

definition table :: "'n flash_namespaces \<Rightarrow> ns \<Rightarrow> bytes \<Rightarrow> bytes option" where
  "table s ns = table_of (sha256 p) (content s ns)"

definition slots_sound :: "'n flash_namespaces \<Rightarrow> bool" where
  "slots_sound s \<longleftrightarrow> slots.sound_for (rec_owner (content s Sessions)) (validated_sessions s)"

lemma content_upd [simp]: "content (s\<lparr>driver := n\<rparr>) = blobs n"
  "content (s\<lparr>validated_sessions := c\<rparr>) = content s"
  by (simp_all add: content_def)

lemma slots_sound_driver:
  "slots_sound s \<Longrightarrow>
   (\<And>name k. rec_owner (content s Sessions) name = Some k \<Longrightarrow> rec_owner (blobs n Sessions) name = Some k) \<Longrightarrow>
   slots_sound (s\<lparr>driver := n\<rparr>)"
  by (auto simp: slots_sound_def intro: slots.sound_mono)

lemma remember_effect:
  assumes "remember_session_slot ns name k s = (r, s')"
  shows "r = Inr ()" and "content s' = content s"
    and "slots_sound s \<Longrightarrow> rec_owner (content s ns) name = Some k \<Longrightarrow> slots_sound s'"
  using assms
  by (auto simp: remember_session_slot_def slots_sound_def slots.sound_remember split: if_splits)

lemma clear_effect:
  assumes "clear_session_slots s = (r, s')"
  shows "r = Inr ()" and "content s' = content s" and "slots_sound s'"
  using assms by (auto simp: clear_session_slots_def slots_sound_def slots.sound_clear)

text \<open>\<open>load_record\<close> never changes flash, and what it returns is the table's entry.\<close>

lemma load_record_effect:
  assumes "load_record p ns k len s = (r, s')"
  shows "content s' = content s" and "slots_sound s \<Longrightarrow> slots_sound s'"
    and "r = Inr d \<Longrightarrow> d = table s ns k"
proof -
  let ?name = "record_name (sha256 p) k"
  obtain b n where rd: "read_blob (nvs p) ns ?name (RECORD_HEADER_LEN + MAX_LOGICAL_KEY_LEN + len) (driver s) = (b, n)"
    by fastforce
  have bl: "blobs n = content s" using read_blob_blobs [OF rd] by (simp add: content_def)
  have od: "on_driver (read_blob (nvs p) ns ?name (RECORD_HEADER_LEN + MAX_LOGICAL_KEY_LEN + len)) s
      = (b, s\<lparr>driver := n\<rparr>)" using rd by (rule on_driver_apply)
  have all: "content s' = content s \<and> (slots_sound s \<longrightarrow> slots_sound s') \<and>
      (\<forall>d. r = Inr d \<longrightarrow> d = table s ns k)"
  proof (cases "\<exists>rec v. b = Inr (Some rec) \<and> decode_record rec = Inr (k, v) \<and> length v \<le> len")
    case True
    then obtain rec v where b: "b = Inr (Some rec)" and dec: "decode_record rec = Inr (k, v)"
      and lv: "length v \<le> len" by blast
    from b have look: "fmlookup (content s ns) ?name = Some rec"
      using read_blob_ok [OF rd [unfolded b]] by (simp add: content_def)
    have v: "take (length v) (drop (length rec - length v) rec) = v"
      using decode_record_InrD(2) [OF dec] by simp
    obtain r' s'' where rem: "remember_session_slot ns ?name k (s\<lparr>driver := n\<rparr>) = (r', s'')"
      by fastforce
    note re = remember_effect [OF rem]
    have "r = Inr (Some v) \<and> s' = s''"
      using assms b dec lv v re(1) rem
      by (simp add: load_record_def Let_def bindE_def od)
    moreover have "table s ns k = Some v"
      using look dec by (simp add: table_def table_of_def)
    moreover have "slots_sound s \<longrightarrow> slots_sound s''"
      using re(3) look dec slots_sound_driver [of s n] bl by (auto simp: rec_owner_def)
    ultimately show ?thesis using re(2) bl by simp
  next
    case False
    then have "s' = s\<lparr>driver := n\<rparr>" and "r = Inr d \<longrightarrow> d = table s ns k" for d
      using assms read_blob_ok [of ns ?name _ "driver s"] rd
      by (auto simp: load_record_def Let_def bindE_def od table_def table_of_def
          content_def split: sum.splits option.splits if_splits)
    then show ?thesis using slots_sound_driver [of s n] bl by simp
  qed
  then show "content s' = content s" and "slots_sound s \<Longrightarrow> slots_sound s'"
    and "r = Inr d \<Longrightarrow> d = table s ns k" by blast+
qed

subsection \<open>The driver calls, seen from the namespaces\<close>

lemma slots_sound_cong:
  "content s' Sessions = content s Sessions \<Longrightarrow> validated_sessions s' = validated_sessions s \<Longrightarrow>
   slots_sound s' = slots_sound s"
  by (simp add: slots_sound_def)

lemma on_pure:
  assumes "on_driver m s = (r, s')" and "\<And>n r n'. m n = (r, n') \<Longrightarrow> blobs n' = blobs n"
  shows "content s' = content s" and "validated_sessions s' = validated_sessions s"
    and "slots_sound s' = slots_sound s"
proof -
  obtain n where m: "m (driver s) = (r, n)" and s': "s' = s\<lparr>driver := n\<rparr>"
    using assms(1) by (rule on_driverE)
  have "blobs n = blobs (driver s)" by (rule assms(2) [OF m])
  with s' show "content s' = content s" and "validated_sessions s' = validated_sessions s"
    by (simp_all add: content_def)
  then show "slots_sound s' = slots_sound s" by (intro slots_sound_cong) simp_all
qed

lemmas on_read = on_pure [of "read_blob (nvs p) ns name len" for ns name len, OF _ read_blob_blobs]
lemmas on_count = on_pure [of "record_count (nvs p) ns" for ns, OF _ record_count_blobs]
lemmas on_names = on_pure [of "record_names (nvs p) ns" for ns, OF _ record_names_blobs]
lemmas on_commit = on_pure [of "commit (nvs p) ns" for ns, OF _ commit_blobs]

lemma on_read_ok:
  assumes "on_driver (read_blob (nvs p) ns name len) s = (Inr d, s')"
  shows "d = fmlookup (content s ns) name" and "d = Some b \<Longrightarrow> length b \<le> len"
  using assms read_blob_ok unfolding content_def by (metis on_driverE)+

lemma on_count_ok:
  "on_driver (record_count (nvs p) ns) s = (Inr c, s') \<Longrightarrow> c = hm_len (content s ns)"
  using record_count_ok unfolding content_def by (metis on_driverE)

lemma on_names_ok:
  "on_driver (record_names (nvs p) ns) s = (Inr ks, s') \<Longrightarrow>
   distinct ks \<and> set ks = fmdom' (content s ns)"
  using record_names_ok unfolding content_def by (metis on_driverE)

lemma on_encode:
  assumes "on_driver (encode_recordE (nvs p) k v) s = (r, s')"
  shows "s' = s" and "r = Inr rec \<Longrightarrow> rec = record_layout k v"
    and "r = Inl e \<Longrightarrow> length k > MAX_LOGICAL_KEY_LEN \<or> e = OutOfMemory"
  using assms encode_record_layout
  by (auto simp: on_driver_def encode_recordE_def encode_record_def Let_def
      split: if_splits option.splits)

lemma on_set:
  assumes "on_driver (set_blob (nvs p) ns name v) s = (r, s')"
  shows "content s' = content s \<or> content s' = (content s)(ns := fmupd name v (content s ns))"
    and "r = Inr () \<Longrightarrow> content s' = (content s)(ns := fmupd name v (content s ns))"
    and "validated_sessions s' = validated_sessions s"
proof -
  from assms obtain n where m: "set_blob (nvs p) ns name v (driver s) = (r, n)"
    and s': "s' = s\<lparr>driver := n\<rparr>" by (rule on_driverE)
  from set_blob_effect [OF m] s'
  show "content s' = content s \<or> content s' = (content s)(ns := fmupd name v (content s ns))"
    and "r = Inr () \<Longrightarrow> content s' = (content s)(ns := fmupd name v (content s ns))"
    and "validated_sessions s' = validated_sessions s"
    by (simp_all add: content_def)
qed

lemma on_remove:
  assumes "on_driver (map_errE nvs_error (nvs_remove (nvs p) ns name)) s = (r, s')"
  shows "content s' = content s \<or> content s' = (content s)(ns := fmdrop name (content s ns))"
    and "r = Inr b \<Longrightarrow> content s' = (content s)(ns := fmdrop name (content s ns))"
    and "validated_sessions s' = validated_sessions s"
  using assms
  by (auto simp: content_def on_driver_def map_errE_def split: prod.splits sum.splits
      dest: remove_ok remove_err)

lemma on_remove_blob:
  assumes "on_driver (remove_blob (nvs p) ns name) s = (r, s')"
  shows "content s' = content s \<or> content s' = (content s)(ns := fmdrop name (content s ns))"
    and "r = Inr () \<Longrightarrow> content s' = (content s)(ns := fmdrop name (content s ns))"
    and "validated_sessions s' = validated_sessions s"
proof -
  from assms obtain n where m: "remove_blob (nvs p) ns name (driver s) = (r, n)"
    and s': "s' = s\<lparr>driver := n\<rparr>" by (rule on_driverE)
  from remove_blob_effect [OF m] s'
  show "content s' = content s \<or> content s' = (content s)(ns := fmdrop name (content s ns))"
    and "r = Inr () \<Longrightarrow> content s' = (content s)(ns := fmdrop name (content s ns))"
    and "validated_sessions s' = validated_sessions s"
    by (simp_all add: content_def)
qed

lemma on_erase:
  assumes "on_driver (erase_namespace (nvs p) ns label) s = (r, s')"
  shows "\<exists>m. content s' = (content s)(ns := m) \<and> m \<subseteq>\<^sub>f content s ns \<and> (r = Inr () \<longrightarrow> m = fmempty)"
    and "validated_sessions s' = validated_sessions s"
proof -
  from assms obtain n where m: "erase_namespace (nvs p) ns label (driver s) = (r, n)"
    and s': "s' = s\<lparr>driver := n\<rparr>" by (rule on_driverE)
  from erase_namespace_effect [OF m] s'
  show "\<exists>m. content s' = (content s)(ns := m) \<and> m \<subseteq>\<^sub>f content s ns \<and> (r = Inr () \<longrightarrow> m = fmempty)"
    and "validated_sessions s' = validated_sessions s"
    by (simp_all add: content_def)
qed

subsection \<open>Writing and deleting records\<close>

lemma check_record_slot_effect:
  assumes "check_record_slot p ns k len label limit s = (r, s')"
  shows "content s' = content s" and "slots_sound s \<Longrightarrow> slots_sound s'"
    and "slots_sound s \<Longrightarrow> r = Inr name \<Longrightarrow>
         name = record_name (sha256 p) k \<and> len \<le> MAX_SIGNAL_RECORD_LEN \<and>
         length k \<le> MAX_LOGICAL_KEY_LEN \<and> slot_ready (content s ns) name k limit"
proof -
  let ?name = "record_name (sha256 p) k"
  have *: "content s' = content s \<and> (slots_sound s \<longrightarrow> slots_sound s' \<and> (\<forall>name. r = Inr name \<longrightarrow>
         name = record_name (sha256 p) k \<and> len \<le> MAX_SIGNAL_RECORD_LEN \<and>
         length k \<le> MAX_LOGICAL_KEY_LEN \<and> slot_ready (content s ns) name k limit))"
  proof (cases "ns = Sessions \<and> slots_matches (validated_sessions s) ?name k \<noteq> None")
    case True
    have ready: "slot_ready (content s ns) ?name k limit"
      if "slots_matches (validated_sessions s) ?name k = Some True" and "slots_sound s"
      using that True slots.sound_matches unfolding slots_sound_def
      by (fastforce intro: owner_slot_ready)
    show ?thesis using True assms ready
      by (auto simp: check_record_slot_def Let_def split: if_splits option.splits)
  next
    case False
    obtain ex s1 where rd: "on_driver (read_blob (nvs p) ns ?name
        (RECORD_HEADER_LEN + MAX_LOGICAL_KEY_LEN + MAX_SIGNAL_RECORD_LEN)) s = (ex, s1)"
      by (rule prod.exhaust)
    obtain c s2 where ct: "on_driver (record_count (nvs p) ns) s1 = (c, s2)" by (rule prod.exhaust)
    obtain u s3 where rm: "remember_session_slot ns ?name k s1 = (u, s3)" by (rule prod.exhaust)
    note c1 = on_read [OF rd] and c2 = on_count [OF ct] and c3 = remember_effect [OF rm]
    have look: "ex = Inr d \<Longrightarrow> fmlookup (content s ns) ?name = d" for d
      using on_read_ok(1) [of ns ?name _ s d s1] rd by simp
    have count: "c = Inr m \<Longrightarrow> m = hm_len (content s ns)" for m
      using on_count_ok [of ns s1 m s2] ct c1(1) by simp
    have own: "slots_sound s3"
      if "slots_sound s" and "ex = Inr (Some rec)" and "decode_record rec = Inr (k, v)" for rec v
      using that c1 c3(3) look by (simp add: rec_owner_def)
    have none: "(if ns = Sessions then slots_matches (validated_sessions s) ?name k else None) = None"
      using False by auto
    have step: "check_record_slot p ns k len label limit s =
       (if len > MAX_SIGNAL_RECORD_LEN then (Inl (Validation (LabelRecordTooLarge label len)), s)
        else if length k > MAX_LOGICAL_KEY_LEN then (Inl (Validation (KeyTooLong (length k))), s)
        else case ex of
            Inl e \<Rightarrow> (Inl e, s1)
          | Inr (Some rec) \<Rightarrow>
              (case decode_record rec of
                 Inl e \<Rightarrow> (Inl e, s1)
               | Inr (k', _) \<Rightarrow>
                   if k' \<noteq> k then (Inl (Validation (KeyCollision label ?name)), s1) else (Inr ?name, s3))
          | Inr None \<Rightarrow>
              (case c of
                 Inl e \<Rightarrow> (Inl e, s2)
               | Inr m \<Rightarrow>
                   (case ensure_insert_capacity False m limit label of
                      Inl e \<Rightarrow> (Inl e, s2)
                    | Inr _ \<Rightarrow> (Inr ?name, s2))))"
      unfolding check_record_slot_def Let_def bindE_failE_if bindE_getE none
      using c3(1) by (simp add: bindE_def rd ct rm split: sum.split option.split)
    have same: "content s1 = content s" "content s2 = content s" "content s3 = content s"
      "slots_sound s1 = slots_sound s" "slots_sound s2 = slots_sound s"
      using c1 c2 c3 by simp_all
    show ?thesis
    proof (cases ex)
      case (Inl e)
      then show ?thesis using assms same unfolding step by (auto split: if_splits)
    next
      case (Inr d)
      show ?thesis
      proof (cases d)
        case None
        then show ?thesis using assms same Inr look [OF Inr] count
          unfolding step ensure_insert_capacity_def slot_ready_def
          by (auto split: if_splits sum.splits)
      next
        case (Some rec)
        then show ?thesis using assms same Inr look [OF Inr] own [of rec]
          unfolding step slot_ready_def
          by (auto split: if_splits sum.splits)
      qed
    qed
  qed
  then show "content s' = content s" and "slots_sound s \<Longrightarrow> slots_sound s'"
    and "slots_sound s \<Longrightarrow> r = Inr name \<Longrightarrow>
         name = record_name (sha256 p) k \<and> len \<le> MAX_SIGNAL_RECORD_LEN \<and>
         length k \<le> MAX_LOGICAL_KEY_LEN \<and> slot_ready (content s ns) name k limit" by blast+
qed

text \<open>
  The outcomes of a write: flash is as before, or the record of the key, and only it, is
  there. Which of the two a failed write leaves is the driver's; a successful one is the
  second.
\<close>

definition written :: "'n flash_namespaces \<Rightarrow> 'n flash_namespaces \<Rightarrow> ns \<Rightarrow> bytes \<Rightarrow> bytes \<Rightarrow> nat \<Rightarrow> bool" where
  "written s s' ns k v limit \<longleftrightarrow>
     content s' = (content s)(ns := fmupd (record_name (sha256 p) k) (record_layout k v) (content s ns)) \<and>
     slot_ready (content s ns) (record_name (sha256 p) k) k limit \<and>
     length k \<le> MAX_LOGICAL_KEY_LEN \<and> length v \<le> MAX_SIGNAL_RECORD_LEN"

lemma written_table: "written s s' ns k v limit \<Longrightarrow> table s' ns = (table s ns)(k \<mapsto> v)"
  unfolding table_def written_def by (auto simp: table_of_upd)

lemma written_sound:
  assumes "written s s' ns k v limit" and "slots_sound s"
    and "validated_sessions s' = validated_sessions s"
  shows "slots_sound s'"
proof -
  have "rec_owner (content s' Sessions) m = Some j"
    if "rec_owner (content s Sessions) m = Some j" for m j
    using that assms(1) slot_ready_owner [of "content s ns" "record_name (sha256 p) k" k limit]
    by (auto simp: written_def rec_owner_layout)
  then show ?thesis using assms(2,3) unfolding slots_sound_def by (auto intro: slots.sound_mono)
qed

lemma put_record_effect:
  assumes "put_record p ns k v label limit s = (r, s')" and "slots_sound s"
  shows "slots_sound s'" and "r = Inr () \<Longrightarrow> written s s' ns k v limit"
    and "content s' = content s \<or> written s s' ns k v limit"
proof -
  obtain cr s1 where cs: "check_record_slot p ns k (length v) label limit s = (cr, s1)"
    by (rule prod.exhaust)
  note c = check_record_slot_effect [OF cs]
  have all: "slots_sound s' \<and> (r = Inr () \<longrightarrow> written s s' ns k v limit) \<and>
      (content s' = content s \<or> written s s' ns k v limit)"
  proof (cases cr)
    case (Inl e)
    then show ?thesis using assms c cs by (auto simp: put_record_def prepare_record_def bindE_def)
  next
    case (Inr name)
    obtain er s2 where en: "on_driver (encode_recordE (nvs p) k v) s1 = (er, s2)"
      by (rule prod.exhaust)
    have s2: "s2 = s1" using on_encode(1) [OF en] .
    note ready = c(3) [OF assms(2) Inr]
    show ?thesis
    proof (cases er)
      case (Inl e)
      then show ?thesis using assms c cs en s2 \<open>cr = Inr name\<close>
        by (auto simp: put_record_def prepare_record_def bindE_def)
    next
      case (Inr rec)
      have rec: "rec = record_layout k v" using on_encode(2) [OF en Inr] .
      have set: "on_driver (set_blob (nvs p) ns name rec) s1 = (r, s')"
        using assms(1) cs en s2 \<open>cr = Inr name\<close> Inr
        by (simp add: put_record_def prepare_record_def bindE_def)
      note o = on_set [OF set]
      have w: "content s' = (content s1)(ns := fmupd name rec (content s1 ns)) \<Longrightarrow> written s s' ns k v limit"
        using ready c(1) rec by (auto simp: written_def)
      have "slots_sound s'" if "content s' = content s1"
        using slots_sound_cong [of s' s1] that o(3) c(2) assms(2) by simp
      moreover have "slots_sound s'" if "written s s' ns k v limit"
      proof (rule written_sound)
        show "written s1 s' ns k v limit" using that c(1) by (simp add: written_def)
      qed (use o(3) c(2) assms(2) in auto)
      ultimately show ?thesis using o(1,2) w c(1) by auto
    qed
  qed
  then show "slots_sound s'" and "r = Inr () \<Longrightarrow> written s s' ns k v limit"
    and "content s' = content s \<or> written s s' ns k v limit" by blast+
qed

text \<open>The outcomes of a delete, in the same way.\<close>

definition deleted :: "'n flash_namespaces \<Rightarrow> 'n flash_namespaces \<Rightarrow> ns \<Rightarrow> bytes \<Rightarrow> bool" where
  "deleted s s' ns k \<longleftrightarrow>
     content s' = (content s)(ns := fmdrop (record_name (sha256 p) k) (content s ns)) \<and>
     (\<forall>rec. fmlookup (content s ns) (record_name (sha256 p) k) = Some rec \<longrightarrow>
            (\<exists>v. decode_record rec = Inr (k, v)))"

lemma deleted_table: "deleted s s' ns k \<Longrightarrow> table s' ns = (table s ns)(k := None)"
  unfolding table_def deleted_def by (auto intro: table_of_drop)

lemma delete_record_effect:
  assumes "delete_record p ns k label s = (r, s')" and "slots_sound s"
  shows "slots_sound s'" and "r = Inr () \<Longrightarrow> deleted s s' ns k"
    and "content s' = content s \<or> deleted s s' ns k"
proof -
  let ?name = "record_name (sha256 p) k"
  obtain u s0 where cl: "(if ns = Sessions then clear_session_slots else retE ()) s = (u, s0)"
    by (rule prod.exhaust)
  have u: "u = Inr ()" and c0: "content s0 = content s" and sound0: "slots_sound s0"
    and empty: "ns = Sessions \<Longrightarrow> validated_sessions s0 = slots_clear (validated_sessions s)"
    using cl assms(2) clear_effect [of s u s0]
    by (auto simp: clear_session_slots_def split: if_splits)
  obtain ex s1 where rd: "on_driver (read_blob (nvs p) ns ?name
      (RECORD_HEADER_LEN + MAX_LOGICAL_KEY_LEN + MAX_SIGNAL_RECORD_LEN)) s0 = (ex, s1)"
    by (rule prod.exhaust)
  note o1 = on_read [OF rd]
  obtain rr s2 where rm: "on_driver (map_errE nvs_error (nvs_remove (nvs p) ns ?name)) s1 = (rr, s2)"
    by (rule prod.exhaust)
  note o2 = on_remove [OF rm]
  obtain cr s3 where cm: "on_driver (commit (nvs p) ns) s2 = (cr, s3)" by (rule prod.exhaust)
  note o3 = on_commit [OF cm]
  have sound2: "slots_sound s2"
  proof (cases "ns = Sessions")
    case True
    then show ?thesis using o1 o2(3) empty by (simp add: slots_sound_def slots.sound_clear)
  next
    case False
    then have "content s2 Sessions = content s1 Sessions" using o2(1) by auto
    then show ?thesis using slots_sound_cong [of s2 s1] o2(3) o1(3) sound0 by simp
  qed
  have run: "delete_record p ns k label s =
     (case ex of Inl e \<Rightarrow> (Inl e, s1) | Inr None \<Rightarrow> (Inr (), s1)
      | Inr (Some rec) \<Rightarrow>
         (case decode_record rec of Inl e \<Rightarrow> (Inl e, s1)
          | Inr (k', _) \<Rightarrow> if k' \<noteq> k then (Inl (Validation (KeyCollision label ?name)), s1)
              else (case rr of Inl e \<Rightarrow> (Inl e, s2) | Inr _ \<Rightarrow> (cr, s3))))"
    unfolding delete_record_def Let_def
    using u by (simp add: bindE_def cl rd rm cm split: sum.split option.split)
  have all: "slots_sound s' \<and> (r = Inr () \<longrightarrow> deleted s s' ns k) \<and>
      (content s' = content s \<or> deleted s s' ns k)"
  proof (cases ex)
    case (Inl e)
    then show ?thesis using assms(1) o1 c0 sound0 unfolding run by auto
  next
    case (Inr d)
    have look: "fmlookup (content s ns) ?name = d"
      using on_read_ok(1) [of ns ?name _ s0 d s1] rd Inr c0 by simp
    show ?thesis
    proof (cases "\<exists>rec v. d = Some rec \<and> decode_record rec = Inr (k, v)")
      case True
      then have out: "s' = s3 \<and> (\<exists>b. rr = Inr b) \<or> s' = s2 \<and> r \<noteq> Inr ()"
        using assms(1) True Inr unfolding run by (auto split: sum.splits)
      have del: "deleted s s' ns k"
        if "content s' = (content s1)(ns := fmdrop ?name (content s1 ns))"
        using that True look o1(1) c0 unfolding deleted_def by auto
      from out show ?thesis using o2(1,2) o3(1,3) sound2 del o1(1) c0 by auto
    next
      case False
      then have "s' = s1" and "r = Inr () \<longrightarrow> d = None"
        using assms(1) Inr unfolding run by (auto split: option.splits sum.splits if_splits)
      then show ?thesis using o1 c0 sound0 look
        by (auto simp: deleted_def fun_upd_idem fmdrop_idle fmdom_notI)
    qed
  qed
  then show "slots_sound s'" and "r = Inr () \<Longrightarrow> deleted s s' ns k"
    and "content s' = content s \<or> deleted s s' ns k" by blast+
qed

end

end
