(* ===== verification/Flash_Reset.thy ===== *)
theory Flash_Reset
  imports Flash_Table
begin

text \<open>
  Erasing and resetting the flash, and the two blobs outside the record tables (the device
  and the latest sync key id). The point of the reset marker: whatever fails in the middle
  of \<open>reset_all\<close> or \<open>complete_reset\<close>, flash is untouched, or still carries the marker
  that makes the next boot finish the job, or holds no credentials at all.
\<close>

definition signal_namespaces :: "(ns \<times> str) list" where
  "signal_namespaces =
     [(Identities, ''identity''), (Sessions, ''session''), (Prekeys, ''prekey''),
      (Signed_Prekeys, ''signed prekey''), (Sender_Keys, ''sender key''), (Sync_Keys, ''sync key'')]"

text \<open>No device and no key material of any kind: what a completed reset leaves.\<close>

definition no_credentials :: "(ns \<Rightarrow> (str, bytes) hashmap) \<Rightarrow> bool" where
  "no_credentials c \<longleftrightarrow>
     c Device = fmempty \<and> (\<forall>ns \<in> fst ` set signal_namespaces. c ns = fmempty) \<and>
     fmlookup (c Control) ''latestsync'' = None"

definition reset_marked :: "(ns \<Rightarrow> (str, bytes) hashmap) \<Rightarrow> bool" where
  "reset_marked c \<longleftrightarrow> fmlookup (c Control) ''reset'' \<noteq> None"

fun erase_each :: "('n, 'd, 'k) platform \<Rightarrow> (ns \<times> str) list \<Rightarrow> ('n, unit) flash_io" where
  "erase_each p [] = retE ()"
| "erase_each p ((ns, label) # rest) =
     bindE (on_driver (erase_namespace (nvs p) ns label)) (\<lambda>_. erase_each p rest)"

lemma erase_signal_each:
  "erase_signal p =
     bindE clear_session_slots (\<lambda>_.
     bindE (on_driver (remove_blob (nvs p) Control ''latestsync'')) (\<lambda>_.
     erase_each p signal_namespaces))"
  by (simp add: erase_signal_def signal_namespaces_def)

lemma not_control_signal [simp]: "Control \<notin> fst ` set signal_namespaces"
  "Device \<notin> fst ` set signal_namespaces" "Sessions \<in> fst ` set signal_namespaces"
  by (simp_all add: signal_namespaces_def)

context flash_platform
begin

lemma erase_each_effect:
  assumes "erase_each p xs s = (r, s')"
  shows "validated_sessions s' = validated_sessions s"
    and "ns \<notin> fst ` set xs \<Longrightarrow> content s' ns = content s ns"
    and "r = Inr () \<Longrightarrow> ns \<in> fst ` set xs \<Longrightarrow> content s' ns = fmempty"
proof -
  have "validated_sessions s' = validated_sessions s \<and>
      (ns \<notin> fst ` set xs \<longrightarrow> content s' ns = content s ns) \<and>
      (r = Inr () \<longrightarrow> ns \<in> fst ` set xs \<longrightarrow> content s' ns = fmempty)"
    using assms
  proof (induction xs arbitrary: s)
    case Nil
    then show ?case by simp
  next
    case (Cons x xs)
    obtain ns1 label where x: "x = (ns1, label)" by fastforce
    from Cons.prems x have "bindE (on_driver (erase_namespace (nvs p) ns1 label)) (\<lambda>_. erase_each p xs) s = (r, s')"
      by simp
    then show ?case
    proof (cases rule: bindE_cases)
      case (err e)
      from on_erase [OF err(1)] show ?thesis using err(2) x by auto
    next
      case (ok u t)
      from on_erase [OF ok(1)] have "content t ns1 = fmempty" "validated_sessions t = validated_sessions s"
        "ns \<noteq> ns1 \<longrightarrow> content t ns = content s ns"
        by (auto split: if_splits)
      with Cons.IH [OF ok(2)] x show ?thesis by auto
    qed
  qed
  then show "validated_sessions s' = validated_sessions s"
    and "ns \<notin> fst ` set xs \<Longrightarrow> content s' ns = content s ns"
    and "r = Inr () \<Longrightarrow> ns \<in> fst ` set xs \<Longrightarrow> content s' ns = fmempty" by blast+
qed

lemma erase_signal_effect:
  assumes "erase_signal p s = (r, s')"
  shows "slots_sound s'" and "content s' Device = content s Device"
    and "name \<noteq> ''latestsync'' \<Longrightarrow> fmlookup (content s' Control) name = fmlookup (content s Control) name"
    and "r = Inr () \<Longrightarrow> ns \<in> fst ` set signal_namespaces \<Longrightarrow> content s' ns = fmempty"
    and "r = Inr () \<Longrightarrow> fmlookup (content s' Control) ''latestsync'' = None"
proof -
  define s0 where "s0 = s\<lparr>validated_sessions := slots_clear (validated_sessions s)\<rparr>"
  have sound: "slots_sound t" if "validated_sessions t = validated_sessions s0" for t
    using that by (simp add: slots_sound_def s0_def slots.sound_clear)
  have "bindE (on_driver (remove_blob (nvs p) Control ''latestsync'')) (\<lambda>_.
      erase_each p signal_namespaces) s0 = (r, s')"
    using assms by (simp add: erase_signal_each clear_session_slots_def s0_def)
  then have "slots_sound s' \<and> content s' Device = content s Device \<and>
    (name \<noteq> ''latestsync'' \<longrightarrow> fmlookup (content s' Control) name = fmlookup (content s Control) name) \<and>
    (r = Inr () \<longrightarrow> (ns \<in> fst ` set signal_namespaces \<longrightarrow> content s' ns = fmempty) \<and>
       fmlookup (content s' Control) ''latestsync'' = None)"
  proof (cases rule: bindE_cases)
    case (err e)
    note o = on_remove_blob [OF err(1)]
    have "content s0 = content s" by (simp add: s0_def)
    with err(2) o sound show ?thesis by auto
  next
    case (ok u t)
    note o = on_remove_blob [OF ok(1)] and e = erase_each_effect [OF ok(2)]
    have c0: "content s0 = content s" by (simp add: s0_def)
    have ct: "content t = (content s)(Control := fmdrop ''latestsync'' (content s Control))"
      using o(2) c0 by simp
    have "slots_sound s'" using sound o(3) e(1) by simp
    moreover have "content s' Device = content s Device" "content s' Control = content t Control"
      using e(2) ct by simp_all
    ultimately show ?thesis using e(3) ct by simp
  qed
  then show "slots_sound s'" and "content s' Device = content s Device"
    and "name \<noteq> ''latestsync'' \<Longrightarrow> fmlookup (content s' Control) name = fmlookup (content s Control) name"
    and "r = Inr () \<Longrightarrow> ns \<in> fst ` set signal_namespaces \<Longrightarrow> content s' ns = fmempty"
    and "r = Inr () \<Longrightarrow> fmlookup (content s' Control) ''latestsync'' = None" by blast+
qed

lemma erase_all_effect:
  assumes "erase_all p s = (r, s')" and "slots_sound s"
  shows "slots_sound s'"
    and "name \<noteq> ''latestsync'' \<Longrightarrow> fmlookup (content s' Control) name = fmlookup (content s Control) name"
    and "r = Inr () \<Longrightarrow> no_credentials (content s')"
proof -
  have "slots_sound s' \<and>
    (name \<noteq> ''latestsync'' \<longrightarrow> fmlookup (content s' Control) name = fmlookup (content s Control) name) \<and>
    (r = Inr () \<longrightarrow> no_credentials (content s'))"
    using assms(1) unfolding erase_all_def
  proof (cases rule: bindE_cases)
    case (err e)
    from on_erase [OF err(1)] obtain m where c: "content s' = (content s)(Device := m)" by blast
    have "slots_sound s'" using slots_sound_cong [of s' s] c on_erase(2) [OF err(1)] assms(2) by simp
    then show ?thesis using err(2) c by simp
  next
    case (ok u t)
    from on_erase [OF ok(1)] have c: "content t = (content s)(Device := fmempty)" by auto
    note e = erase_signal_effect [OF ok(2)]
    show ?thesis using e c by (simp add: no_credentials_def)
  qed
  then show "slots_sound s'"
    and "name \<noteq> ''latestsync'' \<Longrightarrow> fmlookup (content s' Control) name = fmlookup (content s Control) name"
    and "r = Inr () \<Longrightarrow> no_credentials (content s')" by blast+
qed

lemma no_credentials_upd:
  "no_credentials c \<Longrightarrow> fmlookup m ''latestsync'' = None \<Longrightarrow> no_credentials (c(Control := m))"
  unfolding no_credentials_def by (auto simp: signal_namespaces_def)

text \<open>The reset goes forward only: the marker stands until no credential is left.\<close>

lemma complete_reset_effect:
  assumes "complete_reset p s = (r, s')" and "slots_sound s"
  shows "slots_sound s'"
    and "reset_marked (content s) \<Longrightarrow> reset_marked (content s') \<or> no_credentials (content s')"
    and "r = Inr () \<Longrightarrow> no_credentials (content s') \<and> \<not> reset_marked (content s')"
proof -
  have "slots_sound s' \<and> (reset_marked (content s) \<longrightarrow> reset_marked (content s') \<or> no_credentials (content s')) \<and>
    (r = Inr () \<longrightarrow> no_credentials (content s') \<and> \<not> reset_marked (content s'))"
    using assms(1) unfolding complete_reset_def
  proof (cases rule: bindE_cases)
    case (err e)
    note a = erase_all_effect [OF err(1) assms(2)]
    show ?thesis using a(1) a(2) [of "''reset''"] err(2) by (simp add: reset_marked_def)
  next
    case (ok u t)
    note a = erase_all_effect [OF ok(1) assms(2)] and o = on_remove_blob [OF ok(2)]
    have nt: "no_credentials (content t)" using a(3) by simp
    then have "no_credentials ((content t)(Control := fmdrop ''reset'' (content t Control)))"
      by (intro no_credentials_upd) (simp_all add: no_credentials_def)
    moreover have "slots_sound s'"
    proof -
      have "content s' Sessions = content t Sessions" using o(1) by auto
      then show ?thesis using slots_sound_cong [of s' t] o(3) a(1) by simp
    qed
    ultimately show ?thesis using o(1,2) nt by (auto simp: reset_marked_def)
  qed
  then show "slots_sound s'"
    and "reset_marked (content s) \<Longrightarrow> reset_marked (content s') \<or> no_credentials (content s')"
    and "r = Inr () \<Longrightarrow> no_credentials (content s') \<and> \<not> reset_marked (content s')" by blast+
qed

lemma reset_all_effect:
  assumes "reset_all p s = (r, s')" and "slots_sound s"
  shows "slots_sound s'"
    and "content s' = content s \<or> reset_marked (content s') \<or> no_credentials (content s')"
    and "r = Inr () \<Longrightarrow> no_credentials (content s') \<and> \<not> reset_marked (content s')"
proof -
  have "slots_sound s' \<and> (content s' = content s \<or> reset_marked (content s') \<or> no_credentials (content s')) \<and>
    (r = Inr () \<longrightarrow> no_credentials (content s') \<and> \<not> reset_marked (content s'))"
    using assms(1) unfolding reset_all_def
  proof (cases rule: bindE_cases)
    case (err e)
    note o = on_set [OF err(1)]
    have "content s' Sessions = content s Sessions" using o(1) by auto
    then have "slots_sound s'" using slots_sound_cong [of s' s] o(3) assms(2) by simp
    then show ?thesis using o(1) err(2) by (auto simp: reset_marked_def)
  next
    case (ok u t)
    note o = on_set [OF ok(1)]
    have ct: "content t Sessions = content s Sessions" "reset_marked (content t)"
      using o(2) by (simp_all add: reset_marked_def)
    then have st: "slots_sound t" using slots_sound_cong [of t s] o(3) assms(2) by simp
    show ?thesis using complete_reset_effect [OF ok(2) st] ct by blast
  qed
  then show "slots_sound s'"
    and "content s' = content s \<or> reset_marked (content s') \<or> no_credentials (content s')"
    and "r = Inr () \<Longrightarrow> no_credentials (content s') \<and> \<not> reset_marked (content s')" by blast+
qed

end

end
