(* ===== verification/Sim_Nvs.thy ===== *)
theory Sim_Nvs
  imports Flash_Reset
begin

text \<open>
  A concrete NVS device with fault injection, which shows that the contract of
  \<open>nvs_driver\<close> can be met and on which the properties are evaluated. Each namespace is an
  association list; a schedule of faults says, call by call, whether the call succeeds, fails
  without effect, fails after its effect, or (an erase) leaves the given number of entries
  behind although it reports success. The names of the calls and what they return follow
  the ESP-IDF documentation of \<open>nvs_get_blob\<close>, \<open>nvs_set_blob\<close>, \<open>nvs_erase_key\<close>,
  \<open>nvs_erase_all\<close> and the entry iterator.
\<close>

datatype fault = Works | Fails_Before esp_err | Fails_After esp_err | Leaves nat

record sim =
  sim_data :: "(ns \<times> (str \<times> bytes) list) list"
  sim_faults :: "fault list"
  sim_heap :: nat

definition sim_entries :: "sim \<Rightarrow> ns \<Rightarrow> (str \<times> bytes) list" where
  "sim_entries s ns = (case map_of (sim_data s) ns of None \<Rightarrow> [] | Some es \<Rightarrow> es)"

definition sim_blobs :: "sim \<Rightarrow> ns \<Rightarrow> (str, bytes) hashmap" where
  "sim_blobs s ns = fmap_of_list (sim_entries s ns)"

definition sim_put :: "ns \<Rightarrow> (str \<times> bytes) list \<Rightarrow> sim \<Rightarrow> sim" where
  "sim_put ns es s = s\<lparr>sim_data := (ns, es) # sim_data s\<rparr>"

definition next_fault :: "sim \<Rightarrow> fault \<times> sim" where
  "next_fault s =
     (case sim_faults s of [] \<Rightarrow> (Works, s) | f # fs \<Rightarrow> (f, s\<lparr>sim_faults := fs\<rparr>))"

text \<open>A call with a result \<open>r\<close> and an effect \<open>f\<close>, under the next fault of the schedule.\<close>

definition sim_call :: "(sim \<Rightarrow> esp_err + 'a) \<Rightarrow> (sim \<Rightarrow> sim) \<Rightarrow> (sim, esp_err, 'a) io" where
  "sim_call r f s =
     (case next_fault s of
        (Fails_Before e, t) \<Rightarrow> (Inl e, t)
      | (Fails_After e, t) \<Rightarrow> (Inl e, f t)
      | (_, t) \<Rightarrow> (r t, f t))"

definition sim_erase :: "ns \<Rightarrow> (sim, esp_err, unit) io" where
  "sim_erase ns s =
     (case next_fault s of
        (Fails_Before e, t) \<Rightarrow> (Inl e, t)
      | (Fails_After e, t) \<Rightarrow> (Inl e, sim_put ns [] t)
      | (Leaves n, t) \<Rightarrow>
          (Inr (), sim_put ns (take n (filter (\<lambda>(k, v). map_of (sim_entries t ns) k = Some v)
                                         (sim_entries t ns))) t)
      | (Works, t) \<Rightarrow> (Inr (), sim_put ns [] t))"

definition ESP_ERR_NVS_INVALID_LENGTH :: esp_err where "ESP_ERR_NVS_INVALID_LENGTH = 0x110c"

definition sim_api :: "sim nvs_api" where
  "sim_api = \<lparr>
     nvs_blob_len = \<lambda>ns k. sim_call (\<lambda>s. Inr (map_option length (map_of (sim_entries s ns) k))) id,
     nvs_get_blob = \<lambda>ns k len. sim_call (\<lambda>s.
        case map_of (sim_entries s ns) k of
          None \<Rightarrow> Inr None
        | Some v \<Rightarrow> if length v > len then Inl ESP_ERR_NVS_INVALID_LENGTH else Inr (Some v)) id,
     nvs_set_blob = \<lambda>ns k v. sim_call (\<lambda>s. Inr ()) (\<lambda>s. sim_put ns ((k, v) # sim_entries s ns) s),
     nvs_commit = \<lambda>ns. sim_call (\<lambda>s. Inr ()) id,
     nvs_remove = \<lambda>ns k. sim_call (\<lambda>s. Inr (map_of (sim_entries s ns) k \<noteq> None))
        (\<lambda>s. sim_put ns (filter (\<lambda>(k', _). k' \<noteq> k) (sim_entries s ns)) s),
     nvs_erase_all = sim_erase,
     nvs_keys = \<lambda>ns. sim_call (\<lambda>s. Inr (remdups (map fst (sim_entries s ns)))) id,
     heap_has = \<lambda>s n. n \<le> sim_heap s\<rparr>"

lemma sim_blobs_put [simp]: "sim_blobs (sim_put ns es s) = (sim_blobs s)(ns := fmap_of_list es)"
  by (auto simp: sim_blobs_def sim_put_def sim_entries_def fun_eq_iff)

lemma next_fault_blobs [simp]:
  "next_fault s = (f, t) \<Longrightarrow> sim_blobs t = sim_blobs s"
  "next_fault s = (f, t) \<Longrightarrow> sim_entries t = sim_entries s"
  by (auto simp: next_fault_def sim_blobs_def sim_entries_def fun_eq_iff split: list.splits)

lemma sim_call_cases:
  assumes "sim_call r f s = (x, s')"
  obtains t where "sim_blobs t = sim_blobs s" and "sim_entries t = sim_entries s"
    and "(\<exists>e. x = Inl e) \<and> (s' = t \<or> s' = f t) \<or> x = r t \<and> s' = f t"
proof -
  obtain g t where n: "next_fault s = (g, t)" by fastforce
  then show ?thesis using assms that [of t] by (cases g) (auto simp: sim_call_def)
qed

lemma map_of_filter_ne: "map_of (filter (\<lambda>(k', _). k' \<noteq> k) xs) j = (if j = k then None else map_of xs j)"
  by (induction xs) auto

lemma fmap_of_list_drop: "fmap_of_list (filter (\<lambda>(k', _). k' \<noteq> k) xs) = fmdrop k (fmap_of_list xs)"
  by (rule fmap_ext) (simp add: fmlookup_of_list map_of_filter_ne)

lemma fmap_of_list_part:
  assumes "\<forall>(k, v) \<in> set ys. map_of xs k = Some v"
  shows "fmap_of_list ys \<subseteq>\<^sub>f fmap_of_list xs"
proof (rule fmsubset.rep_eq [THEN iffD2])
  show "fmlookup (fmap_of_list ys) \<subseteq>\<^sub>m fmlookup (fmap_of_list xs)"
    unfolding map_le_def fmlookup_of_list
  proof
    fix k assume "k \<in> dom (map_of ys)"
    then obtain v where v: "map_of ys k = Some v" by blast
    then have "(k, v) \<in> set ys" by (rule map_of_SomeD)
    then show "map_of ys k = map_of xs k" using assms v by auto
  qed
qed

lemma fmempty_part [simp]: "fmempty \<subseteq>\<^sub>f m"
  by (simp add: fmsubset.rep_eq map_le_def)

lemma sim_erase_shrinks:
  assumes "sim_erase ns s = (r, s')"
  shows "\<exists>m. sim_blobs s' = (sim_blobs s)(ns := m) \<and> m \<subseteq>\<^sub>f sim_blobs s ns"
proof -
  obtain f t where n: "next_fault s = (f, t)" by fastforce
  note b = next_fault_blobs [OF n]
  show ?thesis
  proof (cases f)
    case (Fails_Before e)
    then show ?thesis using assms n b
      by (intro exI [of _ "sim_blobs s ns"]) (auto simp: sim_erase_def fmsubset_def)
  next
    case (Leaves i)
    let ?es = "take i (filter (\<lambda>(k, v). map_of (sim_entries t ns) k = Some v) (sim_entries t ns))"
    have "fmap_of_list ?es \<subseteq>\<^sub>f fmap_of_list (sim_entries t ns)"
      by (rule fmap_of_list_part) (auto dest: in_set_takeD)
    then show ?thesis using assms n b Leaves
      by (intro exI [of _ "fmap_of_list ?es"]) (auto simp: sim_erase_def sim_blobs_def)
  next
    case Works
    then show ?thesis using assms n b by (intro exI [of _ fmempty]) (auto simp: sim_erase_def)
  next
    case (Fails_After e)
    then show ?thesis using assms n b by (intro exI [of _ fmempty]) (auto simp: sim_erase_def)
  qed
qed

lemma in_set_fst: "(a, b) \<in> set xs \<Longrightarrow> a \<in> fst ` set xs"
  by force

interpretation sim: nvs_driver sim_api sim_blobs
proof
  show "nvs_erase_all sim_api ns n = (re, n') \<Longrightarrow>
      \<exists>m. sim_blobs n' = (sim_blobs n)(ns := m) \<and> m \<subseteq>\<^sub>f sim_blobs n ns" for ns n re n'
    by (simp add: sim_api_def sim_erase_shrinks)
qed (auto simp: sim_api_def fmap_of_list_drop fmlookup_of_list sim_blobs_def [of _ ns for ns]
    fmdom'_alt_def fset_of_list.rep_eq intro: in_set_fst split: option.splits if_splits elim!: sim_call_cases)

text \<open>
  A platform around the simulated flash: devices are byte strings that are their own JSON,
  sync keys carry a timestamp in front of their bytes, and the digest is the key itself,
  padded or cut to the 32 bytes of a SHA-256 digest.
\<close>

definition pad_digest :: "bytes \<Rightarrow> bytes" where
  "pad_digest k = take 32 (k @ replicate 32 0)"

definition sim_platform :: "bool \<Rightarrow> (sim, bytes, byte \<times> bytes) platform" where
  "sim_platform psram = \<lparr>
     nvs = sim_api, sha256 = pad_digest,
     device_to_json = Some, device_from_json = Some,
     sync_key_to_json = (\<lambda>(t, v). Some (t # v)),
     sync_key_from_json = (\<lambda>bs. case bs of [] \<Rightarrow> None | t # v \<Rightarrow> Some (t, v)),
     sync_key_timestamp = (\<lambda>(t, _). uint t), has_psram = psram\<rparr>"

lemma sim_platform_simps [simp]:
  "nvs (sim_platform b) = sim_api" "sha256 (sim_platform b) = pad_digest"
  "has_psram (sim_platform b) = b" "device_to_json (sim_platform b) = Some"
  "device_from_json (sim_platform b) = Some"
  "sync_key_to_json (sim_platform b) = (\<lambda>(t, v). Some (t # v))"
  "sync_key_from_json (sim_platform b) = (\<lambda>bs. case bs of [] \<Rightarrow> None | t # v \<Rightarrow> Some (t, v))"
  "sync_key_timestamp (sim_platform b) = (\<lambda>(t, _). uint t)"
  by (simp_all add: sim_platform_def)

lemma length_pad_digest [simp]: "length (pad_digest k) = 32"
  by (simp add: pad_digest_def)

interpretation sim_flash: flash_platform "sim_platform psram" sim_blobs
  by (simp add: flash_platform_def sim.nvs_driver_axioms)

text \<open>A freshly formatted flash, with the given schedule of faults.\<close>

definition blank_flash :: "fault list \<Rightarrow> sim flash_namespaces" where
  "blank_flash faults =
     \<lparr>driver = \<lparr>sim_data = [], sim_faults = faults, sim_heap = 131072\<rparr>,
      validated_sessions = slots_default\<rparr>"

end
