(* ===== verification/Flash_Properties.thy ===== *)
theory Flash_Properties
  imports Sim_Nvs
begin

text \<open>
  The properties of the flash layer, for every driver that keeps the contract
  \<open>nvs_driver\<close>, with witnesses on the simulated device.
\<close>

text \<open>The cached session slots agree with the session namespace.\<close>

definition slots_agree :: "(str, bytes) hashmap \<Rightarrow> session_slots \<Rightarrow> bool" where
  "slots_agree m c \<longleftrightarrow> slots_ok c \<and> list_all (\<lambda>(name, k). rec_owner m name = Some k) c"

lemma sound_for_slots_agree: "slots.sound_for (rec_owner m) c = slots_agree m c"
  unfolding slots.sound_for_def slots_agree_def slots_stored_def slots_ok_def list_all_iff
  by (auto simp: map_of_eq_Some_iff)

lemma slots_sound_agree:
  assumes "flash_platform p blobs"
  shows "flash_platform.slots_sound blobs s = slots_agree (blobs (driver s) Sessions) (validated_sessions s)"
  by (simp add: flash_platform.slots_sound_def [OF assms] flash_platform.content_def [OF assms]
      sound_for_slots_agree)

section \<open>A flash to evaluate on\<close>

text \<open>One session record, of the logical key \<open>[7]\<close>, and a device record.\<close>

definition demo_flash :: "fault list \<Rightarrow> sim flash_namespaces" where
  "demo_flash faults =
     \<lparr>driver = \<lparr>sim_data = [(Sessions, [(''a4aaaaaaaaaaaaa'', record_layout [7] [1, 2, 3])]),
                           (Device, [(''current'', record_layout (as_bytes ''device'') [9])])],
                sim_faults = faults, sim_heap = 131072\<rparr>,
      validated_sessions = slots_default\<rparr>"

lemma name7: "record_name pad_digest [7] = ''a4aaaaaaaaaaaaa''"
  by code_simp

lemma length_record_layout [simp]: "length (record_layout k v) = 5 + length k + length v"
  by (simp add: record_layout_def)

lemma decode_layout7: "decode_record (record_layout [7] v) = Inr ([7], v)"
  by (rule decode_layout) (simp add: MAX_LOGICAL_KEY_LEN_def)

lemma encode7:
  "length v \<le> 1000 \<Longrightarrow> encode_record (\<lambda>n. n \<le> 131072) [7] v = Inr (record_layout [7] v)"
  by (simp add: encode_record_Inr_iff record_layout_def store_limits usize_limit_def)

lemma drop_layout7: "drop 6 (record_layout [7] v) = v"
  by (simp add: record_layout_def)

lemmas sim_eval = sim_api_def sim_call_def next_fault_def sim_put_def sim_entries_def sim_erase_def
  on_driver_def bindE_def map_errE_def read_blob_def set_blob_def remove_blob_def record_names_def
  record_count_def commit_def encode_recordE_def encode7
  blank_flash_def demo_flash_def slots_default_def slots_matches_def slots_remember_def slots_clear_def
  name7 decode_layout7 drop_layout7 ensure_insert_capacity_def store_limits remember_session_slot_def
  clear_session_slots_def

lemma demo_agree: "slots_agree (sim_blobs (driver (demo_flash fs)) Sessions) (validated_sessions (demo_flash fs))"
  by (simp add: slots_agree_def demo_flash_def slots_default_def slots_ok_def)

section \<open>Properties\<close>

text \<open>\<open>load_record\<close> is lookup. On every path it leaves flash alone and keeps the cached
  session slots in agreement with it, and when it returns \<open>Ok\<close> the answer is the entry that
  the namespace's table holds for the logical key: a record whose name collides is never
  returned for another key.\<close>

lemma load_record_lookup:
  assumes "flash_platform p blobs" and "load_record p ns k len s = (r, s')"
    and "slots_agree (blobs (driver s) Sessions) (validated_sessions s)"
  shows "blobs (driver s') = blobs (driver s) \<and>
         slots_agree (blobs (driver s') Sessions) (validated_sessions s') \<and>
         (\<forall>d. r = Inr d \<longrightarrow> d = table_of (sha256 p) (blobs (driver s) ns) k)"
proof -
  note P = assms(1) and e = flash_platform.load_record_effect [OF assms(1,2)]
  show ?thesis using e assms(3)
    unfolding slots_sound_agree [OF P] flash_platform.table_def [OF P] flash_platform.content_def [OF P]
    by blast
qed

text \<open>C5: \<open>put_record\<close> is insert. Whatever the driver answers, a write leaves flash exactly as it
  was (and then it has returned an error), or puts the value under its logical key and changes
  no other key, no other namespace and no other record; the namespace stays within its limit
  and the cached session slots stay in agreement with flash, so a later write may skip its read.\<close>

theorem put_record_insert:
  assumes "flash_platform p blobs" and "put_record p ns k v label limit s = (r, s')"
    and "slots_agree (blobs (driver s) Sessions) (validated_sessions s)"
  shows "slots_agree (blobs (driver s') Sessions) (validated_sessions s') \<and>
         (r \<noteq> Inr () \<and> blobs (driver s') = blobs (driver s) \<or>
          table_of (sha256 p) (blobs (driver s') ns) = (table_of (sha256 p) (blobs (driver s) ns))(k \<mapsto> v) \<and>
          (\<forall>ns'. ns' \<noteq> ns \<longrightarrow> blobs (driver s') ns' = blobs (driver s) ns') \<and>
          (hm_len (blobs (driver s) ns) \<le> limit \<longrightarrow> hm_len (blobs (driver s') ns) \<le> limit))"
proof -
  note P = assms(1)
  note e = flash_platform.put_record_effect [OF P assms(2) slots_sound_agree [OF P, THEN iffD2, OF assms(3)]]
  note w = flash_platform.written_def [OF P] flash_platform.written_table [OF P]
    flash_platform.table_def [OF P] flash_platform.content_def [OF P]
  have "flash_platform.written p blobs s s' ns k v limit \<Longrightarrow>
      table_of (sha256 p) (blobs (driver s') ns) = (table_of (sha256 p) (blobs (driver s) ns))(k \<mapsto> v) \<and>
      (\<forall>ns'. ns' \<noteq> ns \<longrightarrow> blobs (driver s') ns' = blobs (driver s) ns') \<and>
      (hm_len (blobs (driver s) ns) \<le> limit \<longrightarrow> hm_len (blobs (driver s') ns) \<le> limit)"
    using flash_platform.written_table [OF P, of s s' ns k v limit]
    by (auto simp: w(1,3,4) intro: slot_ready_len)
  then show ?thesis using e unfolding slots_sound_agree [OF P] w(4) by blast
qed

theorem put_record_insert_witness:
  "table_of pad_digest (sim_blobs (driver (snd
      (put_record (sim_platform False) Sessions [7] [4] ''session'' MAX_SESSIONS (demo_flash [])))) Sessions) [7] = Some [4] \<and>
   sim_blobs (driver (snd
      (put_record (sim_platform False) Sessions [7] [4] ''session'' MAX_SESSIONS
         (demo_flash [Works, Works, Fails_Before 4357])))) = sim_blobs (driver (demo_flash []))"
proof
  let ?put = "\<lambda>fs. put_record (sim_platform False) Sessions [7] [4] ''session'' MAX_SESSIONS (demo_flash fs)"
  note use = put_record_insert [OF sim_flash.flash_platform_axioms prod.collapse [symmetric] demo_agree]
  have "fst (?put []) = Inr ()"
    by (simp add: put_record_def prepare_record_def check_record_slot_def Let_def sim_eval)
  with use [of False Sessions "[7]" "[4]" "''session''" MAX_SESSIONS "[]"]
  show "table_of pad_digest (sim_blobs (driver (snd (?put []))) Sessions) [7] = Some [4]" by simp
  show "sim_blobs (driver (snd (?put [Works, Works, Fails_Before 4357]))) = sim_blobs (driver (demo_flash []))"
    by (simp add: put_record_def prepare_record_def check_record_slot_def Let_def sim_eval sim_blobs_def
        fun_eq_iff)
qed

text \<open>C7: \<open>delete_record\<close> is delete. Whatever the driver answers, flash is exactly as it was, or
  the logical key, and nothing else, is gone from it; \<open>Ok\<close> means it is gone. The slot cache
  is emptied before a session record is touched, so it stays in agreement with flash.\<close>

theorem delete_record_delete:
  assumes "flash_platform p blobs" and "delete_record p ns k label s = (r, s')"
    and "slots_agree (blobs (driver s) Sessions) (validated_sessions s)"
  shows "slots_agree (blobs (driver s') Sessions) (validated_sessions s') \<and>
         (r \<noteq> Inr () \<and> blobs (driver s') = blobs (driver s) \<or>
          table_of (sha256 p) (blobs (driver s') ns) = (table_of (sha256 p) (blobs (driver s) ns))(k := None) \<and>
          (\<forall>ns'. ns' \<noteq> ns \<longrightarrow> blobs (driver s') ns' = blobs (driver s) ns'))"
proof -
  note P = assms(1)
  note e = flash_platform.delete_record_effect [OF P assms(2) slots_sound_agree [OF P, THEN iffD2, OF assms(3)]]
  note w = flash_platform.deleted_def [OF P] flash_platform.table_def [OF P] flash_platform.content_def [OF P]
  have "flash_platform.deleted p blobs s s' ns k \<Longrightarrow>
      table_of (sha256 p) (blobs (driver s') ns) = (table_of (sha256 p) (blobs (driver s) ns))(k := None) \<and>
      (\<forall>ns'. ns' \<noteq> ns \<longrightarrow> blobs (driver s') ns' = blobs (driver s) ns')"
    using flash_platform.deleted_table [OF P, of s s' ns k] by (auto simp: w)
  then show ?thesis using e unfolding slots_sound_agree [OF P] w(3) by blast
qed

theorem delete_record_delete_witness:
  "table_of pad_digest (sim_blobs (driver (snd
      (delete_record (sim_platform False) Sessions [7] ''session'' (demo_flash [])))) Sessions) [7] = None"
proof -
  let ?del = "delete_record (sim_platform False) Sessions [7] ''session'' (demo_flash [])"
  have "fst ?del = Inr ()" by (simp add: delete_record_def Let_def sim_eval)
  with delete_record_delete [OF sim_flash.flash_platform_axioms prod.collapse [symmetric] demo_agree,
      of False Sessions "[7]" "''session''" "[]"]
  show ?thesis by simp
qed

text \<open>C4: a credential reset survives an interruption at any point. Whatever call of
  \<open>reset_all\<close> fails, flash is untouched, or carries the reset marker, or holds no credentials;
  and \<open>complete_reset\<close>, which the next boot runs when it finds the marker, returns \<open>Ok\<close> only
  with every credential and the marker gone, and otherwise leaves the marker standing as long
  as a credential is left.\<close>

theorem reset_survives_interruption:
  assumes "flash_platform p blobs" and "reset_all p s = (r, s1)"
    and "slots_agree (blobs (driver s) Sessions) (validated_sessions s)"
    and "slots_agree (blobs (driver t) Sessions) (validated_sessions t)"
    and "blobs (driver t) = blobs (driver s1)" and "complete_reset p t = (r', s2)"
  shows "(blobs (driver s1) = blobs (driver s) \<or> reset_marked (blobs (driver s1)) \<or>
           no_credentials (blobs (driver s1))) \<and>
         (r = Inr () \<longrightarrow> no_credentials (blobs (driver s1)) \<and> \<not> reset_marked (blobs (driver s1))) \<and>
         (r' = Inr () \<longrightarrow> no_credentials (blobs (driver s2)) \<and> \<not> reset_marked (blobs (driver s2))) \<and>
         (reset_marked (blobs (driver s1)) \<longrightarrow>
           reset_marked (blobs (driver s2)) \<or> no_credentials (blobs (driver s2)))"
proof -
  note P = assms(1)
  note e1 = flash_platform.reset_all_effect [OF P assms(2) slots_sound_agree [OF P, THEN iffD2, OF assms(3)]]
  note e2 = flash_platform.complete_reset_effect [OF P assms(6) slots_sound_agree [OF P, THEN iffD2, OF assms(4)]]
  show ?thesis using e1 e2 assms(5) unfolding flash_platform.content_def [OF P] by simp
qed

text \<open>The erase of the session namespace fails three times, and the reboot finishes the reset.\<close>

definition cut_flash :: "sim flash_namespaces" where
  "cut_flash = demo_flash [Works, Works, Works, Works, Works, Works, Works,
                            Fails_Before 4357, Fails_Before 4357, Fails_Before 4357]"

theorem reset_survives_interruption_witness:
  "let p = sim_platform False;
       (r1, s1) = reset_all p cut_flash;
       (r2, s2) = complete_reset p (s1\<lparr>validated_sessions := slots_default\<rparr>)
   in r1 \<noteq> Inr () \<and> reset_marked (sim_blobs (driver s1)) \<and> hm_contains (sim_blobs (driver s1) Sessions) ''a4aaaaaaaaaaaaa'' \<and>
      r2 = Inr () \<and> no_credentials (sim_blobs (driver s2))"
proof -
  let ?p = "sim_platform False"
  obtain r1 s1 where 1: "reset_all ?p cut_flash = (r1, s1)" by (rule prod.exhaust)
  let ?t = "s1\<lparr>validated_sessions := slots_default\<rparr>"
  obtain r2 s2 where 2: "complete_reset ?p ?t = (r2, s2)" by (rule prod.exhaust)
  have run: "r1 \<noteq> Inr () \<and> reset_marked (sim_blobs (driver s1)) \<and> hm_contains (sim_blobs (driver s1) Sessions) ''a4aaaaaaaaaaaaa'' \<and> r2 = Inr ()"
    using 1 2
    by (auto simp: reset_all_def complete_reset_def erase_all_def erase_signal_def erase_namespace_def
        cut_flash_def numeral_3_eq_3 sim_eval sim_blobs_def reset_marked_def hm_contains_def)
  have "slots_agree (sim_blobs (driver ?t) Sessions) (validated_sessions ?t)"
    by (simp add: slots_agree_def slots_default_def slots_ok_def)
  moreover have "slots_agree (sim_blobs (driver cut_flash) Sessions) (validated_sessions cut_flash)"
    unfolding cut_flash_def by (rule demo_agree)
  moreover note reset_survives_interruption [OF sim_flash.flash_platform_axioms 1 _ _ _ 2]
  ultimately
  show ?thesis using 1 2 run by simp
qed

end
