(* ===== verification/Store_Coherence.thy ===== *)
theory Store_Coherence
  imports Nvs_Store Flash_Properties
begin

text \<open>
  The store as a write-through cache. \<open>touches A f f'\<close> says that a flash operation changed
  the tables at most at the entries of \<open>A\<close>; \<open>store_ok K s\<close> says that the RAM mirrors of a
  store agree with flash except at the entries of \<open>K\<close>, those whose last write reported an
  error. Every operation of the store moves from one such state to another: a success takes
  its entries out of \<open>K\<close>, a failure puts them in.
\<close>

section \<open>What a flash operation may change\<close>

context flash_platform
begin

definition touches :: "(ns \<times> bytes) set \<Rightarrow> 'n flash_namespaces \<Rightarrow> 'n flash_namespaces \<Rightarrow> bool" where
  "touches A f f' \<longleftrightarrow>
     slots_sound f' \<and> (\<forall>ns k. (ns, k) \<notin> A \<longrightarrow> table f' ns k = table f ns k) \<and>
     ((Device, []) \<notin> A \<longrightarrow> content f' Device = content f Device)"

lemma touches_sound: "touches A f f' \<Longrightarrow> slots_sound f'"
  by (simp add: touches_def)

lemma touches_mono: "touches A f f' \<Longrightarrow> A \<subseteq> B \<Longrightarrow> touches B f f'"
  by (auto simp: touches_def)

lemma touches_trans: "touches A f g \<Longrightarrow> touches B g h \<Longrightarrow> touches (A \<union> B) f h"
  by (auto simp: touches_def)

lemma touches_same: "content f' = content f \<Longrightarrow> slots_sound f' \<Longrightarrow> touches A f f'"
  by (simp add: touches_def table_def)

lemma touches_one:
  assumes "slots_sound f'" and "\<And>ns'. ns' \<noteq> ns \<Longrightarrow> content f' ns' = content f ns'"
    and "\<And>j. j \<noteq> k \<Longrightarrow> table f' ns j = table f ns j" and "ns \<noteq> Device"
  shows "touches {(ns, k)} f f'"
  unfolding touches_def using assms by (auto simp: table_def) metis

lemma put_touches:
  assumes "put_record p ns k v label limit f = (r, f')" and "slots_sound f" and "ns \<noteq> Device"
  shows "touches {(ns, k)} f f'" and "r = Inr () \<Longrightarrow> table f' ns k = Some v"
proof -
  note e = put_record_effect [OF assms(1,2)]
  show "r = Inr () \<Longrightarrow> table f' ns k = Some v" using e(2) written_table by fastforce
  show "touches {(ns, k)} f f'"
  proof (cases "content f' = content f")
    case True
    then show ?thesis using e(1) by (rule touches_same)
  next
    case False
    with e(3) have w: "written f f' ns k v limit" by simp
    show ?thesis
    proof (rule touches_one)
      show "content f' ns' = content f ns'" if "ns' \<noteq> ns" for ns'
        using w that by (simp add: written_def)
    qed (use e(1) assms(3) written_table [OF w] in auto)
  qed
qed

lemma delete_touches:
  assumes "delete_record p ns k label f = (r, f')" and "slots_sound f" and "ns \<noteq> Device"
  shows "touches {(ns, k)} f f'" and "r = Inr () \<Longrightarrow> table f' ns k = None"
proof -
  note e = delete_record_effect [OF assms(1,2)]
  show "r = Inr () \<Longrightarrow> table f' ns k = None" using e(2) deleted_table by fastforce
  show "touches {(ns, k)} f f'"
  proof (cases "content f' = content f")
    case True
    then show ?thesis using e(1) by (rule touches_same)
  next
    case False
    with e(3) have w: "deleted f f' ns k" by simp
    show ?thesis
    proof (rule touches_one)
      show "content f' ns' = content f ns'" if "ns' \<noteq> ns" for ns'
        using w that by (simp add: deleted_def)
    qed (use e(1) assms(3) deleted_table [OF w] in auto)
  qed
qed

lemma load_touches:
  assumes "load_record p ns k len f = (r, f')" and "slots_sound f"
  shows "touches {} f f'" and "r = Inr d \<Longrightarrow> d = table f' ns k"
  using load_record_effect [OF assms(1)] assms(2) by (auto simp: touches_same table_def)

lemma load_sync_key_touches:
  assumes "load_sync_key p k f = (r, f')" and "slots_sound f"
  shows "touches {} f f'"
    and "r = Inr d \<Longrightarrow> d = Option.bind (table f' Sync_Keys k) (sync_key_from_json p)"
proof -
  obtain lr g where l: "load_record p Sync_Keys k MAX_SIGNAL_RECORD_LEN f = (lr, g)" by (rule prod.exhaust)
  note e = load_touches [OF l assms(2)]
  have "f' = g \<and> (r = Inr d \<longrightarrow> (\<exists>x. lr = Inr x \<and> d = Option.bind x (sync_key_from_json p)))"
    using assms(1) l by (auto simp: load_sync_key_def bindE_def split: sum.splits option.splits)
  then show "touches {} f f'" and "r = Inr d \<Longrightarrow> d = Option.bind (table f' Sync_Keys k) (sync_key_from_json p)"
    using e by auto
qed

lemma clear_sessions_touches:
  assumes "(bindE (on_driver (record_count (nvs p) Sessions)) (\<lambda>count.
        bindE clear_session_slots (\<lambda>_.
        bindE (on_driver (erase_namespace (nvs p) Sessions ''session'')) (\<lambda>_.
        retE count)))) f = (r, f')" and "slots_sound f"
  shows "touches ({Sessions} \<times> UNIV) f f'"
    and "r = Inr n \<Longrightarrow> content f' Sessions = fmempty \<and> n = hm_len (content f Sessions)"
proof -
  have "touches ({Sessions} \<times> UNIV) f f' \<and>
     (r = Inr n \<longrightarrow> content f' Sessions = fmempty \<and> n = hm_len (content f Sessions))"
    using assms(1)
  proof (cases rule: bindE_cases)
    case (err e)
    note c = on_count [OF err(1)]
    show ?thesis using c assms(2) err(2) touches_same [of f' f] by auto
  next
    case (ok c g)
    note cg = on_count [OF ok(1)]
    have n: "c = hm_len (content f Sessions)" by (rule on_count_ok [OF ok(1)])
    obtain er h where er: "on_driver (erase_namespace (nvs p) Sessions ''session'')
        (g\<lparr>validated_sessions := slots_clear (validated_sessions g)\<rparr>) = (er, h)" by (rule prod.exhaust)
    note o = on_erase [OF er]
    have f': "f' = h" and r: "r = Inr n \<longrightarrow> er = Inr () \<and> n = c"
      using ok(2) er by (auto simp: clear_session_slots_def bindE_def split: sum.splits)
    have sound: "slots_sound h" using o(2) by (simp add: slots_sound_def slots.sound_clear)
    from o(1) obtain m where m: "content h = (content f)(Sessions := m)" "er = Inr () \<longrightarrow> m = fmempty"
      using cg(1) by auto
    have "touches ({Sessions} \<times> UNIV) f h"
      using sound m(1) by (auto simp: touches_def table_def)
    then show ?thesis using f' r m n by auto
  qed
  then show "touches ({Sessions} \<times> UNIV) f f'"
    and "r = Inr n \<Longrightarrow> content f' Sessions = fmempty \<and> n = hm_len (content f Sessions)" by blast+
qed

text \<open>What the device record on flash holds.\<close>

definition stored_device :: "'n flash_namespaces \<Rightarrow> 'd option" where
  "stored_device f =
     Option.bind (fmlookup (content f Device) ''current'') (\<lambda>rec.
       case decode_record rec of
         Inl _ \<Rightarrow> None
       | Inr (k, payload) \<Rightarrow> if k = as_bytes ''device'' then device_from_json p payload else None)"

lemma load_device_effect:
  assumes "load_device p f = (r, f')"
  shows "content f' = content f" and "slots_sound f \<Longrightarrow> slots_sound f'" and "r = Inr d \<Longrightarrow> d = stored_device f"
proof -
  obtain br g where rd: "on_driver (read_blob (nvs p) Device ''current''
      (RECORD_HEADER_LEN + length (as_bytes ''device'') + MAX_DEVICE_LEN)) f = (br, g)" by (rule prod.exhaust)
  note o = on_read [OF rd]
  have look: "br = Inr b \<Longrightarrow> b = fmlookup (content f Device) ''current''" for b
    using on_read_ok(1) [of Device "''current''" _ f b g] rd by simp
  have "f' = g \<and> (r = Inr d \<longrightarrow> d = stored_device f)"
    using assms look unfolding load_device_def bindE_def rd stored_device_def
    by (auto split: sum.splits option.splits if_splits)
  then show "content f' = content f" and "slots_sound f \<Longrightarrow> slots_sound f'" and "r = Inr d \<Longrightarrow> d = stored_device f"
    using o by auto
qed

lemma table_of_fixed_name: "length name \<noteq> 15 \<Longrightarrow> table_of sha (fmupd name v m) = table_of sha m"
  using length_record_name by (fastforce simp: table_of_def fun_eq_iff)

text \<open>Writing one of the fixed names \<open>current\<close> and \<open>latestsync\<close> leaves every table alone.\<close>

lemma set_fixed_touches:
  assumes "on_driver (set_blob (nvs p) ns name v) f = (r, f')" and "slots_sound f"
    and "length name \<noteq> 15" and "ns \<noteq> Sessions"
  shows "touches (if ns = Device then {(Device, [])} else {}) f f'"
proof -
  note o = on_set [OF assms(1)]
  have cs: "content f' Sessions = content f Sessions" using o(1) assms(4) by auto
  have "slots_sound f'" using slots_sound_cong [OF cs o(3)] assms(2) by simp
  moreover have "table f' m k = table f m k" for m k
    using o(1) table_of_fixed_name [OF assms(3)] by (auto simp: table_def)
  moreover have "ns \<noteq> Device \<Longrightarrow> content f' Device = content f Device" using o(1) by auto
  ultimately show ?thesis by (simp add: touches_def)
qed

lemma save_device_touches:
  assumes "save_device p d f = (r, f')" and "slots_sound f"
  shows "touches {(Device, [])} f f'"
    and "r = Inr () \<Longrightarrow> \<exists>j. device_to_json p d = Some j \<and> stored_device f' = device_from_json p j"
proof -
  have "touches {(Device, [])} f f' \<and>
    (r = Inr () \<longrightarrow> (\<exists>j. device_to_json p d = Some j \<and> stored_device f' = device_from_json p j))"
  proof (cases "device_to_json p d")
    case None
    then show ?thesis using assms by (auto simp: save_device_def touches_same)
  next
    case (Some j)
    obtain er g where en: "on_driver (encode_recordE (nvs p) (as_bytes ''device'') j) f = (er, g)"
      by (rule prod.exhaust)
    have g: "g = f" by (rule on_encode(1) [OF en])
    obtain sr h where sb: "on_driver (set_blob (nvs p) Device ''current''
        (record_layout (as_bytes ''device'') j)) f = (sr, h)" by (rule prod.exhaust)
    have t: "touches {(Device, [])} f h" using set_fixed_touches [OF sb assms(2)] by simp
    have dec: "decode_record (record_layout (as_bytes ''device'') j) = Inr (as_bytes ''device'', j)"
      by (rule decode_layout) (simp add: MAX_LOGICAL_KEY_LEN_def)
    have dev: "sr = Inr () \<Longrightarrow> stored_device h = device_from_json p j"
      using on_set(2) [OF sb] dec by (simp add: stored_device_def)
    have "f' = f \<and> r \<noteq> Inr () \<or> f' = h \<and> r = sr"
    proof (cases er)
      case (Inr rec)
      then have "rec = record_layout (as_bytes ''device'') j" using on_encode(2) [OF en] by simp
      then show ?thesis using assms(1) Some en g sb Inr by (auto simp: save_device_def bindE_def split: if_splits)
    qed (use assms(1) Some en g in \<open>auto simp: save_device_def bindE_def split: if_splits\<close>)
    then show ?thesis using t dev Some touches_same [of f f] assms(2) by auto
  qed
  then show "touches {(Device, [])} f f'"
    and "r = Inr () \<Longrightarrow> \<exists>j. device_to_json p d = Some j \<and> stored_device f' = device_from_json p j" by blast+
qed

lemma prepare_effect:
  assumes "prepare_record p ns k v label limit f = (r, g)" and "slots_sound f"
  shows "content g = content f" and "slots_sound g"
    and "r = Inr (name, rec) \<Longrightarrow> name = record_name (sha256 p) k \<and> rec = record_layout k v \<and>
           length k \<le> MAX_LOGICAL_KEY_LEN \<and> length v \<le> MAX_SIGNAL_RECORD_LEN \<and>
           slot_ready (content f ns) name k limit"
proof -
  have "content g = content f \<and> slots_sound g \<and> (\<forall>name rec. r = Inr (name, rec) \<longrightarrow>
      name = record_name (sha256 p) k \<and> rec = record_layout k v \<and>
      length k \<le> MAX_LOGICAL_KEY_LEN \<and> length v \<le> MAX_SIGNAL_RECORD_LEN \<and>
      slot_ready (content f ns) name k limit)"
    using assms(1) unfolding prepare_record_def
  proof (cases rule: bindE_cases)
    case (err e)
    then show ?thesis using check_record_slot_effect [OF err(1)] assms(2) by simp
  next
    case (ok name h)
    note c = check_record_slot_effect [OF ok(1)]
    obtain er h' where en: "on_driver (encode_recordE (nvs p) k v) h = (er, h')" by (rule prod.exhaust)
    note o = on_encode [OF en]
    show ?thesis using ok(2) en o(1,2) c assms(2) by (auto simp: bindE_def split: sum.splits)
  qed
  then show "content g = content f" and "slots_sound g"
    and "r = Inr (name, rec) \<Longrightarrow> name = record_name (sha256 p) k \<and> rec = record_layout k v \<and>
           length k \<le> MAX_LOGICAL_KEY_LEN \<and> length v \<le> MAX_SIGNAL_RECORD_LEN \<and>
           slot_ready (content f ns) name k limit" by blast+
qed

lemma save_latest_touches:
  assumes "save_latest_sync_key_id p k f = (r, f')" and "slots_sound f"
  shows "touches {} f f'" and "ns \<noteq> Control \<Longrightarrow> content f' ns = content f ns"
proof -
  have "touches {} f f' \<and> (ns \<noteq> Control \<longrightarrow> content f' ns = content f ns)"
  proof (cases "length k > MAX_LOGICAL_KEY_LEN")
    case True
    then show ?thesis using assms by (auto simp: save_latest_sync_key_id_def touches_same)
  next
    case False
    then have "bindE (on_driver (encode_recordE (nvs p) (as_bytes ''latestsync'') k)) (\<lambda>rec.
        on_driver (set_blob (nvs p) Control ''latestsync'' rec)) f = (r, f')"
      using assms(1) by (simp add: save_latest_sync_key_id_def)
    then show ?thesis
    proof (cases rule: bindE_cases)
      case (err e)
      then show ?thesis using on_encode(1) [OF err(1)] assms(2) by (simp add: touches_same)
    next
      case (ok rec g)
      have g: "g = f" by (rule on_encode(1) [OF ok(1)])
      have "ns \<noteq> Control \<longrightarrow> content f' ns = content g ns" using on_set(1) [OF ok(2)] by auto
      then show ?thesis using g set_fixed_touches [OF ok(2)] assms(2) by simp
    qed
  qed
  then show "touches {} f f'" and "ns \<noteq> Control \<Longrightarrow> content f' ns = content f ns" by blast+
qed

definition set_sync_job :: "bytes \<Rightarrow> bytes \<Rightarrow> ('n, unit) flash_io" where
  "set_sync_job key_id payload =
     bindE (prepare_record p Sync_Keys key_id payload ''sync key'' MAX_SYNC_KEYS) (\<lambda>(name, rec).
     bindE (save_latest_sync_key_id p key_id) (\<lambda>_.
     on_driver (set_blob (nvs p) Sync_Keys name rec)))"

lemma set_sync_job_touches:
  assumes "set_sync_job k v f = (r, f')" and "slots_sound f"
  shows "touches {(Sync_Keys, k)} f f'" and "r = Inr () \<Longrightarrow> table f' Sync_Keys k = Some v"
proof -
  have "touches {(Sync_Keys, k)} f f' \<and> (r = Inr () \<longrightarrow> table f' Sync_Keys k = Some v)"
    using assms(1) unfolding set_sync_job_def
  proof (cases rule: bindE_cases)
    case (err e)
    then show ?thesis using prepare_effect [OF err(1) assms(2)] by (simp add: touches_same)
  next
    case (ok nr g)
    obtain name rec where nr: "nr = (name, rec)" by (rule prod.exhaust)
    note q = prepare_effect [OF ok(1) assms(2)]
    note ready = q(3) [OF arg_cong [OF nr, of Inr]]
    have tg: "touches {(Sync_Keys, k)} f g" using q by (simp add: touches_same)
    from ok(2) nr have "bindE (save_latest_sync_key_id p k) (\<lambda>_. on_driver (set_blob (nvs p) Sync_Keys name rec)) g = (r, f')"
      by simp
    then show ?thesis
    proof (cases rule: bindE_cases)
      case (err e)
      show ?thesis
        using touches_trans [OF tg save_latest_touches(1) [OF err(1) q(2)]] err(2) by simp
    next
      case (ok u h)
      note l = save_latest_touches [OF ok(1) q(2)]
      have th: "touches {(Sync_Keys, k)} f h" using touches_trans [OF tg l(1)] by simp
      note o = on_set [OF ok(2)]
      have ch: "content h Sync_Keys = content f Sync_Keys" using l(2) [of Sync_Keys] q(1) by simp
      have w: "content f' = (content h)(Sync_Keys := fmupd name rec (content h Sync_Keys)) \<Longrightarrow>
          written h f' Sync_Keys k v MAX_SYNC_KEYS"
        using ready ch by (auto simp: written_def)
      have "content f' Sessions = content h Sessions" using o(1) by auto
      then have sound: "slots_sound f'" using slots_sound_cong [of f' h] o(3) touches_sound [OF th] by simp
      have "touches {(Sync_Keys, k)} h f'"
      proof (cases "content f' = content h")
        case True
        then show ?thesis using sound by (rule touches_same)
      next
        case False
        with o(1) w have w': "written h f' Sync_Keys k v MAX_SYNC_KEYS" by auto
        show ?thesis
          by (rule touches_one) (use sound written_table [OF w'] w' in \<open>auto simp: written_def\<close>)
      qed
      from touches_trans [OF th this] show ?thesis using written_table [OF w] o(2) by auto
    qed
  qed
  then show "touches {(Sync_Keys, k)} f f'" and "r = Inr () \<Longrightarrow> table f' Sync_Keys k = Some v" by blast+
qed

text \<open>The state of a store, and the entries at which it may disagree with flash.\<close>

definition sync_table :: "'n flash_namespaces \<Rightarrow> bytes \<Rightarrow> 'k option" where
  "sync_table f k = Option.bind (table f Sync_Keys k) (sync_key_from_json p)"

definition store_ok ::
  "(ns \<times> bytes) set \<Rightarrow> ('n, 'd, 'k, 'h, 'l, 'v) nvs_store \<Rightarrow> bool" where
  "store_ok K s \<longleftrightarrow>
     (let i = inner s; f = flash s in
      slots_sound f \<and>
      lru.coherent {a. (Identities, as_bytes a) \<in> K} (identities i, identity_order i)
        (\<lambda>a. table f Identities (as_bytes a)) \<and>
      lru.coherent {a. (Sessions, as_bytes a) \<in> K} (sessions i, session_order i)
        (\<lambda>a. table f Sessions (as_bytes a)) \<and>
      plain.complete {n. (Prekeys, u32_to_le n) \<in> K} (prekeys i) (\<lambda>n. table f Prekeys (u32_to_le n)) \<and>
      plain.complete {n. (Signed_Prekeys, u32_to_le n) \<in> K} (signed_prekeys i)
        (\<lambda>n. table f Signed_Prekeys (u32_to_le n)) \<and>
      plain.complete {a. (Sender_Keys, as_bytes a) \<in> K} (sender_keys i)
        (\<lambda>a. table f Sender_Keys (as_bytes a)) \<and>
      sync.coherent {k. (Sync_Keys, k) \<in> K} (sync_keys i, sync_key_order i) (sync_table f) \<and>
      ((Device, []) \<notin> K \<longrightarrow> device i = stored_device f))"

lemma store_ok_sound: "store_ok K s \<Longrightarrow> slots_sound (flash s)"
  by (simp add: store_ok_def Let_def)

lemma store_ok_mono: "store_ok K s \<Longrightarrow> K \<subseteq> L \<Longrightarrow> store_ok L s"
  unfolding store_ok_def Let_def lru.coherent_def sync.coherent_def plain.complete_def by blast

text \<open>A flash operation on its own, failed or not, adds the entries it touches.\<close>

lemma store_ok_touch:
  assumes "store_ok K s" and "touches A (flash s) f" and "inner s' = inner s" and "flash s' = f"
  shows "store_ok (K \<union> A) s'"
proof -
  have t: "(ns, k) \<notin> A \<Longrightarrow> table f ns k = table (flash s) ns k" for ns k
    using assms(2) by (simp add: touches_def)
  have d: "(Device, []) \<notin> A \<Longrightarrow> stored_device f = stored_device (flash s)"
    using assms(2) by (simp add: touches_def stored_device_def)
  show ?thesis
    using assms(1,3,4) touches_sound [OF assms(2)] t d
    unfolding store_ok_def Let_def lru.coherent_def sync.coherent_def plain.complete_def sync_table_def
    by simp
qed

lemma store_ok_flash_same:
  "store_ok K s \<Longrightarrow> touches {} (flash s) f \<Longrightarrow> inner s' = inner s \<Longrightarrow> flash s' = f \<Longrightarrow> store_ok K s'"
  using store_ok_touch [of K s "{}"] by simp

end

end
