(* ===== verification/Store_Ops.thy ===== *)
theory Store_Ops
  imports Store_Coherence
begin

text \<open>
  Every operation of \<open>NvsStore\<close> keeps \<open>store_ok\<close>: the mirror steps first, then the
  operations, then runs of operations in any order with any failures.
\<close>

section \<open>Mirror steps\<close>

lemma mirror_identity_fields:
  "(identities (mirror_identity b a v i), identity_order (mirror_identity b a v i)) =
     lru_put b 8 (identities i, identity_order i) a v"
  "mirror_identity b a v i =
     i\<lparr>identities := identities (mirror_identity b a v i),
       identity_order := identity_order (mirror_identity b a v i)\<rparr>"
  by (auto simp: mirror_identity_def enforce_identities_cap_def lru_put_def Let_def split: prod.splits)

lemma mirror_session_fields:
  "(sessions (mirror_session b a v i), session_order (mirror_session b a v i)) =
     lru_put b 0 (sessions i, session_order i) a v"
  "mirror_session b a v i =
     i\<lparr>sessions := sessions (mirror_session b a v i),
       session_order := session_order (mirror_session b a v i)\<rparr>"
  by (auto simp: mirror_session_def enforce_sessions_cap_def lru_put_def Let_def split: prod.splits)

lemma mirror_sync_key_fields:
  "(sync_keys (mirror_sync_key b k v i), sync_key_order (mirror_sync_key b k v i)) =
     sync_put b (latest_sync_key_id i) (sync_keys i, sync_key_order i) k v"
  "mirror_sync_key b k v i =
     i\<lparr>sync_keys := sync_keys (mirror_sync_key b k v i),
       sync_key_order := sync_key_order (mirror_sync_key b k v i)\<rparr>"
  by (auto simp: mirror_sync_key_def enforce_sync_keys_cap_def enforce_sync_keys_cap_except_def
      sync_put_def Let_def split: prod.splits)

lemma mirror_other_fields [simp]:
  "device (mirror_identity b a v i) = device i" "sessions (mirror_identity b a v i) = sessions i"
  "session_order (mirror_identity b a v i) = session_order i" "prekeys (mirror_identity b a v i) = prekeys i"
  "signed_prekeys (mirror_identity b a v i) = signed_prekeys i"
  "sender_keys (mirror_identity b a v i) = sender_keys i" "sync_keys (mirror_identity b a v i) = sync_keys i"
  "sync_key_order (mirror_identity b a v i) = sync_key_order i"
  "device (mirror_session b a v i) = device i" "identities (mirror_session b a v i) = identities i"
  "identity_order (mirror_session b a v i) = identity_order i" "prekeys (mirror_session b a v i) = prekeys i"
  "signed_prekeys (mirror_session b a v i) = signed_prekeys i"
  "sender_keys (mirror_session b a v i) = sender_keys i" "sync_keys (mirror_session b a v i) = sync_keys i"
  "sync_key_order (mirror_session b a v i) = sync_key_order i"
  "device (mirror_sync_key b k x i) = device i" "identities (mirror_sync_key b k x i) = identities i"
  "identity_order (mirror_sync_key b k x i) = identity_order i" "prekeys (mirror_sync_key b k x i) = prekeys i"
  "signed_prekeys (mirror_sync_key b k x i) = signed_prekeys i"
  "sender_keys (mirror_sync_key b k x i) = sender_keys i" "sessions (mirror_sync_key b k x i) = sessions i"
  "session_order (mirror_sync_key b k x i) = session_order i"
  by (subst mirror_identity_fields(2) mirror_session_fields(2) mirror_sync_key_fields(2); simp)+

lemma entry_sets:
  "{a. (ns, as_bytes a) \<in> K - {(ns, as_bytes b)}} = {a. (ns, as_bytes a) \<in> K} - {b}"
  "{n. (ns, u32_to_le n) \<in> K - {(ns, u32_to_le m)}} = {n. (ns, u32_to_le n) \<in> K} - {m}"
  "{k. (ns, k) \<in> K - {(ns, j)}} = {k. (ns, k) \<in> K} - {j}"
  "ns \<noteq> ns' \<Longrightarrow> {a. (ns, f a) \<in> K - {(ns', j)}} = {a. (ns, f a) \<in> K}"
  "ns \<noteq> Device \<Longrightarrow> (Device, y) \<in> K - {(ns, j)} \<longleftrightarrow> (Device, y) \<in> K"
  by auto

context flash_platform
begin

lemmas store_ok_unfold = store_ok_def [unfolded Let_def]

lemma settle_identity:
  assumes "store_ok K s" and "table (flash s) Identities (as_bytes a) = Some v"
    and "flash s' = flash s" and "inner s' = mirror_identity b a v (inner s)"
  shows "store_ok (K - {(Identities, as_bytes a)}) s'"
  using assms lru.coherent_fill [of "{a. (Identities, as_bytes a) \<in> K}" "(identities (inner s), identity_order (inner s))"
      "\<lambda>a. table (flash s) Identities (as_bytes a)" a v b 8]
  by (simp add: store_ok_unfold mirror_identity_fields(1) entry_sets del: Diff_iff)

lemma settle_session:
  assumes "store_ok K s" and "table (flash s) Sessions (as_bytes a) = Some v"
    and "flash s' = flash s" and "inner s' = mirror_session b a v (inner s)"
  shows "store_ok (K - {(Sessions, as_bytes a)}) s'"
  using assms lru.coherent_fill [of "{a. (Sessions, as_bytes a) \<in> K}" "(sessions (inner s), session_order (inner s))"
      "\<lambda>a. table (flash s) Sessions (as_bytes a)" a v b 0]
  by (simp add: store_ok_unfold mirror_session_fields(1) entry_sets del: Diff_iff)

lemma settle_sync_key:
  assumes "store_ok K s" and "sync_table (flash s) k = Some v" and "flash s' = flash s"
    and "inner s' = mirror_sync_key b k v ((inner s)\<lparr>latest_sync_key_id := l\<rparr>)"
  shows "store_ok (K - {(Sync_Keys, k)}) s'"
  using assms sync.coherent_fill [of "{k. (Sync_Keys, k) \<in> K}" "(sync_keys (inner s), sync_key_order (inner s))"
      "sync_table (flash s)" k v b l]
  by (simp add: store_ok_unfold mirror_sync_key_fields(1) entry_sets del: Diff_iff)

lemma forget_identity:
  assumes "store_ok K s" and "flash s' = flash s"
    and "inner s' = (inner s)\<lparr>identities := fmdrop a (identities (inner s)),
                              identity_order := lru_removed (identity_order (inner s)) a\<rparr>"
  shows "store_ok (K - {(Identities, as_bytes a)}) s'"
  using assms lru.coherent_del [of "{a. (Identities, as_bytes a) \<in> K}" "(identities (inner s), identity_order (inner s))"
      "\<lambda>a. table (flash s) Identities (as_bytes a)" a]
  by (simp add: store_ok_unfold lru_del_def entry_sets del: Diff_iff)

lemma forget_session:
  assumes "store_ok K s" and "flash s' = flash s"
    and "inner s' = (inner s)\<lparr>sessions := fmdrop a (sessions (inner s)),
                              session_order := lru_removed (session_order (inner s)) a\<rparr>"
  shows "store_ok (K - {(Sessions, as_bytes a)}) s'"
  using assms lru.coherent_del [of "{a. (Sessions, as_bytes a) \<in> K}" "(sessions (inner s), session_order (inner s))"
      "\<lambda>a. table (flash s) Sessions (as_bytes a)" a]
  by (simp add: store_ok_unfold lru_del_def entry_sets del: Diff_iff)

lemma settle_prekey:
  assumes "store_ok K s" and "flash s' = flash s"
  shows "table (flash s) Prekeys (u32_to_le n) = Some v \<Longrightarrow>
         inner s' = (inner s)\<lparr>prekeys := fmupd n v (prekeys (inner s))\<rparr> \<Longrightarrow>
         store_ok (K - {(Prekeys, u32_to_le n)}) s'"
    and "table (flash s) Prekeys (u32_to_le n) = None \<Longrightarrow>
         inner s' = (inner s)\<lparr>prekeys := fmdrop n (prekeys (inner s))\<rparr> \<Longrightarrow>
         store_ok (K - {(Prekeys, u32_to_le n)}) s'"
  using assms plain.complete_put [of "{n. (Prekeys, u32_to_le n) \<in> K}" "prekeys (inner s)"
      "\<lambda>n. table (flash s) Prekeys (u32_to_le n)" n v]
    plain.complete_del [of "{n. (Prekeys, u32_to_le n) \<in> K}" "prekeys (inner s)"
      "\<lambda>n. table (flash s) Prekeys (u32_to_le n)" n]
  by (simp_all add: store_ok_unfold entry_sets del: Diff_iff)

lemma settle_signed_prekey:
  assumes "store_ok K s" and "flash s' = flash s"
  shows "table (flash s) Signed_Prekeys (u32_to_le n) = Some v \<Longrightarrow>
         inner s' = (inner s)\<lparr>signed_prekeys := fmupd n v (signed_prekeys (inner s))\<rparr> \<Longrightarrow>
         store_ok (K - {(Signed_Prekeys, u32_to_le n)}) s'"
    and "table (flash s) Signed_Prekeys (u32_to_le n) = None \<Longrightarrow>
         inner s' = (inner s)\<lparr>signed_prekeys := fmdrop n (signed_prekeys (inner s))\<rparr> \<Longrightarrow>
         store_ok (K - {(Signed_Prekeys, u32_to_le n)}) s'"
  using assms plain.complete_put [of "{n. (Signed_Prekeys, u32_to_le n) \<in> K}" "signed_prekeys (inner s)"
      "\<lambda>n. table (flash s) Signed_Prekeys (u32_to_le n)" n v]
    plain.complete_del [of "{n. (Signed_Prekeys, u32_to_le n) \<in> K}" "signed_prekeys (inner s)"
      "\<lambda>n. table (flash s) Signed_Prekeys (u32_to_le n)" n]
  by (simp_all add: store_ok_unfold entry_sets del: Diff_iff)

lemma settle_sender_key:
  assumes "store_ok K s" and "flash s' = flash s"
  shows "table (flash s) Sender_Keys (as_bytes a) = Some v \<Longrightarrow>
         inner s' = (inner s)\<lparr>sender_keys := fmupd a v (sender_keys (inner s))\<rparr> \<Longrightarrow>
         store_ok (K - {(Sender_Keys, as_bytes a)}) s'"
    and "table (flash s) Sender_Keys (as_bytes a) = None \<Longrightarrow>
         inner s' = (inner s)\<lparr>sender_keys := fmdrop a (sender_keys (inner s))\<rparr> \<Longrightarrow>
         store_ok (K - {(Sender_Keys, as_bytes a)}) s'"
  using assms plain.complete_put [of "{a. (Sender_Keys, as_bytes a) \<in> K}" "sender_keys (inner s)"
      "\<lambda>a. table (flash s) Sender_Keys (as_bytes a)" a v]
    plain.complete_del [of "{a. (Sender_Keys, as_bytes a) \<in> K}" "sender_keys (inner s)"
      "\<lambda>a. table (flash s) Sender_Keys (as_bytes a)" a]
  by (simp_all add: store_ok_unfold entry_sets del: Diff_iff)

section \<open>Operations\<close>

text \<open>An operation that settles its entries when it succeeds and unsettles them when it fails.\<close>

definition settles :: "(ns \<times> bytes) set \<Rightarrow> ('n, 'd, 'k, 'h, 'l, 'v, 'a) store_io \<Rightarrow> bool" where
  "settles A m \<longleftrightarrow>
     (\<forall>K s r s'. store_ok K s \<longrightarrow> m s = (r, s') \<longrightarrow>
        store_ok (case r of Inr _ \<Rightarrow> K - A | Inl _ \<Rightarrow> K \<union> A) s')"

lemma settlesI:
  "(\<And>K s r s'. store_ok K s \<Longrightarrow> m s = (r, s') \<Longrightarrow>
      store_ok (case r of Inr _ \<Rightarrow> K - A | Inl _ \<Rightarrow> K \<union> A) s') \<Longrightarrow> settles A m"
  by (simp add: settles_def)

lemma settlesD:
  "settles A m \<Longrightarrow> store_ok K s \<Longrightarrow> m s = (r, s') \<Longrightarrow>
   store_ok (case r of Inr _ \<Rightarrow> K - A | Inl _ \<Rightarrow> K \<union> A) s'"
  by (simp add: settles_def)

lemma settles_seq:
  assumes "settles A m" and "\<And>x. settles B (f x)"
  shows "settles (A \<union> B) (bindE m f)"
proof (rule settlesI)
  fix K s r s'
  assume ok: "store_ok K s" and "bindE m f s = (r, s')"
  from this(2) show "store_ok (case r of Inr _ \<Rightarrow> K - (A \<union> B) | Inl _ \<Rightarrow> K \<union> (A \<union> B)) s'"
  proof (cases rule: bindE_cases)
    case (err e)
    with settlesD [OF assms(1) ok err(1)] show ?thesis by (auto intro: store_ok_mono)
  next
    case (ok x t)
    have "store_ok (K - A) t" using settlesD [OF assms(1) \<open>store_ok K s\<close> ok(1)] by simp
    from settlesD [OF assms(2) this ok(2)] show ?thesis
      by (cases r) (auto intro: store_ok_mono simp: Diff_eq Int_ac)
  qed
qed

lemma settles_guard:
  assumes "settles {} m" and "\<And>x. settles A (f x)" shows "settles A (bindE m f)"
  using settles_seq [OF assms] by simp

lemma settles_pure: "(\<And>s r s'. m s = (r, s') \<Longrightarrow> s' = s) \<Longrightarrow> settles {} m"
  by (rule settlesI) (auto split: sum.splits)

lemma settles_basic:
  "settles {} (retE x)" "settles {} (throwE e)" "settles {} (liftE r)" "settles {} (getE g)"
  "settles {} (failE_if c e)" "settles {} write_operation"
  by (rule settles_pure; auto simp: write_operation_def split: if_splits)+

lemma settles_throw: "settles A (throwE e)"
  by (rule settlesI) (auto intro: store_ok_mono)

text \<open>A flash job followed by its mirror step.\<close>

lemma settles_write:
  assumes "\<And>f r f'. slots_sound f \<Longrightarrow> job f = (r, f') \<Longrightarrow> touches A f f'"
    and "\<And>f u f' K s s'. slots_sound f \<Longrightarrow> job f = (Inr u, f') \<Longrightarrow> store_ok K s \<Longrightarrow> flash s = f' \<Longrightarrow>
           flash s' = f' \<Longrightarrow> inner s' = g (inner s) \<Longrightarrow> store_ok (K - A) s'"
  shows "settles A (bindE (run job) (\<lambda>_. with_inner g))"
proof (rule settlesI)
  fix K s r s'
  assume ok: "store_ok K s" and run: "bindE (run job) (\<lambda>_. with_inner g) s = (r, s')"
  show "store_ok (case r of Inr _ \<Rightarrow> K - A | Inl _ \<Rightarrow> K \<union> A) s'"
  proof (cases "worker_alive s")
    case False
    then show ?thesis using run ok by (auto simp: run_def bindE_def intro: store_ok_mono)
  next
    case True
    obtain jr f where j: "job (flash s) = (jr, f)" by (rule prod.exhaust)
    have t: "touches A (flash s) f" by (rule assms(1) [OF store_ok_sound [OF ok] j])
    have mid: "store_ok (K \<union> A) (s\<lparr>flash := f\<rparr>)" by (rule store_ok_touch [OF ok t]) simp_all
    show ?thesis
    proof (cases jr)
      case (Inl e)
      then show ?thesis using run True j mid by (auto simp: run_def bindE_def)
    next
      case (Inr u)
      then have s': "s' = s\<lparr>flash := f, inner := g (inner s)\<rparr>" "r = Inr ()"
        using run True j by (auto simp: run_def bindE_def with_inner_def)
      have "store_ok ((K \<union> A) - A) s'"
        by (rule assms(2) [OF store_ok_sound [OF ok] j [unfolded Inr] mid]) (simp_all add: s')
      then show ?thesis using s'(2) by (auto intro: store_ok_mono)
    qed
  qed
qed

lemma settles_put_identity: "settles {(Identities, as_bytes a)} (put_identity_body p a v)"
  unfolding put_identity_body_def
  by (intro settles_guard settles_basic settles_write)
    (auto dest: put_touches intro: settle_identity)

lemma settles_delete_identity: "settles {(Identities, as_bytes a)} (delete_identity p a)"
  unfolding delete_identity_def
  by (intro settles_guard settles_basic settles_write)
    (auto dest: delete_touches intro: forget_identity)

lemma settles_delete_session: "settles {(Sessions, as_bytes a)} (delete_session p a)"
  unfolding delete_session_def
  by (intro settles_guard settles_basic settles_write)
    (auto dest: delete_touches intro: forget_session)

lemma settles_prekeys:
  "settles {(Prekeys, u32_to_le n)} (store_prekey p n v)"
  "settles {(Prekeys, u32_to_le n)} (remove_prekey p n)"
  unfolding store_prekey_def remove_prekey_def
  by (intro settles_guard settles_basic settles_write;
      auto dest: put_touches delete_touches intro: settle_prekey)+

lemma settles_signed_prekeys:
  "settles {(Signed_Prekeys, u32_to_le n)} (store_signed_prekey p n v)"
  "settles {(Signed_Prekeys, u32_to_le n)} (remove_signed_prekey p n)"
  unfolding store_signed_prekey_def remove_signed_prekey_def
  by (intro settles_guard settles_basic settles_write;
      auto dest: put_touches delete_touches intro: settle_signed_prekey)+

lemma settles_sender_keys:
  "settles {(Sender_Keys, as_bytes a)} (put_sender_key p a v)"
  "settles {(Sender_Keys, as_bytes a)} (delete_sender_key p a)"
  unfolding put_sender_key_def delete_sender_key_def
  by (intro settles_guard settles_basic settles_write;
      auto dest: put_touches delete_touches intro: settle_sender_key)+

lemma settles_put_identities: "settles ((\<lambda>(a, _). (Identities, as_bytes a)) ` set es) (put_identities_loop p es)"
proof (induction es)
  case Nil
  show ?case unfolding put_identities_loop.simps list.set image_empty by (rule settles_basic(1))
next
  case (Cons e es)
  obtain a v where "e = (a, v)" by (rule prod.exhaust)
  with settles_seq [OF settles_put_identity [of a v], of _ "\<lambda>_. put_identities_loop p es"] Cons.IH
  show ?case by simp
qed

lemma settles_session_write:
  "settles {(Sessions, as_bytes a)}
     (bindE (run (put_record p Sessions (as_bytes a) v ''session'' MAX_SESSIONS)) (\<lambda>_.
      with_inner (mirror_session (has_psram p) a v)))"
  by (rule settles_write) (auto dest: put_touches intro: settle_session)

lemma settles_session_then:
  assumes "settles B m"
  shows "settles ({(Sessions, as_bytes a)} \<union> B)
     (bindE (run (put_record p Sessions (as_bytes a) v ''session'' MAX_SESSIONS)) (\<lambda>_.
      bindE (with_inner (mirror_session (has_psram p) a v)) (\<lambda>_. m)))"
  using settles_seq [OF settles_session_write assms, of a v] by (simp add: bindE_assoc)

lemma settles_put_sessions: "settles ((\<lambda>(a, _). (Sessions, as_bytes a)) ` set es) (put_sessions_loop p es)"
proof (induction es)
  case Nil
  show ?case unfolding put_sessions_loop.simps list.set image_empty by (rule settles_basic(1))
next
  case (Cons e es)
  obtain a v where e: "e = (a, v)" by (rule prod.exhaust)
  show ?case using settles_session_then [OF Cons.IH, of a v]
    unfolding e put_sessions_loop.simps
    by (intro settles_guard [OF settles_basic(4)] settles_guard [OF settles_basic(3)]) simp
qed

text \<open>A hit only moves the entry to the back of the order.\<close>

lemma touch_identity:
  assumes "store_ok K s" and "fmlookup (identities (inner s)) a = Some v"
  shows "store_ok K (s\<lparr>inner := (inner s)\<lparr>identity_order := lru_touched (identity_order (inner s)) a\<rparr>\<rparr>)"
proof -
  have "lru_ok (identities (inner s), identity_order (inner s))"
    using assms(1) by (simp add: store_ok_unfold lru.coherent_def)
  then have "mirror_ok (identities (inner s)) (lru_touched (identity_order (inner s)) a)"
    using assms(2) mirror_ok_touch by (simp add: lru_ok_def)
  then show ?thesis using assms(1)
    by (simp add: store_ok_unfold lru.coherent_def lru_ok_def lru_get_def)
qed

lemma touch_session:
  assumes "store_ok K s" and "fmlookup (sessions (inner s)) a = Some v"
  shows "store_ok K (s\<lparr>inner := (inner s)\<lparr>session_order := lru_touched (session_order (inner s)) a\<rparr>\<rparr>)"
proof -
  have "lru_ok (sessions (inner s), session_order (inner s))"
    using assms(1) by (simp add: store_ok_unfold lru.coherent_def)
  then have "mirror_ok (sessions (inner s)) (lru_touched (session_order (inner s)) a)"
    using assms(2) mirror_ok_touch by (simp add: lru_ok_def)
  then show ?thesis using assms(1)
    by (simp add: store_ok_unfold lru.coherent_def lru_ok_def lru_get_def)
qed

lemma touch_sync_key:
  assumes "store_ok K s" and "fmlookup (sync_keys (inner s)) k = Some v"
  shows "store_ok K (s\<lparr>inner := (inner s)\<lparr>sync_key_order := lru_touched (sync_key_order (inner s)) k\<rparr>\<rparr>)"
proof -
  have "lru_ok (sync_keys (inner s), sync_key_order (inner s))"
    using assms(1) by (simp add: store_ok_unfold lru.coherent_def)
  then have "mirror_ok (sync_keys (inner s)) (lru_touched (sync_key_order (inner s)) k)"
    using assms(2) mirror_ok_touch by (simp add: lru_ok_def)
  then show ?thesis using assms(1)
    by (simp add: store_ok_unfold lru.coherent_def lru_ok_def lru_get_def)
qed

text \<open>A run of a flash job that changes nothing there.\<close>

definition reads_only :: "('n, 'a) flash_io \<Rightarrow> bool" where
  "reads_only job \<longleftrightarrow> (\<forall>f r f'. slots_sound f \<longrightarrow> job f = (r, f') \<longrightarrow> touches {} f f')"

lemma reads_only_loads: "reads_only (load_record p ns k len)" "reads_only (load_sync_key p j)"
  unfolding reads_only_def using load_touches(1) load_sync_key_touches(1) by blast+

lemma run_read:
  assumes "run job s = (r, s')" and "store_ok K s"
    and "reads_only job"
  shows "store_ok K s'" and "inner s' = inner s"
    and "r = Inr x \<Longrightarrow> \<exists>f. job f = (Inr x, flash s') \<and> slots_sound f"
proof -
  obtain jr f where j: "job (flash s) = (jr, f)" by (rule prod.exhaust)
  have t: "touches {} (flash s) f" using assms(3) store_ok_sound [OF assms(2)] j by (simp add: reads_only_def)
  show "inner s' = inner s" using assms(1) j by (auto simp: run_def split: if_splits)
  show "store_ok K s'"
  proof (cases "worker_alive s")
    case True
    then show ?thesis using assms(1) j store_ok_flash_same [OF assms(2) t, of s'] by (auto simp: run_def)
  next
    case False
    then show ?thesis using assms(1,2) by (simp add: run_def)
  qed
  show "r = Inr x \<Longrightarrow> \<exists>f. job f = (Inr x, flash s') \<and> slots_sound f"
    using assms(1) j store_ok_sound [OF assms(2)] by (auto simp: run_def split: if_splits)
qed

text \<open>
  The read-through pattern of \<open>load_identity\<close>, \<open>get_session\<close> and \<open>get_sync_key\<close>: on
  a miss, ask flash and put the answer in the mirror.
\<close>

lemma load_identity_ok:
  assumes ok: "store_ok K s" and run: "load_identity p a s = (r, s')"
  shows "store_ok K s' \<and> (\<forall>d. r = Inr d \<longrightarrow> (Identities, as_bytes a) \<notin> K \<longrightarrow>
           d = table (flash s') Identities (as_bytes a) \<or>
           d = None \<and> (\<exists>v. table (flash s') Identities (as_bytes a) = Some v \<and> length v \<noteq> 32))"
proof (cases "fmlookup (identities (inner s)) a")
  case (Some v)
  then have "r = Inr (Some v)" and
    s': "s' = s\<lparr>inner := (inner s)\<lparr>identity_order := lru_touched (identity_order (inner s)) a\<rparr>\<rparr>"
    using run by (auto simp: load_identity_def load_identity_hit_def bindE_def)
  moreover have "store_ok K s'" unfolding s' by (rule touch_identity [OF ok Some])
  moreover have "(Identities, as_bytes a) \<notin> K \<Longrightarrow> table (flash s) Identities (as_bytes a) = Some v"
    using ok Some by (auto simp: store_ok_unfold lru.coherent_def lru_get_def)
  ultimately show ?thesis by auto
next
  case None
  then have "bindE (run (load_record p Identities (as_bytes a) 32)) (load_identity_fill p a) s = (r, s')"
    using run by (simp add: load_identity_def load_identity_hit_def load_identity_flash_def bindE_def)
  then show ?thesis
  proof (cases rule: bindE_cases)
    case (err e)
    then show ?thesis using run_read(1) [OF err(1) ok reads_only_loads(1)] by simp
  next
    case (ok x t)
    note t = run_read [OF ok(1) \<open>store_ok K s\<close> reads_only_loads(1)]
    from t(3) obtain f where "load_record p Identities (as_bytes a) 32 f = (Inr x, flash t)" "slots_sound f"
      by blast
    from load_touches(2) [OF this, of x] have x: "x = table (flash t) Identities (as_bytes a)" by simp
    show ?thesis
    proof (cases "\<exists>v. x = Some v \<and> length v = 32")
      case True
      then obtain v where v: "x = Some v" "length v = 32" by blast
      with ok(2) have s': "s' = t\<lparr>inner := mirror_identity (has_psram p) a v (inner t)\<rparr>" "r = Inr (Some v)"
        by (auto simp: load_identity_fill_def bindE_def with_inner_def)
      have "store_ok (K - {(Identities, as_bytes a)}) s'"
        by (rule settle_identity [OF t(1)]) (use x v s' in auto)
      then show ?thesis using x v s' by (auto intro: store_ok_mono)
    next
      case False
      then have "s' = t" "r = Inr None" using ok(2) by (auto simp: load_identity_fill_def split: option.splits)
      then show ?thesis using t(1) x False by (cases x) auto
    qed
  qed
qed

lemma get_session_ok:
  assumes ok: "store_ok K s" and run: "get_session p a s = (r, s')"
  shows "store_ok K s' \<and> (\<forall>d. r = Inr d \<longrightarrow> (Sessions, as_bytes a) \<notin> K \<longrightarrow>
           d = table (flash s') Sessions (as_bytes a))"
proof (cases "fmlookup (sessions (inner s)) a")
  case (Some v)
  then have "r = Inr (Some v)" and
    s': "s' = s\<lparr>inner := (inner s)\<lparr>session_order := lru_touched (session_order (inner s)) a\<rparr>\<rparr>"
    using run by (auto simp: get_session_def get_session_hit_def bindE_def)
  moreover have "store_ok K s'" unfolding s' by (rule touch_session [OF ok Some])
  moreover have "(Sessions, as_bytes a) \<notin> K \<Longrightarrow> table (flash s) Sessions (as_bytes a) = Some v"
    using ok Some by (auto simp: store_ok_unfold lru.coherent_def lru_get_def)
  ultimately show ?thesis by auto
next
  case None
  then have "bindE (run (load_record p Sessions (as_bytes a) MAX_SIGNAL_RECORD_LEN)) (get_session_fill p a) s = (r, s')"
    using run by (simp add: get_session_def get_session_hit_def get_session_flash_def bindE_def)
  then show ?thesis
  proof (cases rule: bindE_cases)
    case (err e)
    then show ?thesis using run_read(1) [OF err(1) ok reads_only_loads(1)] by simp
  next
    case (ok x t)
    note t = run_read [OF ok(1) \<open>store_ok K s\<close> reads_only_loads(1)]
    from t(3) obtain f where "load_record p Sessions (as_bytes a) MAX_SIGNAL_RECORD_LEN f = (Inr x, flash t)"
      "slots_sound f" by blast
    from load_touches(2) [OF this, of x] have x: "x = table (flash t) Sessions (as_bytes a)" by simp
    show ?thesis
    proof (cases x)
      case (Some v)
      with ok(2) have s': "s' = t\<lparr>inner := mirror_session (has_psram p) a v (inner t)\<rparr>" "r = Inr (Some v)"
        by (auto simp: get_session_fill_def bindE_def with_inner_def)
      have "store_ok (K - {(Sessions, as_bytes a)}) s'"
        by (rule settle_session [OF t(1)]) (use x Some s' in auto)
      then show ?thesis using x Some s' by (auto intro: store_ok_mono)
    next
      case None
      then have "s' = t" "r = Inr None" using ok(2) by (auto simp: get_session_fill_def)
      then show ?thesis using t(1) x None by simp
    qed
  qed
qed

lemma get_sync_key_ok:
  assumes ok: "store_ok K s" and run: "get_sync_key p k s = (r, s')"
  shows "store_ok K s' \<and> (\<forall>d. r = Inr d \<longrightarrow> (Sync_Keys, k) \<notin> K \<longrightarrow> d = sync_table (flash s') k)"
proof (cases "fmlookup (sync_keys (inner s)) k")
  case (Some v)
  then have "r = Inr (Some v)" and
    s': "s' = s\<lparr>inner := (inner s)\<lparr>sync_key_order := lru_touched (sync_key_order (inner s)) k\<rparr>\<rparr>"
    using run by (auto simp: get_sync_key_def)
  moreover have "store_ok K s'" unfolding s' by (rule touch_sync_key [OF ok Some])
  moreover have "(Sync_Keys, k) \<notin> K \<Longrightarrow> sync_table (flash s) k = Some v"
    using ok Some by (auto simp: store_ok_unfold lru.coherent_def lru_get_def)
  ultimately show ?thesis by auto
next
  case None
  then have "bindE (run (load_sync_key p k)) (\<lambda>payload.
      bindE (case payload of Some key \<Rightarrow> with_inner (mirror_sync_key (has_psram p) k key) | None \<Rightarrow> retE ())
        (\<lambda>_. retE payload)) s = (r, s')"
    using run by (simp add: get_sync_key_def)
  then show ?thesis
  proof (cases rule: bindE_cases)
    case (err e)
    then show ?thesis using run_read(1) [OF err(1) ok reads_only_loads(2)] by simp
  next
    case (ok x t)
    note t = run_read [OF ok(1) \<open>store_ok K s\<close> reads_only_loads(2)]
    from t(3) obtain f where "load_sync_key p k f = (Inr x, flash t)" "slots_sound f" by blast
    from load_sync_key_touches(2) [OF this, of x] have x: "x = sync_table (flash t) k"
      by (simp add: sync_table_def)
    show ?thesis
    proof (cases x)
      case (Some v)
      with ok(2) have s': "s' = t\<lparr>inner := mirror_sync_key (has_psram p) k v (inner t)\<rparr>" "r = Inr (Some v)"
        by (auto simp: bindE_def with_inner_def)
      have "store_ok (K - {(Sync_Keys, k)}) s'"
        by (rule settle_sync_key [OF t(1), of k v s' "has_psram p" "latest_sync_key_id (inner t)"])
          (use x Some s' in auto)
      then show ?thesis using x Some s' by (auto intro: store_ok_mono)
    next
      case None
      then have "s' = t" "r = Inr None" using ok(2) by (auto simp: bindE_def)
      then show ?thesis using t(1) x None by simp
    qed
  qed
qed

end

text \<open>
  \<open>put_session\<close> splits the write in two jobs so that the worker never holds a copy of the
  session; it does what one \<open>put_record\<close> would.
\<close>

lemma run_bindE: "run (bindE m f) = bindE (run m) (\<lambda>x. run (f x))"
  by (auto simp: run_def bindE_def fun_eq_iff split: prod.splits sum.splits)

lemma put_session_split:
  "bindE (run (check_record_slot p Sessions k n ''session'' MAX_SESSIONS)) (\<lambda>name.
   bindE (\<lambda>s. (encode_record (heap_has (nvs p) (driver (flash s))) k v, s)) (\<lambda>rec.
   bindE (run (on_driver (set_blob (nvs p) Sessions name rec))) (\<lambda>_.
   with_inner (mirror_session b a (drop (RECORD_HEADER_LEN + length k) rec))))) =
   bindE (run (bindE (check_record_slot p Sessions k n ''session'' MAX_SESSIONS) (\<lambda>name.
     bindE (on_driver (encode_recordE (nvs p) k v)) (\<lambda>rec. on_driver (set_blob (nvs p) Sessions name rec))))) (\<lambda>_.
   with_inner (mirror_session b a v))" (is "?l = ?r")
proof
  fix s
  have v: "drop (RECORD_HEADER_LEN + length k) rec = v" if "encode_record h k v = Inr rec" for h rec
    using that by (auto simp: encode_record_Inr_iff RECORD_HEADER_LEN_def)
  show "?l s = ?r s"
    by (auto simp: run_def bindE_def on_driver_def encode_recordE_def v split: prod.splits sum.splits)
qed

lemma put_session_put_record:
  "put_session p a v =
     bindE (failE_if (length v > MAX_SIGNAL_RECORD_LEN) (Validation (SessionTooLarge (length v)))) (\<lambda>_.
     bindE write_operation (\<lambda>_.
     bindE (getE inner) (\<lambda>s.
     bindE (liftE (ensure_insert_capacity (hm_contains (sessions s) a) (hm_len (sessions s))
              MAX_SESSIONS ''session'')) (\<lambda>_.
     bindE (run (put_record p Sessions (as_bytes a) v ''session'' MAX_SESSIONS)) (\<lambda>_.
     with_inner (mirror_session (has_psram p) a v))))))"
  unfolding put_session_def Let_def put_session_split
  by (simp add: put_record_def prepare_record_def bindE_assoc)

text \<open>What the store relies on from \<open>serde_json\<close>: it reads back what it wrote.\<close>

locale store_platform = flash_platform p blobs
  for p :: "('n, 'd, 'k) platform" and blobs +
  assumes device_json: "device_to_json p d = Some j \<Longrightarrow> device_from_json p j = Some d"
    and sync_json: "sync_key_to_json p k = Some i \<Longrightarrow> sync_key_from_json p i = Some k"
begin

lemma settles_put_session: "settles {(Sessions, as_bytes a)} (put_session p a v)"
  unfolding put_session_put_record
  by (intro settles_guard settles_basic settles_session_write)

lemma settles_set_sync_key: "settles {(Sync_Keys, k)} (set_sync_key p k v)"
proof (cases "sync_key_to_json p v")
  case None
  then show ?thesis unfolding set_sync_key_def
    by (intro settles_guard settles_basic) (simp add: settles_throw)
next
  case (Some j)
  have "settles {(Sync_Keys, k)} (bindE (run (set_sync_job k j)) (\<lambda>_.
      with_inner (\<lambda>s. mirror_sync_key (has_psram p) k v (s\<lparr>latest_sync_key_id := Some k\<rparr>))))"
  proof (rule settles_write)
    show "slots_sound f \<Longrightarrow> set_sync_job k j f = (r, f') \<Longrightarrow> touches {(Sync_Keys, k)} f f'" for f r f'
      by (rule set_sync_job_touches)
  next
    fix f u f' K and s s' :: "('n, 'd, 'k, 'h, 'l, 'v) nvs_store"
    assume "slots_sound f" and "set_sync_job k j f = (Inr u, f')" and ok: "store_ok K s" "flash s = f'" "flash s' = f'"
      and i: "inner s' = mirror_sync_key (has_psram p) k v ((inner s)\<lparr>latest_sync_key_id := Some k\<rparr>)"
    then have "table f' Sync_Keys k = Some j" using set_sync_job_touches(2) by simp
    then have "sync_table (flash s) k = Some v" using ok sync_json [OF Some] by (simp add: sync_table_def)
    then show "store_ok (K - {(Sync_Keys, k)}) s'" by (rule settle_sync_key [OF ok(1)]) (use ok i in auto)
  qed
  then show ?thesis unfolding set_sync_key_def Some
    by (intro settles_guard [OF settles_basic(6)] settles_guard [OF settles_basic(4)]
        settles_guard [OF settles_basic(3)]) (simp add: set_sync_job_def)
qed

lemma settles_save: "settles {(Device, [])} (save p d)"
proof -
  have "settles {(Device, [])} (bindE (run (save_device p d)) (\<lambda>_. with_inner (\<lambda>s. s\<lparr>device := Some d\<rparr>)))"
  proof (rule settles_write)
    show "slots_sound f \<Longrightarrow> save_device p d f = (r, f') \<Longrightarrow> touches {(Device, [])} f f'" for f r f'
      by (rule save_device_touches)
  next
    fix f u f' K and s s' :: "('n, 'd, 'k, 'h, 'l, 'v) nvs_store"
    assume a: "slots_sound f" "save_device p d f = (Inr u, f')" and ok: "store_ok K s" "flash s = f'" "flash s' = f'"
      and i: "inner s' = (inner s)\<lparr>device := Some d\<rparr>"
    from save_device_touches(2) [OF a(2,1)] have "stored_device f' = Some d" using device_json by auto
    moreover have "{a. (ns, g a) \<in> K - {(Device, [])}} = {a. (ns, g a) \<in> K}" if "ns \<noteq> Device" for ns and g :: "'z \<Rightarrow> bytes"
      using that by auto
    ultimately show "store_ok (K - {(Device, [])}) s'" using ok i
      by (simp add: store_ok_unfold entry_sets del: Diff_iff)
  qed
  then show ?thesis unfolding save_def by (intro settles_guard [OF settles_basic(6)])
qed

lemma settles_count:
  assumes "settles A (bindE m (\<lambda>_. with_inner g))"
  shows "settles A (bindE m (\<lambda>x. bindE (with_inner g) (\<lambda>_. retE x)))"
proof (rule settlesI)
  fix K s r s'
  assume ok: "store_ok K s" and "bindE m (\<lambda>x. bindE (with_inner g) (\<lambda>_. retE x)) s = (r, s')"
  from this(2) show "store_ok (case r of Inr _ \<Rightarrow> K - A | Inl _ \<Rightarrow> K \<union> A) s'"
  proof (cases rule: bindE_cases)
    case (err e)
    then show ?thesis using settlesD [OF assms ok, of "Inl e" s'] by (simp add: bindE_def)
  next
    case (ok x t)
    then have "bindE m (\<lambda>_. with_inner g) s = (Inr (), s')" and "r = Inr x"
      by (auto simp: bindE_def with_inner_def)
    then show ?thesis using settlesD [OF assms \<open>store_ok K s\<close>] by simp
  qed
qed

lemma settles_clear_sessions: "settles ({Sessions} \<times> UNIV) (clear_sessions p)"
proof -
  let ?job = "bindE (on_driver (record_count (nvs p) Sessions)) (\<lambda>count.
        bindE clear_session_slots (\<lambda>_.
        bindE (on_driver (erase_namespace (nvs p) Sessions ''session'')) (\<lambda>_. retE count)))"
  let ?g = "\<lambda>s. s\<lparr>sessions := fmempty, session_order := lru_clear (session_order s)\<rparr>"
  have "settles ({Sessions} \<times> UNIV) (bindE (run ?job) (\<lambda>_. with_inner ?g))"
  proof (rule settles_write)
    show "slots_sound f \<Longrightarrow> ?job f = (r, f') \<Longrightarrow> touches ({Sessions} \<times> UNIV) f f'" for f r f'
      by (rule clear_sessions_touches)
  next
    fix f u f' K and s s' :: "('n, 'd, 'k, 'h, 'l, 'v) nvs_store"
    assume "slots_sound f" "?job f = (Inr u, f')" and ok: "store_ok K s" "flash s = f'" "flash s' = f'"
      and i: "inner s' = ?g (inner s)"
    have "lru.coherent {a. (Sessions, as_bytes a) \<in> K - {Sessions} \<times> UNIV} (fmempty, []) tbl" for tbl
      by (simp add: lru.coherent_def lru_get_def lru_ok_def)
    then show "store_ok (K - {Sessions} \<times> UNIV) s'" using ok i
      by (simp add: store_ok_unfold lru_clear_def)
  qed
  then show ?thesis unfolding clear_sessions_def by (rule settles_count)
qed

lemma empty_tables:
  assumes "no_credentials (content f)"
  shows "ns \<in> fst ` set signal_namespaces \<Longrightarrow> table f ns k = None" and "stored_device f = None"
  using assms by (auto simp: no_credentials_def table_def table_of_def stored_device_def)

lemma settles_reset: "settles UNIV (reset p)"
  unfolding reset_def
proof (rule settles_write)
  show "slots_sound f \<Longrightarrow> reset_all p f = (r, f') \<Longrightarrow> touches UNIV f f'" for f r f'
    using reset_all_effect(1) by (simp add: touches_def)
next
  fix f u f' K and s s' :: "('n, 'd, 'k, 'h, 'l, 'v) nvs_store"
  assume a: "slots_sound f" "reset_all p f = (Inr u, f')" and ok: "store_ok K s" "flash s = f'" "flash s' = f'"
    and i: "inner s' = inner_default"
  from reset_all_effect [OF a(2,1)] have sound: "slots_sound f'" and none: "no_credentials (content f')" by auto
  note e = empty_tables [OF none]
  show "store_ok (K - UNIV) s'" using sound e ok(3) i
    by (simp add: store_ok_unfold inner_default_def lru.coherent_def plain.complete_def lru_get_def lru_ok_def
        signal_namespaces_def)
qed

text \<open>\<open>seal_writes\<close> and \<open>create\<close> touch no mirror.\<close>

lemma settles_seal: "settles {} seal_writes" and settles_create: "settles {} create"
proof -
  have same: "store_ok K s' = store_ok K s"
    if "flash s' = flash s" and "inner s' = (inner s)\<lparr>device_id_counter := c\<rparr>"
    for K c and s s' :: "('n, 'd, 'k, 'h, 'l, 'v) nvs_store"
    using that by (simp add: store_ok_unfold)
  show "settles {} (seal_writes :: ('n, 'd, 'k, 'h, 'l, 'v, unit) store_io)"
    by (rule settlesI) (auto simp: seal_writes_def store_ok_unfold)
  show "settles {} (create :: ('n, 'd, 'k, 'h, 'l, 'v, 32 word) store_io)"
    by (rule settlesI)
      (auto simp: create_def bindE_def write_operation_def with_inner_def same split: if_splits)
qed

end

end
