(* ===== verification/Store_Run.thy ===== *)
theory Store_Run
  imports Store_Ops
begin

text \<open>
  Histories of store operations. The abstract store is a map from namespaces and logical keys
  to values, together with the set of entries whose last write failed; every history of
  operations, in any order and with any failures of the driver, refines it.
\<close>

section \<open>Operations as data\<close>

datatype ('d, 'k) store_op =
    Put_Identity str bytes
  | Put_Identities "(str \<times> bytes) list"
  | Load_Identity str
  | Delete_Identity str
  | Put_Session str bytes
  | Put_Sessions "(str \<times> bytes) list"
  | Get_Session str
  | Delete_Session str
  | Store_Prekey u32 bytes
  | Remove_Prekey u32
  | Store_Signed_Prekey u32 bytes
  | Remove_Signed_Prekey u32
  | Put_Sender_Key str bytes
  | Delete_Sender_Key str
  | Set_Sync_Key bytes 'k
  | Get_Sync_Key bytes
  | Save_Device 'd
  | Create_Device
  | Clear_Sessions
  | Reset_Store
  | Seal_Writes

definition voidE :: "('s, 'e, 'a) io \<Rightarrow> ('s, 'e, unit) io" where
  "voidE m = bindE m (\<lambda>_. retE ())"

fun exec :: "('n, 'd, 'k) platform \<Rightarrow> ('d, 'k) store_op \<Rightarrow> ('n, 'd, 'k, 'h, 'l, 'v, unit) store_io" where
  "exec p (Put_Identity a v) = put_identity p a v"
| "exec p (Put_Identities es) = put_identities_batch p es"
| "exec p (Load_Identity a) = voidE (load_identity p a)"
| "exec p (Delete_Identity a) = delete_identity p a"
| "exec p (Put_Session a v) = put_session p a v"
| "exec p (Put_Sessions es) = put_sessions_batch p es"
| "exec p (Get_Session a) = voidE (get_session p a)"
| "exec p (Delete_Session a) = delete_session p a"
| "exec p (Store_Prekey n v) = store_prekey p n v"
| "exec p (Remove_Prekey n) = remove_prekey p n"
| "exec p (Store_Signed_Prekey n v) = store_signed_prekey p n v"
| "exec p (Remove_Signed_Prekey n) = remove_signed_prekey p n"
| "exec p (Put_Sender_Key a v) = put_sender_key p a v"
| "exec p (Delete_Sender_Key a) = delete_sender_key p a"
| "exec p (Set_Sync_Key k v) = set_sync_key p k v"
| "exec p (Get_Sync_Key k) = voidE (get_sync_key p k)"
| "exec p (Save_Device d) = save p d"
| "exec p Create_Device = voidE create"
| "exec p Clear_Sessions = voidE (clear_sessions p)"
| "exec p Reset_Store = reset p"
| "exec p Seal_Writes = seal_writes"

text \<open>The entries an operation writes, and the values it writes there.\<close>

fun op_entries :: "('d, 'k) store_op \<Rightarrow> (ns \<times> bytes) set" where
  "op_entries (Put_Identity a v) = {(Identities, as_bytes a)}"
| "op_entries (Put_Identities es) = (\<lambda>(a, _). (Identities, as_bytes a)) ` set es"
| "op_entries (Delete_Identity a) = {(Identities, as_bytes a)}"
| "op_entries (Put_Session a v) = {(Sessions, as_bytes a)}"
| "op_entries (Put_Sessions es) = (\<lambda>(a, _). (Sessions, as_bytes a)) ` set es"
| "op_entries (Delete_Session a) = {(Sessions, as_bytes a)}"
| "op_entries (Store_Prekey n v) = {(Prekeys, u32_to_le n)}"
| "op_entries (Remove_Prekey n) = {(Prekeys, u32_to_le n)}"
| "op_entries (Store_Signed_Prekey n v) = {(Signed_Prekeys, u32_to_le n)}"
| "op_entries (Remove_Signed_Prekey n) = {(Signed_Prekeys, u32_to_le n)}"
| "op_entries (Put_Sender_Key a v) = {(Sender_Keys, as_bytes a)}"
| "op_entries (Delete_Sender_Key a) = {(Sender_Keys, as_bytes a)}"
| "op_entries (Set_Sync_Key k v) = {(Sync_Keys, k)}"
| "op_entries (Save_Device d) = {(Device, [])}"
| "op_entries Clear_Sessions = {Sessions} \<times> UNIV"
| "op_entries Reset_Store = UNIV"
| "op_entries _ = {}"

fun op_value :: "('n, 'd, 'k) platform \<Rightarrow> ('d, 'k) store_op \<Rightarrow> bytes \<Rightarrow> bytes option" where
  "op_value p (Put_Identity a v) k = Some v"
| "op_value p (Put_Identities es) k = map_of (rev (map (\<lambda>(a, v). (as_bytes a, v)) es)) k"
| "op_value p (Put_Session a v) k = Some v"
| "op_value p (Put_Sessions es) k = map_of (rev (map (\<lambda>(a, v). (as_bytes a, v)) es)) k"
| "op_value p (Store_Prekey n v) k = Some v"
| "op_value p (Store_Signed_Prekey n v) k = Some v"
| "op_value p (Put_Sender_Key a v) k = Some v"
| "op_value p (Set_Sync_Key j v) k = sync_key_to_json p v"
| "op_value p _ k = None"

type_synonym abs_store = "(ns \<Rightarrow> bytes \<Rightarrow> bytes option) \<times> (ns \<times> bytes) set"

text \<open>The abstract store: a success writes its entries, a failure makes them unsettled.\<close>

definition abs_step ::
  "('n, 'd, 'k) platform \<Rightarrow> ('d, 'k) store_op \<Rightarrow> store_error + unit \<Rightarrow> abs_store \<Rightarrow> abs_store" where
  "abs_step p op r a =
     (case (r, a) of
        (Inr _, (m, K)) \<Rightarrow>
          (\<lambda>ns k. if (ns, k) \<in> op_entries op then op_value p op k else m ns k, K - op_entries op)
      | (Inl _, (m, K)) \<Rightarrow> (m, K \<union> op_entries op))"

fun exec_all ::
  "('n, 'd, 'k) platform \<Rightarrow> ('d, 'k) store_op list \<Rightarrow> ('n, 'd, 'k, 'h, 'l, 'v) nvs_store \<Rightarrow>
   (store_error + unit) list \<times> ('n, 'd, 'k, 'h, 'l, 'v) nvs_store" where
  "exec_all p [] s = ([], s)"
| "exec_all p (op # ops) s =
     (case exec p op s of (r, s1) \<Rightarrow> (case exec_all p ops s1 of (rs, s2) \<Rightarrow> (r # rs, s2)))"

definition abs_run ::
  "('n, 'd, 'k) platform \<Rightarrow> ('d, 'k) store_op list \<Rightarrow> (store_error + unit) list \<Rightarrow> abs_store \<Rightarrow> abs_store" where
  "abs_run p ops rs a = fold (\<lambda>(op, r). abs_step p op r) (zip ops rs) a"

section \<open>Effects on the tables\<close>

definition signal_ns :: "ns \<Rightarrow> bool" where
  "signal_ns ns \<longleftrightarrow> ns \<in> fst ` set signal_namespaces"

context flash_platform
begin

definition writes ::
  "(ns \<times> bytes) set \<Rightarrow> (ns \<Rightarrow> bytes \<Rightarrow> bytes option) \<Rightarrow> ('n, 'd, 'k, 'h, 'l, 'v, 'a) store_io \<Rightarrow> bool" where
  "writes A V m \<longleftrightarrow>
     (\<forall>s r s'. slots_sound (flash s) \<longrightarrow> m s = (r, s') \<longrightarrow>
        touches A (flash s) (flash s') \<and>
        (\<forall>x ns k. r = Inr x \<longrightarrow> (ns, k) \<in> A \<longrightarrow> signal_ns ns \<longrightarrow>
           table (flash s') ns k = V ns k))"

lemma writesI:
  "(\<And>s r s'. slots_sound (flash s) \<Longrightarrow> m s = (r, s') \<Longrightarrow>
      touches A (flash s) (flash s') \<and>
      (\<forall>x ns k. r = Inr x \<longrightarrow> (ns, k) \<in> A \<longrightarrow> signal_ns ns \<longrightarrow>
         table (flash s') ns k = V ns k)) \<Longrightarrow> writes A V m"
  by (simp add: writes_def)

lemma writesD:
  assumes "writes A V m" and "slots_sound (flash s)" and "m s = (r, s')"
  shows "touches A (flash s) (flash s')"
    and "r = Inr x \<Longrightarrow> (ns, k) \<in> A \<Longrightarrow> signal_ns ns \<Longrightarrow> table (flash s') ns k = V ns k"
  using assms unfolding writes_def by blast+

lemma writes_seq:
  assumes "writes A V m" and "\<And>x. writes B W (f x)"
  shows "writes (A \<union> B) (\<lambda>ns k. if (ns, k) \<in> B then W ns k else V ns k) (bindE m f)"
proof (rule writesI)
  fix s r s'
  assume sound: "slots_sound (flash s)" and "bindE m f s = (r, s')"
  from this(2) show "touches (A \<union> B) (flash s) (flash s') \<and>
      (\<forall>x ns k. r = Inr x \<longrightarrow> (ns, k) \<in> A \<union> B \<longrightarrow> signal_ns ns \<longrightarrow>
         table (flash s') ns k = (if (ns, k) \<in> B then W ns k else V ns k))"
  proof (cases rule: bindE_cases)
    case (err e)
    then show ?thesis using writesD(1) [OF assms(1) sound err(1)] by (auto intro: touches_mono)
  next
    case (ok x t)
    note t = writesD(1) [OF assms(1) sound ok(1)] and vt = writesD(2) [OF assms(1) sound ok(1) refl]
    note u = writesD(1) [OF assms(2) touches_sound [OF t] ok(2)]
      and vu = writesD(2) [OF assms(2) touches_sound [OF t] ok(2)]
    have "table (flash s') ns k = V ns k" if "(ns, k) \<in> A" "(ns, k) \<notin> B" "signal_ns ns" for ns k
      using that u vt by (simp add: touches_def)
    then show ?thesis using touches_trans [OF t u] vu by auto
  qed
qed

lemma writes_cong:
  assumes "writes A V m" and "A = B" and "\<And>ns k. (ns, k) \<in> A \<Longrightarrow> V ns k = W ns k"
  shows "writes B W m"
proof (rule writesI)
  fix s r s'
  assume a: "slots_sound (flash s)" "m s = (r, s')"
  show "touches B (flash s) (flash s') \<and>
      (\<forall>x ns k. r = Inr x \<longrightarrow> (ns, k) \<in> B \<longrightarrow> signal_ns ns \<longrightarrow> table (flash s') ns k = W ns k)"
    using writesD(1) [OF assms(1) a] writesD(2) [OF assms(1) a] assms(2,3) by simp
qed

lemma writes_guard:
  assumes "writes {} V m" and "\<And>x. writes A W (f x)" shows "writes A W (bindE m f)"
  by (rule writes_cong [OF writes_seq [OF assms]]) auto

lemma writes_last:
  assumes "writes A V m" and "\<And>x. writes {} V (f x)" shows "writes A V (bindE m f)"
  by (rule writes_cong [OF writes_seq [OF assms]]) auto

lemma writes_flash_same: "(\<And>s r s'. m s = (r, s') \<Longrightarrow> flash s' = flash s) \<Longrightarrow> writes {} V m"
  by (rule writesI) (auto simp: touches_same)

lemma writes_basic:
  "writes {} V (retE x)" "writes {} V (throwE e)" "writes {} V (liftE r)" "writes {} V (getE g)"
  "writes {} V (failE_if c e)" "writes {} V write_operation" "writes {} V (with_inner h)"
  by (rule writes_flash_same; auto simp: write_operation_def with_inner_def split: if_splits)+

lemma writes_throw: "writes A V (throwE e)"
  by (rule writesI) (auto simp: touches_same)

lemma writes_run:
  assumes "\<And>f r f'. slots_sound f \<Longrightarrow> job f = (r, f') \<Longrightarrow> touches A f f' \<and>
      (\<forall>x ns k. r = Inr x \<longrightarrow> (ns, k) \<in> A \<longrightarrow> signal_ns ns \<longrightarrow> table f' ns k = V ns k)"
  shows "writes A V (run job)"
proof (rule writesI)
  fix s :: "('n, 'd, 'k, 'h, 'l, 'v) nvs_store" and r s'
  assume a: "slots_sound (flash s)" "run job s = (r, s')"
  then show "touches A (flash s) (flash s') \<and>
      (\<forall>x ns k. r = Inr x \<longrightarrow> (ns, k) \<in> A \<longrightarrow> signal_ns ns \<longrightarrow> table (flash s') ns k = V ns k)"
    using assms [OF a(1)]
    by (cases "worker_alive s") (auto simp: run_def touches_same split: prod.splits)
qed

lemma writes_then: "writes A V m \<Longrightarrow> writes A V (bindE m (\<lambda>x. with_inner (g x)))"
  by (erule writes_last) (rule writes_basic)

lemma writes_then_ret: "writes A V m \<Longrightarrow> writes A V (bindE m (\<lambda>x. bindE (with_inner g) (\<lambda>_. retE x)))"
  by (erule writes_last) (intro writes_guard writes_basic)

lemma writes_void: "writes A V m \<Longrightarrow> writes A V (voidE m)"
  unfolding voidE_def by (erule writes_last) (rule writes_basic)

lemma writes_put:
  "ns \<noteq> Device \<Longrightarrow> writes {(ns, k)} (\<lambda>_ _. Some v) (run (put_record p ns k v label limit))"
  by (rule writes_run) (auto dest: put_touches)

lemma writes_delete: "ns \<noteq> Device \<Longrightarrow> writes {(ns, k)} (\<lambda>_ _. None) (run (delete_record p ns k label))"
  by (rule writes_run) (auto dest: delete_touches)

lemma writes_read: "reads_only job \<Longrightarrow> writes {} V (run job)"
  by (rule writes_run) (auto simp: reads_only_def)

lemmas writes_guards = writes_guard [OF writes_basic(3)] writes_guard [OF writes_basic(4)]
  writes_guard [OF writes_basic(5)] writes_guard [OF writes_basic(6)]

subsection \<open>Every operation writes its entries\<close>

lemma writes_put_identity: "writes {(Identities, as_bytes a)} (\<lambda>_ _. Some v) (put_identity_body p a v)"
  unfolding put_identity_body_def by (intro writes_guards writes_then writes_put) simp

lemma batch_value:
  "map_of (rev (map (\<lambda>(a, v). (as_bytes a, v)) ((a, v) # es))) k =
     (if (ns, k) \<in> (\<lambda>(a, _). (ns, as_bytes a)) ` set es
      then map_of (rev (map (\<lambda>(a, v). (as_bytes a, v)) es)) k
      else if k = as_bytes a then Some v else None)"
proof -
  let ?m = "map_of (rev (map (\<lambda>(a, v). (as_bytes a, v)) es))"
  have dom: "(ns, k) \<in> (\<lambda>(a, _). (ns, as_bytes a)) ` set es \<longleftrightarrow> k \<in> dom ?m"
    by (force simp: dom_map_of_conv_image_fst)
  show ?thesis unfolding dom by (cases "?m k") (auto simp: map_add_def)
qed

lemma writes_batch:
  assumes "writes {(ns, as_bytes a)} (\<lambda>_ _. Some v) m"
    and "\<And>x. writes ((\<lambda>(a, _). (ns, as_bytes a)) ` set es)
           (\<lambda>_. map_of (rev (map (\<lambda>(a, v). (as_bytes a, v)) es))) (f x)"
  shows "writes ((\<lambda>(a, _). (ns, as_bytes a)) ` set ((a, v) # es))
           (\<lambda>_. map_of (rev (map (\<lambda>(a, v). (as_bytes a, v)) ((a, v) # es)))) (bindE m f)"
proof (rule writes_cong [OF writes_seq [OF assms]])
  fix n k
  assume "(n, k) \<in> {(ns, as_bytes a)} \<union> (\<lambda>(a, _). (ns, as_bytes a)) ` set es"
  then have "n = ns" "k = as_bytes a \<or> (ns, k) \<in> (\<lambda>(a, _). (ns, as_bytes a)) ` set es" by auto
  then show "(if (n, k) \<in> (\<lambda>(a, _). (ns, as_bytes a)) ` set es
      then map_of (rev (map (\<lambda>(a, v). (as_bytes a, v)) es)) k else Some v) =
      map_of (rev (map (\<lambda>(a, v). (as_bytes a, v)) ((a, v) # es))) k"
    unfolding batch_value [where ns = ns] by auto
qed auto

lemma writes_identities_loop:
  "writes ((\<lambda>(a, _). (Identities, as_bytes a)) ` set es)
     (\<lambda>_. map_of (rev (map (\<lambda>(a, v). (as_bytes a, v)) es))) (put_identities_loop p es)"
proof (induction es)
  case Nil
  show ?case unfolding put_identities_loop.simps list.set image_empty by (rule writes_basic)
next
  case (Cons e es)
  obtain a v where e: "e = (a, v)" by (rule prod.exhaust)
  show ?case unfolding e put_identities_loop.simps by (rule writes_batch) (rule writes_put_identity Cons.IH)+
qed

lemma writes_session: 
  "writes {(Sessions, as_bytes a)} (\<lambda>_ _. Some v)
     (bindE (run (put_record p Sessions (as_bytes a) v ''session'' MAX_SESSIONS)) (\<lambda>_.
      with_inner (mirror_session (has_psram p) a v)))"
  by (intro writes_then writes_put) simp

lemma writes_sessions_loop:
  "writes ((\<lambda>(a, _). (Sessions, as_bytes a)) ` set es)
     (\<lambda>_. map_of (rev (map (\<lambda>(a, v). (as_bytes a, v)) es))) (put_sessions_loop p es)"
proof (induction es)
  case Nil
  show ?case unfolding put_sessions_loop.simps list.set image_empty by (rule writes_basic)
next
  case (Cons e es)
  obtain a v where e: "e = (a, v)" by (rule prod.exhaust)
  show ?case unfolding e put_sessions_loop.simps bindE_assoc [of "run _", symmetric]
    by (intro writes_guards writes_batch [OF writes_session Cons.IH])
qed

lemma writes_load_identity: "writes {} V (load_identity p a)"
  unfolding load_identity_def load_identity_flash_def load_identity_fill_def
proof (rule writes_guard)
  show "writes {} V (load_identity_hit a)"
    by (rule writes_flash_same) (auto simp: load_identity_hit_def split: option.splits)
  have fill: "writes {} V (case x of None \<Rightarrow> retE None
      | Some bs \<Rightarrow> if length bs = 32 then bindE (with_inner (g bs)) (\<lambda>_. retE (Some bs)) else retE None)" for x g
    by (cases x) (auto intro!: writes_guard writes_basic)
  show "writes {} V (case h of None \<Rightarrow> bindE (run (load_record p Identities (as_bytes a) 32)) (\<lambda>payload.
      case payload of None \<Rightarrow> retE None
      | Some bs \<Rightarrow> if length bs = 32 then bindE (with_inner (mirror_identity (has_psram p) a bs)) (\<lambda>_. retE (Some bs))
          else retE None) | Some key \<Rightarrow> retE (Some key))" for h
    by (cases h) (auto intro!: writes_guard [OF writes_read] reads_only_loads fill writes_basic)
qed

lemma writes_get_session: "writes {} V (get_session p a)"
  unfolding get_session_def get_session_flash_def get_session_fill_def
proof (rule writes_guard)
  show "writes {} V (get_session_hit a)"
    by (rule writes_flash_same) (auto simp: get_session_hit_def split: option.splits)
  have fill: "writes {} V (case x of None \<Rightarrow> retE None
      | Some bs \<Rightarrow> bindE (with_inner (g bs)) (\<lambda>_. retE (Some bs)))" for x :: "bytes option" and g
    by (cases x) (auto intro!: writes_guard writes_basic)
  show "writes {} V (case h of None \<Rightarrow> bindE (run (load_record p Sessions (as_bytes a) MAX_SIGNAL_RECORD_LEN)) (\<lambda>payload.
      case payload of None \<Rightarrow> retE None
      | Some bs \<Rightarrow> bindE (with_inner (mirror_session (has_psram p) a bs)) (\<lambda>_. retE (Some bs)))
      | Some key \<Rightarrow> retE (Some key))" for h
    by (cases h) (auto intro!: writes_guard [OF writes_read] reads_only_loads fill writes_basic)
qed

lemma writes_get_sync_key: "writes {} V (get_sync_key p k)"
proof -
  have fill: "writes {} V (bindE (case x of Some key \<Rightarrow> with_inner (g key) | None \<Rightarrow> retE ()) (\<lambda>_. retE x))"
    for x :: "'k option" and g
    by (cases x; simp only: option.case; intro writes_guard writes_basic)
  have miss: "writes {} V (bindE (run (load_sync_key p k)) (\<lambda>payload.
      bindE (case payload of Some key \<Rightarrow> with_inner (mirror_sync_key (has_psram p) k key) | None \<Rightarrow> retE ())
        (\<lambda>_. retE payload)))"
    by (rule writes_guard [OF writes_read [OF reads_only_loads(2)] fill])
  show ?thesis
    by (rule writesI) (auto simp: get_sync_key_def touches_same split: option.splits dest: writesD [OF miss])
qed

lemma exec_writes_key:
  "writes (op_entries (Put_Identity a v)) (\<lambda>_ _. Some v) (exec p (Put_Identity a v))"
  "writes (op_entries (Delete_Identity a)) (\<lambda>_ _. None) (exec p (Delete_Identity a))"
  "writes (op_entries (Delete_Session a)) (\<lambda>_ _. None) (exec p (Delete_Session a))"
  "writes (op_entries (Store_Prekey n v)) (\<lambda>_ _. Some v) (exec p (Store_Prekey n v))"
  "writes (op_entries (Remove_Prekey n)) (\<lambda>_ _. None) (exec p (Remove_Prekey n))"
  "writes (op_entries (Store_Signed_Prekey n v)) (\<lambda>_ _. Some v) (exec p (Store_Signed_Prekey n v))"
  "writes (op_entries (Remove_Signed_Prekey n)) (\<lambda>_ _. None) (exec p (Remove_Signed_Prekey n))"
  "writes (op_entries (Put_Sender_Key a v)) (\<lambda>_ _. Some v) (exec p (Put_Sender_Key a v))"
  "writes (op_entries (Delete_Sender_Key a)) (\<lambda>_ _. None) (exec p (Delete_Sender_Key a))"
  "writes (op_entries (Put_Session a v)) (\<lambda>_ _. Some v) (exec p (Put_Session a v))"
  unfolding exec.simps op_entries.simps put_identity_def delete_identity_def delete_session_def store_prekey_def remove_prekey_def store_signed_prekey_def remove_signed_prekey_def put_sender_key_def delete_sender_key_def put_session_put_record
  by (intro writes_guards writes_then writes_put writes_delete writes_put_identity writes_session; simp)+

lemma exec_writes_session_ns:
  "writes ({Sessions} \<times> UNIV) (\<lambda>_ _. None) (exec p Clear_Sessions)"
  unfolding exec.simps clear_sessions_def
proof (intro writes_void writes_then_ret writes_run)
  fix f r f'
  assume "slots_sound f" and "bindE (on_driver (record_count (nvs p) Sessions)) (\<lambda>count.
      bindE clear_session_slots (\<lambda>_. bindE (on_driver (erase_namespace (nvs p) Sessions ''session'')) (\<lambda>_.
      retE count))) f = (r, f')"
  note e = clear_sessions_touches [OF this(2,1)]
  show "touches ({Sessions} \<times> UNIV) f f' \<and> (\<forall>x ns k. r = Inr x \<longrightarrow> (ns, k) \<in> {Sessions} \<times> UNIV \<longrightarrow>
      signal_ns ns \<longrightarrow> table f' ns k = None)"
    using e by (auto simp: table_def table_of_def)
qed

lemma exec_writes_sync: "writes {(Sync_Keys, k)} (\<lambda>_ _. sync_key_to_json p v) (exec p (Set_Sync_Key k v))"
proof (cases "sync_key_to_json p v")
  case None
  then show ?thesis unfolding exec.simps set_sync_key_def
    by (intro writes_guards) (simp add: writes_throw)
next
  case (Some j)
  have "writes {(Sync_Keys, k)} (\<lambda>_ _. Some j) (run (set_sync_job k j))"
    by (rule writes_run) (auto dest: set_sync_job_touches)
  then have "writes {(Sync_Keys, k)} (\<lambda>_ _. Some j) (bindE (run (set_sync_job k j)) (\<lambda>_.
      with_inner (\<lambda>s. mirror_sync_key (has_psram p) k v (s\<lparr>latest_sync_key_id := Some k\<rparr>))))"
    by (rule writes_then)
  then show ?thesis unfolding exec.simps set_sync_key_def Some
    by (intro writes_guards) (simp add: set_sync_job_def)
qed

lemma exec_writes_device: "writes {(Device, [])} V (exec p (Save_Device d))"
proof -
  have "writes {(Device, [])} V (run (save_device p d))"
    by (rule writes_run) (auto dest: save_device_touches simp: signal_ns_def signal_namespaces_def)
  then show ?thesis unfolding exec.simps save_def by (intro writes_guards writes_then)
qed

lemma exec_writes_reset: "writes UNIV (\<lambda>_ _. None) (exec p Reset_Store)"
proof -
  have "writes UNIV (\<lambda>_ _. None) (run (reset_all p))"
  proof (rule writes_run)
    fix f r f'
    assume "slots_sound f" and "reset_all p f = (r, f')"
    note e = reset_all_effect [OF this(2,1)]
    have c: "content f' ns = fmempty" if "r = Inr ()" and "signal_ns ns" for ns
      using e(3) [OF that(1)] that(2) unfolding no_credentials_def signal_ns_def by blast
    show "touches UNIV f f' \<and> (\<forall>x ns k. r = Inr x \<longrightarrow> (ns, k) \<in> UNIV \<longrightarrow> signal_ns ns \<longrightarrow> table f' ns k = None)"
      using e(1) c by (auto simp: touches_def table_def table_of_def)
  qed
  then show ?thesis unfolding exec.simps reset_def by (rule writes_then)
qed

lemma exec_writes_batches:
  "writes (op_entries (Put_Identities es)) (\<lambda>_. map_of (rev (map (\<lambda>(a, v). (as_bytes a, v)) es))) (exec p (Put_Identities es))"
  "writes (op_entries (Put_Sessions es)) (\<lambda>_. map_of (rev (map (\<lambda>(a, v). (as_bytes a, v)) es))) (exec p (Put_Sessions es))"
proof -
  show "writes (op_entries (Put_Identities es)) (\<lambda>_. map_of (rev (map (\<lambda>(a, v). (as_bytes a, v)) es))) (exec p (Put_Identities es))"
    unfolding exec.simps op_entries.simps put_identities_batch_def
    by (cases "es = []"; simp only: if_True if_False list.set image_empty simp_thms)
      (rule writes_basic, intro writes_guards writes_identities_loop)
  show "writes (op_entries (Put_Sessions es)) (\<lambda>_. map_of (rev (map (\<lambda>(a, v). (as_bytes a, v)) es))) (exec p (Put_Sessions es))"
    unfolding exec.simps op_entries.simps put_sessions_batch_def
    by (cases "es = []"; simp only: if_True if_False list.set image_empty simp_thms)
      (rule writes_basic, intro writes_guards writes_sessions_loop)
qed

lemma exec_writes_none:
  "writes {} V (exec p (Load_Identity a))" "writes {} V (exec p (Get_Session a))"
  "writes {} V (exec p (Get_Sync_Key k))" "writes {} V (exec p Create_Device)" "writes {} V (exec p Seal_Writes)"
  unfolding exec.simps
  by (intro writes_void writes_load_identity writes_get_session writes_get_sync_key
      | rule writes_flash_same, auto simp: create_def seal_writes_def bindE_def write_operation_def with_inner_def
          split: if_splits)+

lemma exec_writes: "writes (op_entries op) (\<lambda>_. op_value p op) (exec p op)"
  by (cases op; simp only:)
    (rule exec_writes_key [THEN writes_cong] exec_writes_session_ns [THEN writes_cong]
       exec_writes_sync [THEN writes_cong] exec_writes_device [THEN writes_cong]
       exec_writes_reset [THEN writes_cong] exec_writes_batches [THEN writes_cong]
       exec_writes_none [THEN writes_cong]; simp)+

end

context store_platform
begin

lemma settles_void:
  assumes "settles A m" shows "settles A (voidE m)"
proof -
  have "settles (A \<union> {}) (voidE m)" unfolding voidE_def
    by (rule settles_seq [OF assms]) (rule settles_basic)
  then show ?thesis by simp
qed

lemma settles_reads:
  "settles {} (load_identity p a)" "settles {} (get_session p a)" "settles {} (get_sync_key p k)"
  by (rule settlesI; auto dest: load_identity_ok get_session_ok get_sync_key_ok split: sum.splits)+

lemma settles_batches:
  "settles (op_entries (Put_Identities es)) (exec p (Put_Identities es))"
  "settles (op_entries (Put_Sessions es)) (exec p (Put_Sessions es))"
  unfolding exec.simps op_entries.simps put_identities_batch_def put_sessions_batch_def
  by (cases "es = []"; simp only: if_True if_False list.set image_empty simp_thms;
      (rule settles_basic | intro settles_guard [OF settles_basic(6)] settles_put_identities settles_put_sessions))+

lemma exec_settles: "settles (op_entries op) (exec p op)"
  by (cases op; simp only: settles_batches; unfold exec.simps op_entries.simps put_identity_def;
      intro settles_void settles_reads settles_put_identity settles_delete_identity settles_put_session
        settles_delete_session settles_prekeys settles_signed_prekeys settles_sender_keys settles_set_sync_key
        settles_save settles_clear_sessions settles_reset settles_seal settles_create
        settles_guard [OF settles_basic(6)])

text \<open>The refinement relation between a store and the abstract map.\<close>

definition refines :: "abs_store \<Rightarrow> ('n, 'd, 'k, 'h, 'l, 'v) nvs_store \<Rightarrow> bool" where
  "refines a s \<longleftrightarrow>
     store_ok (snd a) s \<and>
     (\<forall>ns k. signal_ns ns \<longrightarrow> (ns, k) \<notin> snd a \<longrightarrow> table (flash s) ns k = fst a ns k)"

lemma refines_step:
  assumes "refines a s" and "exec p op s = (r, s')"
  shows "refines (abs_step p op r a) s'"
proof -
  obtain m K where a: "a = (m, K)" by (rule prod.exhaust)
  from assms(1) have ok: "store_ok K s" and eq: "\<And>ns k. signal_ns ns \<Longrightarrow> (ns, k) \<notin> K \<Longrightarrow> table (flash s) ns k = m ns k"
    by (auto simp: refines_def a)
  note st = settlesD [OF exec_settles ok assms(2)]
  note w = writesD [OF exec_writes store_ok_sound [OF ok] assms(2)]
  have frame: "(ns, k) \<notin> op_entries op \<Longrightarrow> table (flash s') ns k = table (flash s) ns k" for ns k
    using w(1) by (simp add: touches_def)
  show ?thesis
  proof (cases r)
    case (Inl e)
    then show ?thesis using st eq frame by (auto simp: refines_def abs_step_def a)
  next
    case (Inr u)
    then show ?thesis using st eq frame w(2) by (auto simp: refines_def abs_step_def a)
  qed
qed

lemma refines_run:
  assumes "refines a s" and "exec_all p ops s = (rs, s')"
  shows "refines (abs_run p ops rs a) s' \<and> length rs = length ops"
  using assms
proof (induction ops arbitrary: a s rs)
  case Nil
  then show ?case by (simp add: abs_run_def)
next
  case (Cons op ops)
  obtain r s1 where 1: "exec p op s = (r, s1)" by (rule prod.exhaust)
  obtain rs' s2 where 2: "exec_all p ops s1 = (rs', s2)" by (rule prod.exhaust)
  from Cons.prems(2) 1 2 have "rs = r # rs'" and "s' = s2" by auto
  with Cons.IH [OF refines_step [OF Cons.prems(1) 1]] 2 show ?case by (simp add: abs_run_def)
qed

lemma refines_reads:
  assumes "refines (m, K) s"
  shows "get_session p a s = (Inr d, s') \<Longrightarrow> (Sessions, as_bytes a) \<notin> K \<Longrightarrow> d = m Sessions (as_bytes a)"
    and "load_identity p a s = (Inr d, s') \<Longrightarrow> (Identities, as_bytes a) \<notin> K \<Longrightarrow>
         (\<And>v. m Identities (as_bytes a) = Some v \<Longrightarrow> length v = 32) \<Longrightarrow> d = m Identities (as_bytes a)"
    and "(Prekeys, u32_to_le n) \<notin> K \<Longrightarrow> fmlookup (prekeys (inner s)) n = m Prekeys (u32_to_le n)"
    and "(Signed_Prekeys, u32_to_le n) \<notin> K \<Longrightarrow>
         fmlookup (signed_prekeys (inner s)) n = m Signed_Prekeys (u32_to_le n)"
    and "(Sender_Keys, as_bytes a) \<notin> K \<Longrightarrow> fmlookup (sender_keys (inner s)) a = m Sender_Keys (as_bytes a)"
proof -
  have ok: "store_ok K s" and eq: "\<And>ns k. signal_ns ns \<Longrightarrow> (ns, k) \<notin> K \<Longrightarrow> table (flash s) ns k = m ns k"
    using assms by (auto simp: refines_def)
  note sound = store_ok_sound [OF ok]
  have sig: "signal_ns Sessions" "signal_ns Identities" "signal_ns Prekeys" "signal_ns Signed_Prekeys"
    "signal_ns Sender_Keys" by (simp_all add: signal_ns_def signal_namespaces_def)
  show "d = m Sessions (as_bytes a)"
    if "get_session p a s = (Inr d, s')" and "(Sessions, as_bytes a) \<notin> K"
    using get_session_ok [OF ok that(1)] that writesD(1) [OF writes_get_session sound that(1)] eq sig
    by (simp add: touches_def)
  show "d = m Identities (as_bytes a)"
    if r: "load_identity p a s = (Inr d, s')" and "(Identities, as_bytes a) \<notin> K"
      and "\<And>v. m Identities (as_bytes a) = Some v \<Longrightarrow> length v = 32"
    using load_identity_ok [OF ok r] that writesD(1) [OF writes_load_identity sound r] eq sig
    by (auto simp: touches_def split: option.splits)
  show "fmlookup (prekeys (inner s)) n = m Prekeys (u32_to_le n)" if "(Prekeys, u32_to_le n) \<notin> K"
    using ok eq sig that by (simp add: store_ok_unfold plain.complete_def)
  show "fmlookup (signed_prekeys (inner s)) n = m Signed_Prekeys (u32_to_le n)" if "(Signed_Prekeys, u32_to_le n) \<notin> K"
    using ok eq sig that by (simp add: store_ok_unfold plain.complete_def)
  show "fmlookup (sender_keys (inner s)) a = m Sender_Keys (as_bytes a)" if "(Sender_Keys, as_bytes a) \<notin> K"
    using ok eq sig that by (simp add: store_ok_unfold plain.complete_def)
qed

end

end
