(* ===== verification/Store_Properties.thy ===== *)
theory Store_Properties
  imports Store_Run
begin

text \<open>
  The properties of \<open>NvsStore\<close>: refinement of an abstract map by every history of
  operations, sealing, the bounds of the RAM mirrors on boards without PSRAM, and the
  equivalence of the two ways a session is written. Witnesses run on the simulated flash.
\<close>

interpretation sim_store: store_platform "sim_platform psram" sim_blobs
  by unfold_locales (auto split: prod.splits)

definition fresh_store :: "'n flash_namespaces \<Rightarrow> ('n, 'd, 'k, 'h, 'l, 'v) nvs_store" where
  "fresh_store f = \<lparr>inner = inner_default, flash = f, accepting_writes = True, worker_alive = True\<rparr>"

section \<open>Histories\<close>

lemma refines_fresh:
  assumes P: "store_platform p blobs" and "no_credentials (blobs (driver f))"
    and "slots_agree (blobs (driver f) Sessions) (validated_sessions f)"
  shows "store_platform.refines p blobs (\<lambda>_ _. None, {}) (fresh_store f)"
proof -
  have F: "flash_platform p blobs" using P by (rule store_platform.axioms(1))
  note c = flash_platform.content_def [OF F] and t = flash_platform.table_def [OF F]
  have none: "no_credentials (flash_platform.content blobs f)" using assms(2) by (simp add: c)
  have tab: "flash_platform.table p blobs f ns k = None" if "signal_ns ns" for ns k
    using store_platform.empty_tables(1) [OF P none] that by (simp add: signal_ns_def)
  have dev: "flash_platform.stored_device p blobs f = None"
    using store_platform.empty_tables(2) [OF P none] .
  have sound: "flash_platform.slots_sound blobs f" using assms(3) slots_sound_agree [OF F] by simp
  show ?thesis
    using tab dev sound
    by (simp add: store_platform.refines_def [OF P] flash_platform.store_ok_unfold [OF F] fresh_store_def
        inner_default_def lru.coherent_def plain.complete_def lru_get_def lru_ok_def signal_ns_def
        signal_namespaces_def)
qed

text \<open>C1: the store implements a persistent map. Start on erased flash and run any sequence of
  its operations, each of which the driver may let succeed or fail before or after its effect.
  Then flash holds exactly what the successful operations wrote, reads through the RAM mirrors
  return exactly that, and the mirrors that answer without asking flash (prekeys, signed
  prekeys, sender keys) agree with it, for every entry except those whose last write returned
  an error.\<close>

theorem store_refines_map:
  assumes "store_platform p blobs" and "no_credentials (blobs (driver f))"
    and "slots_agree (blobs (driver f) Sessions) (validated_sessions f)"
    and "exec_all p ops (fresh_store f) = (rs, s)"
    and "abs_run p ops rs (\<lambda>_ _. None, {}) = (m, K)"
  shows "length rs = length ops \<and>
         (\<forall>ns k. signal_ns ns \<longrightarrow> (ns, k) \<notin> K \<longrightarrow>
            table_of (sha256 p) (blobs (driver (flash s)) ns) k = m ns k) \<and>
         (\<forall>a d s'. get_session p a s = (Inr d, s') \<longrightarrow> (Sessions, as_bytes a) \<notin> K \<longrightarrow>
            d = m Sessions (as_bytes a)) \<and>
         (\<forall>a d s'. load_identity p a s = (Inr d, s') \<longrightarrow> (Identities, as_bytes a) \<notin> K \<longrightarrow>
            (\<forall>v. m Identities (as_bytes a) = Some v \<longrightarrow> length v = 32) \<longrightarrow> d = m Identities (as_bytes a)) \<and>
         (\<forall>n. (Prekeys, u32_to_le n) \<notin> K \<longrightarrow> fst (load_prekey n s) = Inr (m Prekeys (u32_to_le n))) \<and>
         (\<forall>n. (Signed_Prekeys, u32_to_le n) \<notin> K \<longrightarrow>
            fst (load_signed_prekey n s) = Inr (m Signed_Prekeys (u32_to_le n))) \<and>
         (\<forall>a. (Sender_Keys, as_bytes a) \<notin> K \<longrightarrow>
            fst (get_sender_key a s) = Inr (m Sender_Keys (as_bytes a)))"
proof -
  note P = assms(1)
  have F: "flash_platform p blobs" using P by (rule store_platform.axioms(1))
  note run = store_platform.refines_run [OF P refines_fresh [OF P assms(2,3)] assms(4)]
  from run assms(5) have R: "store_platform.refines p blobs (m, K) s" by simp
  note reads = store_platform.refines_reads [OF P R]
  have "signal_ns ns \<Longrightarrow> (ns, k) \<notin> K \<Longrightarrow> table_of (sha256 p) (blobs (driver (flash s)) ns) k = m ns k" for ns k
    using R by (simp add: store_platform.refines_def [OF P] flash_platform.table_def [OF F]
        flash_platform.content_def [OF F])
  then show ?thesis using run reads
    by (simp add: load_prekey_def load_signed_prekey_def get_sender_key_def)
qed

abbreviation addr7 :: str where "addr7 \<equiv> [CHR 0x07]"

lemma bytes7: "as_bytes addr7 = [7]"
  by code_simp

lemmas store_eval = sim_eval bytes7 run_def write_operation_def with_inner_def put_session_put_record
  put_record_def prepare_record_def check_record_slot_def fresh_store_def inner_default_def
  mirror_session_def enforce_sessions_cap_def lru_overflow_def lru_touched_def hm_contains_def

lemma put7:
  "put_session (sim_platform False) addr7 [1, 2, 3] (fresh_store (blank_flash [])) =
     (Inr (), (fresh_store (blank_flash []))\<lparr>flash :=
        \<lparr>driver = \<lparr>sim_data = [(Sessions, [(''a4aaaaaaaaaaaaa'', record_layout [7] [1, 2, 3])])],
                   sim_faults = [], sim_heap = 131072\<rparr>, validated_sessions = []\<rparr>\<rparr>)"
  by (simp add: store_eval Let_def hm_len_upd fmdrop_fmupd_same)

theorem store_refines_map_witness:
  "fst (get_session (sim_platform False) addr7 (snd (exec_all (sim_platform False) [Put_Session addr7 [1, 2, 3]]
      (fresh_store (blank_flash []) :: (sim, bytes, byte \<times> bytes, nat, nat, nat) nvs_store)))) = Inr (Some [1, 2, 3])"
proof -
  let ?p = "sim_platform False"
  let ?s = "fresh_store (blank_flash []) :: (sim, bytes, byte \<times> bytes, nat, nat, nat) nvs_store"
  obtain rs s where run: "exec_all ?p [Put_Session addr7 [1, 2, 3]] ?s = (rs, s)" by (rule prod.exhaust)
  have rs: "rs = [Inr ()]" and s: "s = ?s\<lparr>flash :=
      \<lparr>driver = \<lparr>sim_data = [(Sessions, [(''a4aaaaaaaaaaaaa'', record_layout [7] [1, 2, 3])])],
                 sim_faults = [], sim_heap = 131072\<rparr>, validated_sessions = []\<rparr>\<rparr>"
    using run by (simp_all add: put7)
  obtain d s' where get: "get_session ?p addr7 s = (d, s')" by (rule prod.exhaust)
  have ok: "\<exists>x. d = Inr x" using get
    unfolding s get_session_def get_session_hit_def get_session_flash_def get_session_fill_def load_record_def
    by (auto simp: Let_def sim_eval bytes7 run_def fresh_store_def inner_default_def with_inner_def)
  obtain m K where a: "abs_run ?p [Put_Session addr7 [1, 2, 3]] rs (\<lambda>_ _. None, {}) = (m, K)" by (rule prod.exhaust)
  then have mK: "m Sessions [7] = Some [1, 2, 3]" "K = {}"
    by (auto simp: rs abs_run_def abs_step_def bytes7)
  have "no_credentials (sim_blobs (driver (blank_flash [])))"
    "slots_agree (sim_blobs (driver (blank_flash [])) Sessions) (validated_sessions (blank_flash []))"
    by (auto simp: no_credentials_def blank_flash_def sim_blobs_def sim_entries_def slots_agree_def
        slots_default_def slots_ok_def)
  note all = store_refines_map [OF sim_store.store_platform_axioms this run a]
  from ok obtain x where x: "d = Inr x" by blast
  have "x = m Sessions (as_bytes addr7)"
    using all [THEN conjunct2, THEN conjunct2, THEN conjunct1] get mK(2) unfolding x by blast
  then show ?thesis using run get x mK(1) by (simp only: snd_conv fst_conv bytes7)
qed

section \<open>Sealing\<close>

text \<open>The operations that read, and those that erase without asking \<open>write_operation\<close>.\<close>

fun only_reads :: "('d, 'k) store_op \<Rightarrow> bool" where
  "only_reads (Load_Identity _) = True"
| "only_reads (Get_Session _) = True"
| "only_reads (Get_Sync_Key _) = True"
| "only_reads Seal_Writes = True"
| "only_reads _ = False"

fun erases :: "('d, 'k) store_op \<Rightarrow> bool" where
  "erases Clear_Sessions = True"
| "erases Reset_Store = True"
| "erases _ = False"

lemma sealed_write: "\<not> accepting_writes s \<Longrightarrow> bindE write_operation f s = (Inl (Validation StorageSealed), s)"
  by (simp add: bindE_def write_operation_def)

lemma sealed_exec:
  assumes "\<not> accepting_writes s" and "\<not> only_reads op" and "\<not> erases op"
  shows "snd (exec p op s) = s \<and>
         (fst (exec p op s) = Inr () \<longrightarrow> op = Put_Identities [] \<or> op = Put_Sessions [])"
  using assms
  by (cases op)
    (auto simp: sealed_write put_identity_def put_identities_batch_def delete_identity_def put_session_def
      put_sessions_batch_def delete_session_def store_prekey_def remove_prekey_def store_signed_prekey_def
      remove_signed_prekey_def put_sender_key_def delete_sender_key_def set_sync_key_def save_def
      create_def voidE_def bindE_assoc)

context flash_platform
begin

abbreviation frozen :: "(ns \<Rightarrow> (str, bytes) hashmap) \<Rightarrow> ('n, 'd, 'k, 'h, 'l, 'v) nvs_store \<Rightarrow> bool" where
  "frozen c s \<equiv> content (flash s) = c \<and> \<not> accepting_writes s"

lemma frozen_with_inner: "preserves (frozen c) (with_inner g)"
  by (simp add: triple_def with_inner_def)

lemma frozen_load: "preserves (frozen c) (run (load_record p ns k len))"
  by (rule tripleI) (auto simp: run_def dest: load_record_effect(1) split: if_splits prod.splits)

lemma frozen_load_sync: "preserves (frozen c) (run (load_sync_key p k))"
  by (rule tripleI)
    (auto simp: run_def load_sync_key_def bindE_def dest: load_record_effect(1)
      split: if_splits prod.splits sum.splits option.splits)

lemma frozen_hits:
  "preserves (frozen c) (load_identity_hit a)" "preserves (frozen c) (get_session_hit a)"
  by (auto simp: triple_def load_identity_hit_def get_session_hit_def split: option.splits)

lemma frozen_reads: "only_reads op \<Longrightarrow> preserves (frozen c) (exec p op)"
proof (cases op)
  case (Load_Identity a)
  then show ?thesis
    unfolding Load_Identity exec.simps voidE_def load_identity_def load_identity_flash_def load_identity_fill_def [abs_def]
    by (intro keeps frozen_with_inner frozen_load frozen_hits)
next
  case (Get_Session a)
  then show ?thesis
    unfolding Get_Session exec.simps voidE_def get_session_def get_session_flash_def get_session_fill_def [abs_def]
    by (intro keeps frozen_with_inner frozen_load frozen_hits)
next
  case (Get_Sync_Key k)
  have miss: "preserves (frozen c) (bindE (run (load_sync_key p k)) (\<lambda>payload.
      bindE (case payload of Some key \<Rightarrow> with_inner (mirror_sync_key (has_psram p) k key) | None \<Rightarrow> retE ())
        (\<lambda>_. retE payload)))"
    by (intro keeps frozen_with_inner frozen_load_sync)
  have "preserves (frozen c) (get_sync_key p k)"
    by (rule tripleI) (auto simp: get_sync_key_def split: option.splits dest: tripleD [OF miss, rotated])
  then show ?thesis using Get_Sync_Key by (simp add: voidE_def) (intro keeps)
next
  case Seal_Writes
  then show ?thesis by (simp add: triple_def seal_writes_def)
qed simp_all

lemma frozen_exec:
  assumes "frozen c s" and "\<not> erases op" and "exec p op s = (r, s')" shows "frozen c s'"
proof (cases "only_reads op")
  case True
  from tripleD [OF frozen_reads [OF this] assms(1,3)] show ?thesis .
next
  case False
  then have "s' = s" using sealed_exec [of s op p] assms by simp
  then show ?thesis using assms(1) by simp
qed

lemma frozen_exec_all:
  assumes "frozen c s" and "\<forall>op \<in> set ops. \<not> erases op" and "exec_all p ops s = (rs, s')"
  shows "frozen c s'"
  using assms
proof (induction ops arbitrary: s rs)
  case (Cons op ops)
  obtain r s1 where 1: "exec p op s = (r, s1)" by (rule prod.exhaust)
  have s1: "frozen c s1" by (rule frozen_exec [OF Cons.prems(1) _ 1]) (use Cons.prems(2) in simp)
  obtain rs' where "exec_all p ops s1 = (rs', s')" using Cons.prems(3) 1 by (auto split: prod.splits)
  from Cons.IH [OF s1 _ this] Cons.prems(2) show ?case by simp
qed simp

lemma frozen_results:
  assumes "frozen c s" and "\<forall>op \<in> set ops. \<not> erases op" and "exec_all p ops s = (rs, s')"
  shows "\<forall>(op, r) \<in> set (zip ops rs). only_reads op \<or> op = Put_Identities [] \<or> op = Put_Sessions [] \<or> r \<noteq> Inr ()"
  using assms
proof (induction ops arbitrary: s rs)
  case (Cons op ops)
  obtain r s1 where 1: "exec p op s = (r, s1)" by (rule prod.exhaust)
  have s1: "frozen c s1" by (rule frozen_exec [OF Cons.prems(1) _ 1]) (use Cons.prems(2) in simp)
  obtain rs' where 2: "exec_all p ops s1 = (rs', s')" and rs: "rs = r # rs'"
    using Cons.prems(3) 1 by (auto split: prod.splits)
  have "only_reads op \<or> op = Put_Identities [] \<or> op = Put_Sessions [] \<or> r \<noteq> Inr ()"
    using sealed_exec [of s op p] Cons.prems(1,2) 1 by auto
  with Cons.IH [OF s1 _ 2] Cons.prems(2) rs show ?case by simp
qed simp

end

text \<open>C6: once \<open>seal_writes\<close> has run, no later operation changes flash, in whatever order they
  come and whatever the driver answers: every operation that writes returns an error, reads
  still work, and only the explicit erasures (\<open>clear_sessions\<close>, \<open>reset\<close>) remain possible. So a
  background flush cannot recreate records between the seal and the reboot.\<close>

theorem seal_freezes_flash:
  assumes "flash_platform p blobs" and "exec_all p (Seal_Writes # ops) s = (rs, s')"
    and "\<forall>op \<in> set ops. \<not> erases op"
  shows "blobs (driver (flash s')) = blobs (driver (flash s)) \<and>
         (\<forall>(op, r) \<in> set (zip ops (tl rs)).
            only_reads op \<or> op = Put_Identities [] \<or> op = Put_Sessions [] \<or> r \<noteq> Inr ())"
proof -
  note F = assms(1) and c = flash_platform.content_def [OF assms(1)]
  define t where "t = s\<lparr>accepting_writes := False\<rparr>"
  from assms(2) obtain rs' where run: "exec_all p ops t = (rs', s')" and rs: "rs = Inr () # rs'"
    by (auto simp: seal_writes_def t_def split: prod.splits)
  have fz: "flash_platform.content blobs (flash t) = blobs (driver (flash s)) \<and> \<not> accepting_writes t"
    by (simp add: t_def c)
  show ?thesis
    using flash_platform.frozen_exec_all [OF F fz assms(3) run] flash_platform.frozen_results [OF F fz assms(3) run] rs
    by (simp add: c)
qed

theorem seal_freezes_flash_witness:
  "fst (exec_all (sim_platform False) [Seal_Writes, Put_Session addr7 [1, 2, 3]]
     (fresh_store (blank_flash []) :: (sim, bytes, byte \<times> bytes, nat, nat, nat) nvs_store)) =
     [Inr (), Inl (Validation StorageSealed)] \<and>
   sim_blobs (driver (flash (snd (exec_all (sim_platform False) [Seal_Writes, Put_Session addr7 [1, 2, 3]]
     (fresh_store (blank_flash []) :: (sim, bytes, byte \<times> bytes, nat, nat, nat) nvs_store))))) =
   sim_blobs (driver (blank_flash []))"
proof
  let ?s = "fresh_store (blank_flash []) :: (sim, bytes, byte \<times> bytes, nat, nat, nat) nvs_store"
  let ?run = "exec_all (sim_platform False) [Seal_Writes, Put_Session addr7 [1, 2, 3]] ?s"
  show "fst ?run = [Inr (), Inl (Validation StorageSealed)]"
    by (simp add: seal_writes_def put_session_def sealed_write store_limits)
  show "sim_blobs (driver (flash (snd ?run))) = sim_blobs (driver (blank_flash []))"
    using seal_freezes_flash [OF sim_flash.flash_platform_axioms prod.collapse [symmetric], of "[Put_Session addr7 [1, 2, 3]]" False ?s]
    by (simp add: fresh_store_def)
qed

section \<open>Bounds of the mirrors\<close>

definition mirrors_bounded :: "bool \<Rightarrow> ('d, 'k, 'h, 'l, 'v) store_inner \<Rightarrow> bool" where
  "mirrors_bounded psram i \<longleftrightarrow>
     lru_ok (identities i, identity_order i) \<and> lru_ok (sessions i, session_order i) \<and>
     lru_ok (sync_keys i, sync_key_order i) \<and>
     (\<not> psram \<longrightarrow> hm_len (identities i) \<le> 8 \<and> hm_len (sessions i) = 0 \<and> hm_len (sync_keys i) \<le> 9)"

lemma filter_out_length:
  assumes "distinct xs" and "distinct ks" and "set ks \<subseteq> set xs"
  shows "length (filter (\<lambda>x. x \<notin> set ks) xs) = length xs - length ks"
proof -
  have "set (filter (\<lambda>x. x \<notin> set ks) xs) = set xs - set ks" by auto
  then show ?thesis using assms by (metis card_Diff_subset distinct_card distinct_filter finite_set)
qed

lemma sync_put_len:
  assumes "lru_ok c" and "hm_len (fst c) \<le> 9"
  shows "hm_len (fst (sync_put False prot c k v)) \<le> 9"
proof -
  let ?m = "fmupd k v (fst c)" and ?o = "lru_touched (snd c) k"
  let ?n = "hm_len ?m"
  let ?ks = "take (?n - 8) (filter (\<lambda>k. Some k \<noteq> prot) (lru_overflow ?o ?n 8))"
  have ok: "mirror_ok ?m ?o" using assms(1) by (simp add: lru_ok_def mirror_ok_put)
  then have d: "distinct ?o" and len: "length ?o = ?n" by (simp_all add: mirror_ok_def mirror_ok_len)
  have n: "?n \<le> 10" using assms(2) by (simp add: hm_len_upd)
  obtain m' o' where e: "evict_keys ?ks (?m, ?o) = (m', o')" by (rule prod.exhaust)
  note v = mirror_ok_evict [OF ok e]
  have ks: "distinct ?ks" "set ?ks \<subseteq> set ?o"
    using d by (auto simp: lru_overflow_def dest!: in_set_takeD)
  have o': "length o' = ?n - length ?ks" using filter_out_length [OF d ks] len v(2) by simp
  have one: "length (filter (\<lambda>k. Some k = prot) xs) \<le> 1" if "distinct xs" for xs
    using that by (induction xs) (auto simp: filter_empty_conv)
  have "length (filter (\<lambda>k. Some k \<noteq> prot) (take (?n - 8) ?o)) \<ge> (?n - 8) - 1"
    using sum_length_filter_compl [of "\<lambda>k. Some k = prot" "take (?n - 8) ?o"] one [of "take (?n - 8) ?o"] d len
    by simp
  then have "length ?ks \<ge> ?n - 9" by (auto simp: lru_overflow_def)
  then have "length o' \<le> 9" using o' n by linarith
  then show ?thesis using mirror_ok_len [OF v(1)] e by (simp add: sync_put_def Let_def)
qed

lemma lru_put_bounded:
  assumes "lru_ok c" shows "lru_ok (lru_put b cap c k v)" and "\<not> b \<Longrightarrow> hm_len (fst (lru_put b cap c k v)) \<le> cap"
  using insert_evict(1) [OF assms lru_put_evict] lru_put_len [OF assms] by auto

lemma bounded_mirrors:
  assumes "mirrors_bounded b i"
  shows "mirrors_bounded b (mirror_identity b a v i)" and "mirrors_bounded b (mirror_session b a v i)"
    and "mirrors_bounded b (mirror_sync_key b k x i)"
proof -
  have ok: "lru_ok (identities i, identity_order i)" "lru_ok (sessions i, session_order i)"
    "lru_ok (sync_keys i, sync_key_order i)"
    and len: "\<not> b \<Longrightarrow> hm_len (identities i) \<le> 8 \<and> hm_len (sessions i) = 0 \<and> hm_len (sync_keys i) \<le> 9"
    using assms by (auto simp: mirrors_bounded_def)
  show "mirrors_bounded b (mirror_identity b a v i)"
    using lru_put_bounded [OF ok(1), of b 8 a v] ok len
    by (simp add: mirrors_bounded_def mirror_identity_fields(1) [symmetric])
  show "mirrors_bounded b (mirror_session b a v i)"
    using lru_put_bounded [OF ok(2), of b 0 a v] ok len
    by (simp add: mirrors_bounded_def mirror_session_fields(1) [symmetric])
  show "mirrors_bounded b (mirror_sync_key b k x i)"
    using insert_evict(1) [OF ok(3) sync_put_evict, of b "latest_sync_key_id i" k x]
      sync_put_len [OF ok(3), of "latest_sync_key_id i" k x] ok len
    by (cases b) (simp_all add: mirrors_bounded_def mirror_sync_key_fields(1) [symmetric])
qed

abbreviation bounded_store :: "bool \<Rightarrow> ('n, 'd, 'k, 'h, 'l, 'v) nvs_store \<Rightarrow> bool" where
  "bounded_store b s \<equiv> mirrors_bounded b (inner s)"

lemma bounded_run: "preserves (bounded_store b) (run job)"
  by (auto simp: triple_def run_def split: prod.splits if_splits)

lemma bounded_write_operation: "preserves (bounded_store b) write_operation"
  by (auto simp: triple_def write_operation_def)

lemma bounded_with: "(\<And>i. mirrors_bounded b i \<Longrightarrow> mirrors_bounded b (g i)) \<Longrightarrow> preserves (bounded_store b) (with_inner g)"
  by (auto simp: triple_def with_inner_def)

lemma bounded_mirror_steps:
  "preserves (bounded_store b) (with_inner (mirror_identity b a v))"
  "preserves (bounded_store b) (with_inner (mirror_session b a v))"
  "preserves (bounded_store b) (with_inner (mirror_sync_key b k x))"
  "preserves (bounded_store b) (with_inner (\<lambda>s. mirror_sync_key b k x (s\<lparr>latest_sync_key_id := l\<rparr>)))"
  "preserves (bounded_store b) (with_inner (\<lambda>s. s\<lparr>identities := fmdrop a (identities s),
                       identity_order := lru_removed (identity_order s) a\<rparr>))"
  "preserves (bounded_store b) (with_inner (\<lambda>s. s\<lparr>sessions := fmdrop a (sessions s),
                       session_order := lru_removed (session_order s) a\<rparr>))"
  "preserves (bounded_store b) (with_inner (\<lambda>s. s\<lparr>prekeys := pm s\<rparr>))"
  "preserves (bounded_store b) (with_inner (\<lambda>s. s\<lparr>signed_prekeys := pm s\<rparr>))"
  "preserves (bounded_store b) (with_inner (\<lambda>s. s\<lparr>sender_keys := am s\<rparr>))"
  "preserves (bounded_store b) (with_inner (\<lambda>s. s\<lparr>device := d\<rparr>))"
  "preserves (bounded_store b) (with_inner (\<lambda>s. s\<lparr>device_id_counter := cnt s\<rparr>))"
  "preserves (bounded_store b) (with_inner (\<lambda>s. s\<lparr>sessions := fmempty, session_order := lru_clear (session_order s)\<rparr>))"
  "preserves (bounded_store b) (with_inner (\<lambda>_. inner_default))"
  by (rule bounded_with, rule bounded_mirrors; simp add: mirrors_bounded_def)+
    (rule bounded_with; auto simp: mirrors_bounded_def lru_ok_def mirror_ok_remove [simplified] hm_len_drop
      lru_clear_def inner_default_def)+

lemma bounded_hits:
  "preserves (bounded_store b) (load_identity_hit a)" "preserves (bounded_store b) (get_session_hit a)"
  by (auto simp: triple_def load_identity_hit_def get_session_hit_def mirrors_bounded_def lru_ok_def
      intro: mirror_ok_touch split: option.splits)

lemmas bounded_rules = keeps bounded_run bounded_write_operation bounded_mirror_steps bounded_hits

lemma bounded_put_identity_body: "preserves (bounded_store (has_psram p)) (put_identity_body p a v)"
  unfolding put_identity_body_def by (intro bounded_rules)

lemma bounded_loops:
  "preserves (bounded_store (has_psram p)) (put_identities_loop p es)"
  "preserves (bounded_store (has_psram p)) (put_sessions_loop p es)"
proof (induction es)
  case (Cons e es)
  obtain a v where e: "e = (a, v)" by (rule prod.exhaust)
  {
    case 1
    show ?case unfolding e put_identities_loop.simps
      by (intro preserves_bindE bounded_put_identity_body Cons.IH(1))
  next
    case 2
    show ?case unfolding e put_sessions_loop.simps by (intro bounded_rules Cons.IH(2))
  }
qed (simp_all only: put_identities_loop.simps put_sessions_loop.simps preserves_retE)

lemma bounded_get_sync_key: "preserves (bounded_store (has_psram p)) (get_sync_key p k)"
proof -
  have miss: "preserves (bounded_store (has_psram p)) (bindE (run (load_sync_key p k)) (\<lambda>payload.
      bindE (case payload of Some key \<Rightarrow> with_inner (mirror_sync_key (has_psram p) k key) | None \<Rightarrow> retE ())
        (\<lambda>_. retE payload)))"
    by (intro bounded_rules)
  show ?thesis
    by (rule tripleI)
      (auto simp: get_sync_key_def mirrors_bounded_def lru_ok_def split: option.splits
        intro: mirror_ok_touch dest: tripleD [OF miss, rotated])
qed

lemma bounded_exec: "preserves (bounded_store (has_psram p)) (exec p op)"
proof (cases op)
  case (Load_Identity a)
  show ?thesis
    unfolding Load_Identity exec.simps voidE_def load_identity_def load_identity_flash_def load_identity_fill_def [abs_def]
    by (intro bounded_rules)
next
  case (Get_Session a)
  show ?thesis
    unfolding Get_Session exec.simps voidE_def get_session_def get_session_flash_def get_session_fill_def [abs_def]
    by (intro bounded_rules)
next
  case (Get_Sync_Key k)
  show ?thesis unfolding Get_Sync_Key exec.simps voidE_def
    by (intro preserves_bindE bounded_get_sync_key preserves_retE)
next
  case Seal_Writes
  show ?thesis by (simp add: Seal_Writes triple_def seal_writes_def)
next
  case (Set_Sync_Key k v)
  show ?thesis unfolding Set_Sync_Key exec.simps set_sync_key_def by (intro bounded_rules)
qed (simp only: exec.simps voidE_def put_identity_def put_identities_batch_def delete_identity_def
      put_session_put_record put_sessions_batch_def delete_session_def store_prekey_def remove_prekey_def
      store_signed_prekey_def remove_signed_prekey_def put_sender_key_def delete_sender_key_def save_def create_def
      clear_sessions_def reset_def;
     intro bounded_put_identity_body bounded_loops bounded_rules)+

lemma bounded_exec_all:
  assumes "bounded_store (has_psram p) s" and "exec_all p ops s = (rs, s')"
  shows "bounded_store (has_psram p) s'"
  using assms
proof (induction ops arbitrary: s rs)
  case (Cons op ops)
  obtain r s1 where 1: "exec p op s = (r, s1)" by (rule prod.exhaust)
  obtain rs' where 2: "exec_all p ops s1 = (rs', s')" using Cons.prems(2) 1 by (auto split: prod.splits)
  show ?case by (rule Cons.IH [OF tripleD [OF bounded_exec Cons.prems(1) 1] 2])
qed simp

text \<open>C9: without PSRAM the RAM mirrors stay small whatever the client does: after any history of
  operations at most 8 identities, no session and at most 9 sync keys are held in RAM, while
  flash may hold thousands.\<close>

theorem mirrors_stay_small:
  assumes "\<not> has_psram p" and "exec_all p ops (fresh_store f) = (rs, s)"
  shows "hm_len (identities (inner s)) \<le> 8 \<and> hm_len (sessions (inner s)) = 0 \<and> hm_len (sync_keys (inner s)) \<le> 9"
proof -
  have "bounded_store (has_psram p) (fresh_store f)"
    by (simp add: fresh_store_def inner_default_def mirrors_bounded_def lru_ok_def)
  from bounded_exec_all [OF this assms(2)] assms(1) show ?thesis by (simp add: mirrors_bounded_def)
qed

theorem mirrors_stay_small_witness:
  "hm_len (sessions (inner (snd (exec_all (sim_platform False) [Put_Session addr7 [1, 2, 3]]
     (fresh_store (blank_flash []) :: (sim, bytes, byte \<times> bytes, nat, nat, nat) nvs_store))))) = 0"
proof -
  let ?s = "fresh_store (blank_flash []) :: (sim, bytes, byte \<times> bytes, nat, nat, nat) nvs_store"
  obtain rs s where run: "exec_all (sim_platform False) [Put_Session addr7 [1, 2, 3]] ?s = (rs, s)"
    by (rule prod.exhaust)
  from mirrors_stay_small [OF _ run] have "hm_len (sessions (inner s)) = 0" by simp
  then show ?thesis unfolding run by simp
qed

text \<open>Nine keys in the mirror, the recorded latest the least recently used.\<close>

definition nine_keys :: "(nat, nat, nat, nat, nat) store_inner" where
  "nine_keys = inner_default\<lparr>
     sync_keys := fmap_of_list (map (\<lambda>k. ([k], 0)) [1, 2, 3, 4, 5, 6, 7, 8, 9]),
     sync_key_order := [[1], [2], [3], [4], [5], [6], [7], [8], [9]],
     latest_sync_key_id := Some [1]\<rparr>"

text \<open>The cap on the sync-key mirror spares the latest key on top of the eight it keeps: with
  nine keys held and the latest one the oldest in use, \<open>enforce_sync_keys_cap\<close> evicts nothing, so
  the bound of nine is reached.\<close>

lemma sync_cap_spares_latest:
  "hm_len (sync_keys (enforce_sync_keys_cap False nine_keys)) = 9 \<and>
   fmlookup (sync_keys (enforce_sync_keys_cap False nine_keys)) [1] = Some 0"
proof -
  have n: "hm_len (sync_keys nine_keys) = 9"
    by (simp add: nine_keys_def inner_default_def hm_len_upd hm_contains_def)
  show ?thesis
    by (simp add: enforce_sync_keys_cap_def enforce_sync_keys_cap_except_def n lru_overflow_def)
      (simp add: nine_keys_def inner_default_def hm_len_upd hm_contains_def)
qed

section \<open>Writing a session\<close>

text \<open>\<open>put_session\<close>, which validates in one flash job, encodes on the caller's side and writes in
  another so that no second copy of the session is ever held, does exactly what validating and
  writing in a single \<open>put_record\<close> job would do: same result, same flash, same mirror, on every
  path, the errors included.\<close>

lemma put_session_one_job:
  "put_session p a v =
     bindE (failE_if (length v > MAX_SIGNAL_RECORD_LEN) (Validation (SessionTooLarge (length v)))) (\<lambda>_.
     bindE write_operation (\<lambda>_.
     bindE (getE inner) (\<lambda>s.
     bindE (liftE (ensure_insert_capacity (hm_contains (sessions s) a) (hm_len (sessions s))
              MAX_SESSIONS ''session'')) (\<lambda>_.
     bindE (run (put_record p Sessions (as_bytes a) v ''session'' MAX_SESSIONS)) (\<lambda>_.
     with_inner (mirror_session (has_psram p) a v))))))"
  by (rule put_session_put_record)

end
