(* ===== verification/Open_Properties.thy ===== *)
theory Open_Properties
  imports Nvs_Open Store_Properties
begin

text \<open>
  Opening the store: whatever the flash holds, a successful \<open>open\<close> leaves RAM mirrors that
  agree with it, no pending reset and no orphaned Signal records.
\<close>

lemma u32_le_inverse: "length bs = 4 \<Longrightarrow> u32_to_le (u32_from_le bs) = bs"
proof -
  assume l: "length bs = 4"
  have "le_val bs < 2 ^ 32" using le_val_bound [of bs] l by simp
  then have "unat (word_of_nat (le_val bs) :: u32) = le_val bs" by (simp add: unat_of_nat take_bit_eq_mod)
  then show ?thesis using le_bytes_le_val [of bs] l by (simp add: u32_to_le_def u32_from_le_def)
qed

section \<open>Replaying lists of records\<close>

lemma replay_prekey_all:
  assumes "replay_all replay_prekey kvs m = Inr m'"
  shows "fmlookup m' n = Some v \<longleftrightarrow> fmlookup m n = Some v \<or> (u32_to_le n, v) \<in> set kvs"
  using assms
proof (induction kvs arbitrary: m)
  case (Cons kv kvs)
  obtain k w where kv: "kv = (k, w)" by (rule prod.exhaust)
  from Cons.prems have len: "length k = 4" and fresh: "fmlookup m (u32_from_le k) = None"
    and rest: "replay_all replay_prekey kvs (fmupd (u32_from_le k) w m) = Inr m'"
    by (auto simp: kv replay_prekey_def [of "(k, w)"] decode_u32_key_def hm_contains_def split: if_splits sum.splits)
  have "n = u32_from_le k \<longleftrightarrow> u32_to_le n = k" using u32_le_inverse [OF len] by auto
  then show ?case using Cons.IH [OF rest] fresh by (auto simp: kv)
qed simp

lemma replay_signed_prekey_all:
  assumes "replay_all replay_signed_prekey kvs m = Inr m'"
  shows "fmlookup m' n = Some v \<longleftrightarrow> fmlookup m n = Some v \<or> (u32_to_le n, v) \<in> set kvs"
  using assms
proof (induction kvs arbitrary: m)
  case (Cons kv kvs)
  obtain k w where kv: "kv = (k, w)" by (rule prod.exhaust)
  from Cons.prems have len: "length k = 4" and fresh: "fmlookup m (u32_from_le k) = None"
    and rest: "replay_all replay_signed_prekey kvs (fmupd (u32_from_le k) w m) = Inr m'"
    by (auto simp: kv replay_signed_prekey_def [of "(k, w)"] decode_u32_key_def hm_contains_def split: if_splits sum.splits)
  have "n = u32_from_le k \<longleftrightarrow> u32_to_le n = k" using u32_le_inverse [OF len] by auto
  then show ?case using Cons.IH [OF rest] fresh by (auto simp: kv)
qed simp

lemma decode_string_key_Inr: "decode_string_key k label = Inr a \<Longrightarrow> k = as_bytes a"
  by (auto simp: decode_string_key_def dest: from_utf8_SomeD split: option.splits)

lemma replay_sender_key_all:
  assumes "replay_all replay_sender_key kvs m = Inr m'"
  shows "fmlookup m' a = Some v \<longleftrightarrow> fmlookup m a = Some v \<or> (as_bytes a, v) \<in> set kvs"
  using assms
proof (induction kvs arbitrary: m)
  case (Cons kv kvs)
  obtain k w where kv: "kv = (k, w)" by (rule prod.exhaust)
  from Cons.prems obtain b where b: "decode_string_key k ''sender key'' = Inr b" and fresh: "fmlookup m b = None"
    and rest: "replay_all replay_sender_key kvs (fmupd b w m) = Inr m'"
    by (auto simp: kv replay_sender_key_def [of "(k, w)"] hm_contains_def split: if_splits sum.splits)
  show ?case using Cons.IH [OF rest] fresh decode_string_key_Inr [OF b] by (auto simp: kv)
qed simp

section \<open>Reading the namespaces\<close>

context flash_platform
begin

text \<open>A step of the boot leaves flash as it is.\<close>

definition boot_same :: "'n flash_namespaces \<Rightarrow> 'n flash_namespaces \<Rightarrow> bool" where
  "boot_same f g \<longleftrightarrow> content g = content f \<and> slots_sound g"

lemma boot_same_table: "boot_same f g \<Longrightarrow> table g = table f"
  by (simp add: boot_same_def table_def fun_eq_iff)

lemma boot_same_trans: "boot_same f g \<Longrightarrow> boot_same g h \<Longrightarrow> boot_same f h"
  by (simp add: boot_same_def)

lemma load_named_effect:
  assumes "load_named p ns label len name f = (r, f')" and "slots_sound f"
  shows "boot_same f f'"
    and "r = Inr (k, v) \<Longrightarrow> record_name (sha256 p) k = name \<and> table f ns k = Some v"
proof -
  obtain br g where rd: "on_driver (read_blob (nvs p) ns name
      (RECORD_HEADER_LEN + MAX_LOGICAL_KEY_LEN + len)) f = (br, g)" by (rule prod.exhaust)
  note o = on_read [OF rd]
  have look: "br = Inr b \<Longrightarrow> b = fmlookup (content f ns) name" for b
    using on_read_ok(1) [of ns name _ f b g] rd by simp
  have "f' = g \<and> (r = Inr (k, v) \<longrightarrow> record_name (sha256 p) k = name \<and> table f ns k = Some v)"
    using assms(1) look unfolding load_named_def bindE_def rd table_def table_of_def
    by (auto split: sum.splits option.splits if_splits)
  then show "boot_same f f'" and "r = Inr (k, v) \<Longrightarrow> record_name (sha256 p) k = name \<and> table f ns k = Some v"
    using o assms(2) by (auto simp: boot_same_def)
qed

lemma load_all_effect:
  assumes "load_all p ns label len names f = (r, f')" and "slots_sound f"
  shows "boot_same f f' \<and> (\<forall>kvs. r = Inr kvs \<longrightarrow>
           map (\<lambda>(k, _). record_name (sha256 p) k) kvs = names \<and> (\<forall>(k, v) \<in> set kvs. table f ns k = Some v))"
  using assms
proof (induction names arbitrary: f f' r)
  case Nil
  then show ?case by (auto simp: boot_same_def)
next
  case (Cons name names)
  from Cons.prems(1) have "bindE (load_named p ns label len name) (\<lambda>kv.
      bindE (load_all p ns label len names) (\<lambda>rest. retE (kv # rest))) f = (r, f')" by simp
  then show ?case
  proof (cases rule: bindE_cases)
    case (err e)
    then show ?thesis using load_named_effect(1) [OF err(1) Cons.prems(2)] by simp
  next
    case (ok kv g)
    obtain k v where kv: "kv = (k, v)" by (rule prod.exhaust)
    note n = load_named_effect [OF ok(1) Cons.prems(2)]
    from n(1) have sg: "slots_sound g" and tg: "table g = table f" by (auto simp: boot_same_def boot_same_table)
    obtain lr h where l: "load_all p ns label len names g = (lr, h)" by (rule prod.exhaust)
    note ih = Cons.IH [OF l sg]
    have "f' = h \<and> (\<forall>kvs. r = Inr kvs \<longrightarrow> (\<exists>rest. lr = Inr rest \<and> kvs = kv # rest))"
      using ok(2) l by (auto simp: bindE_def split: sum.splits)
    then show ?thesis using ih n(1) n(2) [of k v] boot_same_trans [OF n(1)] tg by (fastforce simp: kv)
  qed
qed

lemma load_records_effect:
  assumes "load_records p ns label limit len f = (r, f')" and "slots_sound f"
  shows "boot_same f f'" and "r = Inr kvs \<Longrightarrow> (k, v) \<in> set kvs \<longleftrightarrow> table f ns k = Some v"
proof -
  have "boot_same f f' \<and> (r = Inr kvs \<longrightarrow> ((k, v) \<in> set kvs \<longleftrightarrow> table f ns k = Some v))"
    using assms(1) unfolding load_records_def
  proof (cases rule: bindE_cases)
    case (err e)
    then show ?thesis using on_names [OF err(1)] assms(2) by (simp add: boot_same_def)
  next
    case (ok names g)
    note o = on_names [OF ok(1)]
    have names: "set names = fmdom' (content f ns)" using on_names_ok [OF ok(1)] by simp
    have fg: "boot_same f g" using o assms(2) by (simp add: boot_same_def)
    show ?thesis
    proof (cases "length names > limit")
      case True
      then show ?thesis using ok(2) fg by auto
    next
      case False
      then have "load_all p ns label len names g = (r, f')" using ok(2) by simp
      note l = load_all_effect [OF this]
      have gf: "boot_same g f'" using l fg by (simp add: boot_same_def)
      have "(k, v) \<in> set kvs \<longleftrightarrow> table f ns k = Some v" if r: "r = Inr kvs"
      proof
        show "(k, v) \<in> set kvs \<Longrightarrow> table f ns k = Some v"
          using l r fg boot_same_table [OF fg] by (auto simp: boot_same_def)
        assume t: "table f ns k = Some v"
        then have "record_name (sha256 p) k \<in> set names"
          unfolding names by (auto simp: table_def table_of_def intro: fmdom'I split: option.splits)
        then obtain k' v' where kv: "(k', v') \<in> set kvs" "record_name (sha256 p) k' = record_name (sha256 p) k"
          using l r fg by (fastforce simp: boot_same_def)
        then have "table f ns k' = Some v'" using l r fg boot_same_table [OF fg] by (auto simp: boot_same_def)
        then have "k' = k \<and> v' = v" using t kv(2)
          by (auto simp: table_def table_of_def split: option.splits sum.splits if_splits)
        then show "(k, v) \<in> set kvs" using kv(1) by simp
      qed
      then show ?thesis using boot_same_trans [OF fg gf] by simp
    qed
  qed
  then show "boot_same f f'" and "r = Inr kvs \<Longrightarrow> (k, v) \<in> set kvs \<longleftrightarrow> table f ns k = Some v" by blast+
qed

lemma visit_names_effect:
  assumes "visit_names p ns label len visit names acc f = (r, f')" and "slots_sound f" and "I acc"
    and "\<And>k v a a'. table f ns k = Some v \<Longrightarrow> I a \<Longrightarrow> visit k v a = Inr a' \<Longrightarrow> I a'"
  shows "boot_same f f' \<and> (\<forall>a. r = Inr a \<longrightarrow> I a)"
  using assms
proof (induction names arbitrary: f r acc)
  case Nil
  then show ?case by (auto simp: boot_same_def)
next
  case (Cons name names)
  from Cons.prems(1) have "bindE (map_errE StoreErr (load_named p ns label len name)) (\<lambda>(key, value).
     bindE (liftE (visit key value acc)) (\<lambda>acc'. visit_names p ns label len visit names acc')) f = (r, f')" by simp
  then show ?case
  proof (cases rule: bindE_cases)
    case (err e)
    then obtain e' where "load_named p ns label len name f = (Inl e', f')"
      by (auto simp: map_errE_def split: prod.splits sum.splits)
    from load_named_effect(1) [OF this Cons.prems(2)] show ?thesis using err(2) by simp
  next
    case (ok kv g)
    obtain k v where kv: "kv = (k, v)" by (rule prod.exhaust)
    from ok(1) have ln: "load_named p ns label len name f = (Inr (k, v), g)"
      by (auto simp: kv map_errE_def split: prod.splits sum.splits)
    note n = load_named_effect(1) [OF ln Cons.prems(2)] and t = load_named_effect(2) [OF ln Cons.prems(2) refl]
    show ?thesis
    proof (cases "visit k v acc")
      case (Inl e)
      then show ?thesis using ok(2) n by (auto simp: kv)
    next
      case (Inr acc')
      then have rest: "visit_names p ns label len visit names acc' g = (r, f')" using ok(2) by (simp add: kv)
      have "boot_same g f' \<and> (\<forall>a. r = Inr a \<longrightarrow> I a)"
      proof (rule Cons.IH [OF rest])
        show "slots_sound g" using n by (simp add: boot_same_def)
        show "I acc'" using Cons.prems(4) [OF _ Cons.prems(3) Inr] t by blast
        show "\<And>k v a a'. table g ns k = Some v \<Longrightarrow> I a \<Longrightarrow> visit k v a = Inr a' \<Longrightarrow> I a'"
          using Cons.prems(4) boot_same_table [OF n] by metis
      qed
      then show ?thesis using boot_same_trans [OF n] by blast
    qed
  qed
qed

lemma visit_records_effect:
  assumes "visit_records p ns label limit len visit acc f = (r, f')" and "slots_sound f" and "I acc"
    and "\<And>k v a a'. table f ns k = Some v \<Longrightarrow> I a \<Longrightarrow> visit k v a = Inr a' \<Longrightarrow> I a'"
  shows "boot_same f f' \<and> (\<forall>a. r = Inr a \<longrightarrow> I a)"
  using assms(1) unfolding visit_records_def
proof (cases rule: bindE_cases)
  case (err e)
  then obtain e' where "on_driver (record_names (nvs p) ns) f = (Inl e', f')"
    by (auto simp: map_errE_def split: prod.splits sum.splits)
  from on_names [OF this] show ?thesis using err(2) assms(2) by (simp add: boot_same_def)
next
  case (ok names g)
  then have "on_driver (record_names (nvs p) ns) f = (Inr names, g)"
    by (auto simp: map_errE_def split: prod.splits sum.splits)
  from on_names [OF this] have fg: "boot_same f g" using assms(2) by (simp add: boot_same_def)
  show ?thesis
  proof (cases "length names > limit")
    case True
    then show ?thesis using ok(2) fg by auto
  next
    case False
    then have "visit_names p ns label len visit names acc g = (r, f')" using ok(2) by simp
    from visit_names_effect [OF this, of I] have "boot_same g f' \<and> (\<forall>a. r = Inr a \<longrightarrow> I a)"
      using fg assms(3,4) boot_same_table [OF fg] by (simp add: boot_same_def)
    then show ?thesis using boot_same_trans [OF fg] by blast
  qed
qed

section \<open>The visitors\<close>

lemma visit_identity_coherent:
  assumes "visit_identity b k v i = Inr i'" and "table f Identities k = Some v"
    and "lru.coherent {} (identities i, identity_order i) (\<lambda>a. table f Identities (as_bytes a))"
  shows "lru.coherent {} (identities i', identity_order i') (\<lambda>a. table f Identities (as_bytes a)) \<and>
         (\<exists>m ord. i' = i\<lparr>identities := m, identity_order := ord\<rparr>)"
proof -
  from assms(1) obtain a where a: "decode_string_key k ''identity'' = Inr a" and i': "i' = mirror_identity b a v i"
    by (auto simp: visit_identity_def split: sum.splits if_splits)
  have "table f Identities (as_bytes a) = Some v" using assms(2) decode_string_key_Inr [OF a] by simp
  from lru.coherent_fill [OF assms(3) this, of b 8]
  show ?thesis using mirror_identity_fields [of b a v i] by (auto simp: i')
qed

lemma visit_session_coherent:
  assumes "visit_session b k v i = Inr i'" and "table f Sessions k = Some v"
    and "lru.coherent {} (sessions i, session_order i) (\<lambda>a. table f Sessions (as_bytes a))"
  shows "lru.coherent {} (sessions i', session_order i') (\<lambda>a. table f Sessions (as_bytes a)) \<and>
         (\<exists>m ord. i' = i\<lparr>sessions := m, session_order := ord\<rparr>)"
proof -
  from assms(1) obtain a where a: "decode_string_key k ''session'' = Inr a" and i': "i' = mirror_session b a v i"
    by (auto simp: visit_session_def split: sum.splits if_splits)
  have "table f Sessions (as_bytes a) = Some v" using assms(2) decode_string_key_Inr [OF a] by simp
  from lru.coherent_fill [OF assms(3) this, of b 0]
  show ?thesis using mirror_session_fields [of b a v i] by (auto simp: i')
qed

lemma sync_cap_fields:
  "(sync_keys (enforce_sync_keys_cap_except b prot (i\<lparr>sync_keys := fmupd k v (sync_keys i),
        sync_key_order := lru_touched (sync_key_order i) k\<rparr>)),
    sync_key_order (enforce_sync_keys_cap_except b prot (i\<lparr>sync_keys := fmupd k v (sync_keys i),
        sync_key_order := lru_touched (sync_key_order i) k\<rparr>))) =
   sync_put b prot (sync_keys i, sync_key_order i) k v"
  "\<exists>m ord. enforce_sync_keys_cap_except b prot (i\<lparr>sync_keys := fmupd k v (sync_keys i),
        sync_key_order := lru_touched (sync_key_order i) k\<rparr>) = i\<lparr>sync_keys := m, sync_key_order := ord\<rparr>"
  by (auto simp: enforce_sync_keys_cap_except_def sync_put_def Let_def split: prod.splits)

lemma sync_put_spares:
  assumes "lru_ok c" and "hm_contains (fmupd k v (fst c)) j"
  shows "hm_contains (fst (sync_put b (Some j) c k v)) j"
proof -
  let ?m = "fmupd k v (fst c)" and ?o = "lru_touched (snd c) k"
  let ?ks = "if b then [] else take (hm_len ?m - 8) (filter (\<lambda>i. Some i \<noteq> Some j) (lru_overflow ?o (hm_len ?m) 8))"
  have ok: "mirror_ok ?m ?o" using assms(1) by (simp add: lru_ok_def mirror_ok_put)
  obtain m' o' where e: "evict_keys ?ks (?m, ?o) = (m', o')" by (rule prod.exhaust)
  have "j \<notin> set ?ks" by (auto dest: in_set_takeD)
  then have "fmlookup m' j = fmlookup ?m j" using mirror_ok_evict(3) [OF ok e, of j] by simp
  then show ?thesis using assms(2) unfolding sync_put_evict e by (simp add: hm_contains_def)
qed

lemma visit_sync_key_coherent:
  assumes "visit_sync_key p k v (t, i) = Inr (t', i')" and "table f Sync_Keys k = Some v"
    and "sync.coherent {} (sync_keys i, sync_key_order i) (sync_table f)"
    and "\<And>j. t = Some j \<Longrightarrow> hm_contains (sync_keys i) j"
  shows "sync.coherent {} (sync_keys i', sync_key_order i') (sync_table f) \<and>
         (\<forall>j. t' = Some j \<longrightarrow> hm_contains (sync_keys i') j) \<and>
         (\<exists>m ord. i' = i\<lparr>sync_keys := m, sync_key_order := ord\<rparr>)"
proof -
  from assms(1) have tt: "t' = Some k \<or> t' = t"
    by (auto simp: visit_sync_key_def Let_def split: option.splits if_splits)
  from assms(1) obtain x where x: "sync_key_from_json p v = Some x"
    and i': "i' = enforce_sync_keys_cap_except (has_psram p) t'
        (i\<lparr>sync_keys := fmupd k x (sync_keys i), sync_key_order := lru_touched (sync_key_order i) k\<rparr>)"
    by (auto simp: visit_sync_key_def Let_def split: option.splits if_splits)
  have "sync_table f k = Some x" using assms(2) x by (simp add: sync_table_def)
  note c = sync.coherent_fill [OF assms(3) this, of "has_psram p" t']
  have "lru_ok (sync_keys i, sync_key_order i)" using assms(3) by (rule sync.coherent_invar)
  from sync_put_spares [OF this, of k x _ "has_psram p"]
  have "hm_contains (fst (sync_put (has_psram p) t' (sync_keys i, sync_key_order i) k x)) j" if "t' = Some j" for j
    using that tt assms(4) by (auto simp: hm_contains_def)
  moreover have eq: "(sync_keys i', sync_key_order i') = sync_put (has_psram p) t' (sync_keys i, sync_key_order i) k x"
    unfolding i' by (rule sync_cap_fields(1))
  moreover have "sync_keys i' = fst (sync_put (has_psram p) t' (sync_keys i, sync_key_order i) k x)"
    unfolding eq [symmetric] by simp
  moreover have "\<exists>m ord. i' = i\<lparr>sync_keys := m, sync_key_order := ord\<rparr>" unfolding i' by (rule sync_cap_fields(2))
  ultimately show ?thesis using c by simp
qed

lemma load_latest_effect:
  assumes "load_latest_sync_key_id p f = (r, f')" and "slots_sound f"
  shows "boot_same f f'"
proof -
  obtain br g where rd: "on_driver (read_blob (nvs p) Control ''latestsync''
      (RECORD_HEADER_LEN + length (as_bytes ''latestsync'') + MAX_LOGICAL_KEY_LEN)) f = (br, g)" by (rule prod.exhaust)
  have "f' = g" using assms(1) unfolding load_latest_sync_key_id_def bindE_def rd
    by (auto split: sum.splits option.splits if_splits)
  then show ?thesis using on_read [OF rd] assms(2) by (simp add: boot_same_def)
qed

lemma load_sync_key_boot:
  assumes "load_sync_key p k f = (r, f')" and "slots_sound f"
  shows "boot_same f f'" and "r = Inr d \<Longrightarrow> d = sync_table f k"
proof -
  obtain lr g where l: "load_record p Sync_Keys k MAX_SIGNAL_RECORD_LEN f = (lr, g)" by (rule prod.exhaust)
  have "f' = g" using assms(1) l by (auto simp: load_sync_key_def bindE_def split: sum.splits option.splits)
  then show b: "boot_same f f'" using load_record_effect [OF l] assms(2) by (simp add: boot_same_def)
  show "r = Inr d \<Longrightarrow> d = sync_table f k"
    using load_sync_key_touches(2) [OF assms] boot_same_table [OF b] by (simp add: sync_table_def)
qed

lemma recorded_latest_effect:
  assumes "recorded_latest p i f = (r, f')" and "slots_sound f"
    and "sync.coherent {} (sync_keys i, sync_key_order i) (sync_table f)"
  shows "boot_same f f' \<and> (\<exists>rec i'. r = Inr (rec, i') \<and>
           sync.coherent {} (sync_keys i', sync_key_order i') (sync_table f) \<and>
           (\<forall>k. hm_contains (sync_keys i) k \<longrightarrow> hm_contains (sync_keys i') k) \<and>
           (\<exists>m ord. i' = i\<lparr>sync_keys := m, sync_key_order := ord\<rparr>))"
proof -
  obtain lr f1 where l: "load_latest_sync_key_id p f = (lr, f1)" by (rule prod.exhaust)
  have b1: "boot_same f f1" by (rule load_latest_effect [OF l assms(2)])
  let ?rec = "case lr of Inl _ \<Rightarrow> None | Inr recorded \<Rightarrow> recorded"
  have same: "\<exists>m ord. i = i\<lparr>sync_keys := m, sync_key_order := ord\<rparr>"
    by (intro exI [of _ "sync_keys i"] exI [of _ "sync_key_order i"]) simp
  show ?thesis
  proof (cases ?rec)
    case None
    then show ?thesis using assms(1,3) l b1 same by (auto simp: recorded_latest_def Let_def)
  next
    case (Some k)
    show ?thesis
    proof (cases "hm_contains (sync_keys i) k")
      case True
      then show ?thesis using assms(1,3) l b1 Some same by (auto simp: recorded_latest_def Let_def)
    next
      case False
      obtain kr f2 where k: "load_sync_key p k f1 = (kr, f2)" by (rule prod.exhaust)
      have s1: "slots_sound f1" using b1 by (simp add: boot_same_def)
      note e = load_sync_key_boot [OF k s1]
      have t1: "sync_table f1 k = sync_table f k" using boot_same_table [OF b1] by (simp add: sync_table_def)
      show ?thesis
      proof (cases "\<exists>x. kr = Inr (Some x)")
        case True
        then obtain x where x: "kr = Inr (Some x)" by blast
        then have "sync_table f k = Some x" using e(2) t1 by simp
        from sync.coherent_fill [OF assms(3) this, of True None]
        have "sync.coherent {} (fmupd k x (sync_keys i), lru_touched (sync_key_order i) k) (sync_table f)"
          by (simp add: sync_put_def)
        then show ?thesis using assms(1) l k Some \<open>\<not> hm_contains (sync_keys i) k\<close> x boot_same_trans [OF b1 e(1)]
          by (auto simp: recorded_latest_def Let_def hm_contains_def) blast
      next
        case False
        then have "recorded_latest p i f = (Inr (Some k, i), f2)"
          using l k Some \<open>\<not> hm_contains (sync_keys i) k\<close>
          by (auto simp: recorded_latest_def Let_def split: sum.splits option.splits)
        then show ?thesis using assms(1,3) boot_same_trans [OF b1 e(1)] same by auto
      qed
    qed
  qed
qed

lemma settle_latest_coherent:
  assumes "sync.coherent {} (sync_keys i, sync_key_order i) tbl"
    and "\<And>k. t = Some k \<Longrightarrow> hm_contains (sync_keys i) k"
  shows "sync.coherent {} (sync_keys (settle_latest b rec t i), sync_key_order (settle_latest b rec t i)) tbl"
proof -
  define latest where "latest = (case (case rec of
      Some k \<Rightarrow> if hm_contains (sync_keys i) k then Some k else None | None \<Rightarrow> None) of
      Some k \<Rightarrow> Some k | None \<Rightarrow> t)"
  have present: "latest = Some k \<Longrightarrow> hm_contains (sync_keys i) k" for k
    using assms(2) by (auto simp: latest_def split: option.splits if_splits)
  have "mirror_ok (hm_retain (\<lambda>k _. Some k = latest) (sync_keys i))
      (case latest of None \<Rightarrow> [] | Some k \<Rightarrow> lru_touched [] k)"
  proof (cases latest)
    case None
    then show ?thesis by (auto simp: mirror_ok_def fmdom'_def lookup_hm_retain dom_def split: option.splits)
  next
    case (Some k)
    then show ?thesis using present [OF Some]
      by (auto simp: mirror_ok_def lru_touched_def fmdom'_def lookup_hm_retain dom_def hm_contains_def
          split: option.splits)
  qed
  then show ?thesis using assms(1)
    unfolding settle_latest_def Let_def latest_def [symmetric] lru.coherent_def
    by (auto simp: lru_ok_def lru_get_def lru_clear_def lookup_hm_retain split: option.splits if_splits)
qed

section \<open>The whole replay\<close>

lemma map_err_cases:
  assumes "map_errE g m f = (r, f')"
  obtains (err) e where "m f = (Inl e, f')" and "r = Inl (g e)" | (ok) x where "m f = (Inr x, f')" and "r = Inr x"
  using assms by (auto simp: map_errE_def split: prod.splits sum.splits)

lemma boot_sound: "boot_same f g \<Longrightarrow> slots_sound g"
  by (simp add: boot_same_def)

lemma boot_sync_table: "boot_same f g \<Longrightarrow> sync_table g = sync_table f"
  by (simp add: sync_table_def boot_same_table fun_eq_iff)

text \<open>
  \<open>boots f R m\<close>: from a state that still has the flash of \<open>f\<close>, \<open>m\<close> leaves it so, and a
  value it returns satisfies \<open>R\<close>.
\<close>

definition boots :: "'n flash_namespaces \<Rightarrow> ('a \<Rightarrow> bool) \<Rightarrow> ('n, 'a) open_io \<Rightarrow> bool" where
  "boots f R m \<longleftrightarrow> triple (boot_same f) m (\<lambda>r s. boot_same f s \<and> (\<forall>x. r = Inr x \<longrightarrow> R x))"

lemma bootsI:
  "(\<And>g r g'. boot_same f g \<Longrightarrow> m g = (r, g') \<Longrightarrow> boot_same f g' \<and> (\<forall>x. r = Inr x \<longrightarrow> R x)) \<Longrightarrow> boots f R m"
  unfolding boots_def by (rule tripleI)

lemma boots_bindE: "boots f R m \<Longrightarrow> (\<And>x. R x \<Longrightarrow> boots f S (k x)) \<Longrightarrow> boots f S (bindE m k)"
proof (rule bootsI)
  fix g r g'
  assume a: "boots f R m" "\<And>x. R x \<Longrightarrow> boots f S (k x)" "boot_same f g" "bindE m k g = (r, g')"
  from a(4) show "boot_same f g' \<and> (\<forall>x. r = Inr x \<longrightarrow> S x)"
  proof (cases rule: bindE_cases)
    case (err e)
    then show ?thesis using tripleD [OF a(1) [unfolded boots_def] a(3) err(1)] by simp
  next
    case (ok x h)
    from tripleD [OF a(1) [unfolded boots_def] a(3) ok(1)] have "boot_same f h" "R x" by simp_all
    from tripleD [OF a(2) [OF this(2), unfolded boots_def] this(1) ok(2)] show ?thesis .
  qed
qed

lemma boots_lift: "(\<And>x. r = Inr x \<Longrightarrow> R x) \<Longrightarrow> boots f R (liftE r)"
  by (rule bootsI) simp

lemma boots_ret: "R x \<Longrightarrow> boots f R (retE x)"
  by (rule bootsI) auto

lemma boots_visit:
  assumes "I acc" and "\<And>k v a a'. table f ns k = Some v \<Longrightarrow> I a \<Longrightarrow> visit k v a = Inr a' \<Longrightarrow> I a'"
  shows "boots f I (visit_records p ns label limit len visit acc)"
proof (rule bootsI)
  fix g r g'
  assume b: "boot_same f g" and run: "visit_records p ns label limit len visit acc g = (r, g')"
  from visit_records_effect [OF run boot_sound [OF b], of I] assms boot_same_table [OF b]
  have "boot_same g g' \<and> (\<forall>a. r = Inr a \<longrightarrow> I a)" by simp
  then show "boot_same f g' \<and> (\<forall>x. r = Inr x \<longrightarrow> I x)" using boot_same_trans [OF b] by blast
qed

lemma boots_load:
  "boots f (\<lambda>kvs. \<forall>k v. (k, v) \<in> set kvs \<longleftrightarrow> table f ns k = Some v)
     (map_errE StoreErr (load_records p ns label limit len))"
proof (rule bootsI)
  fix g r g'
  assume b: "boot_same f g" and "map_errE StoreErr (load_records p ns label limit len) g = (r, g')"
  from this(2) show "boot_same f g' \<and> (\<forall>kvs. r = Inr kvs \<longrightarrow> (\<forall>k v. (k, v) \<in> set kvs \<longleftrightarrow> table f ns k = Some v))"
  proof (cases rule: map_err_cases)
    case (err e)
    then show ?thesis using load_records_effect(1) [OF err(1) boot_sound [OF b]] boot_same_trans [OF b] by simp
  next
    case (ok kvs)
    note l = load_records_effect [OF ok(1) boot_sound [OF b]]
    show ?thesis using l(1) l(2) [OF refl] boot_same_trans [OF b] ok(2) boot_same_table [OF b] by simp
  qed
qed

text \<open>The state of the replay: the capped mirrors agree with flash, the rest is untouched or complete.\<close>

definition replayed :: "'n flash_namespaces \<Rightarrow> ('d, 'k, 'h, 'l, 'v) store_inner \<Rightarrow> bool" where
  "replayed f i \<longleftrightarrow>
     device i = stored_device f \<and>
     lru.coherent {} (identities i, identity_order i) (\<lambda>a. table f Identities (as_bytes a)) \<and>
     lru.coherent {} (sessions i, session_order i) (\<lambda>a. table f Sessions (as_bytes a)) \<and>
     sync.coherent {} (sync_keys i, sync_key_order i) (sync_table f)"

definition no_lists :: "('d, 'k, 'h, 'l, 'v) store_inner \<Rightarrow> bool" where
  "no_lists i \<longleftrightarrow> prekeys i = fmempty \<and> signed_prekeys i = fmempty \<and> sender_keys i = fmempty"

definition lists_done :: "'n flash_namespaces \<Rightarrow> ('d, 'k, 'h, 'l, 'v) store_inner \<Rightarrow> bool" where
  "lists_done f i \<longleftrightarrow>
     (\<forall>n. fmlookup (prekeys i) n = table f Prekeys (u32_to_le n)) \<and>
     (\<forall>n. fmlookup (signed_prekeys i) n = table f Signed_Prekeys (u32_to_le n)) \<and>
     (\<forall>a. fmlookup (sender_keys i) a = table f Sender_Keys (as_bytes a))"

lemma option_eq_by_Some: "(\<And>v. x = Some v \<longleftrightarrow> y = Some v) \<Longrightarrow> x = y"
  by (cases x; cases y) auto

definition part_one :: "'n flash_namespaces \<Rightarrow> ('d, 'k, 'h, 'l, 'v) store_inner \<Rightarrow> bool" where
  "part_one f i \<longleftrightarrow> replayed f i \<and> no_lists i"

definition part_two :: "'n flash_namespaces \<Rightarrow> bytes option \<times> ('d, 'k, 'h, 'l, 'v) store_inner \<Rightarrow> bool" where
  "part_two f ti \<longleftrightarrow> replayed f (snd ti) \<and> lists_done f (snd ti) \<and>
     (\<forall>j. fst ti = Some j \<longrightarrow> hm_contains (sync_keys (snd ti)) j)"

lemma boots_identities:
  "part_one f i \<Longrightarrow> boots f (part_one f) (visit_records p Identities l m n (visit_identity b) i)"
proof (rule boots_visit)
  fix k v i i'
  assume "table f Identities k = Some v" and R: "part_one f i" and "visit_identity b k v i = Inr i'"
  from visit_identity_coherent [OF this(3,1)] R show "part_one f i'"
    by (auto simp: part_one_def replayed_def no_lists_def)
qed

lemma boots_sessions:
  "part_one f i \<Longrightarrow> boots f (part_one f) (visit_records p Sessions l m n (visit_session b) i)"
proof (rule boots_visit)
  fix k v i i'
  assume "table f Sessions k = Some v" and R: "part_one f i" and "visit_session b k v i = Inr i'"
  from visit_session_coherent [OF this(3,1)] R show "part_one f i'"
    by (auto simp: part_one_def replayed_def no_lists_def)
qed

lemma boots_sync:
  "part_two f ti \<Longrightarrow> boots f (part_two f) (visit_records p Sync_Keys l m n (visit_sync_key p) ti)"
proof (rule boots_visit)
  fix k v a a'
  assume t: "table f Sync_Keys k = Some v" and R: "part_two f a" and v: "visit_sync_key p k v a = Inr a'"
  obtain t1 i1 t2 i2 where a: "a = (t1, i1)" "a' = (t2, i2)" by (cases a; cases a') auto
  from visit_sync_key_coherent [OF v [unfolded a] t] R show "part_two f a'"
    by (auto simp: a part_two_def replayed_def lists_done_def)
qed

lemma boots_recorded:
  assumes "part_two f (t, i)"
  shows "boots f (\<lambda>ri. part_two f (t, snd ri)) (recorded_latest p i)"
proof (rule bootsI)
  fix g r g'
  assume b: "boot_same f g" and run: "recorded_latest p i g = (r, g')"
  have "sync.coherent {} (sync_keys i, sync_key_order i) (sync_table g)"
    using assms by (simp add: part_two_def replayed_def boot_sync_table [OF b])
  from recorded_latest_effect [OF run boot_sound [OF b] this] obtain rec i' where
    e: "boot_same g g'" "r = Inr (rec, i')" "sync.coherent {} (sync_keys i', sync_key_order i') (sync_table f)"
    "\<forall>k. hm_contains (sync_keys i) k \<longrightarrow> hm_contains (sync_keys i') k"
    "\<exists>m ord. i' = i\<lparr>sync_keys := m, sync_key_order := ord\<rparr>"
    by (auto simp: boot_sync_table [OF b])
  then show "boot_same f g' \<and> (\<forall>x. r = Inr x \<longrightarrow> part_two f (t, snd x))"
    using assms boot_same_trans [OF b e(1)] by (auto simp: part_two_def replayed_def lists_done_def)
qed

lemma settle_part_two:
  assumes "part_two f (t, i)"
  shows "replayed f (settle_latest b rec t i) \<and> lists_done f (settle_latest b rec t i)"
proof -
  have "sync.coherent {} (sync_keys i, sync_key_order i) (sync_table f)"
    using assms by (simp add: part_two_def replayed_def)
  from settle_latest_coherent [OF this, of t b rec] assms
  show ?thesis by (auto simp: part_two_def replayed_def lists_done_def settle_latest_def Let_def)
qed

lemma lists_replayed:
  assumes "part_one f i"
    and "\<forall>k v. (k, v) \<in> set ps \<longleftrightarrow> table f Prekeys k = Some v" "replay_all replay_prekey ps (prekeys i) = Inr pm"
    and "\<forall>k v. (k, v) \<in> set ss \<longleftrightarrow> table f Signed_Prekeys k = Some v"
    "replay_all replay_signed_prekey ss (signed_prekeys i) = Inr sm"
    and "\<forall>k v. (k, v) \<in> set ks \<longleftrightarrow> table f Sender_Keys k = Some v"
    "replay_all replay_sender_key ks (sender_keys i) = Inr km"
  shows "part_two f (None, i\<lparr>prekeys := pm, signed_prekeys := sm, sender_keys := km\<rparr>)"
proof -
  have none: "prekeys i = fmempty" "signed_prekeys i = fmempty" "sender_keys i = fmempty" and R: "replayed f i"
    using assms(1) by (simp_all add: part_one_def no_lists_def)
  have "fmlookup pm n = table f Prekeys (u32_to_le n)" for n
    by (rule option_eq_by_Some) (simp add: replay_prekey_all [OF assms(3)] none assms(2))
  moreover have "fmlookup sm n = table f Signed_Prekeys (u32_to_le n)" for n
    by (rule option_eq_by_Some) (simp add: replay_signed_prekey_all [OF assms(5)] none assms(4))
  moreover have "fmlookup km a = table f Sender_Keys (as_bytes a)" for a
    by (rule option_eq_by_Some) (simp add: replay_sender_key_all [OF assms(7)] none assms(6))
  ultimately show ?thesis using R by (simp add: part_two_def replayed_def lists_done_def)
qed

lemma replay_boots:
  assumes "part_one f i0"
  shows "boots f (\<lambda>i. replayed f i \<and> lists_done f i) (replay p i0)"
  unfolding replay_def
  apply (rule boots_bindE [OF boots_identities [OF assms]])
  apply (rule boots_bindE [OF boots_sessions], assumption)
  apply (rule boots_bindE [OF boots_load])
  apply (rule boots_bindE [OF boots_lift [where R = "\<lambda>m. replay_all replay_prekey _ _ = Inr m"]], assumption)
  apply (rule boots_bindE [OF boots_load])
  apply (rule boots_bindE [OF boots_lift [where R = "\<lambda>m. replay_all replay_signed_prekey _ _ = Inr m"]], assumption)
  apply (rule boots_bindE [OF boots_load])
  apply (rule boots_bindE [OF boots_lift [where R = "\<lambda>m. replay_all replay_sender_key _ _ = Inr m"]], assumption)
  apply (rule boots_bindE [OF boots_sync], rule lists_replayed, assumption+)
  apply (clarsimp split: prod.splits)
  apply (rule boots_bindE [OF boots_recorded], assumption)
  apply (clarsimp split: prod.splits)
  apply (rule boots_ret, rule settle_part_two, assumption)
  done

section \<open>\<open>open\<close>\<close>

lemma reset_pending_effect:
  assumes "reset_pending p f = (r, f')" and "slots_sound f"
  shows "boot_same f f'" and "r = Inr b \<Longrightarrow> b = reset_marked (content f)"
proof -
  obtain br g where rd: "on_driver (read_blob (nvs p) Control ''reset'' 1) f = (br, g)" by (rule prod.exhaust)
  have look: "br = Inr d \<Longrightarrow> d = fmlookup (content f Control) ''reset''" for d
    using on_read_ok(1) [of Control "''reset''" _ f d g] rd by simp
  have "f' = g" using assms(1) rd by (auto simp: reset_pending_def bindE_def split: sum.splits)
  then show "boot_same f f'" using on_read [OF rd] assms(2) by (simp add: boot_same_def)
  show "r = Inr b \<Longrightarrow> b = reset_marked (content f)"
    using assms(1) rd look by (auto simp: reset_pending_def bindE_def reset_marked_def split: sum.splits)
qed

lemma any_records_effect:
  assumes "any_records p xs f = (r, f')" and "slots_sound f"
  shows "boot_same f f' \<and> (r = Inr False \<longrightarrow> (\<forall>ns \<in> set xs. content f ns = fmempty))"
  using assms
proof (induction xs arbitrary: f)
  case Nil
  then show ?case by (auto simp: boot_same_def)
next
  case (Cons x xs)
  from Cons.prems(1) have "bindE (on_driver (record_names (nvs p) x)) (\<lambda>names.
      if names \<noteq> [] then retE True else any_records p xs) f = (r, f')" by simp
  then show ?case
  proof (cases rule: bindE_cases)
    case (err e)
    then show ?thesis using on_names [OF err(1)] Cons.prems(2) by (simp add: boot_same_def)
  next
    case (ok names g)
    note o = on_names [OF ok(1)] and ks = on_names_ok [OF ok(1)]
    have fg: "boot_same f g" using o Cons.prems(2) by (simp add: boot_same_def)
    show ?thesis
    proof (cases "names = []")
      case True
      then have "fmdom' (content f x) = {}" using ks by simp
      then have "content f x = fmempty" by (simp add: fmap_ext fmdom'_notD)
      then show ?thesis using Cons.IH [of g] ok(2) True fg boot_same_trans [OF fg]
        by (auto simp: boot_same_def)
    next
      case False
      then show ?thesis using ok(2) fg by auto
    qed
  qed
qed

lemma has_signal_effect:
  assumes "has_signal_records p f = (r, f')" and "slots_sound f"
  shows "boot_same f f'" and "r = Inr False \<Longrightarrow> ns \<in> fst ` set signal_namespaces \<Longrightarrow> content f ns = fmempty"
  using any_records_effect [OF assms [unfolded has_signal_records_def]] by (auto simp: signal_namespaces_def)

lemma store_ok_replayed:
  assumes "boot_same f g" and "replayed f i" and "lists_done f i"
  shows "store_ok {} \<lparr>inner = i, flash = g, accepting_writes = True, worker_alive = True\<rparr>"
  using assms boot_same_table [OF assms(1)] boot_sync_table [OF assms(1)]
  by (simp add: store_ok_unfold replayed_def lists_done_def plain.complete_def boot_same_def stored_device_def)

lemma part_one_default: "stored_device f = d \<Longrightarrow> part_one f (inner_default\<lparr>device := d\<rparr>)"
  by (simp add: part_one_def replayed_def no_lists_def inner_default_def lru.coherent_def lru_get_def lru_ok_def)

lemma replayed_empty:
  assumes "\<And>ns. ns \<in> fst ` set signal_namespaces \<Longrightarrow> content f ns = fmempty" and "stored_device f = None"
  shows "replayed f (inner_default\<lparr>device := None\<rparr>) \<and> lists_done f (inner_default\<lparr>device := None\<rparr>)"
  using assms part_one_default [of f None]
  by (auto simp: part_one_def lists_done_def inner_default_def table_def table_of_def signal_namespaces_def)

definition opened :: "'n flash_namespaces \<Rightarrow> ('d, 'k, 'h, 'l, 'v) store_inner \<Rightarrow> bool" where
  "opened g i \<longleftrightarrow>
     store_ok {} \<lparr>inner = i, flash = g, accepting_writes = True, worker_alive = True\<rparr> \<and>
     (device i = None \<longrightarrow> (\<forall>ns \<in> fst ` set signal_namespaces. content g ns = fmempty))"

lemma open_device_effect:
  assumes "bindE (map_errE StoreErr (load_device p)) (\<lambda>dev.
             let si = inner_default\<lparr>device := dev\<rparr> in
             if dev \<noteq> None then replay p si
             else
               bindE (map_errE StoreErr (has_signal_records p)) (\<lambda>orphans.
               bindE (if orphans then map_errE StoreErr (erase_signal p) else retE ()) (\<lambda>_.
               retE si))) f = (Inr i, g)" and sound: "slots_sound f"
  shows "opened g i \<and> (no_credentials (content f) \<longrightarrow> no_credentials (content g)) \<and>
         (reset_marked (content g) \<longleftrightarrow> reset_marked (content f))"
proof -
  from assms(1) obtain dev h where ld: "load_device p f = (Inr dev, h)" and rest:
    "(if dev \<noteq> None then replay p (inner_default\<lparr>device := dev\<rparr>)
      else bindE (map_errE StoreErr (has_signal_records p)) (\<lambda>orphans.
           bindE (if orphans then map_errE StoreErr (erase_signal p) else retE ()) (\<lambda>_.
           retE (inner_default\<lparr>device := dev\<rparr>)))) h = (Inr i, g)"
    by (auto simp: bindE_def map_errE_def Let_def split: prod.splits sum.splits)
  note d = load_device_effect [OF ld]
  have fh: "boot_same f h" using d sound by (simp add: boot_same_def)
  have dev: "stored_device h = dev" "stored_device f = dev"
    using d(1,3) by (simp_all add: stored_device_def)
  show ?thesis
  proof (cases dev)
    case (Some x)
    then have run: "replay p (inner_default\<lparr>device := dev\<rparr>) h = (Inr i, g)" using rest by simp
    have "boot_same h h" using boot_sound [OF fh] by (simp add: boot_same_def)
    from tripleD [OF replay_boots [OF part_one_default [OF dev(1)], unfolded boots_def] this run]
    have hg: "boot_same h g" and r: "replayed h i" "lists_done h i" by auto
    have "store_ok {} \<lparr>inner = i, flash = g, accepting_writes = True, worker_alive = True\<rparr>"
      by (rule store_ok_replayed [OF hg r])
    moreover have "device i \<noteq> None" using r(1) dev Some by (simp add: replayed_def)
    moreover have "content g = content f" using boot_same_trans [OF fh hg] by (simp add: boot_same_def)
    ultimately show ?thesis by (auto simp: opened_def)
  next
    case None
    with rest have "bindE (map_errE StoreErr (has_signal_records p)) (\<lambda>orphans.
        bindE (if orphans then map_errE StoreErr (erase_signal p) else retE ()) (\<lambda>_.
        retE (inner_default\<lparr>device := None\<rparr>))) h = (Inr i, g)" by simp
    then obtain orphans h1 where "map_errE StoreErr (has_signal_records p) h = (Inr orphans, h1)"
      and rest: "bindE (if orphans then map_errE StoreErr (erase_signal p) else retE ()) (\<lambda>_.
           retE (inner_default\<lparr>device := None\<rparr>)) h1 = (Inr i, g)" by (rule bindE_InrE)
    then have hs: "has_signal_records p h = (Inr orphans, h1)" by (auto elim: map_err_cases)
    note e = has_signal_effect [OF hs boot_sound [OF fh]]
    have h1: "boot_same f h1" by (rule boot_same_trans [OF fh e(1)])
    have i: "i = inner_default\<lparr>device := None\<rparr>" using rest by (auto simp: bindE_def split: prod.splits sum.splits)
    have out: "(\<forall>ns \<in> fst ` set signal_namespaces. content g ns = fmempty) \<and> slots_sound g \<and>
        content g Device = content f Device \<and>
        (\<forall>name. name \<noteq> ''latestsync'' \<longrightarrow> fmlookup (content g Control) name = fmlookup (content f Control) name) \<and>
        (fmlookup (content f Control) ''latestsync'' = None \<longrightarrow> fmlookup (content g Control) ''latestsync'' = None)"
    proof (cases orphans)
      case True
      then have er: "erase_signal p h1 = (Inr (), g)" using rest
        by (auto simp: bindE_def map_errE_def split: prod.splits sum.splits)
      note x = erase_signal_effect [OF er]
      show ?thesis using x h1 by (auto simp: boot_same_def)
    next
      case False
      then have "g = h1" using rest by simp
      then show ?thesis using h1 e(2) fh False by (auto simp: boot_same_def)
    qed
    have gd: "stored_device g = None" using out dev None by (simp add: stored_device_def)
    have gg: "boot_same g g" using out by (simp add: boot_same_def)
    have re: "replayed g i \<and> lists_done g i" unfolding i by (rule replayed_empty [OF _ gd]) (use out in blast)
    have "store_ok {} \<lparr>inner = i, flash = g, accepting_writes = True, worker_alive = True\<rparr>"
      by (rule store_ok_replayed [OF gg]) (use re in simp_all)
    then have "opened g i" using out by (simp add: opened_def)
    moreover have "reset_marked (content g) \<longleftrightarrow> reset_marked (content f)" using out by (simp add: reset_marked_def)
    moreover have "no_credentials (content f) \<longrightarrow> no_credentials (content g)" using out by (simp add: no_credentials_def)
    ultimately show ?thesis by simp
  qed
qed

lemma open_store_effect:
  assumes "open_store p init n = (Inr s, g)"
  shows "init = None" and "s = \<lparr>inner = inner s, flash = g, accepting_writes = True, worker_alive = True\<rparr>"
    and "opened g (inner s)" and "\<not> reset_marked (content g)"
    and "reset_marked (blobs n) \<Longrightarrow> no_credentials (content g)"
proof -
  let ?f = "\<lparr>driver = n, validated_sessions = slots_default\<rparr>"
  let ?dev = "bindE (map_errE StoreErr (load_device p)) (\<lambda>dev.
             let si = inner_default\<lparr>device := dev\<rparr> in
             if dev \<noteq> None then replay p si
             else
               bindE (map_errE StoreErr (has_signal_records p)) (\<lambda>orphans.
               bindE (if orphans then map_errE StoreErr (erase_signal p) else retE ()) (\<lambda>_.
               retE si)))"
  have sound: "slots_sound ?f"
    by (simp add: slots_sound_def slots.sound_for_def slots_default_def slots_stored_def slots_ok_def)
  show init: "init = None" using assms by (auto simp: open_store_def Let_def split: option.splits)
  then have "(case bindE (map_errE StoreErr (reset_pending p)) (\<lambda>pending.
      bindE (if pending then map_errE StoreErr (complete_reset p) else retE ()) (\<lambda>_. ?dev)) ?f of
      (Inl e, f) \<Rightarrow> (Inl e, f)
    | (Inr si, f) \<Rightarrow> (Inr \<lparr>inner = si, flash = f, accepting_writes = True, worker_alive = True\<rparr>, f)) = (Inr s, g)"
    using assms by (simp add: open_store_def Let_def)
  then obtain i where i: "bindE (map_errE StoreErr (reset_pending p)) (\<lambda>pending.
      bindE (if pending then map_errE StoreErr (complete_reset p) else retE ()) (\<lambda>_. ?dev)) ?f = (Inr i, g)"
    and s: "s = \<lparr>inner = i, flash = g, accepting_writes = True, worker_alive = True\<rparr>"
    by (auto split: prod.splits sum.splits)
  show "s = \<lparr>inner = inner s, flash = g, accepting_writes = True, worker_alive = True\<rparr>" by (simp add: s)
  from i obtain b h1 where "map_errE StoreErr (reset_pending p) ?f = (Inr b, h1)"
    and 2: "bindE (if b then map_errE StoreErr (complete_reset p) else retE ()) (\<lambda>_. ?dev) h1 = (Inr i, g)"
    by (rule bindE_InrE)
  then have 1: "reset_pending p ?f = (Inr b, h1)" by (auto elim: map_err_cases)
  from 2 obtain u h2 where 3: "(if b then map_errE StoreErr (complete_reset p) else retE ()) h1 = (Inr u, h2)"
    and 4: "?dev h2 = (Inr i, g)" by (rule bindE_InrE)
  note q = reset_pending_effect [OF 1 sound]
  have b: "b = reset_marked (blobs n)" using q(2) by (simp add: content_def)
  have h2: "slots_sound h2 \<and> \<not> reset_marked (content h2) \<and> (b \<longrightarrow> no_credentials (content h2))"
  proof (cases b)
    case True
    then have "complete_reset p h1 = (Inr (), h2)" using 3 by (auto elim: map_err_cases)
    from complete_reset_effect [OF this boot_sound [OF q(1)]] show ?thesis by simp
  next
    case False
    then have "h2 = h1" using 3 by simp
    then show ?thesis using q(1) b False by (simp add: boot_same_def content_def)
  qed
  have o: "opened g i \<and> (no_credentials (content h2) \<longrightarrow> no_credentials (content g)) \<and>
         (reset_marked (content g) \<longleftrightarrow> reset_marked (content h2))"
    by (rule open_device_effect [OF 4]) (use h2 in simp)
  show "opened g (inner s)" using o by (simp add: s)
  show "\<not> reset_marked (content g)" using o h2 by simp
  show "no_credentials (content g)" if "reset_marked (blobs n)" using o h2 b that by simp
qed

end


text \<open>A flash whose reset was cut short: the marker, a session and the device are still there.\<close>

definition marked_flash :: sim where
  "marked_flash =
     \<lparr>sim_data = [(Control, [(''reset'', as_bytes ''1'')]),
                  (Sessions, [(''a4aaaaaaaaaaaaa'', record_layout [7] [1, 2, 3])]),
                  (Device, [(''current'', record_layout (as_bytes ''device'') [9])])],
      sim_faults = [], sim_heap = 131072\<rparr>"


end
