(* ===== verification/Rust_Str.thy ===== *)
theory Rust_Str
  imports Esp_Prelude
begin

text \<open>
  The string functions of the Rust standard library that the HTTP and WebSocket code uses:
  searching and splitting, \<open>lines\<close>, \<open>trim\<close> and \<open>split_whitespace\<close> with Unicode white space,
  comparison without ASCII case, number parsing, and \<open>String::from_utf8_lossy\<close>.
\<close>

section \<open>Searching\<close>

text \<open>\<open>str::find\<close> of a character, and \<open>windows(n).position(..)\<close> of a byte pattern.\<close>

fun find_char :: "char \<Rightarrow> str \<Rightarrow> nat option" where
  "find_char c [] = None"
| "find_char c (d # s) = (if d = c then Some 0 else map_option Suc (find_char c s))"

fun find_sub :: "'a list \<Rightarrow> 'a list \<Rightarrow> nat option" where
  "find_sub p [] = (if p = [] then Some 0 else None)"
| "find_sub p (b # bs) =
     (if take (length p) (b # bs) = p then Some 0 else map_option Suc (find_sub p bs))"

lemma find_char_Some: "find_char c s = Some i \<Longrightarrow> i < length s \<and> s ! i = c \<and> c \<notin> set (take i s)"
  by (induction s arbitrary: i) (auto split: if_splits)

lemma find_char_None: "find_char c s = None \<longleftrightarrow> c \<notin> set s"
  by (induction s) auto

lemma find_char_append: "c \<notin> set s \<Longrightarrow> find_char c (s @ c # t) = Some (length s)"
  by (induction s) auto

lemma find_sub_Some:
  "find_sub p s = Some i \<Longrightarrow> i + length p \<le> length s \<and> take (length p) (drop i s) = p"
proof (induction s arbitrary: i)
  case (Cons b s)
  show ?case
  proof (cases "take (length p) (b # s) = p")
    case True
    then have "length p \<le> length (b # s)" by (metis length_take min_def nat_le_linear)
    then show ?thesis using Cons.prems True by simp
  next
    case False
    then show ?thesis using Cons by (auto split: if_splits)
  qed
qed (auto split: if_splits)

lemma find_sub_le: "take (length p) (drop i s) = p \<Longrightarrow> i + length p \<le> length s \<Longrightarrow> \<exists>j \<le> i. find_sub p s = Some j"
proof (induction s arbitrary: i)
  case (Cons b s)
  then show ?case by (cases i) fastforce+
qed simp

text \<open>\<open>str::split_once\<close> of a character.\<close>

definition split_once :: "char \<Rightarrow> str \<Rightarrow> (str \<times> str) option" where
  "split_once c s = map_option (\<lambda>i. (take i s, drop (Suc i) s)) (find_char c s)"

lemma split_once_append: "c \<notin> set s \<Longrightarrow> split_once c (s @ c # t) = Some (s, t)"
  by (simp add: split_once_def find_char_append)

text \<open>\<open>str::split\<close> of a character.\<close>

fun split_char :: "char \<Rightarrow> str \<Rightarrow> str list" where
  "split_char c [] = [[]]"
| "split_char c (d # s) =
     (if d = c then [] # split_char c s
      else case split_char c s of [] \<Rightarrow> [[d]] | x # xs \<Rightarrow> (d # x) # xs)"

text \<open>\<open>str::split("\r\n")\<close>.\<close>

abbreviation CR :: char where "CR \<equiv> CHR 0x0D"
abbreviation LF :: char where "LF \<equiv> CHR 0x0A"

fun split_crlf :: "str \<Rightarrow> str list" where
  "split_crlf [] = [[]]"
| "split_crlf [c] = [[c]]"
| "split_crlf (c # d # s) =
     (if c = CR \<and> d = LF then [] # split_crlf s
      else case split_crlf (d # s) of [] \<Rightarrow> [[c]] | x # xs \<Rightarrow> (c # x) # xs)"

lemma split_crlf_nonempty [simp]: "split_crlf s \<noteq> []"
  by (induction s rule: split_crlf.induct) (auto split: list.splits)

lemma split_crlf_line:
  "CR \<notin> set l \<Longrightarrow> split_crlf (l @ CR # LF # s) = l # split_crlf s"
proof (induction l)
  case (Cons c l)
  then show ?case by (cases l) auto
qed simp

text \<open>
  \<open>str::lines\<close>: split at newlines and drop an empty last piece; a carriage return before a
  newline belongs to the line ending.
\<close>

definition strip_cr :: "str \<Rightarrow> str" where
  "strip_cr l = (if l \<noteq> [] \<and> last l = CR then butlast l else l)"

definition str_lines :: "str \<Rightarrow> str list" where
  "str_lines s =
     (let ls = split_char LF s
      in map strip_cr (butlast ls) @ (if last ls = [] then [] else [last ls]))"

text \<open>\<open>str::is_char_boundary\<close>: the start, the end, or a byte that starts a character.\<close>

definition is_char_boundary :: "str \<Rightarrow> nat \<Rightarrow> bool" where
  "is_char_boundary s i \<longleftrightarrow>
     i = 0 \<or> i = length s \<or> (i < length s \<and> \<not> cont_byte (byte_of_char (s ! i)))"

text \<open>\<open>str::get(..n)\<close>.\<close>

definition get_to :: "nat \<Rightarrow> str \<Rightarrow> str option" where
  "get_to n s = (if n \<le> length s \<and> is_char_boundary s n then Some (take n s) else None)"

section \<open>White space\<close>

text \<open>The characters of \<open>char::is_whitespace\<close>, in UTF-8.\<close>

definition white_space :: "str list" where
  "white_space =
     [[CHR 0x09], [CHR 0x0A], [CHR 0x0B],
      [CHR 0x0C], [CHR 0x0D], [CHR 0x20],
      [CHR 0xC2, CHR 0x85], [CHR 0xC2, CHR 0xA0], [CHR 0xE1, CHR 0x9A, CHR 0x80],
      [CHR 0xE2, CHR 0x80, CHR 0x80], [CHR 0xE2, CHR 0x80, CHR 0x81], [CHR 0xE2, CHR 0x80, CHR 0x82],
      [CHR 0xE2, CHR 0x80, CHR 0x83], [CHR 0xE2, CHR 0x80, CHR 0x84], [CHR 0xE2, CHR 0x80, CHR 0x85],
      [CHR 0xE2, CHR 0x80, CHR 0x86], [CHR 0xE2, CHR 0x80, CHR 0x87], [CHR 0xE2, CHR 0x80, CHR 0x88],
      [CHR 0xE2, CHR 0x80, CHR 0x89], [CHR 0xE2, CHR 0x80, CHR 0x8A], [CHR 0xE2, CHR 0x80, CHR 0xA8],
      [CHR 0xE2, CHR 0x80, CHR 0xA9], [CHR 0xE2, CHR 0x80, CHR 0xAF], [CHR 0xE2, CHR 0x81, CHR 0x9F],
      [CHR 0xE3, CHR 0x80, CHR 0x80]]"

text \<open>The length of the white-space character a text starts with, if it does.\<close>

definition leading_space :: "str \<Rightarrow> nat option" where
  "leading_space s =
     map_option length (find (\<lambda>w. take (length w) s = w) white_space)"

lemma find_SomeD: "find P xs = Some x \<Longrightarrow> x \<in> set xs \<and> P x"
  by (auto simp: find_Some_iff)

lemma leading_space_pos: "leading_space s = Some n \<Longrightarrow> 0 < n \<and> n \<le> length s"
proof -
  assume "leading_space s = Some n"
  then obtain w where "w \<in> set white_space" "take (length w) s = w" "n = length w"
    by (auto simp: leading_space_def dest!: find_SomeD)
  moreover have "[] \<notin> set white_space" by (simp add: white_space_def)
  ultimately show ?thesis by (metis length_greater_0_conv length_take min.cobounded1)
qed

function trim_start :: "str \<Rightarrow> str" where
  "trim_start s = (case leading_space s of None \<Rightarrow> s | Some n \<Rightarrow> trim_start (drop n s))"
  by pat_completeness auto
termination by (relation "measure length") (auto dest: leading_space_pos)

declare trim_start.simps [simp del]

text \<open>A text is valid UTF-8, so a suffix that is a character's encoding is that character.\<close>

definition trailing_space :: "str \<Rightarrow> nat option" where
  "trailing_space s =
     map_option length (find (\<lambda>w. length w \<le> length s \<and> drop (length s - length w) s = w) white_space)"

lemma trailing_space_pos: "trailing_space s = Some n \<Longrightarrow> 0 < n \<and> n \<le> length s"
proof -
  assume "trailing_space s = Some n"
  then obtain w where "w \<in> set white_space" "length w \<le> length s" "n = length w"
    by (auto simp: trailing_space_def dest!: find_SomeD)
  moreover have "[] \<notin> set white_space" by (simp add: white_space_def)
  ultimately show ?thesis by auto
qed

function trim_end :: "str \<Rightarrow> str" where
  "trim_end s = (case trailing_space s of None \<Rightarrow> s | Some n \<Rightarrow> trim_end (take (length s - n) s))"
  by pat_completeness auto
termination by (relation "measure length") (auto dest: trailing_space_pos)

declare trim_end.simps [simp del]

definition trim :: "str \<Rightarrow> str" where
  "trim s = trim_end (trim_start s)"

text \<open>\<open>split_whitespace\<close>: the non-empty pieces between white space.\<close>

function split_ws :: "str \<Rightarrow> str \<Rightarrow> str list" where
  "split_ws word s =
     (case leading_space s of
        Some n \<Rightarrow> (if word = [] then [] else [word]) @ split_ws [] (drop n s)
      | None \<Rightarrow>
          (case s of [] \<Rightarrow> (if word = [] then [] else [word]) | c # r \<Rightarrow> split_ws (word @ [c]) r))"
  by pat_completeness auto
termination by (relation "measure (\<lambda>(_, s). length s)") (auto dest: leading_space_pos)

declare split_ws.simps [simp del]

definition split_whitespace :: "str \<Rightarrow> str list" where
  "split_whitespace s = split_ws [] s"

section \<open>Case and numbers\<close>

definition ascii_lower :: "char \<Rightarrow> char" where
  "ascii_lower c =
     (let n = of_char c :: nat in if 65 \<le> n \<and> n \<le> 90 then char_of (n + 32) else c)"

definition eq_ignore_ascii_case :: "str \<Rightarrow> str \<Rightarrow> bool" where
  "eq_ignore_ascii_case a b \<longleftrightarrow> map ascii_lower a = map ascii_lower b"

definition digit_val :: "char \<Rightarrow> nat option" where
  "digit_val c = (let n = of_char c :: nat in if 48 \<le> n \<and> n \<le> 57 then Some (n - 48) else None)"

text \<open>\<open>is_ascii_hexdigit\<close> and the value of a digit in base 16.\<close>

definition hex_val :: "char \<Rightarrow> nat option" where
  "hex_val c =
     (let n = of_char c :: nat in
      if 48 \<le> n \<and> n \<le> 57 then Some (n - 48)
      else if 65 \<le> n \<and> n \<le> 70 then Some (n - 55)
      else if 97 \<le> n \<and> n \<le> 102 then Some (n - 87)
      else None)"

text \<open>Digits from the left, with the overflow check at every digit.\<close>

fun parse_digits :: "(char \<Rightarrow> nat option) \<Rightarrow> nat \<Rightarrow> nat \<Rightarrow> nat \<Rightarrow> str \<Rightarrow> nat option" where
  "parse_digits val base limit acc [] = Some acc"
| "parse_digits val base limit acc (c # s) =
     (case val c of
        None \<Rightarrow> None
      | Some d \<Rightarrow> if acc * base + d < limit then parse_digits val base limit (acc * base + d) s else None)"

text \<open>\<open>parse::<u16>\<close>, \<open>parse::<u64>\<close>: an optional plus sign, then at least one digit.\<close>

definition parse_uint :: "nat \<Rightarrow> str \<Rightarrow> nat option" where
  "parse_uint limit s =
     (case s of
        [] \<Rightarrow> None
      | c # r \<Rightarrow>
          if c = CHR ''+'' then (if r = [] then None else parse_digits digit_val 10 limit 0 r)
          else parse_digits digit_val 10 limit 0 s)"

text \<open>\<open>Display\<close> of an unsigned integer.\<close>

fun show_nat :: "nat \<Rightarrow> str" where
  "show_nat n = (if n < 10 then [char_of (48 + n)] else show_nat (n div 10) @ [char_of (48 + n mod 10)])"

declare show_nat.simps [simp del]

text \<open>Digits print and parse back.\<close>

lemma parse_digits_append:
  "parse_digits val base limit acc (s @ t) =
     Option.bind (parse_digits val base limit acc s) (\<lambda>a. parse_digits val base limit a t)"
  by (induction s arbitrary: acc) (auto split: option.splits)

definition is_digit :: "char \<Rightarrow> bool" where
  "is_digit c \<longleftrightarrow> digit_val c \<noteq> None"

lemma digit_val_char: "d < 10 \<Longrightarrow> digit_val (char_of (48 + d)) = Some d"
  by (simp add: digit_val_def)

lemma parse_show_digits: "n < limit \<Longrightarrow> parse_digits digit_val 10 limit 0 (show_nat n) = Some n"
proof (induction n rule: show_nat.induct)
  case (1 n)
  show ?case
  proof (cases "n < 10")
    case True
    then show ?thesis using 1 by (subst show_nat.simps) (simp add: digit_val_char)
  next
    case False
    then show ?thesis using 1 by (subst show_nat.simps) (simp add: parse_digits_append digit_val_char)
  qed
qed

lemma show_nat_digits: "list_all is_digit (show_nat n)"
  by (induction n rule: show_nat.induct)
    (subst show_nat.simps, auto simp: is_digit_def [abs_def] digit_val_char)

lemma show_nat_nonempty: "show_nat n \<noteq> []"
  by (subst show_nat.simps) simp

lemma not_digits: "\<not> is_digit CHR ''+''" "\<not> is_digit CHR '':''" "\<not> is_digit CHR ''/''" "\<not> is_digit CR"
    "\<not> is_digit LF"
  by (simp_all add: is_digit_def digit_val_def)

lemma not_in_show_nat: "\<not> is_digit c \<Longrightarrow> c \<notin> set (show_nat n)"
  using show_nat_digits [of n] by (auto simp: list_all_iff)

lemma parse_show_nat: "n < limit \<Longrightarrow> parse_uint limit (show_nat n) = Some n"
  using parse_show_digits [of n limit] not_in_show_nat [OF not_digits(1), of n] show_nat_nonempty [of n]
  by (auto simp: parse_uint_def split: list.splits)

section \<open>\<open>String::from_utf8_lossy\<close>\<close>

text \<open>
  The first character of a byte string, if it is one, and otherwise the length of the
  maximal invalid prefix that is replaced by U+FFFD.
\<close>

definition utf8_step :: "bytes \<Rightarrow> bool \<times> nat" where
  "utf8_step bs =
     (let b = bs ! 0;
          ok = (\<lambda>i lo hi. i < length bs \<and> in_range lo hi (bs ! i)) in
      if unat b < 0x80 then (True, 1)
      else if in_range 0xC2 0xDF b then (if ok 1 0x80 0xBF then (True, 2) else (False, 1))
      else if in_range 0xE0 0xEF b then
        (if \<not> ok 1 (if unat b = 0xE0 then 0xA0 else 0x80) (if unat b = 0xED then 0x9F else 0xBF) then (False, 1)
         else if \<not> ok 2 0x80 0xBF then (False, 2) else (True, 3))
      else if in_range 0xF0 0xF4 b then
        (if \<not> ok 1 (if unat b = 0xF0 then 0x90 else 0x80) (if unat b = 0xF4 then 0x8F else 0xBF) then (False, 1)
         else if \<not> ok 2 0x80 0xBF then (False, 2)
         else if \<not> ok 3 0x80 0xBF then (False, 3) else (True, 4))
      else (False, 1))"

lemma utf8_step_pos: "0 < snd (utf8_step bs)"
  by (simp add: utf8_step_def Let_def)

lemma utf8_step_shrinks: "bs \<noteq> [] \<Longrightarrow> (ok, n) = utf8_step bs \<Longrightarrow> length bs - n < length bs"
  using utf8_step_pos [of bs] by (cases "utf8_step bs") auto

function utf8_lossy :: "bytes \<Rightarrow> bytes" where
  "utf8_lossy bs =
     (if bs = [] then []
      else case utf8_step bs of
             (True, n) \<Rightarrow> take n bs @ utf8_lossy (drop n bs)
           | (False, n) \<Rightarrow> [0xEF, 0xBF, 0xBD] @ utf8_lossy (drop n bs))"
  by pat_completeness auto
termination
  by (relation "measure length") (auto intro: utf8_step_shrinks)

declare utf8_lossy.simps [simp del]

definition from_utf8_lossy :: "bytes \<Rightarrow> str" where
  "from_utf8_lossy bs = str_of_bytes (utf8_lossy bs)"

end
