(* ===== verification/Device_Status.thy ===== *)
theory Device_Status
  imports Rust_Str
begin

text \<open>
  \<open>DeviceStatus\<close> of \<open>src/supervisor.rs\<close> and the message log of
  \<open>src/supervisor/message_log.rs\<close>: what the dashboard shows, the phone-number pairing
  attempt, and the bounded log of inbound messages. Each method takes the status lock once,
  so each is one step on the state; \<open>Instant::now()\<close> is an argument, in nanoseconds.
  \<open>serde_json\<close> is not part of the repository: the code builds JSON values, and the
  function that prints one is an argument.
\<close>

section \<open>State\<close>

text \<open>\<open>timestamp\<close> is an \<open>i64\<close>.\<close>

record message_log_entry =
  entry_id :: str
  entry_chat :: str
  entry_sender :: str
  entry_text :: "str option"
  entry_timestamp :: "64 word"
  from_me :: bool

datatype pair_code_state =
    Pair_Idle
  | Pair_Pending (pending_request: u32)
  | Pair_Ready (ready_code: str) (expires_at: nat)
  | Pair_Error (error_message: str)

record device_status =
  qr_code :: "str option"
  connected :: bool
  account_pn :: "str option"
  account_lid :: "str option"
  pair_code :: pair_code_state
  next_pair_code_request :: u32
  messages :: "message_log_entry list"

definition MAX_LOGGED_TEXT_BYTES :: nat where "MAX_LOGGED_TEXT_BYTES = 256"
definition MESSAGE_LOG_CAPACITY :: nat where "MESSAGE_LOG_CAPACITY = 16"

definition status_new :: device_status where
  "status_new = \<lparr>qr_code = None, connected = False, account_pn = None, account_lid = None,
     pair_code = Pair_Idle, next_pair_code_request = 1, messages = []\<rparr>"

section \<open>Connection\<close>

definition set_qr_code :: "str \<Rightarrow> device_status \<Rightarrow> device_status" where
  "set_qr_code code s = s\<lparr>qr_code := Some code, connected := False\<rparr>"

definition clear_qr_code :: "device_status \<Rightarrow> device_status" where
  "clear_qr_code s = s\<lparr>qr_code := None\<rparr>"

definition set_connected :: "str option \<Rightarrow> str option \<Rightarrow> device_status \<Rightarrow> device_status" where
  "set_connected pn lid s =
     s\<lparr>qr_code := None, connected := True, account_pn := pn, account_lid := lid, pair_code := Pair_Idle\<rparr>"

definition set_disconnected :: "device_status \<Rightarrow> device_status" where
  "set_disconnected s = s\<lparr>connected := False\<rparr>"

definition set_logged_out :: "device_status \<Rightarrow> device_status" where
  "set_logged_out s = s\<lparr>connected := False, account_pn := None, account_lid := None, messages := []\<rparr>"

section \<open>Phone-number pairing\<close>

datatype pair_code_refusal = Code_Being_Generated | Code_Already_Active

definition begin_pair_code ::
  "nat \<Rightarrow> device_status \<Rightarrow> (pair_code_refusal + u32) \<times> device_status" where
  "begin_pair_code now s =
     (let admit = (let request_id = next_pair_code_request s in
           (Inr request_id,
            s\<lparr>next_pair_code_request := next_pair_code_request s + 1,
              pair_code := Pair_Pending request_id\<rparr>))
      in case pair_code s of
           Pair_Pending _ \<Rightarrow> (Inl Code_Being_Generated, s)
         | Pair_Ready _ expires \<Rightarrow>
             if expires > now then (Inl Code_Already_Active, s) else admit
         | _ \<Rightarrow> admit)"

definition pair_code_request_is :: "pair_code_state \<Rightarrow> u32 \<Rightarrow> bool" where
  "pair_code_request_is st wanted =
     (case st of Pair_Pending request_id \<Rightarrow> request_id = wanted | _ \<Rightarrow> False)"

definition complete_pair_code ::
  "nat \<Rightarrow> u32 \<Rightarrow> str \<Rightarrow> nat \<Rightarrow> device_status \<Rightarrow> device_status" where
  "complete_pair_code now request_id code valid_for s =
     (if pair_code_request_is (pair_code s) request_id
      then s\<lparr>pair_code := Pair_Ready code (now + valid_for)\<rparr> else s)"

definition fail_pair_code :: "u32 \<Rightarrow> str \<Rightarrow> device_status \<Rightarrow> device_status" where
  "fail_pair_code request_id message s =
     (if pair_code_request_is (pair_code s) request_id
      then s\<lparr>pair_code := Pair_Error message\<rparr> else s)"

section \<open>The message log\<close>

text \<open>\<open>'\<dots>'\<close>, the three bytes of U+2026.\<close>

definition ELLIPSIS :: str where
  "ELLIPSIS = str_of_bytes [0xE2, 0x80, 0xA6]"

definition truncate_text :: "str \<Rightarrow> str" where
  "truncate_text text =
     (if length text > MAX_LOGGED_TEXT_BYTES then
        let budget = MAX_LOGGED_TEXT_BYTES - length ELLIPSIS;
            end_at = (case find (is_char_boundary text) (rev [0..<Suc budget]) of
                        Some i \<Rightarrow> i | None \<Rightarrow> 0)
        in take end_at text @ ELLIPSIS
      else text)"

definition record_message :: "message_log_entry \<Rightarrow> device_status \<Rightarrow> device_status" where
  "record_message entry s =
     (let entry' = entry\<lparr>entry_text := map_option truncate_text (entry_text entry)\<rparr>;
          kept = (if length (messages s) = MESSAGE_LOG_CAPACITY then tl (messages s) else messages s)
      in s\<lparr>messages := kept @ [entry']\<rparr>)"

section \<open>What the dashboard sees\<close>

datatype json =
    JNull
  | JBool bool
  | JNum int
  | JStr str
  | JArr "json list"
  | JObj "(str \<times> json) list"

definition json_opt :: "str option \<Rightarrow> json" where
  "json_opt x = (case x of None \<Rightarrow> JNull | Some t \<Rightarrow> JStr t)"

text \<open>\<open>as_secs\<close> of the time a linking code has left.\<close>

definition pair_code_json :: "nat \<Rightarrow> pair_code_state \<Rightarrow> json" where
  "pair_code_json now st =
     (case st of
        Pair_Idle \<Rightarrow> JObj [(''state'', JStr ''idle'')]
      | Pair_Pending _ \<Rightarrow> JObj [(''state'', JStr ''pending'')]
      | Pair_Ready code expires \<Rightarrow>
          (let remaining = expires - now in
           if remaining = 0 then JObj [(''state'', JStr ''expired'')]
           else JObj [(''state'', JStr ''ready''), (''code'', JStr code),
                      (''expires_in_seconds'', JNum (int (remaining div 10 ^ 9)))])
      | Pair_Error message \<Rightarrow> JObj [(''state'', JStr ''error''), (''message'', JStr message)])"

definition to_json_authenticated ::
  "(json \<Rightarrow> str) \<Rightarrow> nat \<Rightarrow> bool \<Rightarrow> device_status \<Rightarrow> str" where
  "to_json_authenticated print_json now authenticated s =
     print_json (JObj
       [(''qr_code'', if authenticated then json_opt (qr_code s) else JNull),
        (''connected'', JBool (connected s)),
        (''pn'', if authenticated then json_opt (account_pn s) else JNull),
        (''lid'', if authenticated then json_opt (account_lid s) else JNull),
        (''pair_code'', if \<not> authenticated then JObj [(''state'', JStr ''redacted'')]
                        else pair_code_json now (pair_code s))])"

definition entry_json :: "message_log_entry \<Rightarrow> json" where
  "entry_json e = JObj
     [(''id'', JStr (entry_id e)), (''chat'', JStr (entry_chat e)), (''sender'', JStr (entry_sender e)),
      (''text'', json_opt (entry_text e)), (''timestamp'', JNum (sint (entry_timestamp e))),
      (''from_me'', JBool (from_me e))]"

definition messages_json :: "(json \<Rightarrow> str) \<Rightarrow> device_status \<Rightarrow> str" where
  "messages_json print_json s =
     print_json (JObj [(''count'', JNum (int (length (messages s)))),
                       (''messages'', JArr (map entry_json (messages s)))])"

section \<open>Truncation\<close>

text \<open>One encoded character: a lead byte and its continuation bytes.\<close>

definition utf8_char :: "bytes \<Rightarrow> bool" where
  "utf8_char c \<longleftrightarrow>
     c \<noteq> [] \<and> length c \<le> 4 \<and> \<not> cont_byte (hd c) \<and> (\<forall>x \<in> set (tl c). cont_byte x) \<and>
     (\<forall>r. utf8_valid (c @ r) = utf8_valid r)"

lemma utf8_char_cases:
  assumes "utf8_valid (b # bs)"
  obtains c r where "b # bs = c @ r" and "utf8_char c" and "utf8_valid r"
proof -
  consider (one) "unat b < 0x80" "utf8_valid bs"
    | (two) c1 r where "\<not> unat b < 0x80" "in_range 0xC2 0xDF b" "bs = c1 # r" "cont_byte c1" "utf8_valid r"
    | (three) c1 c2 r where "\<not> unat b < 0x80" "\<not> in_range 0xC2 0xDF b" "in_range 0xE0 0xEF b"
        "bs = c1 # c2 # r"
        "in_range (if unat b = 0xE0 then 0xA0 else 0x80) (if unat b = 0xED then 0x9F else 0xBF) c1"
        "cont_byte c2" "utf8_valid r"
    | (four) c1 c2 c3 r where "\<not> unat b < 0x80" "\<not> in_range 0xC2 0xDF b" "\<not> in_range 0xE0 0xEF b"
        "in_range 0xF0 0xF4 b" "bs = c1 # c2 # c3 # r"
        "in_range (if unat b = 0xF0 then 0x90 else 0x80) (if unat b = 0xF4 then 0x8F else 0xBF) c1"
        "cont_byte c2" "cont_byte c3" "utf8_valid r"
    using assms by (auto split: if_splits list.splits)
  then show thesis
  proof cases
    case one
    then have "utf8_char [b]" by (simp add: utf8_char_def in_range_def)
    then show thesis using that [of "[b]" bs] one(2) by simp
  next
    case two
    then have "utf8_char [b, c1]" by (auto simp: utf8_char_def in_range_def)
    then show thesis using that [of "[b, c1]" r] two(3,5) by simp
  next
    case three
    then have "utf8_char [b, c1, c2]" by (auto simp: utf8_char_def in_range_def split: if_splits)
    then show thesis using that [of "[b, c1, c2]" r] three(4,7) by simp
  next
    case four
    then have "utf8_char [b, c1, c2, c3]" by (auto simp: utf8_char_def in_range_def split: if_splits)
    then show thesis using that [of "[b, c1, c2, c3]" r] four(5,9) by simp
  qed
qed

lemma utf8_induct [consumes 1, case_names nil char]:
  assumes "utf8_valid bs" and "P []"
    and "\<And>c r. utf8_char c \<Longrightarrow> utf8_valid r \<Longrightarrow> P r \<Longrightarrow> P (c @ r)"
  shows "P bs"
  using assms(1)
proof (induction bs rule: length_induct)
  case (1 bs)
  show ?case
  proof (cases bs)
    case Nil
    then show ?thesis using assms(2) by simp
  next
    case (Cons b bs')
    obtain c r where c: "bs = c @ r" "utf8_char c" "utf8_valid r"
      using utf8_char_cases "1.prems" Cons by metis
    then have "P r" using "1.IH" by (auto simp: utf8_char_def)
    then show ?thesis using assms(3) [OF c(2,3)] c(1) by simp
  qed
qed

text \<open>A cut at \<open>n\<close> splits no character.\<close>

definition stop_at :: "bytes \<Rightarrow> nat \<Rightarrow> bool" where
  "stop_at bs n \<longleftrightarrow> n = 0 \<or> n = length bs \<or> (n < length bs \<and> \<not> cont_byte (bs ! n))"

lemma stop_at_char:
  assumes "utf8_char c" and "stop_at (c @ r) n"
  shows "n = 0 \<or> (length c \<le> n \<and> stop_at r (n - length c))"
proof (rule ccontr)
  assume *: "\<not> ?thesis"
  then have n: "0 < n" by simp
  show False
  proof (cases "length c \<le> n")
    case True
    then show False using * assms(2) by (auto simp: stop_at_def nth_append)
  next
    case False
    then have "(c @ r) ! n = tl c ! (n - 1)" "n - 1 < length (tl c)"
      using n by (auto simp: nth_append nth_tl)
    then have "cont_byte ((c @ r) ! n)" using assms(1) nth_mem by (auto simp: utf8_char_def)
    then show False using False n assms(2) by (auto simp: stop_at_def)
  qed
qed

lemma utf8_valid_take: "utf8_valid bs \<Longrightarrow> stop_at bs n \<Longrightarrow> utf8_valid (take n bs)"
proof (induction bs arbitrary: n rule: utf8_induct)
  case nil
  then show ?case by simp
next
  case (char c r)
  from stop_at_char [OF char.hyps(1) char.prems] show ?case
    using char.IH char.hyps by (auto simp: utf8_char_def)
qed

text \<open>From any position, a boundary is at most three bytes back.\<close>

lemma stop_near: "utf8_valid bs \<Longrightarrow> n \<le> length bs \<Longrightarrow> \<exists>i. stop_at bs i \<and> i \<le> n \<and> n \<le> i + 3"
proof (induction bs arbitrary: n rule: utf8_induct)
  case nil
  then show ?case by (auto simp: stop_at_def)
next
  case (char c r)
  show ?case
  proof (cases "n < length c")
    case True
    then have "stop_at (c @ r) 0" "n \<le> 0 + 3" using char.hyps(1) by (auto simp: stop_at_def utf8_char_def)
    then show ?thesis by blast
  next
    case False
    then have "n - length c \<le> length r" using char.prems by simp
    from char.IH [OF this] obtain i where i: "stop_at r i" "i \<le> n - length c" "n - length c \<le> i + 3"
      by blast
    have "stop_at (c @ r) (length c + i)"
    proof (cases "i = 0 \<and> r \<noteq> []")
      case True
      then have "\<not> cont_byte (hd r)"
        using utf8_char_cases [of "hd r" "tl r"] char.hyps(2)
        by (metis hd_append list.collapse utf8_char_def)
      then show ?thesis using True by (auto simp: stop_at_def nth_append hd_conv_nth)
    next
      case False
      then show ?thesis using i(1) by (auto simp: stop_at_def nth_append)
    qed
    then show ?thesis using i(2,3) False by (intro exI [of _ "length c + i"]) auto
  qed
qed

lemma utf8_valid_append: "utf8_valid xs \<Longrightarrow> utf8_valid ys \<Longrightarrow> utf8_valid (xs @ ys)"
  by (induction xs rule: utf8_induct) (auto simp: utf8_char_def)

lemma length_ELLIPSIS [simp]: "length ELLIPSIS = 3"
  by (simp add: ELLIPSIS_def str_of_bytes_def)

lemma valid_ELLIPSIS: "valid_str ELLIPSIS"
  by (simp add: valid_str_def ELLIPSIS_def as_bytes_str_of_bytes in_range_def)

lemma take_as_bytes: "as_bytes (take n s) = take n (as_bytes s)"
  by (simp add: as_bytes_def take_map)

lemma boundary_stop_at: "is_char_boundary s n \<longleftrightarrow> stop_at (as_bytes s) n"
  by (auto simp: is_char_boundary_def stop_at_def as_bytes_def)

lemma find_rev_upt:
  assumes "find P (rev [0..<n]) = Some i"
  shows "P i" and "i < n" and "\<forall>j. i < j \<and> j < n \<longrightarrow> \<not> P j"
proof -
  have "P i \<and> i < n \<and> (\<forall>j. i < j \<and> j < n \<longrightarrow> \<not> P j)"
    using assms
  proof (induction n)
    case (Suc n)
    then show ?case by (auto simp: less_Suc_eq split: if_splits)
  qed simp
  then show "P i" and "i < n" and "\<forall>j. i < j \<and> j < n \<longrightarrow> \<not> P j" by blast+
qed


definition preview_of :: "str \<Rightarrow> str \<Rightarrow> bool" where
  "preview_of text shown \<longleftrightarrow>
     valid_str shown \<and> length shown \<le> MAX_LOGGED_TEXT_BYTES \<and>
     (if length text \<le> MAX_LOGGED_TEXT_BYTES then shown = text
      else \<exists>n. shown = take n text @ ELLIPSIS \<and> 250 \<le> n)"

lemma truncate_text_preview:
  assumes "valid_str text" shows "preview_of text (truncate_text text)"
proof (cases "length text \<le> MAX_LOGGED_TEXT_BYTES")
  case True
  then show ?thesis using assms by (simp add: preview_of_def truncate_text_def)
next
  case False
  then have len: "256 < length text" by (simp add: MAX_LOGGED_TEXT_BYTES_def)
  have "find (is_char_boundary text) (rev [0..<Suc 253]) \<noteq> None"
    by (auto simp: find_None_iff is_char_boundary_def simp del: upt_Suc intro: exI [of _ 0])
  then obtain i where i: "find (is_char_boundary text) (rev [0..<Suc 253]) = Some i" by blast
  note f = find_rev_upt [OF i]
  have eq: "truncate_text text = take i text @ ELLIPSIS"
    using i len by (simp add: truncate_text_def MAX_LOGGED_TEXT_BYTES_def del: upt_Suc)
  obtain j where j: "stop_at (as_bytes text) j" "j \<le> 253" "253 \<le> j + 3"
    using stop_near [of "as_bytes text" 253] assms len by (auto simp: valid_str_def)
  have "\<not> i < j" using f(3) j(1,2) by (auto simp: boundary_stop_at)
  then have "250 \<le> i" using j(3) by simp
  moreover have "valid_str (truncate_text text)"
    using assms f(1) valid_ELLIPSIS unfolding eq valid_str_def as_bytes_append boundary_stop_at take_as_bytes
    by (intro utf8_valid_append utf8_valid_take)
  ultimately show ?thesis using False f(2) len eq by (auto simp: preview_of_def MAX_LOGGED_TEXT_BYTES_def)
qed

section \<open>Properties\<close>

abbreviation last_n :: "nat \<Rightarrow> 'a list \<Rightarrow> 'a list" where
  "last_n n xs \<equiv> drop (length xs - n) xs"

definition preview_entry :: "message_log_entry \<Rightarrow> message_log_entry" where
  "preview_entry e = e\<lparr>entry_text := map_option truncate_text (entry_text e)\<rparr>"

lemma record_messages_last:
  "length (messages s) \<le> 16 \<Longrightarrow>
   messages (fold record_message es s) = last_n 16 (messages s @ map preview_entry es)"
proof (induction es arbitrary: s)
  case Nil
  then show ?case by simp
next
  case (Cons e es)
  let ?s = "record_message e s"
  have m: "messages ?s = (if length (messages s) = 16 then tl (messages s) else messages s) @ [preview_entry e]"
    by (simp add: record_message_def preview_entry_def MESSAGE_LOG_CAPACITY_def Let_def)
  then have "length (messages ?s) \<le> 16" using Cons.prems by auto
  from Cons.IH [OF this] show ?case using m Cons.prems
    by (auto simp: drop_Suc tl_drop Suc_diff_le)
qed

text \<open>The dashboard's message log is the last sixteen inbound messages in order of arrival,
  and whatever a remote sender puts into a message, the text kept of it is valid UTF-8 of at
  most 256 bytes: the text itself when it fits, otherwise at least its first 250 bytes, cut
  between two characters, and an ellipsis.\<close>

lemma message_log_bounded:
  assumes "\<forall>e \<in> set es. \<forall>t. entry_text e = Some t \<longrightarrow> valid_str t"
  shows "\<exists>kept. messages (fold record_message es status_new) = kept \<and> length kept = min 16 (length es) \<and>
    list_all2 (\<lambda>e e'. e'\<lparr>entry_text := entry_text e\<rparr> = e \<and>
        rel_option preview_of (entry_text e) (entry_text e')) (last_n 16 es) kept"
proof -
  let ?kept = "last_n 16 (map preview_entry es)"
  have "messages (fold record_message es status_new) = ?kept"
    using record_messages_last [of status_new es] by (simp add: status_new_def)
  moreover have "rel_option preview_of (entry_text e) (entry_text (preview_entry e))" if "e \<in> set es" for e
    using assms that truncate_text_preview by (cases "entry_text e") (auto simp: preview_entry_def)
  then have "list_all2 (\<lambda>e e'. e'\<lparr>entry_text := entry_text e\<rparr> = e \<and>
      rel_option preview_of (entry_text e) (entry_text e')) (last_n 16 es) ?kept"
    by (auto simp: list_all2_conv_all_nth preview_entry_def)
  ultimately show ?thesis by (auto simp: min_def)
qed


definition demo_entry :: "str \<Rightarrow> message_log_entry" where
  "demo_entry t = \<lparr>entry_id = ''m'', entry_chat = ''c'', entry_sender = ''s'', entry_text = Some t,
     entry_timestamp = 0, from_me = False\<rparr>"

subsection \<open>Pairing\<close>

datatype status_op =
    Set_Qr_Code str
  | Clear_Qr_Code
  | Set_Connected "str option" "str option"
  | Set_Disconnected
  | Set_Logged_Out
  | Begin_Pair_Code nat
  | Complete_Pair_Code nat u32 str nat
  | Fail_Pair_Code u32 str
  | Record_Message message_log_entry

fun apply_op :: "status_op \<Rightarrow> device_status \<Rightarrow> device_status" where
  "apply_op (Set_Qr_Code c) s = set_qr_code c s"
| "apply_op Clear_Qr_Code s = clear_qr_code s"
| "apply_op (Set_Connected pn lid) s = set_connected pn lid s"
| "apply_op Set_Disconnected s = set_disconnected s"
| "apply_op Set_Logged_Out s = set_logged_out s"
| "apply_op (Begin_Pair_Code now) s = snd (begin_pair_code now s)"
| "apply_op (Complete_Pair_Code now q c d) s = complete_pair_code now q c d s"
| "apply_op (Fail_Pair_Code q t) s = fail_pair_code q t s"
| "apply_op (Record_Message e) s = record_message e s"

lemmas status_defs = set_qr_code_def clear_qr_code_def set_connected_def set_disconnected_def
  set_logged_out_def begin_pair_code_def complete_pair_code_def fail_pair_code_def record_message_def
  pair_code_request_is_def Let_def

text \<open>The attempts the operations admit, in order.\<close>

fun admitted :: "status_op list \<Rightarrow> device_status \<Rightarrow> u32 list" where
  "admitted [] s = []"
| "admitted (op # ops) s =
     (case op of
        Begin_Pair_Code now \<Rightarrow>
          (case fst (begin_pair_code now s) of
             Inr q \<Rightarrow> q # admitted ops (apply_op op s)
           | Inl _ \<Rightarrow> admitted ops (apply_op op s))
      | _ \<Rightarrow> admitted ops (apply_op op s))"

text \<open>A pending attempt has the number before the next one.\<close>

definition pairing_ok :: "device_status \<Rightarrow> bool" where
  "pairing_ok s \<longleftrightarrow> (\<forall>q. pair_code s = Pair_Pending q \<longrightarrow> q + 1 = next_pair_code_request s)"

lemma pairing_ok_apply: "pairing_ok s \<Longrightarrow> pairing_ok (apply_op op s)"
  by (cases op) (auto simp: pairing_ok_def status_defs split: pair_code_state.splits)

lemma admitted_number:
  "next_pair_code_request (fold apply_op ops s) = next_pair_code_request s + of_nat (length (admitted ops s))"
  by (induction ops s rule: admitted.induct)
    (auto simp: status_defs split: status_op.splits sum.splits pair_code_state.splits if_splits)

lemma pairing_ok_fold: "pairing_ok s \<Longrightarrow> pairing_ok (fold apply_op ops s)"
  by (induction ops arbitrary: s) (auto simp: pairing_ok_apply)


definition waiting :: "device_status \<Rightarrow> bool" where
  "waiting s \<longleftrightarrow> (\<exists>q. pair_code s = Pair_Pending q)"

lemma not_waiting_fold:
  "admitted ops s = [] \<Longrightarrow> \<not> waiting s \<Longrightarrow> \<not> waiting (fold apply_op ops s)"
proof (induction ops arbitrary: s)
  case (Cons op ops)
  have "admitted ops (apply_op op s) = [] \<and> \<not> waiting (apply_op op s)"
    using Cons.prems
    by (cases op) (auto simp: waiting_def status_defs split: pair_code_state.splits if_splits sum.splits)
  then show ?case using Cons.IH by simp
qed simp

lemma admitted_append:
  "admitted (xs @ ys) s = admitted xs s @ admitted ys (fold apply_op xs s)"
  by (induction xs arbitrary: s) (auto split: status_op.splits sum.splits)

lemma length_admitted: "length (admitted ops s) \<le> length ops"
  by (induction ops s rule: admitted.induct) (auto split: status_op.splits sum.splits intro: le_SucI)

lemma pending_is_last:
  assumes "begin_pair_code now s = (Inr q, s1)" and "length ops < 2 ^ 32"
    and "pair_code (fold apply_op ops s1) = Pair_Pending q"
  shows "admitted ops s1 = []"
proof -
  have s1: "pair_code s1 = Pair_Pending q" "next_pair_code_request s1 = q + 1"
    using assms(1) by (auto simp: begin_pair_code_def Let_def split: pair_code_state.splits if_splits)
  then have "pairing_ok (fold apply_op ops s1)" by (intro pairing_ok_fold) (simp add: pairing_ok_def)
  then have "q + 1 = q + 1 + of_nat (length (admitted ops s1))"
    using assms(3) admitted_number [of ops s1] s1(2) by (simp add: pairing_ok_def)
  then have "(of_nat (length (admitted ops s1)) :: u32) = 0" by simp
  then have "2 ^ 32 dvd length (admitted ops s1)" by (simp only: word_of_nat_eq_0_iff) simp
  moreover have "length (admitted ops s1) < 2 ^ 32" using length_admitted [of ops s1] assms(2) by linarith
  ultimately have "length (admitted ops s1) = 0" using nat_dvd_not_less by blast
  then show ?thesis by simp
qed

text \<open>C13: a linking code is published only for the attempt that asked for it. After
  \<open>begin_pair_code\<close> hands out a request id, and whatever other status operations run before
  the result of that request arrives (fewer than the \<open>2\<^sup>3\<^sup>2\<close> after which ids repeat), the result
  is dropped when a later attempt was admitted or the device connected in between; while the
  attempt is still pending its code is published, and it then blocks new attempts exactly
  until it expires.\<close>

theorem pair_code_belongs_to_attempt:
  assumes "begin_pair_code now s = (Inr q, s1)" and "length ops < 2 ^ 32"
    and "s2 = fold apply_op ops s1"
  shows "(admitted ops s1 \<noteq> [] \<or> (\<exists>pn lid. Set_Connected pn lid \<in> set ops) \<longrightarrow>
            complete_pair_code now' q code valid_for s2 = s2 \<and> fail_pair_code q message s2 = s2) \<and>
         (pair_code s2 = Pair_Pending q \<longrightarrow>
            (let s3 = complete_pair_code now' q code valid_for s2 in
             pair_code s3 = Pair_Ready code (now' + valid_for) \<and>
             (\<forall>t. fst (begin_pair_code t s3) = Inl Code_Already_Active \<longleftrightarrow> t < now' + valid_for)))"
proof -
  have "pair_code s2 \<noteq> Pair_Pending q" if "\<exists>pn lid. Set_Connected pn lid \<in> set ops" "admitted ops s1 = []"
  proof -
    from that(1) obtain pn lid xs ys where ops: "ops = xs @ Set_Connected pn lid # ys" by (metis split_list)
    let ?s = "apply_op (Set_Connected pn lid) (fold apply_op xs s1)"
    have "admitted ys ?s = []" "\<not> waiting ?s" "s2 = fold apply_op ys ?s"
      using that(2) assms(3) ops by (simp_all add: admitted_append waiting_def set_connected_def)
    then show ?thesis using not_waiting_fold by (auto simp: waiting_def)
  qed
  moreover have "pair_code s2 \<noteq> Pair_Pending q" if "admitted ops s1 \<noteq> []"
    using pending_is_last [OF assms(1,2)] that assms(3) by auto
  moreover have "complete_pair_code now' q code valid_for s2 = s2 \<and> fail_pair_code q message s2 = s2"
    if "pair_code s2 \<noteq> Pair_Pending q"
    using that by (auto simp: status_defs split: pair_code_state.splits)
  moreover have "pair_code s2 = Pair_Pending q \<longrightarrow>
      (let s3 = complete_pair_code now' q code valid_for s2 in
       pair_code s3 = Pair_Ready code (now' + valid_for) \<and>
       (\<forall>t. fst (begin_pair_code t s3) = Inl Code_Already_Active \<longleftrightarrow> t < now' + valid_for))"
    by (simp add: status_defs)
  ultimately show ?thesis by blast
qed

theorem pair_code_belongs_to_attempt_witness:
  "let s1 = snd (begin_pair_code 0 status_new);
       s2 = fold apply_op [Fail_Pair_Code 1 ''no'', Begin_Pair_Code 5] s1
   in complete_pair_code 9 1 ''ABCD'' 60 s2 = s2 \<and> pair_code s2 = Pair_Pending 2"
proof -
  let ?s1 = "snd (begin_pair_code 0 status_new)"
  let ?ops = "[Fail_Pair_Code 1 ''no'', Begin_Pair_Code 5]"
  have b: "begin_pair_code 0 status_new = (Inr 1, ?s1)"
    by (simp add: begin_pair_code_def status_new_def Let_def)
  have a: "admitted ?ops ?s1 \<noteq> []" by (simp add: status_defs status_new_def)
  have "complete_pair_code 9 1 ''ABCD'' 60 (fold apply_op ?ops ?s1) = fold apply_op ?ops ?s1"
    using pair_code_belongs_to_attempt [OF b _ refl, of ?ops] a by simp
  then show ?thesis by (simp add: status_defs status_new_def)
qed

subsection \<open>Redaction\<close>

text \<open>Without the admin token the status page depends on nothing but whether the device is
  online: account, QR code, linking code and messages do not influence it, at any time and
  however JSON is printed. With the token, the page offers a linking code exactly while
  \<open>begin_pair_code\<close> refuses another one because a code is active.\<close>

lemma status_redaction:
  "to_json_authenticated print_json now False s =
     to_json_authenticated print_json now' False (status_new\<lparr>connected := connected s\<rparr>) \<and>
   ((\<exists>code. pair_code_json now (pair_code s) =
        JObj [(''state'', JStr ''ready''), (''code'', JStr code),
              (''expires_in_seconds'', JNum ((int (expires_at (pair_code s)) - int now) div 10 ^ 9))]) \<longleftrightarrow>
    fst (begin_pair_code now s) = Inl Code_Already_Active)"
  by (cases "pair_code s")
    (auto simp: to_json_authenticated_def pair_code_json_def begin_pair_code_def Let_def zdiv_int of_nat_diff)

end
