(* ===== verification/Maintenance.thy ===== *)
theory Maintenance
  imports Store_Properties Device_Status
begin

text \<open>
  The arbiter of \<open>src/supervisor.rs\<close> for everything that ends in a reboot:
  \<open>MaintenanceCoordinator\<close>, \<open>ActiveClient\<close> and \<open>run_maintenance\<close>. The maintenance task runs on
  the executor while dashboard threads, the client and the store keep going, so
  \<open>run_maintenance\<close> is cut at its critical sections and awaits (\<open>run_maintenance_step\<close>), and
  the steps of everybody else come in between (\<open>sys_step\<close>).
\<close>

section \<open>The coordinator\<close>

datatype maintenance_action = Reboot | ClearSessions | Reset

text \<open>\<open>#[derive(PartialOrd, Ord)]\<close>: the order of the variants.\<close>

primrec action_rank :: "maintenance_action \<Rightarrow> nat" where
  "action_rank Reboot = 0"
| "action_rank ClearSessions = 1"
| "action_rank Reset = 2"

instantiation maintenance_action :: linorder
begin

definition less_eq_maintenance_action :: "maintenance_action \<Rightarrow> maintenance_action \<Rightarrow> bool" where
  "less_eq_maintenance_action a b \<longleftrightarrow> action_rank a \<le> action_rank b"

definition less_maintenance_action :: "maintenance_action \<Rightarrow> maintenance_action \<Rightarrow> bool" where
  "less_maintenance_action a b \<longleftrightarrow> action_rank a < action_rank b"

instance
proof
  fix a b :: maintenance_action
  show "a \<le> b \<Longrightarrow> b \<le> a \<Longrightarrow> a = b"
    by (cases a; cases b) (auto simp: less_eq_maintenance_action_def)
qed (auto simp: less_eq_maintenance_action_def less_maintenance_action_def)

end

lemmas action_order = less_eq_maintenance_action_def less_maintenance_action_def

lemma reboot_least [simp]: "Reboot \<le> a"
  by (simp add: action_order)

lemma reset_greatest [simp]: "a \<le> Reset"
  by (cases a) (simp_all add: action_order)

datatype maintenance_request = Start | Queued | Rejected

record maintenance_state =
  requested_action :: "maintenance_action option"
  running :: bool
  accepting :: bool

definition coordinator_new :: maintenance_state where
  "coordinator_new = \<lparr>requested_action = None, running = False, accepting = True\<rparr>"

definition request ::
  "maintenance_action \<Rightarrow> maintenance_state \<Rightarrow> maintenance_request \<times> maintenance_state" where
  "request action st =
     (if \<not> accepting st then (Rejected, st)
      else
        let st' = st\<lparr>requested_action := Some (case requested_action st of
                       None \<Rightarrow> action | Some current \<Rightarrow> max current action)\<rparr>
        in if running st' then (Queued, st') else (Start, st'\<lparr>running := True\<rparr>))"

definition requested :: "maintenance_state \<Rightarrow> maintenance_action" where
  "requested st = (case requested_action st of None \<Rightarrow> Reboot | Some a \<Rightarrow> a)"

definition begin_reboot :: "maintenance_action \<Rightarrow> maintenance_state \<Rightarrow> bool \<times> maintenance_state" where
  "begin_reboot applied st =
     (if (case requested_action st of None \<Rightarrow> False | Some r \<Rightarrow> r > applied) then (False, st)
      else (True, st\<lparr>accepting := False\<rparr>))"

definition is_idle :: "maintenance_state \<Rightarrow> bool" where
  "is_idle st \<longleftrightarrow> accepting st \<and> \<not> running st"

definition cancel_start :: "maintenance_state \<Rightarrow> maintenance_state" where
  "cancel_start st = st\<lparr>running := False, requested_action := None\<rparr>"

section \<open>The active client\<close>

text \<open>A client is its \<open>Arc\<close>: \<open>Arc::ptr_eq\<close> is equality of the numbers.\<close>

type_synonym client = nat
type_synonym active_client = "client option"

definition active_set :: "client \<Rightarrow> active_client \<Rightarrow> active_client" where
  "active_set c a = Some c"

definition current :: "active_client \<Rightarrow> client option" where
  "current a = a"

definition is_current :: "client \<Rightarrow> active_client \<Rightarrow> bool" where
  "is_current c a \<longleftrightarrow> (case a of None \<Rightarrow> False | Some active \<Rightarrow> active = c)"

definition clear_if :: "client \<Rightarrow> active_client \<Rightarrow> active_client" where
  "clear_if c a = (case a of None \<Rightarrow> a | Some active \<Rightarrow> if active = c then None else a)"

section \<open>The maintenance task\<close>

text \<open>
  Where \<open>run_maintenance\<close> stands. \<open>Stopping\<close> and \<open>Upgrading\<close> are the awaits on the client;
  \<open>Sealing\<close> and \<open>Erasing\<close> are the two halves of an action, \<open>Committing\<close> is the call of
  \<open>begin_reboot\<close>. The parameters are the local variables: the request being served, what has
  been applied, whether logout was attempted, and the client captured at the start.
\<close>

datatype task =
    No_Task
  | Spawning
  | Entering
  | Stopping maintenance_action client
  | Choosing maintenance_action bool "client option"
  | Upgrading maintenance_action client
  | Sealing maintenance_action maintenance_action bool "client option"
  | Erasing maintenance_action maintenance_action bool "client option"
  | Committing maintenance_action bool "client option"
  | Restarting maintenance_action
  | Rebooting maintenance_action
  | Hanging maintenance_action

datatype client_call = Logout | Shutdown

text \<open>
  \<open>sys_calls\<close> records the calls the task made on the client, oldest first, and
  \<open>sys_accepted\<close> the actions that \<open>request\<close> accepted.
\<close>

record ('n, 'd, 'k, 'h, 'l, 'v) sys =
  sys_store :: "('n, 'd, 'k, 'h, 'l, 'v) nvs_store"
  sys_status :: device_status
  sys_active :: active_client
  sys_coord :: maintenance_state
  sys_task :: task
  sys_calls :: "(client \<times> client_call) list"
  sys_accepted :: "maintenance_action list"

text \<open>\<open>NvsStore::restart\<close>: the job on the worker never returns, so success is the restart.\<close>

definition restart :: "('n, 'd, 'k, 'h, 'l, 'v, unit) store_io" where
  "restart = run (retE ())"

text \<open>The erasure an action asks for, with its count forgotten.\<close>

definition erase_action ::
  "('n, 'd, 'k) platform \<Rightarrow> maintenance_action \<Rightarrow> ('n, 'd, 'k, 'h, 'l, 'v, unit) store_io" where
  "erase_action p a =
     (case a of Reset \<Rightarrow> reset p | ClearSessions \<Rightarrow> voidE (clear_sessions p) | Reboot \<Rightarrow> retE ())"

fun run_maintenance_step ::
  "('n, 'd, 'k) platform \<Rightarrow> task \<Rightarrow> ('n, 'd, 'k, 'h, 'l, 'v) sys \<Rightarrow> ('n, 'd, 'k, 'h, 'l, 'v) sys" where
  "run_maintenance_step p Entering w =
     (let initial = requested (sys_coord w)
      in case current (sys_active w) of
           Some c \<Rightarrow> w\<lparr>sys_task := Stopping initial c\<rparr>
         | None \<Rightarrow> w\<lparr>sys_task := Choosing Reboot False None\<rparr>)"
| "run_maintenance_step p (Stopping initial c) w =
     w\<lparr>sys_calls := sys_calls w @ [(c, if initial = Reset then Logout else Shutdown)],
       sys_active := clear_if c (sys_active w),
       sys_task := Choosing Reboot (initial = Reset) (Some c)\<rparr>"
| "run_maintenance_step p (Choosing applied logout_attempted client) w =
     (let req = requested (sys_coord w)
      in w\<lparr>sys_task :=
           (if req > applied then
              (case req of
                 Reset \<Rightarrow>
                   (if \<not> logout_attempted then
                      (case client of
                         Some c \<Rightarrow> Upgrading applied c
                       | None \<Rightarrow> Sealing Reset applied True client)
                    else Sealing Reset applied logout_attempted client)
               | ClearSessions \<Rightarrow> Sealing ClearSessions applied logout_attempted client
               | Reboot \<Rightarrow> Committing Reboot logout_attempted client)
            else Committing applied logout_attempted client)\<rparr>)"
| "run_maintenance_step p (Upgrading applied c) w =
     w\<lparr>sys_calls := sys_calls w @ [(c, Logout)], sys_task := Sealing Reset applied True (Some c)\<rparr>"
| "run_maintenance_step p (Sealing req applied logout_attempted client) w =
     w\<lparr>sys_status := (if req = Reset then set_logged_out (sys_status w) else sys_status w),
       sys_store := snd (seal_writes (sys_store w)),
       sys_task := Erasing req applied logout_attempted client\<rparr>"
| "run_maintenance_step p (Erasing req applied logout_attempted client) w =
     (case erase_action p req (sys_store w) of
        (Inr _, s) \<Rightarrow> w\<lparr>sys_store := s, sys_task := Committing req logout_attempted client\<rparr>
      | (Inl _, s) \<Rightarrow> w\<lparr>sys_store := s, sys_task := Choosing applied logout_attempted client\<rparr>)"
| "run_maintenance_step p (Committing applied logout_attempted client) w =
     (case begin_reboot applied (sys_coord w) of
        (True, co) \<Rightarrow> w\<lparr>sys_coord := co, sys_task := Restarting applied\<rparr>
      | (False, co) \<Rightarrow> w\<lparr>sys_coord := co, sys_task := Choosing applied logout_attempted client\<rparr>)"
| "run_maintenance_step p (Restarting applied) w =
     (case restart (sys_store w) of
        (Inr _, s) \<Rightarrow> w\<lparr>sys_store := s, sys_task := Rebooting applied\<rparr>
      | (Inl _, s) \<Rightarrow> w\<lparr>sys_store := s, sys_task := Hanging applied\<rparr>)"
| "run_maintenance_step p _ w = w"

text \<open>
  A dashboard endpoint or the supervisor asks for an action (\<open>queue_maintenance\<close> of
  \<open>src/admin.rs\<close>, \<open>run_whatsapp\<close> of \<open>src/main.rs\<close>): \<open>Start\<close> makes it hand the task to the
  executor, and a task the executor does not take is cancelled.
\<close>

definition ask :: "maintenance_action \<Rightarrow> ('n, 'd, 'k, 'h, 'l, 'v) sys \<Rightarrow> ('n, 'd, 'k, 'h, 'l, 'v) sys" where
  "ask a w =
     (case request a (sys_coord w) of
        (r, co) \<Rightarrow>
          w\<lparr>sys_coord := co,
            sys_task := (if r = Start then Spawning else sys_task w),
            sys_accepted := (if r = Rejected then sys_accepted w else a # sys_accepted w)\<rparr>)"

inductive sys_step ::
  "('n, 'd, 'k) platform \<Rightarrow> ('n, 'd, 'k, 'h, 'l, 'v) sys \<Rightarrow> ('n, 'd, 'k, 'h, 'l, 'v) sys \<Rightarrow> bool"
  for p where
  asks: "sys_step p w (ask a w)"
| spawned: "sys_task w = Spawning \<Longrightarrow> sys_step p w (w\<lparr>sys_task := Entering\<rparr>)"
| not_spawned: "sys_task w = Spawning \<Longrightarrow>
    sys_step p w (w\<lparr>sys_task := No_Task, sys_coord := cancel_start (sys_coord w), sys_accepted := []\<rparr>)"
| maintains: "sys_step p w (run_maintenance_step p (sys_task w) w)"
| stores: "\<not> erases op \<Longrightarrow> sys_step p w (w\<lparr>sys_store := snd (exec p op (sys_store w))\<rparr>)"
| counts: "sys_step p w (w\<lparr>sys_store := snd (stats p (sys_store w))\<rparr>)"
| lists: "sys_step p w (w\<lparr>sys_store := snd (list_sessions p (sys_store w))\<rparr>)"
| shows_status: "sys_step p w (w\<lparr>sys_status := apply_op sop (sys_status w)\<rparr>)"
| connects: "sys_step p w (w\<lparr>sys_active := active_set c (sys_active w)\<rparr>)"
| disconnects: "sys_step p w (w\<lparr>sys_active := clear_if c (sys_active w)\<rparr>)"

inductive reachable ::
  "('n, 'd, 'k) platform \<Rightarrow> ('n, 'd, 'k, 'h, 'l, 'v) sys \<Rightarrow> ('n, 'd, 'k, 'h, 'l, 'v) sys \<Rightarrow> bool"
  for p w0 where
  init: "reachable p w0 w0"
| step: "reachable p w0 w \<Longrightarrow> sys_step p w w' \<Longrightarrow> reachable p w0 w'"

definition boot :: "('n, 'd, 'k, 'h, 'l, 'v) nvs_store \<Rightarrow> ('n, 'd, 'k, 'h, 'l, 'v) sys" where
  "boot s = \<lparr>sys_store = s, sys_status = status_new, sys_active = None, sys_coord = coordinator_new,
     sys_task = No_Task, sys_calls = [], sys_accepted = []\<rparr>"


section \<open>Invariant of the coordinator\<close>

text \<open>What a task has applied so far.\<close>

fun applied_of :: "task \<Rightarrow> maintenance_action option" where
  "applied_of (Choosing a _ _) = Some a"
| "applied_of (Upgrading a _) = Some a"
| "applied_of (Sealing _ a _ _) = Some a"
| "applied_of (Erasing _ a _ _) = Some a"
| "applied_of (Committing a _ _) = Some a"
| "applied_of (Restarting a) = Some a"
| "applied_of (Rebooting a) = Some a"
| "applied_of (Hanging a) = Some a"
| "applied_of _ = None"

text \<open>The request window is closed.\<close>

fun committed :: "task \<Rightarrow> maintenance_action option" where
  "committed (Restarting a) = Some a"
| "committed (Rebooting a) = Some a"
| "committed (Hanging a) = Some a"
| "committed _ = None"

text \<open>The action being served, which is above everything applied.\<close>

fun serving :: "task \<Rightarrow> maintenance_action option" where
  "serving (Upgrading a _) = Some Reset"
| "serving (Sealing r _ _ _) = Some r"
| "serving (Erasing r _ _ _) = Some r"
| "serving _ = None"

definition coord_ok :: "maintenance_state \<Rightarrow> task \<Rightarrow> maintenance_action list \<Rightarrow> bool" where
  "coord_ok co t accepted \<longleftrightarrow>
     (running co \<longleftrightarrow> t \<noteq> No_Task) \<and> (accepting co \<longleftrightarrow> committed t = None) \<and>
     requested_action co = (if accepted = [] then None else Some (Max (set accepted))) \<and>
     (\<forall>a. committed t = Some a \<longrightarrow> requested co \<le> a) \<and>
     (\<forall>r. serving t = Some r \<longrightarrow> r \<le> requested co \<and> (\<forall>a. applied_of t = Some a \<longrightarrow> a < r))"

abbreviation sys_coord_ok :: "('n, 'd, 'k, 'h, 'l, 'v) sys \<Rightarrow> bool" where
  "sys_coord_ok w \<equiv> coord_ok (sys_coord w) (sys_task w) (sys_accepted w)"

lemma coord_ok_accepted: "coord_ok co t acc \<Longrightarrow> x \<in> set acc \<Longrightarrow> x \<le> requested co"
  by (auto simp: coord_ok_def requested_def split: if_splits)

lemma requested_grows: "requested co \<le> requested (snd (request a co))"
  by (auto simp: requested_def request_def Let_def split: option.splits)

lemma coord_ok_request:
  assumes "coord_ok co t acc"
  shows "coord_ok (snd (request a co)) (if fst (request a co) = Start then Spawning else t)
     (if fst (request a co) = Rejected then acc else a # acc)"
proof (cases "accepting co")
  case False
  then show ?thesis using assms by (simp add: request_def)
next
  case True
  have r: "requested_action (snd (request a co)) = Some (Max (set (a # acc)))"
    "accepting (snd (request a co))" "running (snd (request a co))"
    "fst (request a co) = (if running co then Queued else Start)"
    using True assms by (auto simp: request_def coord_ok_def Let_def max.commute split: option.splits)
  show ?thesis using r requested_grows [of co a] assms True
    by (auto simp: coord_ok_def)
qed

lemma ask_simps [simp]:
  "sys_store (ask a w) = sys_store w" "sys_calls (ask a w) = sys_calls w"
  "sys_coord (ask a w) = snd (request a (sys_coord w))"
  "sys_task (ask a w) = (if fst (request a (sys_coord w)) = Start then Spawning else sys_task w)"
  "sys_accepted (ask a w) =
     (if fst (request a (sys_coord w)) = Rejected then sys_accepted w else a # sys_accepted w)"
  by (simp_all add: ask_def split: prod.splits)

lemma coord_ok_asks: "sys_coord_ok w \<Longrightarrow> sys_coord_ok (ask a w)"
  using coord_ok_request [of "sys_coord w" "sys_task w" "sys_accepted w" a] by simp

lemma coord_ok_maintains: "sys_coord_ok w \<Longrightarrow> sys_coord_ok (run_maintenance_step p (sys_task w) w)"
  by (cases "sys_task w")
    (auto simp: coord_ok_def begin_reboot_def requested_def Let_def not_less action_order
      split: option.splits prod.splits sum.splits maintenance_action.splits if_splits)

lemma coord_ok_step: "sys_step p w w' \<Longrightarrow> sys_coord_ok w \<Longrightarrow> sys_coord_ok w'"
proof (induction rule: sys_step.induct)
  case (asks w a)
  then show ?case by (rule coord_ok_asks)
next
  case (maintains w)
  then show ?case by (rule coord_ok_maintains)
qed (auto simp: coord_ok_def cancel_start_def)

lemma coord_ok_reachable: "reachable p (boot s) w \<Longrightarrow> sys_coord_ok w"
proof (induction rule: reachable.induct)
  case init
  then show ?case by (simp add: boot_def coord_ok_def coordinator_new_def)
qed (rule coord_ok_step)


section \<open>Invariant of the client calls\<close>

definition stopped :: "bool \<Rightarrow> client option \<Rightarrow> (client \<times> client_call) list \<Rightarrow> bool" where
  "stopped logout_attempted client calls =
     (case client of
        None \<Rightarrow> calls = []
      | Some c \<Rightarrow>
          if logout_attempted then calls = [(c, Logout)] \<or> calls = [(c, Shutdown), (c, Logout)]
          else calls = [(c, Shutdown)])"

lemma stopped_simps [simp]:
  "stopped l None calls \<longleftrightarrow> calls = []"
  "stopped False (Some c) calls \<longleftrightarrow> calls = [(c, Shutdown)]"
  "stopped True (Some c) calls \<longleftrightarrow> calls = [(c, Logout)] \<or> calls = [(c, Shutdown), (c, Logout)]"
  by (simp_all add: stopped_def)

fun calls_ok :: "task \<Rightarrow> (client \<times> client_call) list \<Rightarrow> bool" where
  "calls_ok (Choosing a l c) calls = (stopped l c calls \<and> (a = Reset \<longrightarrow> l))"
| "calls_ok (Upgrading a c) calls = stopped False (Some c) calls"
| "calls_ok (Sealing r a l c) calls = (stopped l c calls \<and> (r = Reset \<or> a = Reset \<longrightarrow> l))"
| "calls_ok (Erasing r a l c) calls = (stopped l c calls \<and> (r = Reset \<or> a = Reset \<longrightarrow> l))"
| "calls_ok (Committing a l c) calls = (stopped l c calls \<and> (a = Reset \<longrightarrow> l))"
| "calls_ok (Restarting a) calls = (\<exists>l c. stopped l c calls \<and> (a = Reset \<longrightarrow> l))"
| "calls_ok (Rebooting a) calls = (\<exists>l c. stopped l c calls \<and> (a = Reset \<longrightarrow> l))"
| "calls_ok (Hanging a) calls = (\<exists>l c. stopped l c calls \<and> (a = Reset \<longrightarrow> l))"
| "calls_ok _ calls = (calls = [])"

lemma calls_ok_maintains:
  assumes "calls_ok (sys_task w) (sys_calls w)"
  shows "calls_ok (sys_task (run_maintenance_step p (sys_task w) w))
           (sys_calls (run_maintenance_step p (sys_task w) w))"
  using assms
  by (cases "sys_task w")
    (auto simp: begin_reboot_def current_def Let_def
      split: option.splits prod.splits sum.splits maintenance_action.splits if_splits)

lemma calls_ok_step:
  "sys_step p w w' \<Longrightarrow> sys_coord_ok w \<Longrightarrow> calls_ok (sys_task w) (sys_calls w) \<Longrightarrow>
   calls_ok (sys_task w') (sys_calls w')"
proof (induction rule: sys_step.induct)
  case (asks w a)
  show ?case
  proof (cases "fst (request a (sys_coord w)) = Start")
    case True
    then have "sys_task w = No_Task" using asks.prems(1)
      by (auto simp: request_def coord_ok_def Let_def split: if_splits)
    then show ?thesis using asks.prems(2) by simp
  next
    case False
    then show ?thesis using asks.prems(2) by simp
  qed
next
  case (maintains w)
  then show ?case by (intro calls_ok_maintains)
qed auto

lemma calls_ok_reachable: "reachable p (boot s) w \<Longrightarrow> calls_ok (sys_task w) (sys_calls w)"
proof (induction rule: reachable.induct)
  case init
  then show ?case by (simp add: boot_def)
next
  case (step w w')
  then show ?case using calls_ok_step coord_ok_reachable by blast
qed

section \<open>Invariant of the flash\<close>

context flash_platform
begin

abbreviation store_content :: "('n, 'd, 'k, 'h, 'l, 'v) nvs_store \<Rightarrow> ns \<Rightarrow> (str, bytes) hashmap" where
  "store_content s \<equiv> content (flash s)"

definition applied_ok :: "maintenance_action \<Rightarrow> ('n, 'd, 'k, 'h, 'l, 'v) nvs_store \<Rightarrow> bool" where
  "applied_ok a s \<longleftrightarrow>
     (ClearSessions \<le> a \<longrightarrow> \<not> accepting_writes s \<and> store_content s Sessions = fmempty) \<and>
     (a = Reset \<longrightarrow> no_credentials (store_content s) \<and> \<not> reset_marked (store_content s))"

text \<open>\<open>applied\<close> describes flash once no higher request is waiting to be served.\<close>

definition flash_ok :: "('n, 'd, 'k, 'h, 'l, 'v) sys \<Rightarrow> bool" where
  "flash_ok w \<longleftrightarrow>
     slots_sound (flash (sys_store w)) \<and>
     (\<forall>a. applied_of (sys_task w) = Some a \<longrightarrow> requested (sys_coord w) \<le> a \<longrightarrow> applied_ok a (sys_store w)) \<and>
     (\<forall>r a l c. sys_task w = Erasing r a l c \<longrightarrow> \<not> accepting_writes (sys_store w))"

lemma applied_ok_cong:
  "store_content s' = store_content s \<Longrightarrow> (\<not> accepting_writes s \<Longrightarrow> \<not> accepting_writes s') \<Longrightarrow>
   applied_ok a s \<Longrightarrow> applied_ok a s'"
  by (auto simp: applied_ok_def)

lemma applied_ok_Reboot: "applied_ok Reboot s"
  by (simp add: applied_ok_def action_order)

lemma exec_sound:
  assumes "slots_sound (flash s)" shows "slots_sound (flash (snd (exec p op s)))"
  by (rule touches_sound [OF writesD(1) [OF exec_writes assms prod.collapse [symmetric]]])

lemma applied_ok_exec:
  assumes "applied_ok a s" and "\<not> erases op" shows "applied_ok a (snd (exec p op s))"
proof (cases "ClearSessions \<le> a")
  case True
  then have fz: "frozen (store_content s) s" using assms(1) by (simp add: applied_ok_def)
  from frozen_exec [OF fz assms(2) prod.collapse [symmetric]] show ?thesis
    using applied_ok_cong assms(1) by blast
next
  case False
  then have "a = Reboot" by (cases a) (simp_all add: action_order)
  then show ?thesis by (simp add: applied_ok_Reboot)
qed

lemma exec_seals: "\<not> accepting_writes s \<Longrightarrow> \<not> erases op \<Longrightarrow> \<not> accepting_writes (snd (exec p op s))"
  using frozen_exec [where c = "store_content s" and s = s, OF _ _ prod.collapse [symmetric]] by simp

text \<open>The dashboard's queries change nothing but the driver's own state.\<close>

definition same_store ::
  "('n, 'd, 'k, 'h, 'l, 'v) nvs_store \<Rightarrow> ('n, 'd, 'k, 'h, 'l, 'v) nvs_store \<Rightarrow> bool" where
  "same_store s s' \<longleftrightarrow>
     store_content s' = store_content s \<and> accepting_writes s' = accepting_writes s \<and>
     slots_sound (flash s') = slots_sound (flash s)"

lemma same_store_refl: "same_store s s"
  by (simp add: same_store_def)

lemma run_pure:
  assumes "\<And>n r n'. m n = (r, n') \<Longrightarrow> blobs n' = blobs n"
  shows "same_store s (snd (run (on_driver m) s))"
proof (cases "on_driver m (flash s)")
  case (Pair r f)
  then show ?thesis
    using on_pure [OF Pair, OF assms] by (simp add: same_store_def run_def)
qed

lemma addresses_of_blobs: "addresses_of api ns label names n = (r, n') \<Longrightarrow> api = nvs p \<Longrightarrow> blobs n' = blobs n"
  by (induction names arbitrary: n r n')
    (auto simp: bindE_def retE_def throwE_def liftE_def split: prod.splits sum.splits option.splits if_splits dest!: read_blob_blobs)

lemma list_sessions_same: "same_store s (snd (list_sessions p s))"
proof (cases "has_psram p")
  case True
  then show ?thesis by (simp add: list_sessions_def getE_def same_store_def)
next
  case False
  let ?walk = "namespace_addresses (nvs p) Sessions ''session''"
  have "blobs n' = blobs n" if "?walk n = (r, n')" for n r n'
    using that by (auto simp: namespace_addresses_def bindE_def split: prod.splits sum.splits
        dest!: record_names_blobs addresses_of_blobs)
  then have "same_store s (snd (run (on_driver ?walk) s))" by (rule run_pure)
  then show ?thesis
    using False by (cases "run (on_driver ?walk) s") (auto simp: list_sessions_def bindE_def retE_def split: sum.split)
qed

lemma unwrap_or_snd: "snd (unwrap_or d m s) = snd (m s)"
  by (simp add: unwrap_or_def split: prod.split sum.split)

lemma stats_same: "same_store s (snd (stats p s))"
proof (cases "has_psram p")
  case True
  then show ?thesis by (simp add: stats_def Let_def same_store_refl)
next
  case False
  obtain ns s1 where 1: "unwrap_or (hm_len (sessions (inner s))) (run (on_driver (record_count (nvs p) Sessions))) s = (ns, s1)"
    by fastforce
  obtain ni s2 where 2: "unwrap_or (hm_len (identities (inner s))) (run (on_driver (record_count (nvs p) Identities))) s1 = (ni, s2)"
    by fastforce
  have count: "same_store t (snd (run (on_driver (record_count (nvs p) ns)) t))" for ns t
    by (rule run_pure) (rule record_count_blobs)
  have s1: "s1 = snd (run (on_driver (record_count (nvs p) Sessions)) s)"
    by (simp only: unwrap_or_snd [symmetric, where d = "hm_len (sessions (inner s))"] 1 snd_conv)
  have s2: "s2 = snd (run (on_driver (record_count (nvs p) Identities)) s1)"
    by (simp only: unwrap_or_snd [symmetric, where d = "hm_len (identities (inner s))"] 2 snd_conv)
  have "same_store s s1" unfolding s1 by (rule count)
  moreover have "same_store s1 s2" unfolding s2 by (rule count)
  ultimately show ?thesis using False by (simp add: stats_def Let_def 1 2 same_store_def)
qed

lemma flash_ok_same:
  assumes "flash_ok w" and "same_store (sys_store w) s'" shows "flash_ok (w\<lparr>sys_store := s'\<rparr>)"
  using assms by (auto simp: flash_ok_def same_store_def intro: applied_ok_cong)

lemma run_InrE:
  assumes "run job s = (Inr x, s')"
  obtains f where "job (flash s) = (Inr x, f)" and "s' = s\<lparr>flash := f\<rparr>"
  using assms by (auto simp: run_def split: if_splits prod.splits)

lemma erase_action_ok:
  assumes "erase_action p r s = (Inr u, s')" and "slots_sound (flash s)" and "\<not> accepting_writes s"
  shows "applied_ok r s'"
proof (cases r)
  case Reboot
  then show ?thesis by (simp add: applied_ok_Reboot)
next
  case ClearSessions
  then have "voidE (clear_sessions p) s = (Inr u, s')" using assms(1) by (simp add: erase_action_def)
  then obtain n where "clear_sessions p s = (Inr n, s')"
    unfolding voidE_def by (rule bindE_InrE) simp
  then obtain n' t where "run (bindE (on_driver (record_count (nvs p) Sessions)) (\<lambda>count.
      bindE clear_session_slots (\<lambda>_. bindE (on_driver (erase_namespace (nvs p) Sessions ''session'')) (\<lambda>_.
      retE count)))) s = (Inr n', t)" "flash s' = flash t" "accepting_writes s' = accepting_writes t"
    unfolding clear_sessions_def by (rule bindE_InrE) (auto simp: with_inner_def)
  then obtain f where "store_content s' Sessions = fmempty" "accepting_writes s' = accepting_writes s"
    using clear_sessions_touches(2) [OF _ assms(2) refl] by (elim run_InrE) simp
  then show ?thesis using assms(3) ClearSessions by (simp add: applied_ok_def)
next
  case Reset
  then have "reset p s = (Inr u, s')" using assms(1) by (simp add: erase_action_def)
  then obtain u' t where "run (reset_all p) s = (Inr u', t)" "flash s' = flash t" "accepting_writes s' = accepting_writes t"
    unfolding reset_def by (rule bindE_InrE) (auto simp: with_inner_def)
  then have n: "no_credentials (store_content s') \<and> \<not> reset_marked (store_content s')"
    and "accepting_writes s' = accepting_writes s"
    using reset_all_effect(3) [OF _ assms(2)] by (auto elim!: run_InrE)
  moreover from n have "store_content s' Sessions = fmempty"
    by (auto simp: no_credentials_def signal_namespaces_def)
  ultimately show ?thesis using assms(3) by (simp add: applied_ok_def)
qed

lemma erase_action_sound: "slots_sound (flash s) \<Longrightarrow> slots_sound (flash (snd (erase_action p r s)))"
  using exec_sound [of s Reset_Store] exec_sound [of s Clear_Sessions]
  by (cases r) (simp_all add: erase_action_def)

lemma flash_ok_erases:
  assumes "flash_ok w" and "sys_coord_ok w" and t: "sys_task w = Erasing r a l c"
  shows "flash_ok (run_maintenance_step p (sys_task w) w)"
proof -
  note o = assms(1) [unfolded flash_ok_def]
  have req: "a < r" "r \<le> requested (sys_coord w)" using assms(2) t by (auto simp: coord_ok_def)
  obtain x s' where e: "erase_action p r (sys_store w) = (x, s')" by (rule prod.exhaust)
  have sound: "slots_sound (flash s')" using erase_action_sound [of "sys_store w" r] o e by simp
  show ?thesis
  proof (cases x)
    case (Inl y)
    then show ?thesis using e t sound req by (auto simp: flash_ok_def)
  next
    case (Inr u)
    have "applied_ok r s'" using erase_action_ok e Inr o t by blast
    then show ?thesis using e t sound Inr by (simp add: flash_ok_def)
  qed
qed

lemma flash_ok_maintains:
  assumes "flash_ok w" and "sys_coord_ok w" shows "flash_ok (run_maintenance_step p (sys_task w) w)"
proof (cases "\<exists>r a l c. sys_task w = Erasing r a l c")
  case True
  then show ?thesis using flash_ok_erases [OF assms] by blast
next
  case False
  have seal: "applied_ok a s \<Longrightarrow> applied_ok a (s\<lparr>accepting_writes := False\<rparr>)" for a and s :: "('n, 'd, 'k, 'h, 'l, 'v) nvs_store"
    by (erule applied_ok_cong [rotated -1]) simp_all
  show ?thesis using assms False
    by (cases "sys_task w")
      (auto simp: flash_ok_def applied_ok_Reboot seal seal_writes_def begin_reboot_def restart_def run_def requested_def Let_def
        not_less action_order
        split: option.splits prod.splits sum.splits maintenance_action.splits if_splits)
qed

lemma flash_ok_step: "sys_step p w w' \<Longrightarrow> sys_coord_ok w \<Longrightarrow> flash_ok w \<Longrightarrow> flash_ok w'"
proof (induction rule: sys_step.induct)
  case (asks w a)
  have g: "requested (sys_coord w) \<le> b" if "requested (snd (request a (sys_coord w))) \<le> b" for b
    using requested_grows [of "sys_coord w" a] that by (rule order_trans)
  show ?case
  proof (cases "fst (request a (sys_coord w)) = Start")
    case True
    then show ?thesis using asks.prems(2) by (simp add: flash_ok_def)
  next
    case False
    then show ?thesis using asks.prems(2) g by (simp add: flash_ok_def)
  qed
next
  case (maintains w)
  then show ?case by (intro flash_ok_maintains)
next
  case (stores op w)
  then show ?case by (auto simp: flash_ok_def exec_sound applied_ok_exec exec_seals)
next
  case (counts w)
  then show ?case by (simp add: flash_ok_same stats_same)
next
  case (lists w)
  then show ?case by (simp add: flash_ok_same list_sessions_same)
qed (auto simp: flash_ok_def)

lemma flash_ok_reachable:
  assumes "reachable p (boot s) w" and "slots_sound (flash s)" shows "flash_ok w"
  using assms(1)
proof (induction rule: reachable.induct)
  case init
  then show ?case using assms(2) by (simp add: boot_def flash_ok_def)
next
  case (step w w')
  then show ?case using flash_ok_step coord_ok_reachable by blast
qed

end


section \<open>Properties\<close>


text \<open>C11: two reboot-ending operations never run side by side. In every reachable state with a
  maintenance task spawning, running or finished, no request is answered \<open>Start\<close>; requests are
  only refused once the task has committed to the reboot; and what a task will apply never
  goes below an accepted request.\<close>

theorem one_maintenance_task:
  assumes "reachable p (boot s) w" and "sys_task w \<noteq> No_Task"
  shows "fst (request b (sys_coord w)) = (if committed (sys_task w) = None then Queued else Rejected) \<and>
         (\<forall>c \<in> set (sys_accepted (ask b w)). c \<le> requested (sys_coord (ask b w))) \<and> \<not> is_idle (sys_coord w)"
proof -
  have co: "sys_coord_ok w" by (rule coord_ok_reachable [OF assms(1)])
  have a: "sys_coord_ok (ask b w)" by (rule coord_ok_asks [OF co])
  have "c \<le> requested (sys_coord (ask b w))" if "c \<in> set (sys_accepted (ask b w))" for c
    using a that by (rule coord_ok_accepted)
  moreover have "fst (request b (sys_coord w)) = (if committed (sys_task w) = None then Queued else Rejected)"
    using co assms(2) by (simp add: coord_ok_def request_def Let_def)
  moreover have "\<not> is_idle (sys_coord w)" using co assms(2) by (simp add: coord_ok_def is_idle_def)
  ultimately show ?thesis by blast
qed


subsection \<open>The task finishes\<close>

fun run_task :: "('n, 'd, 'k) platform \<Rightarrow> nat \<Rightarrow> ('n, 'd, 'k, 'h, 'l, 'v) sys \<Rightarrow> ('n, 'd, 'k, 'h, 'l, 'v) sys" where
  "run_task p 0 w = w"
| "run_task p (Suc n) w = run_task p n (run_maintenance_step p (sys_task w) w)"

definition reboots ::
  "('n, 'd, 'k) platform \<Rightarrow> maintenance_action \<Rightarrow> ('n, 'd, 'k, 'h, 'l, 'v) sys \<Rightarrow> bool" where
  "reboots p r w \<longleftrightarrow> (\<exists>n. sys_task (run_task p n w) = Rebooting r)"

lemma reboots_step: "reboots p r (run_maintenance_step p (sys_task w) w) \<Longrightarrow> reboots p r w"
  unfolding reboots_def by (metis run_task.simps(2))

lemma reboots_now: "sys_task w = Rebooting r \<Longrightarrow> reboots p r w"
  unfolding reboots_def by (metis run_task.simps(1))

lemma worker_erase_action: "worker_alive (snd (erase_action p r s)) = worker_alive s"
  "accepting_writes (snd (erase_action p r s)) = accepting_writes s"
  by (cases r; simp add: erase_action_def voidE_def clear_sessions_def reset_def bindE_def run_def with_inner_def
      split: prod.splits sum.splits)+

lemma reboots_committing:
  assumes "sys_task w = Committing r l c" and "requested (sys_coord w) = r" and "worker_alive (sys_store w)"
  shows "reboots p r w"
proof -
  let ?w1 = "run_maintenance_step p (sys_task w) w"
  let ?w2 = "run_maintenance_step p (sys_task ?w1) ?w1"
  have "fst (begin_reboot r (sys_coord w))" using assms(2)
    by (auto simp: begin_reboot_def requested_def split: option.splits)
  then have 1: "sys_task ?w1 = Restarting r" "sys_store ?w1 = sys_store w"
    using assms(1) by (auto split: prod.splits)
  then have "sys_task ?w2 = Rebooting r" using assms(3) by (simp add: restart_def run_def)
  then show ?thesis by (intro reboots_step [of p r w] reboots_step [of p r ?w1] reboots_now)
qed

abbreviation sealed :: "('n, 'd, 'k, 'h, 'l, 'v) nvs_store \<Rightarrow> ('n, 'd, 'k, 'h, 'l, 'v) nvs_store" where
  "sealed s \<equiv> s\<lparr>accepting_writes := False\<rparr>"

text \<open>From the choice of an action to its erasure.\<close>

lemma reboots_choosing:
  assumes "sys_task w = Choosing Reboot l c" and "requested (sys_coord w) = r" and "r \<noteq> Reboot"
    and "\<And>l' w'. sys_task w' = Erasing r Reboot l' c \<Longrightarrow> sys_coord w' = sys_coord w \<Longrightarrow>
       sys_store w' = sealed (sys_store w) \<Longrightarrow> reboots p r w'"
  shows "reboots p r w"
proof -
  have sealing: "reboots p r v" if "sys_task v = Sealing r Reboot l' c" "sys_coord v = sys_coord w"
    "sys_store v = sys_store w" for v :: "('a, 'b, 'c, 'd, 'e, 'f) sys" and l'
    by (rule reboots_step, rule assms(4) [of _ l']) (use that in \<open>simp_all add: seal_writes_def\<close>)
  let ?w1 = "run_maintenance_step p (sys_task w) w"
  have w1: "sys_coord ?w1 = sys_coord w" "sys_store ?w1 = sys_store w" using assms(1) by (simp_all add: Let_def)
  consider (seal) l' where "sys_task ?w1 = Sealing r Reboot l' c"
    | (up) d where "sys_task ?w1 = Upgrading Reboot d" "c = Some d" "r = Reset"
    using assms(1-3) by (cases r; cases c; cases l) (auto simp: Let_def action_order)
  then show ?thesis
  proof cases
    case seal
    then show ?thesis using w1 sealing by (intro reboots_step [of p r w]) blast
  next
    case up
    then show ?thesis using w1 by (intro reboots_step [of p r w] reboots_step [of p r ?w1]) (rule sealing; simp)
  qed
qed


lemma reboots_retry:
  assumes "sys_task w = Choosing Reboot l c" and "requested (sys_coord w) = r" and "r \<noteq> Reboot"
    and "worker_alive (sys_store w)"
    and "fst (erase_action p r (((\<lambda>s. snd (erase_action p r s)) ^^ k) (sealed (sys_store w)))) = Inr ()"
  shows "reboots p r w"
  using assms
proof (induction k arbitrary: w l)
  case 0
  show ?case
  proof (rule reboots_choosing [OF "0.prems"(1-3)])
    fix l' and w' :: "('a, 'b, 'c, 'd, 'e, 'f) sys"
    assume w': "sys_task w' = Erasing r Reboot l' c" "sys_coord w' = sys_coord w" "sys_store w' = sealed (sys_store w)"
    obtain s where e: "erase_action p r (sealed (sys_store w)) = (Inr (), s)"
      using "0.prems"(5) by (metis funpow_0 prod.collapse)
    have a: "worker_alive s" using worker_erase_action(1) [of p r "sealed (sys_store w)"] e "0.prems"(4) by simp
    show "reboots p r w'"
      by (rule reboots_step, rule reboots_committing [of _ r l' c]) (use w' e a "0.prems"(2) in simp_all)
  qed
next
  case (Suc k)
  let ?f = "\<lambda>s. snd (erase_action p r s)"
  show ?case
  proof (rule reboots_choosing [OF Suc.prems(1-3)])
    fix l' and w' :: "('a, 'b, 'c, 'd, 'e, 'f) sys"
    assume w': "sys_task w' = Erasing r Reboot l' c" "sys_coord w' = sys_coord w" "sys_store w' = sealed (sys_store w)"
    obtain x s where e: "erase_action p r (sealed (sys_store w)) = (x, s)" by (rule prod.exhaust)
    have a: "worker_alive s" "\<not> accepting_writes s"
      using worker_erase_action [of p r "sealed (sys_store w)"] e Suc.prems(4) by simp_all
    then have s: "sealed s = s" by simp
    have ok: "fst (erase_action p r ((?f ^^ k) (sealed s))) = Inr ()"
      using Suc.prems(5) e s by (simp add: funpow_Suc_right del: funpow.simps(2))
    show "reboots p r w'"
    proof (cases x)
      case (Inl y)
      show ?thesis
        by (rule reboots_step, rule Suc.IH [of _ l']) (use w' e a ok Inl Suc.prems(2,3) in simp_all)
    next
      case (Inr u)
      show ?thesis
        by (rule reboots_step, rule reboots_committing [of _ r l' c]) (use w' e a Inr Suc.prems(2) in simp_all)
    qed
  qed
qed

text \<open>C12: a maintenance task whose requests have stopped coming reboots the device. If the flash
  lets the erasure succeed after any number of failed attempts, finitely many steps of
  \<open>run_maintenance\<close> lead to the restart with the requested action applied.\<close>

theorem maintenance_reboots:
  assumes "sys_task w = Entering" and "requested_action (sys_coord w) = Some r" and "worker_alive (sys_store w)"
    and "fst (erase_action p r (((\<lambda>s. snd (erase_action p r s)) ^^ k) (sealed (sys_store w)))) = Inr ()"
  shows "\<exists>n. sys_task (run_task p n w) = Rebooting r"
proof -
  let ?w1 = "run_maintenance_step p (sys_task w) w"
  have r: "requested (sys_coord w) = r" using assms(2) by (simp add: requested_def)
  have choose: "reboots p r v" if "sys_task v = Choosing Reboot l c" "sys_coord v = sys_coord w"
    "sys_store v = sys_store w" for v :: "('a, 'b, 'c, 'd, 'e, 'f) sys" and l c
  proof (cases "r = Reboot")
    case True
    have "sys_task (run_maintenance_step p (sys_task v) v) = Committing Reboot l c"
      using that r True by (simp add: Let_def)
    then show ?thesis
      by (intro reboots_step [of p r v] reboots_committing [of _ r l c]) (use that r True assms(3) in simp_all)
  next
    case False
    show ?thesis by (rule reboots_retry [of v l c r p k]) (use that r False assms(3,4) in simp_all)
  qed
  have "reboots p r w"
  proof (cases "sys_active w")
    case None
    then show ?thesis
      by (intro reboots_step [of p r w] choose [of _ False None]) (use assms(1) in \<open>simp_all add: Let_def current_def\<close>)
  next
    case (Some c)
    have 1: "sys_task ?w1 = Stopping r c" "sys_coord ?w1 = sys_coord w" "sys_store ?w1 = sys_store w"
      using Some assms(1) r by (simp_all add: current_def Let_def)
    show ?thesis
      by (intro reboots_step [of p r w] reboots_step [of p r ?w1] choose [of _ "r = Reset" "Some c"])
        (use 1 in simp_all)
  qed
  then show ?thesis by (simp add: reboots_def)
qed


subsection \<open>Witnesses\<close>

text \<open>
  A session clear is asked for while client 5 is online, and a reset arrives while the client
  is shutting down.
\<close>

type_synonym sim_sys = "(sim, bytes, byte \<times> bytes, nat, nat, nat) sys"
type_synonym sim_nvs_store = "(sim, bytes, byte \<times> bytes, nat, nat, nat) nvs_store"

definition demo_store :: sim_nvs_store where
  "demo_store = fresh_store (demo_flash [])"

definition demo_clear :: sim_sys where
  "demo_clear = (ask ClearSessions ((boot demo_store)\<lparr>sys_active := Some 5\<rparr>))\<lparr>sys_task := Entering\<rparr>"

definition demo_upgrade :: sim_sys where
  "demo_upgrade = ask Reset (run_maintenance_step (sim_platform False) Entering demo_clear)"

lemma reachable_run_task: "reachable p w0 w \<Longrightarrow> reachable p w0 (run_task p n w)"
  by (induction n arbitrary: w) (auto intro: reachable.step maintains)

lemma demo_clear_reachable: "reachable (sim_platform False) (boot demo_store) demo_clear"
proof -
  let ?w = "boot demo_store"
  have "reachable (sim_platform False) ?w (?w\<lparr>sys_active := Some 5\<rparr>)"
    using reachable.step [OF reachable.init connects, of _ ?w 5] by (simp add: active_set_def)
  then have a: "reachable (sim_platform False) ?w (ask ClearSessions (?w\<lparr>sys_active := Some 5\<rparr>))"
    by (rule reachable.step) (rule asks)
  have "sys_task (ask ClearSessions (?w\<lparr>sys_active := Some 5\<rparr>)) = Spawning"
    by (simp add: boot_def request_def coordinator_new_def Let_def)
  then show ?thesis unfolding demo_clear_def by (intro reachable.step [OF a] spawned)
qed

lemma demo_upgrade_reachable: "reachable (sim_platform False) (boot demo_store) demo_upgrade"
proof -
  have "sys_task demo_clear = Entering" by (simp add: demo_clear_def)
  then have "reachable (sim_platform False) (boot demo_store) (run_maintenance_step (sim_platform False) Entering demo_clear)"
    using reachable.step [OF demo_clear_reachable maintains] by simp
  then show ?thesis unfolding demo_upgrade_def by (rule reachable.step) (rule asks)
qed

lemma demo_reset: "fst (reset (sim_platform False) (sealed demo_store)) = Inr ()"
  by (simp add: demo_store_def fresh_store_def reset_def run_def with_inner_def reset_all_def complete_reset_def
      erase_all_def erase_signal_def erase_namespace_def numeral_3_eq_3 sim_eval)

lemma demo_final:
  "sys_task (run_task (sim_platform False) 6 demo_upgrade) = Restarting Reset \<and>
   sys_calls (run_task (sim_platform False) 6 demo_upgrade) = [(5, Shutdown), (5, Logout)]"
proof -
  obtain s' where r: "reset (sim_platform False) (demo_store\<lparr>accepting_writes := False\<rparr>) = (Inr (), s')"
    using demo_reset by (metis prod.collapse)
  show ?thesis
    by (simp add: numeral_eq_Suc demo_upgrade_def demo_clear_def boot_def ask_def request_def coordinator_new_def
        current_def requested_def action_order max_def begin_reboot_def erase_action_def seal_writes_def r Let_def)
qed


theorem one_maintenance_task_witness:
  "fst (request Reset (sys_coord demo_clear)) = Queued \<and> fst (request Reset (sys_coord demo_upgrade)) = Queued"
proof -
  have "sys_task demo_clear = Entering" "committed (sys_task demo_upgrade) = None" "sys_task demo_upgrade \<noteq> No_Task"
    by (simp_all add: demo_upgrade_def demo_clear_def boot_def ask_def request_def coordinator_new_def
        current_def requested_def Let_def)
  then show ?thesis
    using one_maintenance_task [OF demo_clear_reachable] one_maintenance_task [OF demo_upgrade_reachable] by simp
qed

theorem maintenance_reboots_witness:
  "\<exists>n. sys_task (run_task (sim_platform False) n (demo_clear\<lparr>sys_coord := snd (request Reset (sys_coord demo_clear))\<rparr>)) =
     Rebooting Reset"
proof (rule maintenance_reboots [where k = 0])
  let ?w = "demo_clear\<lparr>sys_coord := snd (request Reset (sys_coord demo_clear))\<rparr>"
  have s: "sys_store ?w = demo_store" by (simp add: demo_clear_def boot_def)
  show "sys_task ?w = Entering" by (simp add: demo_clear_def)
  show "requested_action (sys_coord ?w) = Some Reset"
    by (simp add: demo_clear_def boot_def request_def coordinator_new_def max_def action_order Let_def)
  show "worker_alive (sys_store ?w)" unfolding s by (simp add: demo_store_def fresh_store_def)
  show "fst (erase_action (sim_platform False) Reset
      (((\<lambda>s. snd (erase_action (sim_platform False) Reset s)) ^^ 0) (sealed (sys_store ?w)))) = Inr ()"
    unfolding s using demo_reset by (simp add: erase_action_def)
qed

end
