(* ===== verification/Byte_Reader.thy ===== *)
theory Byte_Reader
  imports Esp_Prelude
begin

text \<open>
  \<open>std::io::Read\<close> as the network code uses it. A reader is a function from the size of the
  caller's buffer and its state to the bytes put into the buffer, or an error. The locale
  \<open>byte_reader\<close> is the contract of the trait: what is read is the next part of the bytes
  still to come, and an empty read into a non-empty buffer means that there are none. The
  wrappers of the program (the handshake leftover in front of a socket, the body readers of
  the HTTP client) are readers again, and their theories show it.
\<close>

section \<open>Errors\<close>

text \<open>
  The kinds of \<open>std::io::Error\<close> the program tells apart; \<open>OtherIo\<close> is any other kind.
  \<open>InvalidData\<close> carries the message, as a value.
\<close>

datatype 'w io_error =
    WouldBlock
  | TimedOut
  | Interrupted
  | UnexpectedEof
  | InvalidData 'w
  | OtherIo nat

type_synonym ('s, 'w) reader = "nat \<Rightarrow> ('s, 'w io_error, bytes) io"

section \<open>The contract\<close>

locale byte_reader =
  fixes rd :: "('s, 'w) reader" and unread :: "'s \<Rightarrow> bytes"
  assumes read_ok: "rd n s = (Inr bs, s') \<Longrightarrow> length bs \<le> n \<and> unread s = bs @ unread s'"
    and read_err: "rd n s = (Inl e, s') \<Longrightarrow> unread s' = unread s"
    and read_eof: "rd n s = (Inr [], s') \<Longrightarrow> 0 < n \<Longrightarrow> unread s = []"
begin

lemma read_shrinks: "rd n s = (Inr bs, s') \<Longrightarrow> length (unread s') + length bs = length (unread s)"
  using read_ok [of n s bs s'] by simp

end

text \<open>
  A reader that is never interrupted more often than its state allows; the loops of \<open>std\<close>
  that retry on \<open>Interrupted\<close> end on such a reader.
\<close>

locale patient_reader = byte_reader rd unread
  for rd :: "('s, 'w) reader" and unread :: "'s \<Rightarrow> bytes" +
  fixes interruptions :: "'s \<Rightarrow> nat"
  assumes interrupted: "rd n s = (Inl Interrupted, s') \<Longrightarrow> interruptions s' < interruptions s"
    and not_interrupted: "rd n s = (Inr bs, s') \<Longrightarrow> interruptions s' \<le> interruptions s"

section \<open>A scripted peer\<close>

text \<open>
  The peer of the tests in \<open>src/ws.rs\<close>: it hands out the given non-empty pieces, cut to the
  size of the buffer, and fails where the script says so.
\<close>

datatype 'w event = Gives byte bytes | Fails "'w io_error"

type_synonym 'w peer = "'w event list"

fun peer_read :: "('w peer, 'w) reader" where
  "peer_read n [] = (Inr [], [])"
| "peer_read n (Fails e # p) = (Inl e, p)"
| "peer_read n (Gives b bs # p) =
     (if n = 0 then (Inr [], Gives b bs # p)
      else (Inr (take n (b # bs)),
            case drop n (b # bs) of [] \<Rightarrow> p | c # cs \<Rightarrow> Gives c cs # p))"

fun peer_unread :: "'w peer \<Rightarrow> bytes" where
  "peer_unread [] = []"
| "peer_unread (Fails e # p) = peer_unread p"
| "peer_unread (Gives b bs # p) = b # bs @ peer_unread p"

fun peer_interruptions :: "'w peer \<Rightarrow> nat" where
  "peer_interruptions [] = 0"
| "peer_interruptions (Fails e # p) = Suc (peer_interruptions p)"
| "peer_interruptions (Gives b bs # p) = peer_interruptions p"

lemma peer_read_Gives:
  assumes "peer_read n (Gives b bs # p) = (r, p')"
  shows "\<exists>xs. r = Inr xs \<and> length xs \<le> n \<and> b # bs @ peer_unread p = xs @ peer_unread p' \<and>
    peer_interruptions p' = peer_interruptions p \<and> (0 < n \<longrightarrow> xs \<noteq> [])"
proof (cases n)
  case 0
  then show ?thesis using assms by auto
next
  case (Suc m)
  have "take m bs @ drop m bs = bs" by simp
  then show ?thesis using assms Suc by (cases "drop m bs") (auto simp flip: append_assoc)
qed

lemma peer_law:
  "peer_read n p = (Inr bs, p') \<Longrightarrow> length bs \<le> n \<and> peer_unread p = bs @ peer_unread p' \<and>
     peer_interruptions p' \<le> peer_interruptions p \<and> (bs = [] \<longrightarrow> 0 < n \<longrightarrow> peer_unread p = [])"
  "peer_read n p = (Inl e, p') \<Longrightarrow> peer_unread p' = peer_unread p \<and> peer_interruptions p' < peer_interruptions p"
  by (cases p rule: peer_unread.cases; auto dest!: peer_read_Gives simp del: peer_read.simps(3))+

interpretation peer: patient_reader peer_read peer_unread peer_interruptions
  by unfold_locales (auto dest: peer_law)

end
