(* ===== verification/Ws_Codec.thy ===== *)
theory Ws_Codec
  imports Byte_Reader
begin

text \<open>
  The WebSocket codec of \<open>src/ws.rs\<close>, the part without input and output: frame headers with
  their checks, reassembly of fragmented messages (\<open>dispatch\<close>), close frames, and the masked
  frames the client sends. A reference decoder for a whole byte string says what the reading
  state machine of theory \<open>Ws_Client\<close> has to deliver.
\<close>

section \<open>Data\<close>

datatype ws_violation =
    Reserved_Bits | Server_Frame_Masked | Length_Overflow | Fragmented_Control | Control_Too_Long
  | Orphan_Continuation | Message_Too_Big | Frame_Too_Big | Nested_Data_Frame | Reserved_Opcode
  | Close_One_Byte | Close_Not_Utf8
  | Handshake_Too_Large | Handshake_Not_Ascii | Malformed_Status | Upgrade_Refused str
  | Missing_Upgrade | Missing_Connection | Accept_Mismatch | Missing_Accept

type_synonym ws_error = "ws_violation io_error"

abbreviation protocol_error :: "ws_violation \<Rightarrow> ws_error" where
  "protocol_error \<equiv> InvalidData"

record limits =
  max_frame_size :: nat
  max_message_size :: nat

datatype frame =
    Binary bytes
  | Text bytes
  | Ping bytes
  | Pong bytes
  | Close "(u16 \<times> str) option"

text \<open>
  A frame whose header has been parsed. The payload buffer of \<open>inc_len\<close> bytes is zeroed and
  then filled from the front; \<open>inc_got\<close> is its filled part, so \<open>filled\<close> is its length.
\<close>

record incoming =
  inc_fin :: bool
  inc_opcode :: byte
  inc_len :: nat
  inc_got :: bytes

text \<open>A fragmented message being reassembled.\<close>

record partial_msg =
  part_opcode :: byte
  part_buf :: bytes

definition MAX_CONTROL_PAYLOAD :: nat where "MAX_CONTROL_PAYLOAD = 125"
definition MASK_CHUNK :: nat where "MASK_CHUNK = 256"
definition OP_CONTINUATION :: byte where "OP_CONTINUATION = 0x0"
definition OP_TEXT :: byte where "OP_TEXT = 0x1"
definition OP_BINARY :: byte where "OP_BINARY = 0x2"
definition OP_CLOSE :: byte where "OP_CLOSE = 0x8"
definition OP_PING :: byte where "OP_PING = 0x9"
definition OP_PONG :: byte where "OP_PONG = 0xA"

lemmas ops = OP_CONTINUATION_def OP_TEXT_def OP_BINARY_def OP_CLOSE_def OP_PING_def OP_PONG_def

section \<open>Frame headers\<close>

text \<open>The checks on the first two bytes, and the length of the header they announce.\<close>

definition check_first :: "byte \<Rightarrow> byte \<Rightarrow> ws_error + unit" where
  "check_first b0 b1 =
     (if b0 AND 0x70 \<noteq> 0 then Inl (protocol_error Reserved_Bits)
      else if b1 AND 0x80 \<noteq> 0 then Inl (protocol_error Server_Frame_Masked)
      else Inr ())"

definition header_total :: "byte \<Rightarrow> nat" where
  "header_total b1 =
     (let len7 = unat (b1 AND 0x7F) in if len7 = 126 then 4 else if len7 = 127 then 10 else 2)"

text \<open>The payload length, from a complete header. \<open>usize::try_from\<close> fails from \<open>2\<^sup>3\<^sup>2\<close> on.\<close>

definition payload_len :: "bytes \<Rightarrow> ws_error + nat" where
  "payload_len h =
     (let len7 = unat (h ! 1 AND 0x7F) in
      if len7 = 126 then Inr (be_val [h ! 2, h ! 3])
      else if len7 = 127 then
        (let v = be_val (take 8 (drop 2 h)) in
         if v < usize_limit then Inr v else Inl (protocol_error Length_Overflow))
      else Inr len7)"

definition saturating_add :: "nat \<Rightarrow> nat \<Rightarrow> nat" where
  "saturating_add a b = min (a + b) (usize_limit - 1)"

definition check_opcode ::
  "limits \<Rightarrow> partial_msg option \<Rightarrow> bool \<Rightarrow> byte \<Rightarrow> nat \<Rightarrow> ws_error + unit" where
  "check_opcode lim part fin opcode len =
     (if opcode = OP_CLOSE \<or> opcode = OP_PING \<or> opcode = OP_PONG then
        if \<not> fin then Inl (protocol_error Fragmented_Control)
        else if len > MAX_CONTROL_PAYLOAD then Inl (protocol_error Control_Too_Long)
        else Inr ()
      else if opcode = OP_CONTINUATION then
        (case part of
           None \<Rightarrow> Inl (protocol_error Orphan_Continuation)
         | Some pm \<Rightarrow>
             if saturating_add (length (part_buf pm)) len > max_message_size lim
             then Inl (protocol_error Message_Too_Big)
             else if len > max_frame_size lim then Inl (protocol_error Frame_Too_Big)
             else Inr ())
      else if opcode = OP_TEXT \<or> opcode = OP_BINARY then
        if part \<noteq> None then Inl (protocol_error Nested_Data_Frame)
        else if len > max_frame_size lim then Inl (protocol_error Frame_Too_Big)
        else if \<not> fin \<and> len > max_message_size lim then Inl (protocol_error Message_Too_Big)
        else Inr ()
      else Inl (protocol_error Reserved_Opcode))"

text \<open>What \<open>read_header\<close> makes of a complete header.\<close>

definition parse_header :: "limits \<Rightarrow> partial_msg option \<Rightarrow> bytes \<Rightarrow> ws_error + incoming" where
  "parse_header lim part h =
     (case payload_len h of
        Inl e \<Rightarrow> Inl e
      | Inr len \<Rightarrow>
          let fin = (h ! 0 AND 0x80 \<noteq> 0); opcode = h ! 0 AND 0x0F
          in case check_opcode lim part fin opcode len of
               Inl e \<Rightarrow> Inl e
             | Inr _ \<Rightarrow> Inr \<lparr>inc_fin = fin, inc_opcode = opcode, inc_len = len, inc_got = []\<rparr>)"

section \<open>Complete frames\<close>

definition parse_close :: "bytes \<Rightarrow> ws_error + (u16 \<times> str) option" where
  "parse_close payload =
     (case payload of
        [] \<Rightarrow> Inr None
      | [_] \<Rightarrow> Inl (protocol_error Close_One_Byte)
      | a # b # rest \<Rightarrow>
          (case from_utf8 rest of
             None \<Rightarrow> Inl (protocol_error Close_Not_Utf8)
           | Some reason \<Rightarrow> Inr (Some (word_of_nat (be_val [a, b]), reason))))"

text \<open>
  \<open>dispatch\<close> returns the frame the caller sees, if any, and the fragmented message in
  progress afterwards. \<open>expect\<close> and \<open>unreachable!\<close> are its \<open>None\<close>: \<open>read_header\<close> has
  refused such frames before.
\<close>

definition dispatch ::
  "partial_msg option \<Rightarrow> incoming \<Rightarrow> ((ws_error + frame option) \<times> partial_msg option) option" where
  "dispatch part inc =
     (let opcode = inc_opcode inc; payload = inc_got inc in
      if opcode = OP_PING then Some (Inr (Some (Ping payload)), part)
      else if opcode = OP_PONG then Some (Inr (Some (Pong payload)), part)
      else if opcode = OP_CLOSE then
        (case parse_close payload of
           Inl e \<Rightarrow> Some (Inl e, part)
         | Inr c \<Rightarrow> Some (Inr (Some (Close c)), part))
      else if opcode = OP_CONTINUATION then
        (case part of
           None \<Rightarrow> None
         | Some pm \<Rightarrow>
             let pm' = pm\<lparr>part_buf := part_buf pm @ payload\<rparr> in
             if inc_fin inc
             then Some (Inr (Some (if part_opcode pm' = OP_TEXT then Text (part_buf pm') else Binary (part_buf pm'))),
                        None)
             else Some (Inr None, Some pm'))
      else if opcode = OP_TEXT \<or> opcode = OP_BINARY then
        if inc_fin inc
        then Some (Inr (Some (if opcode = OP_TEXT then Text payload else Binary payload)), part)
        else Some (Inr None, Some \<lparr>part_opcode = opcode, part_buf = payload\<rparr>)
      else None)"

section \<open>Frames the client sends\<close>

definition frame_header :: "byte \<Rightarrow> nat \<Rightarrow> bytes" where
  "frame_header opcode len =
     (0x80 OR opcode) #
     (if len \<le> 125 then [0x80 OR word_of_nat len]
      else if len \<le> 65535 then (0x80 OR 126) # be_bytes 2 len
      else (0x80 OR 127) # be_bytes 8 len)"

text \<open>\<open>payload.chunks(n)\<close>.\<close>

function chunks :: "nat \<Rightarrow> bytes \<Rightarrow> bytes list" where
  "chunks n xs = (if xs = [] \<or> n = 0 then [] else take n xs # chunks n (drop n xs))"
  by pat_completeness auto
termination by (relation "measure (\<lambda>(n, xs). length xs)") auto

declare chunks.simps [simp del]

text \<open>One block, at its offset in the payload: \<open>b ^ mask[(base + j) & 3]\<close>.\<close>

definition mask_block :: "bytes \<Rightarrow> nat \<Rightarrow> bytes \<Rightarrow> bytes" where
  "mask_block mkey base block =
     map (\<lambda>j. block ! j XOR mkey ! ((base + j) AND 3)) [0..<length block]"

fun masked_blocks :: "bytes \<Rightarrow> nat \<Rightarrow> bytes list \<Rightarrow> bytes list" where
  "masked_blocks mkey i [] = []"
| "masked_blocks mkey i (block # rest) =
     mask_block mkey (i * MASK_CHUNK) block # masked_blocks mkey (Suc i) rest"

text \<open>The pieces \<open>send_frame\<close> passes to \<open>write_all\<close>, in order, for the four mask bytes drawn.\<close>

definition frame_writes :: "byte \<Rightarrow> bytes \<Rightarrow> bytes \<Rightarrow> ws_error + bytes list" where
  "frame_writes opcode mkey payload =
     (if opcode \<ge> OP_CLOSE \<and> length payload > MAX_CONTROL_PAYLOAD
      then Inl (protocol_error Control_Too_Long)
      else Inr ((frame_header opcode (length payload) @ mkey) #
                masked_blocks mkey 0 (chunks MASK_CHUNK payload)))"

section \<open>Reference decoder\<close>

text \<open>
  The next frame of a byte string: nothing when bytes are missing, otherwise the frame with its
  payload, and the rest.
\<close>

definition decode_frame ::
  "limits \<Rightarrow> partial_msg option \<Rightarrow> bytes \<Rightarrow> ws_error + (incoming \<times> bytes) option" where
  "decode_frame lim part bs =
     (if length bs < 2 then Inr None
      else case check_first (bs ! 0) (bs ! 1) of
        Inl e \<Rightarrow> Inl e
      | Inr _ \<Rightarrow>
          let total = header_total (bs ! 1) in
          if length bs < total then Inr None
          else case parse_header lim part (take total bs) of
            Inl e \<Rightarrow> Inl e
          | Inr inc \<Rightarrow>
              if length bs < total + inc_len inc then Inr None
              else Inr (Some (inc\<lparr>inc_got := take (inc_len inc) (drop total bs)\<rparr>,
                              drop (total + inc_len inc) bs)))"

datatype decoded = Starved | Refused ws_error | Delivered frame "partial_msg option" bytes

lemma header_total_ge: "2 \<le> header_total b"
  by (simp add: header_total_def Let_def)

lemma decode_frame_rest: "decode_frame lim part bs = Inr (Some (inc, rest)) \<Longrightarrow> length rest < length bs"
  using header_total_ge [of "bs ! 1"]
  by (auto simp: decode_frame_def Let_def split: if_splits sum.splits)

text \<open>The next frame the caller sees, with fragments folded into their message.\<close>

function decode :: "limits \<Rightarrow> partial_msg option \<Rightarrow> bytes \<Rightarrow> decoded" where
  "decode lim part bs =
     (case decode_frame lim part bs of
        Inl e \<Rightarrow> Refused e
      | Inr None \<Rightarrow> Starved
      | Inr (Some (inc, rest)) \<Rightarrow>
          (case dispatch part inc of
             Some (Inl e, _) \<Rightarrow> Refused e
           | Some (Inr (Some f), part') \<Rightarrow> Delivered f part' rest
           | Some (Inr None, part') \<Rightarrow> decode lim part' rest
           | None \<Rightarrow> Starved))"
  by pat_completeness auto
termination
  by (relation "measure (\<lambda>(_, _, bs). length bs)") (auto dest: decode_frame_rest)

declare decode.simps [simp del]

lemma decode_rest: "decode lim part bs = Delivered f part' rest \<Longrightarrow> length rest < length bs"
proof (induction lim part bs rule: decode.induct)
  case (1 lim part bs)
  from "1.prems" obtain inc r where df: "decode_frame lim part bs = Inr (Some (inc, r))"
    by (auto simp: decode.simps [of lim part bs] split: sum.splits option.splits)
  note lt = decode_frame_rest [OF df]
  show ?case
  proof (cases "\<exists>p. dispatch part inc = Some (Inr None, p)")
    case True
    then obtain p where p: "dispatch part inc = Some (Inr None, p)" by blast
    then have "decode lim p r = Delivered f part' rest" using "1.prems" df by (simp add: decode.simps [of lim part bs])
    then have "length rest < length r" using "1.IH" df p by blast
    then show ?thesis using lt by simp
  next
    case False
    then show ?thesis using "1.prems" df lt
      by (auto simp: decode.simps [of lim part bs] split: option.splits sum.splits prod.splits)
  qed
qed

function decode_all :: "limits \<Rightarrow> partial_msg option \<Rightarrow> bytes \<Rightarrow> frame list" where
  "decode_all lim part bs =
     (case decode lim part bs of
        Delivered f part' rest \<Rightarrow> f # decode_all lim part' rest
      | _ \<Rightarrow> [])"
  by pat_completeness auto
termination
  by (relation "measure (\<lambda>(_, _, bs). length bs)") (auto dest: decode_rest)

declare decode_all.simps [simp del]

lemma decode_all_cong:
  "decode lim part bs = decode lim part' bs' \<Longrightarrow> decode_all lim part bs = decode_all lim part' bs'"
  by (simp add: decode_all.simps [of lim part bs] decode_all.simps [of lim part' bs'])

end
