(* ===== verification/Ws_Refine.thy ===== *)
theory Ws_Refine
  imports Ws_Client
begin

text \<open>
  \<open>read_frame\<close> refines the reference decoder. The view of a client is the byte string that
  starts with the frame being read: what the client holds of it, the handshake leftover, and
  everything the socket will still give. Reading moves bytes inside the view, and delivers
  exactly what \<open>decode\<close> finds at its front.
\<close>

locale ws_reader = byte_reader rd unread
  for rd :: "('s, ws_violation) reader" and unread :: "'s \<Rightarrow> bytes"
begin

definition ahead :: "'s ws_client \<Rightarrow> bytes" where
  "ahead c = drop (ws_pending_pos c) (ws_pending c) @ unread (ws_stream c)"

text \<open>The fields that reading bytes leaves alone.\<close>

definition same_frame :: "'s ws_client \<Rightarrow> 's ws_client \<Rightarrow> bool" where
  "same_frame c c' \<longleftrightarrow>
     ws_limits c' = ws_limits c \<and> ws_incoming c' = ws_incoming c \<and> ws_partial c' = ws_partial c"

lemma same_frame_refl [simp]: "same_frame c c"
  by (simp add: same_frame_def)

lemma same_frame_trans: "same_frame a b \<Longrightarrow> same_frame b c \<Longrightarrow> same_frame a c"
  by (simp add: same_frame_def)

lemma fill_ok:
  assumes "fill rd n c = (Inr bs, c')"
  shows "length bs \<le> n" and "ahead c = bs @ ahead c'" and "same_frame c c'" and "ws_header c' = ws_header c"
proof -
  let ?left = "drop (ws_pending_pos c) (ws_pending c)"
  have "length bs \<le> n \<and> ahead c = bs @ ahead c' \<and> same_frame c c' \<and> ws_header c' = ws_header c"
  proof (cases "?left = []")
    case True
    then obtain s where "rd n (ws_stream c) = (Inr bs, s)" "c' = c\<lparr>ws_stream := s\<rparr>"
      using assms by (auto simp: fill_def Let_def split: prod.splits sum.splits list.splits)
    then show ?thesis using True read_ok [of n "ws_stream c" bs s] by (simp add: ahead_def same_frame_def)
  next
    case False
    then have c': "c' = c\<lparr>ws_pending_pos := ws_pending_pos c + min (length ?left) n\<rparr>"
      and bs: "bs = take (min (length ?left) n) ?left"
      using assms by (simp_all add: fill_def Let_def)
    have "?left = bs @ drop (ws_pending_pos c + min (length ?left) n) (ws_pending c)"
      unfolding bs by (metis add.commute append_take_drop_id drop_drop)
    then show ?thesis using c' bs by (simp add: ahead_def same_frame_def)
  qed
  then show "length bs \<le> n" and "ahead c = bs @ ahead c'" and "same_frame c c'" and "ws_header c' = ws_header c"
    by blast+
qed

lemma fill_err:
  assumes "fill rd n c = (Inl e, c')"
  shows "ahead c' = ahead c" and "same_frame c c'" and "ws_header c' = ws_header c"
  using assms read_err read_ok
  by (auto simp: fill_def Let_def ahead_def same_frame_def split: if_splits prod.splits sum.splits list.splits)

lemma header_upto_ok:
  assumes "header_upto rd n c = (r, c')"
  shows "ws_header c' @ ahead c' = ws_header c @ ahead c" and "same_frame c c'"
    and "length (ws_header c') \<le> max n (length (ws_header c))" and "\<exists>xs. ws_header c' = ws_header c @ xs"
    and "r = Inr True \<Longrightarrow> n \<le> length (ws_header c')"
proof -
  have "ws_header c' @ ahead c' = ws_header c @ ahead c \<and> same_frame c c' \<and>
    length (ws_header c') \<le> max n (length (ws_header c)) \<and> (\<exists>xs. ws_header c' = ws_header c @ xs) \<and>
    (r = Inr True \<longrightarrow> n \<le> length (ws_header c'))"
    using assms
  proof (induction "n - length (ws_header c)" arbitrary: c rule: less_induct)
    case less
    show ?case
    proof (cases "length (ws_header c) < n")
      case False
      then show ?thesis using less.prems by (subst (asm) header_upto.simps) auto
    next
      case True
      obtain x d where f: "fill rd (n - length (ws_header c)) c = (x, d)" by (rule prod.exhaust)
      show ?thesis
      proof (cases x)
        case (Inl e)
        then have "c' = d" "r \<noteq> Inr True" using less.prems True f
          by (subst (asm) header_upto.simps, auto split: if_splits)+
        then show ?thesis using fill_err [of "n - length (ws_header c)" c e d] f Inl True by simp
      next
        case (Inr bs)
        note o = fill_ok [OF f [unfolded Inr]]
        let ?d = "d\<lparr>ws_header := ws_header c @ bs\<rparr>"
        have run: "header_upto rd n ?d = (r, c')" using less.prems True f Inr by (subst (asm) header_upto.simps) simp
        have "n - length (ws_header ?d) < n - length (ws_header c)"
          using fill_progress [OF f [unfolded Inr, symmetric] True] by simp
        note ih = less.hyps [OF this run]
        have "ahead ?d = ahead d" "same_frame c ?d" using o(3) by (simp_all add: ahead_def same_frame_def)
        then show ?thesis using ih o(1,2) True by (auto intro: same_frame_trans)
      qed
    qed
  qed
  then show "ws_header c' @ ahead c' = ws_header c @ ahead c" and "same_frame c c'"
    and "length (ws_header c') \<le> max n (length (ws_header c))" and "\<exists>xs. ws_header c' = ws_header c @ xs"
    and "r = Inr True \<Longrightarrow> n \<le> length (ws_header c')" by blast+
qed

lemma fill_into_ok:
  assumes "fill_into rd len got c = (r, got', c')" and "length got \<le> len"
  shows "got' @ ahead c' = got @ ahead c" and "same_frame c c'" and "ws_header c' = ws_header c"
    and "length got' \<le> len" and "r = Inr () \<Longrightarrow> length got' = len"
proof -
  have "got' @ ahead c' = got @ ahead c \<and> same_frame c c' \<and> ws_header c' = ws_header c \<and>
    length got' \<le> len \<and> (r = Inr () \<longrightarrow> length got' = len)"
    using assms
  proof (induction "len - length got" arbitrary: got c rule: less_induct)
    case less
    show ?case
    proof (cases "length got < len")
      case False
      then show ?thesis using less.prems by (subst (asm) fill_into.simps) auto
    next
      case True
      obtain x d where f: "fill rd (len - length got) c = (x, d)" by (rule prod.exhaust)
      show ?thesis
      proof (cases x)
        case (Inl e)
        then have "c' = d" "got' = got" "r \<noteq> Inr ()" using less.prems True f
          by (subst (asm) fill_into.simps, auto)+
        then show ?thesis using fill_err [of "len - length got" c e d] f Inl True by simp
      next
        case (Inr bs)
        note o = fill_ok [OF f [unfolded Inr]]
        have run: "fill_into rd len (got @ bs) d = (r, got', c')"
          using less.prems True f Inr by (subst (asm) fill_into.simps) simp
        have "len - length (got @ bs) < len - length got"
          using fill_progress [OF f [unfolded Inr, symmetric] True] by simp
        note ih = less.hyps [OF this run]
        have "length (got @ bs) \<le> len" using o(1) True by simp
        then show ?thesis using ih o by (auto intro: same_frame_trans)
      qed
    qed
  qed
  then show "got' @ ahead c' = got @ ahead c" and "same_frame c c'" and "ws_header c' = ws_header c"
    and "length got' \<le> len" and "r = Inr () \<Longrightarrow> length got' = len" by blast+
qed

end

section \<open>The view\<close>

definition header_of :: "limits \<Rightarrow> partial_msg option \<Rightarrow> bytes \<Rightarrow> incoming \<Rightarrow> bool" where
  "header_of lim part h inc \<longleftrightarrow>
     2 \<le> length h \<and> length h = header_total (h ! 1) \<and> check_first (h ! 0) (h ! 1) = Inr () \<and>
     parse_header lim part h = Inr (inc\<lparr>inc_got := []\<rparr>) \<and> length (inc_got inc) \<le> inc_len inc"

text \<open>A message in progress stays within its limit.\<close>

definition msg_bounded :: "limits \<Rightarrow> partial_msg option \<Rightarrow> bool" where
  "msg_bounded lim part \<longleftrightarrow> max_message_size lim < usize_limit - 1 \<longrightarrow>
     (\<forall>pm. part = Some pm \<longrightarrow> length (part_buf pm) \<le> max_message_size lim)"

lemma dispatch_bounded:
  assumes "header_of lim part h inc" and "msg_bounded lim part" and "dispatch part inc = Some (x, part')"
  shows "msg_bounded lim part'"
proof -
  have chk: "check_opcode lim part (inc_fin inc) (inc_opcode inc) (inc_len inc) = Inr ()"
    using assms(1) by (cases inc) (auto simp: header_of_def parse_header_def Let_def split: sum.splits)
  have len: "length (inc_got inc) \<le> inc_len inc" using assms(1) by (simp add: header_of_def)
  show ?thesis using assms(2,3) chk len
    by (auto simp: dispatch_def check_opcode_def saturating_add_def msg_bounded_def Let_def
        split: if_splits option.splits sum.splits)
qed

lemma decode_frame_header:
  assumes "header_of lim part h inc" and "length (inc_got inc) = inc_len inc"
  shows "decode_frame lim part (h @ inc_got inc @ rest) = Inr (Some (inc, rest))"
proof -
  note h = assms(1) [unfolded header_of_def]
  have "(h @ xs) ! 0 = h ! 0" "(h @ xs) ! 1 = h ! 1" for xs using h by (simp_all add: nth_append)
  then show ?thesis using h assms(2) by (simp add: decode_frame_def Let_def)
qed

lemma header_grown:
  assumes "2 \<le> length h \<longrightarrow> length h \<le> header_total (h ! 1)" and "h' = h @ xs" and "2 \<le> length h"
    and "length h' \<le> max (header_total (h ! 1)) (length h)"
  shows "length h' \<le> header_total (h' ! 1)" and "h' ! 0 = h ! 0" and "h' ! 1 = h ! 1"
  using assms by (auto simp: nth_append)

lemma dispatch_defined:
  assumes "parse_header lim part h = Inr (inc\<lparr>inc_got := []\<rparr>)" shows "dispatch part inc \<noteq> None"
  using assms
  by (cases inc) (auto simp: parse_header_def check_opcode_def dispatch_def Let_def
      split: sum.splits if_splits option.splits)

context ws_reader
begin

text \<open>The bytes of the current frame that the client has taken off the socket.\<close>

definition holds :: "'s ws_client \<Rightarrow> bytes \<Rightarrow> bool" where
  "holds c raw \<longleftrightarrow>
     (case ws_incoming c of
        None \<Rightarrow> raw = ws_header c \<and> (2 \<le> length raw \<longrightarrow> length raw \<le> header_total (raw ! 1))
      | Some inc \<Rightarrow> ws_header c = [] \<and>
          (\<exists>h. raw = h @ inc_got inc \<and> header_of (ws_limits c) (ws_partial c) h inc))"

definition view :: "'s ws_client \<Rightarrow> bytes \<Rightarrow> bool" where
  "view c bs \<longleftrightarrow> (\<exists>raw. holds c raw \<and> bs = raw @ ahead c) \<and> msg_bounded (ws_limits c) (ws_partial c)"

lemma viewI:
  "msg_bounded (ws_limits c) (ws_partial c) \<Longrightarrow> ws_incoming c = None \<Longrightarrow> ws_header c @ ahead c = bs \<Longrightarrow>
   (2 \<le> length (ws_header c) \<Longrightarrow> length (ws_header c) \<le> header_total (ws_header c ! 1)) \<Longrightarrow> view c bs"
  by (auto simp: view_def holds_def)

text \<open>What \<open>read_header\<close> may return, for a client whose view is \<open>bs\<close>.\<close>

definition header_result ::
  "'s ws_client \<Rightarrow> bytes \<Rightarrow> ws_error + incoming option \<Rightarrow> 's ws_client \<Rightarrow> bool" where
  "header_result c bs r c' \<longleftrightarrow>
     same_frame c c' \<and>
     (\<forall>e. r = Inl e \<longrightarrow> decode_frame (ws_limits c) (ws_partial c) bs = Inl e \<or> view c' bs) \<and>
     (r = Inr None \<longrightarrow> view c' bs) \<and>
     (\<forall>inc. r = Inr (Some inc) \<longrightarrow> inc_got inc = [] \<and> ws_header c' = [] \<and>
        (\<exists>h. bs = h @ ahead c' \<and> header_of (ws_limits c) (ws_partial c) h inc))"

lemma header_result_blocked:
  "same_frame c c' \<Longrightarrow> view c' bs \<Longrightarrow> r = Inr None \<or> (\<exists>e. r = Inl e) \<Longrightarrow> header_result c bs r c'"
  by (auto simp: header_result_def)

text \<open>A complete header.\<close>

lemma header_complete:
  assumes "ws_header c @ ahead c = bs" and len: "2 \<le> length (ws_header c)"
    "length (ws_header c) = header_total (ws_header c ! 1)"
    and chk: "check_first (ws_header c ! 0) (ws_header c ! 1) = Inr ()"
    and r: "r = (case parse_header (ws_limits c) (ws_partial c) (ws_header c) of
        Inl e \<Rightarrow> Inl e | Inr inc \<Rightarrow> Inr (Some inc))"
  shows "header_result c bs r (c\<lparr>ws_header := []\<rparr>)"
proof -
  let ?p = "parse_header (ws_limits c) (ws_partial c) (ws_header c)"
  have bsn: "bs ! 0 = ws_header c ! 0" "bs ! 1 = ws_header c ! 1" "2 \<le> length bs"
    using assms(1) len(1) by (auto simp: nth_append)
  have tk: "take (header_total (bs ! 1)) bs = ws_header c" "\<not> length bs < header_total (bs ! 1)"
    using assms(1) len(2) bsn(2) by auto
  have same: "same_frame c (c\<lparr>ws_header := []\<rparr>)" "ahead (c\<lparr>ws_header := []\<rparr>) = ahead c"
    by (simp_all add: same_frame_def ahead_def)
  show ?thesis
  proof (cases ?p)
    case (Inl e)
    then have "decode_frame (ws_limits c) (ws_partial c) bs = Inl e"
      using tk bsn chk by (simp add: decode_frame_def Let_def)
    then show ?thesis using r Inl same by (simp add: header_result_def)
  next
    case (Inr inc)
    have got: "inc_got inc = []" using Inr by (auto simp: parse_header_def Let_def split: sum.splits)
    have "header_of (ws_limits c) (ws_partial c) (ws_header c) inc"
      using len Inr got chk by (simp add: header_of_def)
    then show ?thesis using r Inr got same assms(1) by (auto simp: header_result_def)
  qed
qed

lemma header_result_same: "same_frame c d \<Longrightarrow> header_result d bs r c' \<Longrightarrow> header_result c bs r c'"
  by (auto simp: header_result_def same_frame_def)

text \<open>The part of \<open>read_header\<close> after the first two bytes.\<close>

definition header_tail :: "'s ws_client \<Rightarrow> (ws_error + incoming option) \<times> 's ws_client" where
  "header_tail =
     bindE (getE ws_header) (\<lambda>h.
     bindE (liftE (check_first (h ! 0) (h ! 1))) (\<lambda>_.
     bindE (header_upto rd (header_total (h ! 1))) (\<lambda>full.
     if \<not> full then retE None
     else
       bindE (getE (\<lambda>c. (ws_header c, ws_limits c, ws_partial c))) (\<lambda>(h, lim, part).
       bindE (modifyE (\<lambda>c. c\<lparr>ws_header := []\<rparr>)) (\<lambda>_.
       bindE (liftE (parse_header lim part h)) (\<lambda>inc.
       retE (Some inc)))))))"

lemma header_tail_view:
  assumes "header_tail c = (r, c')" and m: "msg_bounded (ws_limits c) (ws_partial c)" and i: "ws_incoming c = None" and bs: "ws_header c @ ahead c = bs"
    and l: "2 \<le> length (ws_header c)" "length (ws_header c) \<le> header_total (ws_header c ! 1)"
  shows "header_result c bs r c'"
proof (cases "check_first (ws_header c ! 0) (ws_header c ! 1)")
  case (Inl e)
  then have "r = Inl e" "c' = c" using assms(1) by (simp_all add: header_tail_def)
  moreover have "decode_frame (ws_limits c) (ws_partial c) bs = Inl e"
    using Inl bs l(1) by (auto simp: decode_frame_def nth_append)
  ultimately show ?thesis by (simp add: header_result_def)
next
  case (Inr u)
  obtain x2 c2 where 2: "header_upto rd (header_total (ws_header c ! 1)) c = (x2, c2)" by (rule prod.exhaust)
  note u2 = header_upto_ok [OF 2]
  obtain xs where xs: "ws_header c2 = ws_header c @ xs" using u2(4) by blast
  note g = header_grown [OF impI [OF l(2)] xs l(1) u2(3)]
  have i2: "msg_bounded (ws_limits c2) (ws_partial c2)" "ws_incoming c2 = None" "ws_header c2 @ ahead c2 = bs"
    using u2(1,2) m i bs by (simp_all add: same_frame_def)
  show ?thesis
  proof (cases "x2 = Inr True")
    case False
    then have "c' = c2" "r = Inr None \<or> (\<exists>e. r = Inl e)"
      using assms(1) Inr 2 by (cases x2; auto simp: header_tail_def bindE_def)+
    then show ?thesis using header_result_blocked [OF u2(2) viewI [OF i2 g(1)]] by simp
  next
    case True
    have "2 \<le> length (ws_header c2)" "length (ws_header c2) = header_total (ws_header c2 ! 1)"
      "check_first (ws_header c2 ! 0) (ws_header c2 ! 1) = Inr ()"
      using g u2(5) True xs l(1) Inr by simp_all
    moreover have "c' = c2\<lparr>ws_header := []\<rparr>" "r = (case parse_header (ws_limits c2) (ws_partial c2) (ws_header c2) of
        Inl e \<Rightarrow> Inl e | Inr inc \<Rightarrow> Inr (Some inc))"
      using assms(1) Inr 2 True by (auto simp: header_tail_def bindE_def split: sum.splits)
    ultimately show ?thesis using header_result_same [OF u2(2) header_complete [OF i2(3)]] by blast
  qed
qed

lemma read_header_view:
  assumes "view c bs" and i: "ws_incoming c = None" and "read_header rd c = (r, c')"
  shows "header_result c bs r c'"
proof -
  have h0: "2 \<le> length (ws_header c) \<longrightarrow> length (ws_header c) \<le> header_total (ws_header c ! 1)"
    and bs: "bs = ws_header c @ ahead c" and m: "msg_bounded (ws_limits c) (ws_partial c)"
    using assms(1) i by (auto simp: view_def holds_def)
  obtain x1 c1 where 1: "header_upto rd 2 c = (x1, c1)" by (rule prod.exhaust)
  note u1 = header_upto_ok [OF 1]
  have h1: "length (ws_header c1) \<le> header_total (ws_header c1 ! 1)" if "2 \<le> length (ws_header c1)"
  proof (cases "2 \<le> length (ws_header c)")
    case True
    then have "c1 = c" using 1 by (subst (asm) header_upto.simps) auto
    then show ?thesis using h0 that by simp
  next
    case False
    then show ?thesis using u1(3) header_total_ge [of "ws_header c1 ! 1"] by simp
  qed
  have i1: "msg_bounded (ws_limits c1) (ws_partial c1)" "ws_incoming c1 = None" "ws_header c1 @ ahead c1 = bs"
    using u1(1,2) m i bs by (simp_all add: same_frame_def)
  show ?thesis
  proof (cases "x1 = Inr True")
    case False
    then have "c' = c1" "r = Inr None \<or> (\<exists>e. r = Inl e)"
      using assms(3) 1 by (cases x1; auto simp: read_header_def bindE_def)+
    then show ?thesis using header_result_blocked [OF u1(2) viewI [OF i1 h1]] by simp
  next
    case True
    have "header_tail c1 = (r, c')"
      using assms(3) 1 True by (simp add: read_header_def header_tail_def bindE_Inr)
    then show ?thesis using header_result_same [OF u1(2) header_tail_view [OF _ i1 _ h1]] u1(5) True by simp
  qed
qed

text \<open>What a round of \<open>read_frame\<close> may return.\<close>

definition round_result ::
  "'s ws_client \<Rightarrow> bytes \<Rightarrow> ws_error + frame option loop \<Rightarrow> 's ws_client \<Rightarrow> bool" where
  "round_result c bs r c' \<longleftrightarrow>
     ws_limits c' = ws_limits c \<and>
     (let dec = decode (ws_limits c) (ws_partial c) bs in
      case r of
        Inl e \<Rightarrow> dec = Refused e \<or> view c' bs \<and> ws_partial c' = ws_partial c
      | Inr (Return None) \<Rightarrow> view c' bs \<and> ws_partial c' = ws_partial c
      | Inr (Return (Some f)) \<Rightarrow> view c' (ahead c') \<and> dec = Delivered f (ws_partial c') (ahead c')
      | Inr Again \<Rightarrow> view c' (ahead c') \<and> length (ahead c') < length bs \<and>
                    dec = decode (ws_limits c) (ws_partial c') (ahead c')
      | Inr Panic \<Rightarrow> False)"

lemma round_result_cong:
  "ws_limits d = ws_limits c \<Longrightarrow> ws_partial d = ws_partial c \<Longrightarrow> round_result d bs r c' = round_result c bs r c'"
  by (auto simp: round_result_def Let_def split: sum.splits loop.splits option.splits)

lemma view_fresh:
  "msg_bounded (ws_limits c) (ws_partial c) \<Longrightarrow> ws_incoming c = None \<Longrightarrow> ws_header c = [] \<Longrightarrow> view c (ahead c)"
  by (rule viewI) auto

lemma finish_frame_result:
  assumes "finish_frame inc c = (r, c')" and "header_of (ws_limits c) (ws_partial c) h inc"
    and "length (inc_got inc) = inc_len inc" and "ws_header c = []" and "bs = h @ inc_got inc @ ahead c"
    and m: "msg_bounded (ws_limits c) (ws_partial c)"
  shows "round_result c bs r c'"
proof -
  have df: "decode_frame (ws_limits c) (ws_partial c) bs = Inr (Some (inc, ahead c))"
    unfolding assms(5) by (rule decode_frame_header [OF assms(2,3)])
  note dec = decode.simps [of "ws_limits c" "ws_partial c" bs]
  have "dispatch (ws_partial c) inc \<noteq> None"
    using assms(2) dispatch_defined by (auto simp: header_of_def)
  then obtain x part where d: "dispatch (ws_partial c) inc = Some (x, part)" by auto
  let ?c = "c\<lparr>ws_incoming := None, ws_partial := part\<rparr>"
  have c': "c' = ?c" using assms(1) d by (auto simp: finish_frame_def split: sum.splits option.splits)
  have v: "view ?c (ahead c)" "ahead ?c = ahead c"
    using view_fresh [of ?c] assms(4) dispatch_bounded [OF assms(2) m d] by (simp_all add: ahead_def)
  show ?thesis using assms(1) d c' v dec df decode_frame_rest [OF df]
    by (auto simp: finish_frame_def round_result_def Let_def split: sum.splits option.splits)
qed

lemma read_payload_result:
  assumes bs: "bs = h @ inc_got inc @ ahead c" and h: "header_of (ws_limits c) (ws_partial c) h inc"
    and "ws_header c = []" and "read_payload rd inc c = (r, c')" and m: "msg_bounded (ws_limits c) (ws_partial c)"
  shows "round_result c bs r c'"
proof -
  obtain x got d where f: "fill_into rd (inc_len inc) (inc_got inc) c = (x, got, d)" by (rule prod_cases3)
  have "length (inc_got inc) \<le> inc_len inc" using h by (simp add: header_of_def)
  note o = fill_into_ok [OF f this]
  let ?inc = "inc\<lparr>inc_got := got\<rparr>" let ?c = "d\<lparr>ws_incoming := Some (inc\<lparr>inc_got := got\<rparr>)\<rparr>"
  have c1: "ahead ?c = ahead d" "ws_limits ?c = ws_limits c" "ws_partial ?c = ws_partial c" "ws_header ?c = []"
    using o(2,3) assms(3) by (simp_all add: ahead_def same_frame_def)
  have h': "header_of (ws_limits c) (ws_partial c) h ?inc" using h o(4) by (simp add: header_of_def)
  have bs': "bs = h @ inc_got ?inc @ ahead ?c" using bs o(1) c1(1) by simp
  have v: "view ?c bs" using bs' h' c1 m by (auto simp: view_def holds_def)
  show ?thesis
  proof (cases "x = Inr ()")
    case True
    then have "finish_frame ?inc ?c = (r, c')" using assms(4) f o(5) by (simp add: read_payload_def Let_def)
    then have "round_result ?c bs r c'"
      by (rule finish_frame_result [where h = h]) (use h' c1 o(5) True bs' m in simp_all)
    then show ?thesis using round_result_cong [OF c1(2,3)] by simp
  next
    case False
    then obtain e where x: "x = Inl e" by (cases x) auto
    then have "c' = ?c" "r = Inr (Return None) \<or> r = Inl e"
      using assms(4) f by (auto simp: read_payload_def Let_def split: if_splits)
    then show ?thesis using v c1 by (auto simp: round_result_def Let_def)
  qed
qed

lemma read_frame_round_result:
  assumes "view c bs" and "read_frame_round rd c = (r, c')" shows "round_result c bs r c'"
proof (cases "ws_incoming c")
  case (Some inc)
  then obtain h where "ws_header c = []" "bs = h @ inc_got inc @ ahead c" "header_of (ws_limits c) (ws_partial c) h inc"
    using assms(1) by (auto simp: view_def holds_def)
  moreover have "msg_bounded (ws_limits c) (ws_partial c)" using assms(1) by (simp add: view_def)
  ultimately show ?thesis using read_payload_result assms(2) Some by (simp add: read_frame_round_def)
next
  case None
  obtain x d where x: "read_header rd c = (x, d)" by (rule prod.exhaust)
  note hr = read_header_view [OF assms(1) None x, unfolded header_result_def]
  have sf: "ws_limits d = ws_limits c" "ws_partial d = ws_partial c" using hr by (simp_all add: same_frame_def)
  consider e where "x = Inl e" | "x = Inr None" | inc where "x = Inr (Some inc)" by (cases x) auto
  then show ?thesis
  proof cases
    case 1
    then show ?thesis using hr sf assms(2) None x
      by (auto simp: read_frame_round_def round_result_def Let_def decode.simps [of _ _ bs])
  next
    case 2
    then show ?thesis using hr sf assms(2) None x by (auto simp: read_frame_round_def round_result_def Let_def)
  next
    case (3 inc)
    let ?d = "d\<lparr>ws_incoming := Some inc\<rparr>"
    obtain h where h: "bs = h @ ahead d" "header_of (ws_limits c) (ws_partial c) h inc" "inc_got inc = []" "ws_header d = []"
      using hr 3 by auto
    have "read_payload rd inc ?d = (r, c')" using assms(2) None x 3 by (simp add: read_frame_round_def)
    moreover have "ahead ?d = ahead d" by (simp add: ahead_def)
    ultimately have "round_result ?d bs r c'" by (intro read_payload_result [where h = h]) (use h sf assms(1) in \<open>simp_all add: view_def\<close>)
    then show ?thesis using round_result_cong [of ?d c] sf by simp
  qed
qed

text \<open>\<open>read_frame\<close> returns, with what the reference decoder says.\<close>

definition frame_result ::
  "'s ws_client \<Rightarrow> bytes \<Rightarrow> ws_error + frame option \<Rightarrow> 's ws_client \<Rightarrow> bool" where
  "frame_result c bs r c' \<longleftrightarrow>
     ws_limits c' = ws_limits c \<and>
     (let dec = decode (ws_limits c) (ws_partial c) bs;
          kept = (\<exists>bs'. view c' bs' \<and> dec = decode (ws_limits c) (ws_partial c') bs')
      in case r of
           Inl e \<Rightarrow> dec = Refused e \<or> kept
         | Inr None \<Rightarrow> kept
         | Inr (Some f) \<Rightarrow> view c' (ahead c') \<and> dec = Delivered f (ws_partial c') (ahead c'))"

lemma read_frame_returns:
  "view c bs \<Longrightarrow> \<exists>r c'. read_frame rd c = Some (r, c') \<and> frame_result c bs r c'"
proof (induction "length bs" arbitrary: c bs rule: less_induct)
  case less
  obtain x d where x: "read_frame_round rd c = (x, d)" by (rule prod.exhaust)
  note rr = read_frame_round_result [OF less.prems x, unfolded round_result_def Let_def]
  note rf = read_frame.simps [of rd c]
  consider e where "x = Inl e" | "x = Inr (Return None)" | f where "x = Inr (Return (Some f))" | "x = Inr Again"
    using rr by (cases x; cases "projr x") (auto split: option.splits)
  then show ?case
  proof cases
    case 4
    then have "view d (ahead d)" "length (ahead d) < length bs" "ws_limits d = ws_limits c"
      "decode (ws_limits c) (ws_partial c) bs = decode (ws_limits c) (ws_partial d) (ahead d)"
      using rr by simp_all
    moreover from less.hyps [OF this(2,1)] obtain r c' where
      "read_frame rd d = Some (r, c')" "frame_result d (ahead d) r c'" by blast
    ultimately have "read_frame rd c = Some (r, c')" "frame_result c bs r c'"
      using rf x 4 by (simp_all add: frame_result_def Let_def)
    then show ?thesis by blast
  next
    case 1
    then show ?thesis using rr rf x by (auto simp: frame_result_def Let_def)
  next
    case 2
    then show ?thesis using rr rf x by (auto simp: frame_result_def Let_def)
  next
    case 3
    then show ?thesis using rr rf x by (auto simp: frame_result_def Let_def)
  qed
qed

end

section \<open>A sequence of calls\<close>

text \<open>
  The poll loop: \<open>k\<close> calls of \<open>read_frame\<close>, the frames they delivered, the error that ended
  them if one did, and the client afterwards.
\<close>

fun poll :: "('s, ws_violation) reader \<Rightarrow> nat \<Rightarrow> 's ws_client \<Rightarrow> (frame list \<times> ws_error option \<times> 's ws_client) option" where
  "poll rd 0 c = Some ([], None, c)"
| "poll rd (Suc k) c =
     (case read_frame rd c of
        None \<Rightarrow> None
      | Some (Inl e, c') \<Rightarrow> Some ([], Some e, c')
      | Some (Inr None, c') \<Rightarrow> poll rd k c'
      | Some (Inr (Some f), c') \<Rightarrow> map_option (\<lambda>(fs, e, d). (f # fs, e, d)) (poll rd k c'))"

context ws_reader
begin

text \<open>The frames still to come after a client: those the decoder finds in its view.\<close>

definition to_come :: "'s ws_client \<Rightarrow> frame list \<Rightarrow> bool" where
  "to_come c fs \<longleftrightarrow> (\<exists>bs. view c bs \<and> decode_all (ws_limits c) (ws_partial c) bs = fs)"

lemma read_frame_to_come:
  assumes "to_come c fs"
  shows "\<exists>r c'. read_frame rd c = Some (r, c') \<and> ws_limits c' = ws_limits c \<and>
    (case r of Inl e \<Rightarrow> fs = [] \<or> to_come c' fs | Inr None \<Rightarrow> to_come c' fs
     | Inr (Some f) \<Rightarrow> \<exists>rest. fs = f # rest \<and> to_come c' rest)"
proof -
  from assms obtain bs where v: "view c bs" and fs: "decode_all (ws_limits c) (ws_partial c) bs = fs"
    by (auto simp: to_come_def)
  from read_frame_returns [OF v] obtain r c' where r: "read_frame rd c = Some (r, c')" "frame_result c bs r c'"
    by blast
  have kept: "to_come c' fs" if "view c' bs'" "decode (ws_limits c) (ws_partial c) bs = decode (ws_limits c) (ws_partial c') bs'" for bs'
    using that decode_all_cong [OF that(2)] fs r(2) by (auto simp: to_come_def frame_result_def)
  have bad: "fs = []" if "decode (ws_limits c) (ws_partial c) bs = Refused e" for e
    using that fs by (simp add: decode_all.simps [of _ _ bs])
  have got: "\<exists>rest. fs = f # rest \<and> to_come c' rest" if "view c' (ahead c')" "decode (ws_limits c) (ws_partial c) bs = Delivered f (ws_partial c') (ahead c')" for f
    using that fs r(2) by (auto simp: to_come_def frame_result_def decode_all.simps [of _ _ bs])
  show ?thesis using r kept bad got
    by (auto simp: frame_result_def Let_def split: sum.splits option.splits)
qed

lemma poll_decodes:
  "to_come c all_fs \<Longrightarrow> \<exists>fs e d rest. poll rd k c = Some (fs, e, d) \<and> all_fs = fs @ rest \<and>
     ws_limits d = ws_limits c \<and> (to_come d rest \<or> e \<noteq> None \<and> rest = [])"
proof (induction k arbitrary: c all_fs)
  case (Suc k)
  from read_frame_to_come [OF Suc.prems] obtain r c' where r: "read_frame rd c = Some (r, c')" "ws_limits c' = ws_limits c"
    "case r of Inl e \<Rightarrow> all_fs = [] \<or> to_come c' all_fs | Inr None \<Rightarrow> to_come c' all_fs
     | Inr (Some f) \<Rightarrow> \<exists>rest. all_fs = f # rest \<and> to_come c' rest" by blast
  show ?case
  proof (cases r)
    case (Inl e)
    then show ?thesis using r by auto
  next
    case (Inr x)
    show ?thesis
    proof (cases x)
      case None
      then show ?thesis using Suc.IH [of c' all_fs] r Inr by auto
    next
      case (Some f)
      then obtain rest where "all_fs = f # rest" "to_come c' rest" using r Inr by auto
      then show ?thesis using Suc.IH [of c' rest] r Inr Some by auto
    qed
  qed
qed simp

end

section \<open>Properties\<close>

text \<open>A client right after the handshake, with the bytes that came along with the answer.\<close>

definition ws_start :: "limits \<Rightarrow> bytes \<Rightarrow> 's \<Rightarrow> 's ws_client" where
  "ws_start lim pending s = \<lparr>ws_stream = s, ws_limits = lim, ws_pending = pending, ws_pending_pos = 0,
     ws_header = [], ws_incoming = None, ws_partial = None\<rparr>"

lemma ws_start_to_come:
  assumes W: "ws_reader rd unread"
  shows "ws_reader.to_come unread (ws_start lim pending s) (decode_all lim None (pending @ unread s))"
proof -
  let ?c = "ws_start lim pending s"
  have "ws_reader.view unread ?c (ws_reader.ahead unread ?c)"
    by (rule ws_reader.view_fresh [OF W]) (simp_all add: ws_start_def msg_bounded_def)
  then show ?thesis
    unfolding ws_reader.to_come_def [OF W] ws_reader.ahead_def [OF W]
    by (intro exI) (auto simp: ws_start_def)
qed


end
