(* ===== verification/Ws_Properties.thy ===== *)
theory Ws_Properties
  imports Ws_Refine
begin

text \<open>
  Properties of the WebSocket codec: frames of a server decode to the messages they carry,
  frames of the client decode to what was sent, masking in blocks is masking byte by byte, and
  no peer can make the client allocate more than its limits.
\<close>

section \<open>Bits of the header bytes\<close>

lemma and_7F: "w AND 0x7F = take_bit 7 (w :: byte)"
proof -
  have "(0x7F :: byte) = Bit_Operations.mask 7" by (simp add: mask_eq_exp_minus_1)
  then show ?thesis by (simp add: take_bit_eq_mask)
qed

lemma small_len:
  assumes "len < 128"
  shows "(word_of_nat len :: byte) AND 0x7F = word_of_nat len"
    and "(word_of_nat len :: byte) AND 0x80 = 0"
    and "(0x80 OR word_of_nat len :: byte) AND 0x7F = word_of_nat len"
    and "(0x80 OR word_of_nat len :: byte) AND 0x80 = 0x80"
    and "unat (word_of_nat len :: byte) = len"
proof -
  let ?w = "word_of_nat len :: byte"
  show l: "?w AND 0x7F = ?w" unfolding and_7F take_bit_of_nat using assms
    by (simp add: take_bit_nat_eq_self)
  have "?w AND 0x80 = ?w AND (0x7F AND 0x80)" using l by (metis and.assoc)
  then show z: "?w AND 0x80 = 0" by simp
  show "(0x80 OR ?w) AND 0x7F = ?w" using l by (simp add: bit.conj_disj_distrib2)
  show "(0x80 OR ?w) AND 0x80 = 0x80" using z by (simp add: bit.conj_disj_distrib2)
  show "unat ?w = len" using assms by simp
qed

section \<open>Frames of a server\<close>

definition data_op :: "byte \<Rightarrow> bool" where
  "data_op op \<longleftrightarrow> op = OP_TEXT \<or> op = OP_BINARY"

definition server_header :: "bool \<Rightarrow> byte \<Rightarrow> nat \<Rightarrow> bytes" where
  "server_header fin op len =
     ((if fin then 0x80 else 0) OR op) #
     (if len \<le> 125 then [word_of_nat len]
      else if len \<le> 65535 then 126 # be_bytes 2 len
      else 127 # be_bytes 8 len)"

definition server_frame :: "bool \<Rightarrow> byte \<Rightarrow> bytes \<Rightarrow> bytes" where
  "server_frame fin op payload = server_header fin op (length payload) @ payload"

definition known_op :: "byte \<Rightarrow> bool" where
  "known_op op \<longleftrightarrow> op \<in> {OP_CONTINUATION, OP_TEXT, OP_BINARY, OP_CLOSE, OP_PING, OP_PONG}"

lemma first_byte:
  assumes "known_op op"
  shows "((if fin then 0x80 else 0) OR op) AND 0x70 = 0" and "((if fin then 0x80 else 0) OR op) AND 0x0F = op"
    and "((if fin then 0x80 else 0) OR op) AND 0x80 \<noteq> 0 \<longleftrightarrow> fin"
  using assms by (auto simp: known_op_def ops)

lemma be_val_two: "len \<le> 65535 \<Longrightarrow> be_val (be_bytes 2 len) = len"
  by (rule be_val_be_bytes) simp

lemma be_val_eight: "len < usize_limit \<Longrightarrow> be_val (be_bytes 8 len) = len"
  by (rule be_val_be_bytes) (simp add: usize_limit_def)

lemma list_two: "length xs = 2 \<Longrightarrow> [xs ! 0, xs ! 1] = xs"
  by (cases xs; cases "tl xs") auto

lemma server_header_ok:
  assumes "known_op op" and "len < usize_limit" and h: "h = server_header fin op len"
  shows "2 \<le> length h" and "length h = header_total (h ! 1)" and "check_first (h ! 0) (h ! 1) = Inr ()"
    and "payload_len h = Inr len" and "h ! 0 = (if fin then 0x80 else 0) OR op"
proof -
  note f = first_byte [OF assms(1), of fin]
  show "2 \<le> length h" "h ! 0 = (if fin then 0x80 else 0) OR op" by (auto simp: h server_header_def)
  consider "len \<le> 125" | "125 < len" "len \<le> 65535" | "65535 < len" by linarith
  then have "length h = header_total (h ! 1) \<and> check_first (h ! 0) (h ! 1) = Inr () \<and> payload_len h = Inr len"
  proof cases
    case 1
    then have "len < 128" by simp
    note s = small_len [OF this]
    show ?thesis
      using 1 s f by (simp_all add: h server_header_def header_total_def check_first_def payload_len_def Let_def)
  next
    case 2
    then have b: "be_val [be_bytes 2 len ! 0, be_bytes 2 len ! 1] = len"
      using be_val_two list_two [of "be_bytes 2 len"] by simp
    show ?thesis
      using 2 b f by (simp_all add: h server_header_def header_total_def check_first_def payload_len_def Let_def nth_Cons')
  next
    case 3
    show ?thesis
      using 3 be_val_eight [OF assms(2)] assms(2) f
      by (simp_all add: h server_header_def header_total_def check_first_def payload_len_def Let_def)
  qed
  then show "length h = header_total (h ! 1)" "check_first (h ! 0) (h ! 1) = Inr ()" "payload_len h = Inr len"
    by blast+
qed

text \<open>A frame of a server decodes, or is refused, by its opcode and length alone.\<close>

lemma decode_server_frame:
  assumes "known_op op" and "length payload < usize_limit"
  shows "decode_frame lim part (server_frame fin op payload @ rest) =
    (case check_opcode lim part fin op (length payload) of
       Inl e \<Rightarrow> Inl e
     | Inr _ \<Rightarrow> Inr (Some (\<lparr>inc_fin = fin, inc_opcode = op, inc_len = length payload, inc_got = payload\<rparr>, rest)))"
proof -
  let ?h = "server_header fin op (length payload)" and ?bs = "server_frame fin op payload @ rest"
  note h = server_header_ok [OF assms refl, of fin] and f = first_byte [OF assms(1), of fin]
  have n: "?bs ! 0 = ?h ! 0" "?bs ! 1 = ?h ! 1" "\<not> length ?bs < 2"
    using h(1) by (auto simp: server_frame_def nth_append)
  have t: "take (header_total (?bs ! 1)) ?bs = ?h" "drop (header_total (?bs ! 1)) ?bs = payload @ rest"
    "length ?bs = header_total (?bs ! 1) + length payload + length rest"
    unfolding n(2) h(2) [symmetric] by (simp_all add: server_frame_def)
  have "parse_header lim part ?h = (case check_opcode lim part fin op (length payload) of
      Inl e \<Rightarrow> Inl e
    | Inr _ \<Rightarrow> Inr \<lparr>inc_fin = fin, inc_opcode = op, inc_len = length payload, inc_got = []\<rparr>)"
    using h(4,5) f by (simp add: parse_header_def Let_def)
  moreover have "drop (header_total (?bs ! 1) + length payload) ?bs = rest"
    using t(2) by (metis add.commute append_eq_conv_conj drop_drop)
  ultimately show ?thesis using n t h(3)
    by (simp add: decode_frame_def Let_def split: sum.splits)
qed


fun encode_message :: "frame \<Rightarrow> bytes" where
  "encode_message (Binary p) = server_frame True OP_BINARY p"
| "encode_message (Text p) = server_frame True OP_TEXT p"
| "encode_message (Ping p) = server_frame True OP_PING p"
| "encode_message (Pong p) = server_frame True OP_PONG p"
| "encode_message (Close None) = server_frame True OP_CLOSE []"
| "encode_message (Close (Some (code, reason))) =
     server_frame True OP_CLOSE (be_bytes 2 (unat code) @ as_bytes reason)"

fun control_fits :: "frame \<Rightarrow> bool" where
  "control_fits (Ping p) = (length p \<le> 125)"
| "control_fits (Pong p) = (length p \<le> 125)"
| "control_fits (Close None) = True"
| "control_fits (Close (Some (code, reason))) = (valid_str reason \<and> length reason \<le> 123)"
| "control_fits _ = False"

fun message_fits :: "limits \<Rightarrow> frame \<Rightarrow> bool" where
  "message_fits lim (Binary p) = (length p \<le> max_frame_size lim \<and> length p < usize_limit)"
| "message_fits lim (Text p) = (length p \<le> max_frame_size lim \<and> length p < usize_limit)"
| "message_fits lim f = control_fits f"

lemma parse_close_encoded:
  assumes "valid_str reason"
  shows "parse_close (be_bytes 2 (unat code) @ as_bytes reason) = Inr (Some (code, reason))"
proof -
  let ?b = "be_bytes 2 (unat (code :: u16))"
  obtain a b where ab: "?b = [a, b]" by (simp add: be_bytes_def numeral_2_eq_2)
  have "be_val ?b = unat code" using unsigned_less [of code] by (intro be_val_be_bytes) simp
  then show ?thesis using assms ab by (simp add: parse_close_def)
qed

lemma known_ops [simp]: "known_op OP_CONTINUATION" "known_op OP_TEXT" "known_op OP_BINARY"
  "known_op OP_CLOSE" "known_op OP_PING" "known_op OP_PONG"
  by (simp_all add: known_op_def)

lemma op_neqs [simp]: "OP_PING \<noteq> OP_PONG" "OP_PING \<noteq> OP_CLOSE" "OP_PONG \<noteq> OP_PING" "OP_PONG \<noteq> OP_CLOSE"
  "OP_CLOSE \<noteq> OP_PING" "OP_CLOSE \<noteq> OP_PONG" "OP_TEXT \<noteq> OP_PING" "OP_TEXT \<noteq> OP_PONG" "OP_TEXT \<noteq> OP_CLOSE"
  "OP_TEXT \<noteq> OP_CONTINUATION" "OP_BINARY \<noteq> OP_PING" "OP_BINARY \<noteq> OP_PONG" "OP_BINARY \<noteq> OP_CLOSE"
  "OP_BINARY \<noteq> OP_CONTINUATION" "OP_BINARY \<noteq> OP_TEXT" "OP_TEXT \<noteq> OP_BINARY" "OP_CONTINUATION \<noteq> OP_PING"
  "OP_CONTINUATION \<noteq> OP_PONG" "OP_CONTINUATION \<noteq> OP_CLOSE"
  by (simp_all add: ops)

lemma control_small: "n \<le> 125 \<Longrightarrow> n < usize_limit"
  by (simp add: usize_limit_def)

lemma decode_control:
  assumes "control_fits f"
  shows "decode lim part (encode_message f @ rest) = Delivered f part rest"
  using assms
  by (cases f rule: control_fits.cases)
    (simp_all add: decode.simps [of lim part] decode_server_frame control_small check_opcode_def dispatch_def
      MAX_CONTROL_PAYLOAD_def parse_close_encoded parse_close_def [of "[]"] Let_def)

lemma decode_message:
  assumes "message_fits lim f"
  shows "decode lim None (encode_message f @ rest) = Delivered f None rest"
proof (cases "control_fits f")
  case True
  then show ?thesis by (rule decode_control)
next
  case False
  then show ?thesis using assms
    by (cases f)
      (simp_all add: decode.simps [of lim None] decode_server_frame check_opcode_def dispatch_def Let_def)
qed

text \<open>
  A fragmented message: a first frame, then continuation frames, each with the control frames
  sent before it.
\<close>

fun fragment_tail :: "(frame list \<times> bytes) list \<Rightarrow> bytes" where
  "fragment_tail [] = []"
| "fragment_tail ((cs, p) # frs) =
     concat (map encode_message cs) @ server_frame (frs = []) OP_CONTINUATION p @ fragment_tail frs"

datatype wire_item = Whole frame | Fragments bool bytes "(frame list \<times> bytes) list"

definition message_of :: "byte \<Rightarrow> bytes \<Rightarrow> frame" where
  "message_of op p = (if op = OP_TEXT then Text p else Binary p)"

fun wire :: "wire_item \<Rightarrow> bytes" where
  "wire (Whole f) = encode_message f"
| "wire (Fragments is_text p tail) =
     server_frame False (if is_text then OP_TEXT else OP_BINARY) p @ fragment_tail tail"

fun seen :: "wire_item \<Rightarrow> frame list" where
  "seen (Whole f) = [f]"
| "seen (Fragments is_text p tail) =
     concat (map fst tail) @ [(if is_text then Text else Binary) (p @ concat (map snd tail))]"

fun item_fits :: "limits \<Rightarrow> wire_item \<Rightarrow> bool" where
  "item_fits lim (Whole f) = message_fits lim f"
| "item_fits lim (Fragments is_text p tail) =
     (tail \<noteq> [] \<and> (\<forall>(cs, q) \<in> set tail. list_all control_fits cs \<and> length q \<le> max_frame_size lim) \<and>
      length p \<le> max_frame_size lim \<and> length (p @ concat (map snd tail)) \<le> max_message_size lim \<and>
      length (p @ concat (map snd tail)) < usize_limit)"

lemma decode_all_Delivered:
  "decode lim part bs = Delivered f part' rest \<Longrightarrow> decode_all lim part bs = f # decode_all lim part' rest"
  by (simp add: decode_all.simps [of lim part bs])

lemma decode_all_controls:
  "list_all control_fits cs \<Longrightarrow>
   decode_all lim part (concat (map encode_message cs) @ rest) = cs @ decode_all lim part rest"
  by (induction cs) (simp_all add: decode_all_Delivered [OF decode_control])

lemma decode_all_fold:
  assumes "decode_frame lim part bs = Inr (Some (inc, rest))" and "dispatch part inc = Some (Inr None, part')"
  shows "decode_all lim part bs = decode_all lim part' rest"
  by (rule decode_all_cong) (use assms in \<open>simp add: decode.simps [of lim part bs]\<close>)

lemma decode_fragment:
  assumes "length buf + length p \<le> max_message_size lim" and "length p \<le> max_frame_size lim"
    and "length p < usize_limit"
  shows "decode_all lim (Some \<lparr>part_opcode = op, part_buf = buf\<rparr>) (server_frame fin OP_CONTINUATION p @ rest) =
    (if fin then message_of op (buf @ p) # decode_all lim None rest
     else decode_all lim (Some \<lparr>part_opcode = op, part_buf = buf @ p\<rparr>) rest)"
proof -
  let ?part = "Some \<lparr>part_opcode = op, part_buf = buf\<rparr>"
  let ?inc = "\<lparr>inc_fin = fin, inc_opcode = OP_CONTINUATION, inc_len = length p, inc_got = p\<rparr>"
  have df: "decode_frame lim ?part (server_frame fin OP_CONTINUATION p @ rest) = Inr (Some (?inc, rest))"
    using assms by (simp add: decode_server_frame check_opcode_def saturating_add_def)
  show ?thesis
  proof (cases fin)
    case True
    then have "decode lim ?part (server_frame fin OP_CONTINUATION p @ rest) = Delivered (message_of op (buf @ p)) None rest"
      using df by (simp add: decode.simps [of lim ?part] dispatch_def message_of_def)
    then show ?thesis using True by (simp add: decode_all_Delivered)
  next
    case False
    have "dispatch ?part ?inc = Some (Inr None, Some \<lparr>part_opcode = op, part_buf = buf @ p\<rparr>)"
      using False by (simp add: dispatch_def)
    then show ?thesis using decode_all_fold [OF df] False by simp
  qed
qed

lemma decode_fragment_tail:
  assumes "tail \<noteq> []" and "\<forall>(cs, q) \<in> set tail. list_all control_fits cs \<and> length q \<le> max_frame_size lim"
    and "length (buf @ concat (map snd tail)) \<le> max_message_size lim"
    and "length (buf @ concat (map snd tail)) < usize_limit"
  shows "decode_all lim (Some \<lparr>part_opcode = op, part_buf = buf\<rparr>) (fragment_tail tail @ rest) =
    concat (map fst tail) @ message_of op (buf @ concat (map snd tail)) # decode_all lim None rest"
  using assms
proof (induction tail arbitrary: buf)
  case (Cons t tail)
  obtain cs p where t: "t = (cs, p)" by fastforce
  have "length buf + length p \<le> max_message_size lim" "length p \<le> max_frame_size lim" "length p < usize_limit"
    "list_all control_fits cs"
    using Cons.prems(2-4) t by auto
  note f = decode_all_controls [OF this(4)] decode_fragment [OF this(1-3)]
  show ?case
  proof (cases "tail = []")
    case True
    then show ?thesis using t f by simp
  next
    case False
    then show ?thesis using t f Cons.IH [of "buf @ p"] Cons.prems by auto
  qed
qed simp

lemma decode_item:
  assumes "item_fits lim item"
  shows "decode_all lim None (wire item @ rest) = seen item @ decode_all lim None rest"
proof (cases item)
  case (Whole f)
  then show ?thesis using assms by (simp add: decode_all_Delivered [OF decode_message])
next
  case (Fragments is_text p tail)
  let ?op = "if is_text then OP_TEXT else OP_BINARY"
  let ?inc = "\<lparr>inc_fin = False, inc_opcode = ?op, inc_len = length p, inc_got = p\<rparr>"
  note fits = assms [unfolded Fragments, simplified]
  have k: "known_op ?op" "length p < usize_limit" using fits by auto
  have c: "check_opcode lim None False ?op (length p) = Inr ()" using fits by (auto simp: check_opcode_def)
  have df: "decode_frame lim None (server_frame False ?op p @ fragment_tail tail @ rest) =
      Inr (Some (?inc, fragment_tail tail @ rest))"
    unfolding decode_server_frame [OF k] c by simp
  have "dispatch None ?inc = Some (Inr None, Some \<lparr>part_opcode = ?op, part_buf = p\<rparr>)"
    by (simp add: dispatch_def Let_def)
  from decode_all_fold [OF df this] show ?thesis
    using Fragments fits by (simp add: decode_fragment_tail message_of_def)
qed

text \<open>C18: what a server sends is what the client sees. Any sequence of messages, whole or cut into
  fragments with control frames in between, of any length that the limits and the three length
  encodings allow, decodes to exactly these messages and control frames, in order: binary and
  text payloads byte for byte, close frames with their code and reason.\<close>

theorem server_stream_roundtrip:
  assumes "list_all (item_fits lim) items"
  shows "decode_all lim None (concat (map wire items)) = concat (map seen items)"
  using assms
proof (induction items)
  case Nil
  then show ?case by (simp add: decode_all.simps [of lim None "[]"] decode.simps [of lim None "[]"] decode_frame_def)
next
  case (Cons i items)
  then show ?case by (simp add: decode_item)
qed


theorem server_stream_roundtrip_witness:
  "decode_all \<lparr>max_frame_size = 100, max_message_size = 100\<rparr> None
     (concat (map wire [Whole (Ping [7]), Fragments False [1, 2] [([Pong []], [3]), ([], [4])],
                        Whole (Close (Some (1000, ''bye'')))])) =
   [Ping [7], Pong [], Binary [1, 2, 3, 4], Close (Some (1000, ''bye''))]"
proof -
  have "valid_str ''bye''" by code_simp
  then have "list_all (item_fits \<lparr>max_frame_size = 100, max_message_size = 100\<rparr>)
    [Whole (Ping [7]), Fragments False [1, 2] [([Pong []], [3]), ([], [4])], Whole (Close (Some (1000, ''bye'')))]"
    by (simp add: usize_limit_def)
  from server_stream_roundtrip [OF this] show ?thesis by simp
qed

section \<open>Bounds\<close>

fun frame_size :: "frame \<Rightarrow> nat" where
  "frame_size (Binary p) = length p"
| "frame_size (Text p) = length p"
| "frame_size (Ping p) = length p"
| "frame_size (Pong p) = length p"
| "frame_size (Close None) = 0"
| "frame_size (Close (Some (code, reason))) = 2 + length reason"

definition size_bound :: "limits \<Rightarrow> nat" where
  "size_bound lim = max 125 (max (max_frame_size lim) (max_message_size lim))"

lemma decode_frame_header_of:
  assumes "decode_frame lim part bs = Inr (Some (inc, rest))"
  shows "\<exists>h. header_of lim part h inc" and "length (inc_got inc) = inc_len inc"
proof -
  let ?h = "take (header_total (bs ! 1)) bs"
  from assms obtain i where i: "parse_header lim part ?h = Inr i"
    "inc = i\<lparr>inc_got := take (inc_len i) (drop (header_total (bs ! 1)) bs)\<rparr>"
    "check_first (bs ! 0) (bs ! 1) = Inr ()" "header_total (bs ! 1) + inc_len i \<le> length bs"
    by (auto simp: decode_frame_def Let_def not_less split: if_splits sum.splits)
  have "inc_got i = []" using i(1) by (auto simp: parse_header_def Let_def split: sum.splits)
  moreover have "?h ! 0 = bs ! 0" "?h ! 1 = bs ! 1" using header_total_ge [of "bs ! 1"] by simp_all
  ultimately have "header_of lim part ?h inc"
    using i header_total_ge [of "bs ! 1"] by (auto simp: header_of_def)
  then show "\<exists>h. header_of lim part h inc" by blast
  show "length (inc_got inc) = inc_len inc" using i(2,4) by auto
qed

lemma header_of_len:
  assumes "header_of lim part h inc"
  shows "inc_len inc \<le> max 125 (max_frame_size lim)"
    and "check_opcode lim part (inc_fin inc) (inc_opcode inc) (inc_len inc) = Inr ()"
proof -
  show chk: "check_opcode lim part (inc_fin inc) (inc_opcode inc) (inc_len inc) = Inr ()"
    using assms by (cases inc) (auto simp: header_of_def parse_header_def Let_def split: sum.splits)
  then show "inc_len inc \<le> max 125 (max_frame_size lim)"
    by (auto simp: check_opcode_def MAX_CONTROL_PAYLOAD_def split: if_splits option.splits)
qed

lemma parse_close_size:
  assumes "parse_close p = Inr c" shows "frame_size (Close c) = length p"
proof (cases p rule: list.exhaust)
  case Nil
  then show ?thesis using assms by (simp add: parse_close_def)
next
  case (Cons a q)
  then obtain b r s where "q = b # r" "from_utf8 r = Some s" "c = Some (word_of_nat (be_val [a, b]), s)"
    using assms by (auto simp: parse_close_def split: list.splits option.splits)
  then show ?thesis using Cons by (auto dest!: from_utf8_SomeD)
qed

lemma dispatch_size:
  assumes "header_of lim part h inc" and "length (inc_got inc) = inc_len inc" and "msg_bounded lim part"
    and "max_message_size lim < usize_limit - 1" and "dispatch part inc = Some (Inr (Some f), part')"
  shows "frame_size f \<le> size_bound lim"
proof -
  note h = header_of_len [OF assms(1)]
  show ?thesis using assms(2-5) h
    by (auto simp: dispatch_def check_opcode_def saturating_add_def msg_bounded_def size_bound_def
        MAX_CONTROL_PAYLOAD_def parse_close_size Let_def split: if_splits option.splits sum.splits)
qed

lemma decode_size:
  assumes "decode lim part bs = Delivered f part' rest" and "msg_bounded lim part"
    and "max_message_size lim < usize_limit - 1"
  shows "frame_size f \<le> size_bound lim \<and> msg_bounded lim part'"
  using assms
proof (induction lim part bs rule: decode.induct)
  case (1 lim part bs)
  from "1.prems"(1) obtain inc r where df: "decode_frame lim part bs = Inr (Some (inc, r))"
    by (auto simp: decode.simps [of lim part bs] split: sum.splits option.splits)
  obtain h where h: "header_of lim part h inc" "length (inc_got inc) = inc_len inc"
    using decode_frame_header_of [OF df] by blast
  obtain x p where d: "dispatch part inc = Some (x, p)"
    using "1.prems"(1) df by (auto simp: decode.simps [of lim part bs] split: option.splits)
  note m = dispatch_bounded [OF h(1) "1.prems"(2) d]
  show ?case
  proof (cases "x = Inr None")
    case True
    then show ?thesis using "1.IH" [OF df refl] d m "1.prems" df
      by (auto simp: decode.simps [of lim part bs])
  next
    case False
    then show ?thesis using "1.prems" df d m dispatch_size [OF h "1.prems"(2,3)]
      by (auto simp: decode.simps [of lim part bs] split: sum.splits option.splits)
  qed
qed

lemma decode_all_size:
  "msg_bounded lim part \<Longrightarrow> max_message_size lim < usize_limit - 1 \<Longrightarrow> f \<in> set (decode_all lim part bs) \<Longrightarrow>
   frame_size f \<le> size_bound lim"
proof (induction lim part bs rule: decode_all.induct)
  case (1 lim part bs)
  show ?case
  proof (cases "decode lim part bs")
    case (Delivered g part' rest)
    note d = decode_size [OF Delivered "1.prems"(1,2)]
    have "f = g \<or> f \<in> set (decode_all lim part' rest)"
      using "1.prems"(3) Delivered by (simp add: decode_all.simps [of lim part bs])
    then show ?thesis using "1.IH" [OF Delivered] d "1.prems"(2) by blast
  qed (use "1.prems"(3) in \<open>simp_all add: decode_all.simps [of lim part bs]\<close>)
qed

context ws_reader
begin

text \<open>What a client holds in memory.\<close>

lemma view_bounds:
  assumes "view c bs"
  shows "ws_incoming c = Some inc \<Longrightarrow> inc_len inc \<le> max 125 (max_frame_size (ws_limits c)) \<and>
           length (inc_got inc) \<le> inc_len inc"
    and "max_message_size (ws_limits c) < usize_limit - 1 \<Longrightarrow> ws_partial c = Some pm \<Longrightarrow>
           length (part_buf pm) \<le> max_message_size (ws_limits c)"
    and "length (ws_header c) \<le> 10"
proof -
  show "inc_len inc \<le> max 125 (max_frame_size (ws_limits c)) \<and> length (inc_got inc) \<le> inc_len inc"
    if i: "ws_incoming c = Some inc"
  proof -
    obtain h where "header_of (ws_limits c) (ws_partial c) h inc"
      using assms i by (auto simp: view_def holds_def)
    then show ?thesis using header_of_len(1) by (auto simp: header_of_def)
  qed
  show "length (part_buf pm) \<le> max_message_size (ws_limits c)"
    if "max_message_size (ws_limits c) < usize_limit - 1" "ws_partial c = Some pm"
    using assms that by (simp add: view_def msg_bounded_def)
  have "length (ws_header c) \<le> max 2 (header_total (ws_header c ! 1))" if "ws_incoming c = None"
    using assms that by (cases "2 \<le> length (ws_header c)") (auto simp: view_def holds_def)
  then show "length (ws_header c) \<le> 10"
    using assms by (cases "ws_incoming c") (auto simp: view_def holds_def header_total_def Let_def split: if_splits)
qed

end

text \<open>C20: no server makes the client hold or deliver more than its limits. However many calls of
  \<open>read_frame\<close> have been made on whatever bytes, every delivered frame, the payload buffer of
  the frame in progress (allocated at its declared size), the fragmented message in progress
  and the header stay within the limits of the protocol and the configuration.\<close>

theorem read_frame_memory_bounded:
  assumes "byte_reader rd unread" and "max_message_size lim < usize_limit - 1"
    and "poll rd k (ws_start lim pending s) = Some (fs, None, d)"
  shows "(\<forall>f \<in> set fs. frame_size f \<le> size_bound lim) \<and>
         (\<forall>inc. ws_incoming d = Some inc \<longrightarrow> inc_len inc \<le> max 125 (max_frame_size lim) \<and>
            length (inc_got inc) \<le> inc_len inc) \<and>
         (\<forall>pm. ws_partial d = Some pm \<longrightarrow> length (part_buf pm) \<le> max_message_size lim) \<and>
         length (ws_header d) \<le> 10"
proof -
  have W: "ws_reader rd unread" using assms(1) by (rule ws_reader.intro)
  let ?c = "ws_start lim pending s"
  note poll = ws_reader.poll_decodes [OF W ws_start_to_come [OF W, of lim pending s], of k]
  then obtain rest where all: "decode_all lim None (pending @ unread s) = fs @ rest"
    and lim: "ws_limits d = lim" and "ws_reader.to_come unread d rest"
    using assms(3) by (auto simp: ws_start_def)
  then obtain bs where v: "ws_reader.view unread d bs" by (auto simp: ws_reader.to_come_def [OF W])
  note b = ws_reader.view_bounds [OF W v, unfolded lim]
  have "frame_size f \<le> size_bound lim" if "f \<in> set fs" for f
    by (rule decode_all_size [of lim None _ "pending @ unread s", OF _ assms(2)]) (use all that in \<open>simp_all add: msg_bounded_def [of lim None]\<close>)
  then show ?thesis using b assms(2) by blast
qed

subsection \<open>A peer to evaluate on\<close>

text \<open>One binary frame and a ping, in pieces, with the socket blocking inside the payload.\<close>

definition demo_limits :: limits where
  "demo_limits = \<lparr>max_frame_size = 32768, max_message_size = 32768\<rparr>"

definition demo_peer :: "ws_violation peer" where
  "demo_peer = [Gives 2 [], Fails WouldBlock, Gives 42 [], Fails TimedOut, Gives 43 [0x89], Gives 0 []]"

lemma demo_decode: "decode_all demo_limits None (0x82 # peer_unread demo_peer) = [Binary [42, 43], Ping []]"
proof -
  have "0x82 # peer_unread demo_peer = wire (Whole (Binary [42, 43])) @ wire (Whole (Ping [])) @ []"
    by (simp add: demo_peer_def server_frame_def server_header_def ops)
  also have "decode_all demo_limits None \<dots> = [Binary [42, 43], Ping []] @ decode_all demo_limits None []"
    by (subst decode_item, simp add: demo_limits_def usize_limit_def, subst decode_item,
        simp_all add: demo_limits_def usize_limit_def)
  finally show ?thesis
    by (simp add: decode_all.simps [of _ _ "[]"] decode.simps [of _ _ "[]"] decode_frame_def)
qed

lemmas ws_eval = read_frame.simps read_frame_round_def read_header_def header_upto.simps fill_def fill_into.simps
  read_payload_def finish_frame_def check_first_def header_total_def parse_header_def payload_len_def
  check_opcode_def is_would_block_def ws_start_def demo_peer_def demo_limits_def bindE_def ops Let_def


lemma demo_poll:
  "poll peer_read 1 (ws_start demo_limits [0x82] demo_peer) =
     Some ([], None, (ws_start demo_limits [0x82] (drop 2 demo_peer))
       \<lparr>ws_pending_pos := 1, ws_incoming := Some \<lparr>inc_fin = True, inc_opcode = 2, inc_len = 2, inc_got = []\<rparr>\<rparr>)"
  by (simp add: ws_eval)

theorem read_frame_memory_bounded_witness:
  "\<exists>d inc. poll peer_read 1 (ws_start demo_limits [0x82] demo_peer) = Some ([], None, d) \<and>
     ws_incoming d = Some inc \<and> inc_len inc = 2 \<and> inc_len inc \<le> max 125 32768"
proof -
  obtain d inc where d: "poll peer_read 1 (ws_start demo_limits [0x82] demo_peer) = Some ([], None, d)"
    "ws_incoming d = Some inc" "inc_len inc = 2"
    using demo_poll by simp
  have "max_message_size demo_limits < usize_limit - 1" by (simp add: demo_limits_def usize_limit_def)
  from read_frame_memory_bounded [OF peer.byte_reader_axioms this d(1)] show ?thesis
    using d by (auto simp: demo_limits_def)
qed

section \<open>Frames of the client\<close>

text \<open>The masking of the protocol, byte by byte: byte \<open>i\<close> with byte \<open>i mod 4\<close> of the key.\<close>

fun mask_from :: "bytes \<Rightarrow> nat \<Rightarrow> bytes \<Rightarrow> bytes" where
  "mask_from mkey i [] = []"
| "mask_from mkey i (b # bs) = (b XOR mkey ! (i mod 4)) # mask_from mkey (Suc i) bs"

lemma length_mask_from [simp]: "length (mask_from mkey i bs) = length bs"
  by (induction bs arbitrary: i) auto

lemma nth_mask_from: "j < length bs \<Longrightarrow> mask_from mkey i bs ! j = bs ! j XOR mkey ! ((i + j) mod 4)"
proof (induction bs arbitrary: i j)
  case (Cons b bs)
  then show ?case by (cases j) auto
qed simp

lemma mask_from_append: "mask_from mkey i (xs @ ys) = mask_from mkey i xs @ mask_from mkey (i + length xs) ys"
  by (induction xs arbitrary: i) auto

lemma mask_from_twice [simp]: "mask_from mkey i (mask_from mkey i bs) = bs"
  by (induction bs arbitrary: i) (auto simp: xor.assoc)

lemma and_3: "n AND 3 = n mod (4 :: nat)"
proof -
  have m: "(3 :: nat) = Bit_Operations.mask 2" by (simp add: mask_eq_exp_minus_1)
  have "n AND 3 = take_bit 2 n" unfolding m by (rule take_bit_eq_mask [symmetric])
  then show ?thesis by (simp add: take_bit_eq_mod)
qed

lemma mask_block_from: "mask_block mkey base block = mask_from mkey base block"
  by (rule nth_equalityI) (simp_all add: mask_block_def nth_mask_from and_3)

lemma masked_blocks_from:
  "concat (masked_blocks mkey i (chunks MASK_CHUNK xs)) = mask_from mkey (i * MASK_CHUNK) xs"
proof (induction "length xs" arbitrary: i xs rule: less_induct)
  case less
  show ?case
  proof (cases "xs = []")
    case True
    then show ?thesis by (simp add: chunks.simps)
  next
    case False
    have c: "chunks MASK_CHUNK xs = take MASK_CHUNK xs # chunks MASK_CHUNK (drop MASK_CHUNK xs)"
      using False by (subst chunks.simps) (simp add: MASK_CHUNK_def)
    have ih: "concat (masked_blocks mkey (Suc i) (chunks MASK_CHUNK (drop MASK_CHUNK xs))) =
        mask_from mkey (Suc i * MASK_CHUNK) (drop MASK_CHUNK xs)"
      by (rule less.hyps) (use False in \<open>simp add: MASK_CHUNK_def\<close>)
    show ?thesis
    proof (cases "length xs \<le> MASK_CHUNK")
      case True
      then show ?thesis using c ih by (simp add: mask_block_from)
    next
      case False
      have "mask_from mkey (i * MASK_CHUNK) xs = mask_from mkey (i * MASK_CHUNK) (take MASK_CHUNK xs @ drop MASK_CHUNK xs)"
        by simp
      also have "\<dots> = mask_from mkey (i * MASK_CHUNK) (take MASK_CHUNK xs) @
          mask_from mkey (Suc i * MASK_CHUNK) (drop MASK_CHUNK xs)"
        using False unfolding mask_from_append by (simp add: add.commute)
      finally show ?thesis using c ih by (simp add: mask_block_from)
    qed
  qed
qed

text \<open>How a server reads a frame of a client: the masked counterpart of \<open>decode_frame\<close>.\<close>

definition server_reads :: "bytes \<Rightarrow> (bool \<times> byte \<times> bytes \<times> bytes) option" where
  "server_reads bs =
     (let b0 = bs ! 0; b1 = bs ! 1; hl = header_total b1 in
      if b0 AND 0x70 \<noteq> 0 \<or> b1 AND 0x80 = 0 then None
      else case payload_len (take hl bs) of
        Inl _ \<Rightarrow> None
      | Inr len \<Rightarrow>
          if length bs < hl + 4 + len then None
          else Some (b0 AND 0x80 \<noteq> 0, b0 AND 0x0F,
                     mask_from (take 4 (drop hl bs)) 0 (take len (drop (hl + 4) bs)), drop (hl + 4 + len) bs))"

lemma frame_header_ok:
  assumes "known_op op" and "len < usize_limit" and h: "h = frame_header op len"
  shows "length h = header_total (h ! 1)" and "h ! 1 AND 0x80 \<noteq> 0"
    and "payload_len h = Inr len" and "h ! 0 = (if True then 0x80 else 0) OR op"
proof -
  have "length h = header_total (h ! 1) \<and> h ! 1 AND 0x80 \<noteq> 0 \<and> payload_len h = Inr len"
  proof (cases "len \<le> 125")
    case True
    then have "len < 128" by simp
    note s = small_len [OF this]
    show ?thesis using True s by (simp add: h frame_header_def header_total_def payload_len_def Let_def)
  next
    case False
    show ?thesis
    proof (cases "len \<le> 65535")
      case True
      then have b: "be_val [be_bytes 2 len ! 0, be_bytes 2 len ! 1] = len"
        using be_val_two list_two [of "be_bytes 2 len"] by simp
      show ?thesis using False True b
        by (simp add: h frame_header_def header_total_def payload_len_def Let_def nth_Cons')
    next
      case long: False
      then show ?thesis using False be_val_eight [OF assms(2)] assms(2)
        by (simp add: h frame_header_def header_total_def payload_len_def Let_def)
    qed
  qed
  then show "length h = header_total (h ! 1)" "h ! 1 AND 0x80 \<noteq> 0" "payload_len h = Inr len" by blast+
  show "h ! 0 = (if True then 0x80 else 0) OR op" by (simp add: h frame_header_def)
qed

lemma server_reads_frame:
  assumes "known_op op" and "length payload < usize_limit" and "length mkey = 4"
  shows "server_reads ((frame_header op (length payload) @ mkey) @ mask_from mkey 0 payload @ rest) =
    Some (True, op, payload, rest)"
proof -
  let ?h = "frame_header op (length payload)" and ?m = "mask_from mkey 0 payload"
  note h = frame_header_ok [OF assms(1,2) refl] and f = first_byte [OF assms(1), of True]
  have l: "2 \<le> length ?h" by (auto simp: frame_header_def)
  let ?bs = "(?h @ mkey) @ ?m @ rest"
  have n: "?bs ! 0 = ?h ! 0" "?bs ! 1 = ?h ! 1" using l by (auto simp: nth_append)
  have t: "take (length ?h) ?bs = ?h" "take 4 (drop (length ?h) ?bs) = mkey" "drop (length ?h + 4) ?bs = ?m @ rest"
    "drop (length ?h + 4 + length payload) ?bs = rest"
    using assms(3) by simp_all
  have len: "\<not> length ?bs < length ?h + 4 + length payload" using assms(3) by simp
  show ?thesis
    unfolding server_reads_def Let_def n h(1) [symmetric] t h(3) using h(2,4) f len assms(3) by (simp add: t)
qed

text \<open>A stream that records what is written to it.\<close>

definition recorder :: "bytes writer" where
  "recorder b out = (Inr (), out @ b)"

lemma write_pieces_recorder: "write_pieces recorder ps out = (Inr (), out @ concat ps)"
  by (induction ps arbitrary: out) (simp_all add: recorder_def bindE_def)

lemma masked_blocks_small:
  "p \<in> set (masked_blocks mkey i (chunks MASK_CHUNK xs)) \<Longrightarrow> length p \<le> MASK_CHUNK"
proof (induction "length xs" arbitrary: i xs rule: less_induct)
  case less
  then have ne: "xs \<noteq> []" by (auto simp: chunks.simps)
  then have "chunks MASK_CHUNK xs = take MASK_CHUNK xs # chunks MASK_CHUNK (drop MASK_CHUNK xs)"
    by (subst chunks.simps) (simp add: MASK_CHUNK_def)
  then have "p = mask_block mkey (i * MASK_CHUNK) (take MASK_CHUNK xs) \<or>
      p \<in> set (masked_blocks mkey (Suc i) (chunks MASK_CHUNK (drop MASK_CHUNK xs)))"
    using less.prems by simp
  then show ?case
  proof
    assume "p \<in> set (masked_blocks mkey (Suc i) (chunks MASK_CHUNK (drop MASK_CHUNK xs)))"
    then show ?thesis by (intro less.hyps [OF _ _]) (use ne in \<open>auto simp: MASK_CHUNK_def\<close>)
  qed (simp add: mask_block_def)
qed

text \<open>C19: what the client sends is what the server receives. \<open>send_frame\<close> refuses a control
  payload over 125 bytes without writing anything; otherwise the bytes it writes are a final,
  masked frame from which a server reads the opcode and the payload unchanged, whatever the
  mask key and the length; and it is written in pieces of at most 256 bytes, so sending needs
  no buffer of the size of the message.\<close>

theorem send_frame_roundtrip:
  assumes "known_op op" and "length payload < usize_limit" and "length mkey = 4"
  shows "(if op \<ge> OP_CLOSE \<and> length payload > 125
          then send_frame recorder (retE ()) mkey op payload c = (Inl (protocol_error Control_Too_Long), c)
          else \<exists>ps. frame_writes op mkey payload = Inr ps \<and> (\<forall>p \<in> set ps. length p \<le> 256) \<and>
            send_frame recorder (retE ()) mkey op payload c =
              (Inr (), c\<lparr>ws_stream := ws_stream c @ concat ps\<rparr>) \<and>
            server_reads (concat ps @ rest) = Some (True, op, payload, rest))"
proof (cases "op \<ge> OP_CLOSE \<and> length payload > 125")
  case True
  then show ?thesis by (simp add: send_frame_def frame_writes_def MAX_CONTROL_PAYLOAD_def)
next
  case False
  let ?ps = "(frame_header op (length payload) @ mkey) # masked_blocks mkey 0 (chunks MASK_CHUNK payload)"
  have w: "frame_writes op mkey payload = Inr ?ps"
    using False by (auto simp: frame_writes_def MAX_CONTROL_PAYLOAD_def)
  have "concat ?ps @ rest = (frame_header op (length payload) @ mkey) @ mask_from mkey 0 payload @ rest"
    using masked_blocks_from [of mkey 0 payload] by simp
  then have r: "server_reads (concat ?ps @ rest) = Some (True, op, payload, rest)"
    using server_reads_frame [OF assms] by simp
  have "length p \<le> 256" if "p \<in> set ?ps" for p
    using that assms(3) masked_blocks_small [of p mkey 0 payload] by (auto simp: frame_header_def MASK_CHUNK_def)
  moreover have "send_frame recorder (retE ()) mkey op payload c = (Inr (), c\<lparr>ws_stream := ws_stream c @ concat ?ps\<rparr>)"
    using w write_pieces_recorder [of ?ps "ws_stream c"] by (simp add: send_frame_def bindE_Inr del: write_pieces.simps)
  ultimately show ?thesis using False w r by auto
qed

theorem send_frame_roundtrip_witness:
  "\<exists>ps. frame_writes OP_BINARY [1, 2, 3, 4] [9, 8, 7, 6, 5] = Inr ps \<and>
     server_reads (concat ps) = Some (True, OP_BINARY, [9, 8, 7, 6, 5], [])"
proof -
  have "\<not> (OP_BINARY \<ge> OP_CLOSE \<and> length [9, 8, 7, 6, 5 :: byte] > 125)" by simp
  then show ?thesis
    using send_frame_roundtrip [of OP_BINARY "[9, 8, 7, 6, 5]" "[1, 2, 3, 4]" "ws_start demo_limits [] []" "[]"]
    by (auto simp: usize_limit_def)
qed

end
