(* ===== verification/Ws_Handshake.thy ===== *)
theory Ws_Handshake
  imports Ws_Refine Rust_Str
begin

text \<open>
  The HTTP upgrade of \<open>src/ws.rs\<close>: \<open>WsClient::connect\<close> and \<open>verify_upgrade\<close>. SHA-1 and base64
  come from crates outside the repository and are arguments; so are the socket's reader and
  writer, the clock, and the sixteen bytes of the nonce.
\<close>

section \<open>Checking the answer\<close>

record crypto =
  sha1 :: "bytes \<Rightarrow> bytes"
  base64 :: "bytes \<Rightarrow> str"

definition ACCEPT_GUID :: bytes where
  "ACCEPT_GUID = as_bytes ''258EAFA5-E914-47DA-95CA-C5AB0DC85B11''"

definition MAX_HANDSHAKE_BYTES :: nat where "MAX_HANDSHAKE_BYTES = 4 * 1024"

text \<open>In nanoseconds, like the clock.\<close>

definition HANDSHAKE_TIMEOUT :: nat where "HANDSHAKE_TIMEOUT = 15 * 10 ^ 9"

definition expected_accept :: "crypto \<Rightarrow> str \<Rightarrow> str" where
  "expected_accept cr key = base64 cr (sha1 cr (as_bytes key @ ACCEPT_GUID))"

record upgrade_headers =
  upgrade_ok :: bool
  connection_ok :: bool
  accept :: "str option"

definition header_line :: "str \<Rightarrow> upgrade_headers \<Rightarrow> upgrade_headers" where
  "header_line line u =
     (case split_once CHR '':'' line of
        None \<Rightarrow> u
      | Some (name, value0) \<Rightarrow>
          let value1 = trim value0 in
          if eq_ignore_ascii_case name ''upgrade''
          then u\<lparr>upgrade_ok := eq_ignore_ascii_case value1 ''websocket''\<rparr>
          else if eq_ignore_ascii_case name ''connection''
          then u\<lparr>connection_ok :=
                  list_ex (\<lambda>token. eq_ignore_ascii_case (trim token) ''upgrade'') (split_char CHR '','' value1)\<rparr>
          else if eq_ignore_ascii_case name ''sec-websocket-accept'' then u\<lparr>accept := Some value1\<rparr>
          else u)"

definition status_code :: "str \<Rightarrow> str option" where
  "status_code status =
     Option.bind
       (case strip_prefix ''HTTP/1.1 '' status of
          Some rest \<Rightarrow> Some rest
        | None \<Rightarrow> strip_prefix ''HTTP/1.0 '' status)
       (get_to 3)"

definition verify_upgrade :: "crypto \<Rightarrow> str \<Rightarrow> str \<Rightarrow> ws_error + unit" where
  "verify_upgrade cr head key =
     (let lines = split_crlf head; status = hd lines in
      case status_code status of
        None \<Rightarrow> Inl (protocol_error Malformed_Status)
      | Some code \<Rightarrow>
          if code \<noteq> ''101'' then Inl (protocol_error (Upgrade_Refused status))
          else
            let u = fold header_line (tl lines) \<lparr>upgrade_ok = False, connection_ok = False, accept = None\<rparr> in
            if \<not> upgrade_ok u then Inl (protocol_error Missing_Upgrade)
            else if \<not> connection_ok u then Inl (protocol_error Missing_Connection)
            else case accept u of
                   Some got \<Rightarrow> (if got = expected_accept cr key then Inr ()
                                else Inl (protocol_error Accept_Mismatch))
                 | None \<Rightarrow> Inl (protocol_error Missing_Accept))"

section \<open>Connecting\<close>

definition find_header_end :: "bytes \<Rightarrow> nat option" where
  "find_header_end buf = find_sub [0x0D, 0x0A, 0x0D, 0x0A] buf"

definition upgrade_request :: "str \<Rightarrow> str \<Rightarrow> str \<Rightarrow> str \<Rightarrow> str" where
  "upgrade_request host path origin key =
     ''GET '' @ path @ '' HTTP/1.1'' @ [CR, LF] @
     ''Host: '' @ host @ [CR, LF] @
     ''Upgrade: websocket'' @ [CR, LF] @
     ''Connection: Upgrade'' @ [CR, LF] @
     ''Sec-WebSocket-Key: '' @ key @ [CR, LF] @
     ''Sec-WebSocket-Version: 13'' @ [CR, LF] @
     ''Origin: '' @ origin @ [CR, LF] @
     [CR, LF]"

text \<open>
  The loop that waits for the blank line: the position of the blank line and the bytes read,
  or an error. It sleeps while the socket would block, until the deadline.
\<close>

partial_function (option) read_response ::
  "('s, ws_violation) reader \<Rightarrow> ('s \<Rightarrow> nat) \<Rightarrow> nat \<Rightarrow> bytes \<Rightarrow> 's \<Rightarrow> ((ws_error + nat \<times> bytes) \<times> 's) option" where
  "read_response rd now deadline response s =
     (case find_header_end response of
        Some i \<Rightarrow> Some (Inr (i, response), s)
      | None \<Rightarrow>
          if length response \<ge> MAX_HANDSHAKE_BYTES then Some (Inl (protocol_error Handshake_Too_Large), s)
          else case rd 256 s of
            (Inr bs, s') \<Rightarrow>
              if bs = [] then Some (Inl UnexpectedEof, s')
              else read_response rd now deadline (response @ bs) s'
          | (Inl e, s') \<Rightarrow>
              if is_would_block e
              then if now s' \<ge> deadline then Some (Inl TimedOut, s')
                   else read_response rd now deadline response s'
              else Some (Inl e, s'))"

definition finish_connect ::
  "crypto \<Rightarrow> limits \<Rightarrow> str \<Rightarrow> nat \<Rightarrow> bytes \<Rightarrow> 's \<Rightarrow> ws_error + 's ws_client" where
  "finish_connect cr lim key header_end response s =
     (case from_utf8 (take header_end response) of
        None \<Rightarrow> Inl (protocol_error Handshake_Not_Ascii)
      | Some head \<Rightarrow>
          (case verify_upgrade cr head key of
             Inl e \<Rightarrow> Inl e
           | Inr _ \<Rightarrow>
               Inr \<lparr>ws_stream = s, ws_limits = lim, ws_pending = drop (header_end + 4) response,
                    ws_pending_pos = 0, ws_header = [], ws_incoming = None, ws_partial = None\<rparr>))"

definition connect ::
  "crypto \<Rightarrow> ('s, ws_violation) reader \<Rightarrow> 's writer \<Rightarrow> ('s, ws_error, unit) io \<Rightarrow> ('s \<Rightarrow> nat) \<Rightarrow>
   bytes \<Rightarrow> str \<Rightarrow> str \<Rightarrow> str \<Rightarrow> limits \<Rightarrow> 's \<Rightarrow> (ws_error + 's ws_client) option" where
  "connect cr rd wr fl now nonce host path origin lim s =
     (let key = base64 cr nonce in
      case bindE (wr (as_bytes (upgrade_request host path origin key))) (\<lambda>_. fl) s of
        (Inl e, _) \<Rightarrow> Some (Inl e)
      | (Inr _, s1) \<Rightarrow>
          (case read_response rd now (now s1 + HANDSHAKE_TIMEOUT) [] s1 of
             None \<Rightarrow> None
           | Some (Inl e, _) \<Rightarrow> Some (Inl e)
           | Some (Inr (header_end, response), s2) \<Rightarrow>
               Some (finish_connect cr lim key header_end response s2)))"

section \<open>The contract of a socket\<close>

text \<open>
  Reading is \<open>byte_reader\<close>; writing does not touch what is still to be read; and a read that
  would block takes time.
\<close>

locale ws_socket = ws_reader rd unread
  for rd :: "('s, ws_violation) reader" and unread :: "'s \<Rightarrow> bytes" +
  fixes wr :: "'s writer" and fl :: "('s, ws_error, unit) io" and now :: "'s \<Rightarrow> nat"
  assumes write_keeps: "wr b s = (r, s') \<Longrightarrow> unread s' = unread s"
    and flush_keeps: "fl s = (r, s') \<Longrightarrow> unread s' = unread s"
    and blocking_takes_time: "rd n s = (Inl e, s') \<Longrightarrow> is_would_block e \<Longrightarrow> now s < now s'"
begin

text \<open>Every read makes progress: there are more bytes, or the clock has moved.\<close>

lemma response_induct [case_names step]:
  assumes step: "\<And>response s.
      (\<And>bs s'. rd 256 s = (Inr bs, s') \<Longrightarrow> bs \<noteq> [] \<Longrightarrow> length response < MAX_HANDSHAKE_BYTES \<Longrightarrow>
         P (response @ bs) s') \<Longrightarrow>
      (\<And>e s'. rd 256 s = (Inl e, s') \<Longrightarrow> is_would_block e \<Longrightarrow> now s' < deadline \<Longrightarrow> P response s') \<Longrightarrow>
      P response s"
  shows "P response (s :: 's)"
proof (induction "MAX_HANDSHAKE_BYTES - length response" arbitrary: response s rule: less_induct)
  case outer: (less response s)
  show ?case
  proof (induction "deadline - now s" arbitrary: s rule: less_induct)
    case (less s)
    show ?case
    proof (rule step)
      fix bs :: bytes and s'
      assume "bs \<noteq> []" "length response < MAX_HANDSHAKE_BYTES"
      then have "MAX_HANDSHAKE_BYTES - length (response @ bs) < MAX_HANDSHAKE_BYTES - length response"
        by (cases bs) auto
      then show "P (response @ bs) s'" by (rule outer)
    next
      fix e s'
      assume "rd 256 s = (Inl e, s')" "is_would_block e" "now s' < deadline"
      moreover from this have "now s < now s'" by (intro blocking_takes_time)
      ultimately have "deadline - now s' < deadline - now s" by simp
      then show "P response s'" by (rule less.hyps)
    qed
  qed
qed

lemma read_response_ends:
  "\<exists>r s'. read_response rd now deadline response s = Some (r, s') \<and>
     (\<forall>i got. r = Inr (i, got) \<longrightarrow> find_header_end got = Some i \<and> response @ unread s = got @ unread s')"
proof (induction response s rule: response_induct [of _ deadline])
  case (step response s)
  obtain x s' where r: "rd 256 s = (x, s')" by (rule prod.exhaust)
  note rr = read_response.simps [of rd now deadline response s]
  show ?case
  proof (cases x)
    case (Inl e)
    have "unread s' = unread s" using r Inl read_err by blast
    then show ?thesis using rr r Inl step(2) [of e s'] by (auto simp: not_le split: option.splits)
  next
    case (Inr bs)
    have "unread s = bs @ unread s'" using r Inr read_ok by blast
    then show ?thesis using rr r Inr step(1) [of bs s'] by (auto simp: not_le split: option.splits)
  qed
qed

lemma connect_result:
  "\<exists>r. connect cr rd wr fl now nonce host path origin lim s = Some r \<and>
     (\<forall>c. r = Inr c \<longrightarrow>
        (\<exists>head pending. unread s = as_bytes head @ [0x0D, 0x0A, 0x0D, 0x0A] @ pending @ unread (ws_stream c) \<and>
           verify_upgrade cr head (base64 cr nonce) = Inr () \<and> c = ws_start lim pending (ws_stream c)))"
proof -
  let ?key = "base64 cr nonce"
  obtain x s1 where w: "bindE (wr (as_bytes (upgrade_request host path origin ?key))) (\<lambda>_. fl) s = (x, s1)"
    by (rule prod.exhaust)
  have u1: "unread s1 = unread s"
    using w by (cases rule: bindE_cases) (use write_keeps flush_keeps in fastforce)+
  obtain r s2 where rr: "read_response rd now (now s1 + HANDSHAKE_TIMEOUT) [] s1 = Some (r, s2)"
    "\<forall>i got. r = Inr (i, got) \<longrightarrow> find_header_end got = Some i \<and> [] @ unread s1 = got @ unread s2"
    using read_response_ends by blast
  have ok: "\<exists>head pending. unread s = as_bytes head @ [0x0D, 0x0A, 0x0D, 0x0A] @ pending @ unread (ws_stream c) \<and>
      verify_upgrade cr head ?key = Inr () \<and> c = ws_start lim pending (ws_stream c)"
    if ri: "r = Inr (i, got)" and fc: "finish_connect cr lim ?key i got s2 = Inr c" for i got c
  proof -
    obtain head where h: "from_utf8 (take i got) = Some head" "verify_upgrade cr head ?key = Inr ()"
      "c = ws_start lim (drop (i + 4) got) s2"
      using fc by (auto simp: finish_connect_def ws_start_def split: option.splits sum.splits)
    have f: "find_header_end got = Some i" "unread s = got @ unread s2" using rr(2) ri u1 by auto
    have "take 4 (drop i got) = [0x0D, 0x0A, 0x0D, 0x0A]"
      using find_sub_Some [OF f(1) [unfolded find_header_end_def]] by (simp add: numeral_eq_Suc)
    then have "got = take i got @ [0x0D, 0x0A, 0x0D, 0x0A] @ drop (i + 4) got"
      by (metis add.commute append_take_drop_id drop_drop)
    then have "unread s = as_bytes head @ [0x0D, 0x0A, 0x0D, 0x0A] @ drop (i + 4) got @ unread s2"
      using f(2) from_utf8_SomeD [OF h(1)] by (metis append.assoc)
    then show ?thesis using h by (auto simp: ws_start_def)
  qed
  show ?thesis
  proof (cases "x = Inr () \<and> (\<exists>p. r = Inr p)")
    case True
    then obtain i got where "r = Inr (i, got)" by auto
    then show ?thesis using True w rr(1) ok by (auto simp: connect_def Let_def)
  next
    case False
    then show ?thesis using w rr(1) by (cases x; cases r) (auto simp: connect_def Let_def)
  qed
qed

end

section \<open>Properties\<close>

text \<open>C21: a connection that \<open>connect\<close> returns is one to a server that answered this very request,
  and nothing the server sent is lost. Over any socket, \<open>connect\<close> returns, after at most the
  timeout. If it returns a client, the server's bytes start with an answer that
  \<open>verify_upgrade\<close> accepts for the key made from the nonce, and the frames that any number of
  \<open>read_frame\<close> calls then deliver are the first frames the reference decoder finds in all the
  bytes after the blank line, including those read together with the answer.\<close>

theorem connect_then_read:
  assumes "ws_socket rd unread wr fl now"
  shows "\<exists>r. connect cr rd wr fl now nonce host path origin lim s = Some r \<and>
    (\<forall>c. r = Inr c \<longrightarrow>
      (\<exists>head tail. unread s = as_bytes head @ [0x0D, 0x0A, 0x0D, 0x0A] @ tail \<and>
         verify_upgrade cr head (base64 cr nonce) = Inr () \<and>
         (\<forall>k. \<exists>fs e d rest. poll rd k c = Some (fs, e, d) \<and> decode_all lim None tail = fs @ rest)))"
proof -
  have W: "ws_reader rd unread" using assms by (rule ws_socket.axioms(1))
  from ws_socket.connect_result [OF assms, of cr nonce host path origin lim s] obtain r where
    r: "connect cr rd wr fl now nonce host path origin lim s = Some r"
    "\<forall>c. r = Inr c \<longrightarrow>
        (\<exists>head pending. unread s = as_bytes head @ [0x0D, 0x0A, 0x0D, 0x0A] @ pending @ unread (ws_stream c) \<and>
           verify_upgrade cr head (base64 cr nonce) = Inr () \<and> c = ws_start lim pending (ws_stream c))"
    by blast
  have "\<exists>fs e d rest. poll rd k c = Some (fs, e, d) \<and> decode_all lim None (pending @ unread (ws_stream c)) = fs @ rest"
    if c0: "c = ws_start lim pending (ws_stream c)" for c pending k
  proof -
    obtain t where c: "c = ws_start lim pending t" using c0 by blast
    have t: "ws_stream c = t" by (simp add: c ws_start_def)
    show ?thesis
      unfolding t using ws_reader.poll_decodes [OF W ws_start_to_come [OF W], of k lim pending t] c by blast
  qed
  then have "\<exists>head tail. unread s = as_bytes head @ [0x0D, 0x0A, 0x0D, 0x0A] @ tail \<and>
      verify_upgrade cr head (base64 cr nonce) = Inr () \<and>
      (\<forall>k. \<exists>fs e d rest. poll rd k c = Some (fs, e, d) \<and> decode_all lim None tail = fs @ rest)"
    if "r = Inr c" for c
    using r(2) [rule_format, OF that] by (elim exE conjE) (intro exI conjI, assumption+, blast)
  then show ?thesis using r(1) by simp
qed


section \<open>A scripted socket\<close>

text \<open>The \<open>Script\<close> of the tests in \<open>src/ws.rs\<close>, with a clock that each failing read advances by 5 ms.\<close>

record script =
  inbound :: "ws_violation peer"
  outbound :: bytes
  clock :: nat

definition script_read :: "(script, ws_violation) reader" where
  "script_read n s =
     (case peer_read n (inbound s) of
        (Inl e, p) \<Rightarrow> (Inl e, s\<lparr>inbound := p, clock := clock s + 5 * 10 ^ 6\<rparr>)
      | (Inr bs, p) \<Rightarrow> (Inr bs, s\<lparr>inbound := p\<rparr>))"

definition script_write :: "script writer" where
  "script_write b s = (Inr (), s\<lparr>outbound := outbound s @ b\<rparr>)"

abbreviation script_unread :: "script \<Rightarrow> bytes" where
  "script_unread s \<equiv> peer_unread (inbound s)"

interpretation script: ws_socket script_read script_unread script_write "retE ()" clock
proof
  fix n s bs s' assume "script_read n s = (Inr bs, s')"
  then have p: "peer_read n (inbound s) = (Inr bs, inbound s')"
    by (auto simp: script_read_def split: prod.splits sum.splits)
  show "length bs \<le> n \<and> script_unread s = bs @ script_unread s'" using peer.read_ok [OF p] .
next
  fix n s e s' assume r: "script_read n s = (Inl e, s')"
  then have p: "peer_read n (inbound s) = (Inl e, inbound s')"
    by (auto simp: script_read_def split: prod.splits sum.splits)
  show "script_unread s' = script_unread s" using peer.read_err [OF p] .
  show "clock s < clock s'" using r by (auto simp: script_read_def split: prod.splits sum.splits)
next
  fix n s s' assume "script_read n s = (Inr [], s')" and "0 < n"
  then have p: "peer_read n (inbound s) = (Inr [], inbound s')"
    by (auto simp: script_read_def split: prod.splits sum.splits)
  show "script_unread s = []" using peer.read_eof [OF p \<open>0 < n\<close>] .
qed (auto simp: script_write_def)

text \<open>An answer with a binary frame right behind it, for a toy hash and encoding.\<close>

definition demo_crypto :: crypto where
  "demo_crypto = \<lparr>sha1 = (\<lambda>bs. take 2 bs), base64 = (\<lambda>bs. ''k'')\<rparr>"

definition demo_head :: str where
  "demo_head = ''HTTP/1.1 101 Ok'' @ [CR, LF] @ ''Upgrade: WebSocket'' @ [CR, LF] @
     ''Connection: keep-alive, Upgrade'' @ [CR, LF] @ ''Sec-WebSocket-Accept: k''"

lemma demo_head_ok: "verify_upgrade demo_crypto demo_head ''k'' = Inr ()"
  by code_simp


definition demo_answer :: bytes where
  "demo_answer = as_bytes (demo_head @ [CR, LF, CR, LF]) @ [0x82, 1, 42]"

definition demo_socket :: script where
  "demo_socket = \<lparr>inbound = [Gives (hd demo_answer) (tl demo_answer)], outbound = [], clock = 0\<rparr>"

lemma demo_end: "find_header_end demo_answer = Some 93" "length demo_answer = 100" "demo_answer \<noteq> []"
  by code_simp+

lemma demo_take: "from_utf8 (take 93 demo_answer) = Some demo_head" "drop 97 demo_answer = [0x82, 1, 42]"
proof -
  have "length demo_head = 93" "valid_str demo_head" by code_simp+
  then show "from_utf8 (take 93 demo_answer) = Some demo_head" "drop 97 demo_answer = [0x82, 1, 42]"
    by (simp_all add: demo_answer_def as_bytes_append)
qed

lemma demo_connect:
  "connect demo_crypto script_read script_write (retE ()) clock nonce host path origin lim demo_socket =
     Some (Inr (ws_start lim [0x82, 1, 42]
       \<lparr>inbound = [], outbound = as_bytes (upgrade_request host path origin ''k''), clock = 0\<rparr>))"
proof -
  let ?s = "demo_socket\<lparr>outbound := as_bytes (upgrade_request host path origin ''k'')\<rparr>"
  have rd: "script_read 256 ?s = (Inr demo_answer, ?s\<lparr>inbound := []\<rparr>)"
    using demo_end(2,3) by (cases demo_answer) (auto simp: script_read_def demo_socket_def)
  have "find_header_end [] = None" by (simp add: find_header_end_def)
  then have "read_response script_read clock d [] ?s = Some (Inr (93, demo_answer), ?s\<lparr>inbound := []\<rparr>)" for d
    using rd demo_end(1,3)
    by (subst read_response.simps) (simp add: MAX_HANDSHAKE_BYTES_def read_response.simps)
  moreover have "base64 demo_crypto nonce = ''k''" by (simp add: demo_crypto_def)
  ultimately show ?thesis
    using demo_take demo_head_ok
    by (simp add: connect_def finish_connect_def script_write_def bindE_def ws_start_def demo_socket_def)
qed

theorem connect_then_read_witness:
  "\<exists>c. connect demo_crypto script_read script_write (retE ()) clock [] ''h'' ''/'' ''o''
       \<lparr>max_frame_size = 9, max_message_size = 9\<rparr> demo_socket = Some (Inr c) \<and>
     (\<exists>fs e d. poll script_read 3 c = Some (fs, e, d))"
proof -
  let ?lim = "\<lparr>max_frame_size = 9, max_message_size = 9\<rparr>"
  obtain c where c: "connect demo_crypto script_read script_write (retE ()) clock [] ''h'' ''/'' ''o'' ?lim demo_socket =
      Some (Inr c)"
    using demo_connect by blast
  from connect_then_read [OF script.ws_socket_axioms, of demo_crypto "[]" "''h''" "''/''" "''o''" ?lim demo_socket]
  have "\<forall>k. \<exists>fs e d. poll script_read k c = Some (fs, e, d)" using c by clarsimp meson
  then show ?thesis using c by blast
qed

subsection \<open>What \<open>verify_upgrade\<close> accepts\<close>

definition last_value :: "str \<Rightarrow> str list \<Rightarrow> str option \<Rightarrow> str option" where
  "last_value name ls v0 =
     fold (\<lambda>l v. case split_once CHR '':'' l of
             Some (n, x) \<Rightarrow> if eq_ignore_ascii_case n name then Some (trim x) else v | None \<Rightarrow> v) ls v0"

definition lists_upgrade :: "str \<Rightarrow> bool" where
  "lists_upgrade v \<longleftrightarrow> (\<exists>token \<in> set (split_char CHR '','' v). eq_ignore_ascii_case (trim token) ''upgrade'')"

lemma names_differ:
  "eq_ignore_ascii_case n ''upgrade'' \<Longrightarrow> \<not> eq_ignore_ascii_case n ''connection'' \<and>
     \<not> eq_ignore_ascii_case n ''sec-websocket-accept''"
  "eq_ignore_ascii_case n ''connection'' \<Longrightarrow> \<not> eq_ignore_ascii_case n ''sec-websocket-accept''"
proof -
  have "map ascii_lower ''upgrade'' \<noteq> map ascii_lower ''connection''"
    "map ascii_lower ''upgrade'' \<noteq> map ascii_lower ''sec-websocket-accept''"
    "map ascii_lower ''connection'' \<noteq> map ascii_lower ''sec-websocket-accept''" by code_simp+
  then show "eq_ignore_ascii_case n ''upgrade'' \<Longrightarrow> \<not> eq_ignore_ascii_case n ''connection'' \<and>
     \<not> eq_ignore_ascii_case n ''sec-websocket-accept''"
    "eq_ignore_ascii_case n ''connection'' \<Longrightarrow> \<not> eq_ignore_ascii_case n ''sec-websocket-accept''"
    unfolding eq_ignore_ascii_case_def by (metis, metis)
qed

text \<open>The record after all lines, from the values kept for each of the three names.\<close>

definition headers_of :: "str option \<Rightarrow> str option \<Rightarrow> str option \<Rightarrow> upgrade_headers" where
  "headers_of up con acc =
     \<lparr>upgrade_ok = (case up of None \<Rightarrow> False | Some v \<Rightarrow> eq_ignore_ascii_case v ''websocket''),
      connection_ok = (case con of None \<Rightarrow> False | Some v \<Rightarrow> lists_upgrade v), accept = acc\<rparr>"

lemma fold_header_lines:
  "fold header_line ls (headers_of up con acc) =
     headers_of (last_value ''upgrade'' ls up) (last_value ''connection'' ls con)
       (last_value ''sec-websocket-accept'' ls acc)"
proof (induction ls arbitrary: up con acc)
  case Nil
  then show ?case by (simp add: last_value_def)
next
  case (Cons l ls)
  have step: "header_line l (headers_of up con acc) =
      headers_of (last_value ''upgrade'' [l] up) (last_value ''connection'' [l] con)
        (last_value ''sec-websocket-accept'' [l] acc)"
    using names_differ
    by (auto simp: header_line_def last_value_def headers_of_def lists_upgrade_def list_ex_iff Let_def
        split: option.splits)
  show ?case using Cons.IH by (simp add: step last_value_def)
qed

text \<open>A client trusts only an answer to its own key. \<open>verify_upgrade\<close> accepts exactly the
  answers with status 101 whose last \<open>Upgrade\<close> header is \<open>websocket\<close>, whose last
  \<open>Connection\<close> header lists \<open>upgrade\<close>, and whose last \<open>Sec-WebSocket-Accept\<close> header is the
  value computed from the key: a replayed answer to another key is refused unless the hashes
  collide.\<close>

lemma verify_upgrade_exact:
  "verify_upgrade cr head key = Inr () \<longleftrightarrow>
     status_code (hd (split_crlf head)) = Some ''101'' \<and>
     (\<exists>v. last_value ''upgrade'' (tl (split_crlf head)) None = Some v \<and> eq_ignore_ascii_case v ''websocket'') \<and>
     (\<exists>v. last_value ''connection'' (tl (split_crlf head)) None = Some v \<and> lists_upgrade v) \<and>
     last_value ''sec-websocket-accept'' (tl (split_crlf head)) None = Some (expected_accept cr key)"
proof -
  have "fold header_line (tl (split_crlf head)) \<lparr>upgrade_ok = False, connection_ok = False, accept = None\<rparr> =
      headers_of (last_value ''upgrade'' (tl (split_crlf head)) None) (last_value ''connection'' (tl (split_crlf head)) None)
        (last_value ''sec-websocket-accept'' (tl (split_crlf head)) None)"
    using fold_header_lines [of "tl (split_crlf head)" None None None] by (simp add: headers_of_def)
  then show ?thesis
    unfolding verify_upgrade_def Let_def by (auto simp: headers_of_def split: option.splits if_splits)
qed

end
