(* ===== verification/Http_Text.thy ===== *)
theory Http_Text
  imports Rust_Str Byte_Reader
begin

text \<open>
  The text side of \<open>src/http_client.rs\<close>: URLs, request heads, status lines and the headers that
  say how a response body ends.
\<close>

section \<open>Errors\<close>

text \<open>The \<open>InvalidData\<close> errors of \<open>src/http_chunked.rs\<close>.\<close>

datatype http_violation =
    Chunk_Metadata | Chunk_Terminator | Chunk_Size | Chunk_Size_Overflow | Chunk_Trailer

datatype http_error =
    Invalid_Scheme | Invalid_Port
  | Invalid_Method | Invalid_Target | Invalid_Host | Invalid_Header
  | Unsupported_Encoding str | Invalid_Length | Duplicate_Length | Conflicting_Framing | Head_Not_Utf8
  | No_Status_Line | Malformed_Status_Line str
  | Malformed_Response | Length_Exceeds_Memory | Response_Truncated nat nat
  | Response_Too_Large | Response_Timed_Out | Closed_In_Head | Head_Too_Large | Heap_Too_Low
  | Io_Error "http_violation io_error"

section \<open>URLs\<close>

definition split_scheme :: "str \<Rightarrow> (str \<times> bool) option" where
  "split_scheme url =
     (case strip_prefix ''https://'' url of
        Some s \<Rightarrow> Some (s, True)
      | None \<Rightarrow>
          (case strip_prefix ''wss://'' url of
             Some s \<Rightarrow> Some (s, True)
           | None \<Rightarrow>
               (case strip_prefix ''http://'' url of
                  Some s \<Rightarrow> Some (s, False)
                | None \<Rightarrow>
                    (case strip_prefix ''ws://'' url of
                       Some s \<Rightarrow> Some (s, False)
                     | None \<Rightarrow> None))))"

definition parse_url :: "str \<Rightarrow> http_error + str \<times> nat \<times> str \<times> bool" where
  "parse_url url =
     (case split_scheme url of
        None \<Rightarrow> Inl Invalid_Scheme
      | Some (without_scheme, use_tls) \<Rightarrow>
          let (host_port, path) =
                (case find_char CHR ''/'' without_scheme of
                   Some i \<Rightarrow> (take i without_scheme, drop i without_scheme)
                 | None \<Rightarrow> (without_scheme, ''/''))
          in case find_char CHR '':'' host_port of
               Some i \<Rightarrow>
                 (case parse_uint 65536 (drop (i + 1) host_port) of
                    Some port \<Rightarrow> Inr (take i host_port, port, path, use_tls)
                  | None \<Rightarrow> Inl Invalid_Port)
             | None \<Rightarrow> Inr (host_port, if use_tls then 443 else 80, path, use_tls))"

text \<open>The address dialed: under the \<open>qemu\<close> feature the host's loopback is the emulator's gateway.\<close>

definition qemu_host :: "bool \<Rightarrow> str \<Rightarrow> str" where
  "qemu_host qemu host =
     (if qemu \<and> (host = ''127.0.0.1'' \<or> host = ''localhost'') then ''10.0.2.2'' else host)"

section \<open>Request heads\<close>

definition char_code :: "char \<Rightarrow> nat" where
  "char_code c = of_char c"

definition is_ascii_alphanumeric :: "char \<Rightarrow> bool" where
  "is_ascii_alphanumeric c \<longleftrightarrow>
     48 \<le> char_code c \<and> char_code c \<le> 57 \<or> 65 \<le> char_code c \<and> char_code c \<le> 90 \<or>
     97 \<le> char_code c \<and> char_code c \<le> 122"

definition is_http_token_byte :: "char \<Rightarrow> bool" where
  "is_http_token_byte c \<longleftrightarrow>
     is_ascii_alphanumeric c \<or>
     c \<in> set (''!#$%&'' @ [CHR 0x27] @ ''*+-.^_'' @ [CHR 0x60] @ ''|~'')"

definition is_ascii_control :: "char \<Rightarrow> bool" where
  "is_ascii_control c \<longleftrightarrow> char_code c < 0x20 \<or> char_code c = 0x7F"

definition is_ascii_whitespace :: "char \<Rightarrow> bool" where
  "is_ascii_whitespace c \<longleftrightarrow> char_code c \<in> {0x09, 0x0A, 0x0C, 0x0D, 0x20}"

abbreviation crlf :: str where "crlf \<equiv> [CR, LF]"

text \<open>The loop over the headers; a hash map gives them in some order, which is the list's.\<close>

fun push_headers :: "bool \<Rightarrow> (str \<times> str) list \<Rightarrow> str \<Rightarrow> http_error + str" where
  "push_headers has_body [] raw = Inr raw"
| "push_headers has_body ((key, value0) # headers) raw =
     (if key = [] \<or> \<not> list_all is_http_token_byte key \<or>
         list_ex (\<lambda>c. c = CR \<or> c = LF \<or> c = CHR 0x00) value0
      then Inl Invalid_Header
      else if has_body \<and> eq_ignore_ascii_case key ''content-length''
      then push_headers has_body headers raw
      else push_headers has_body headers (raw @ key @ '': '' @ value0 @ crlf))"

definition build_raw_request ::
  "str \<Rightarrow> str \<Rightarrow> str \<Rightarrow> (str \<times> str) list \<Rightarrow> bytes option \<Rightarrow> http_error + str" where
  "build_raw_request method path host headers body =
     (if method = [] \<or> \<not> list_all is_http_token_byte method then Inl Invalid_Method
      else if (path = [] \<or> hd path \<noteq> CHR ''/'') \<or> list_ex (\<lambda>c. is_ascii_control c \<or> c = CHR '' '') path
      then Inl Invalid_Target
      else if host = [] \<or> list_ex (\<lambda>c. is_ascii_control c \<or> is_ascii_whitespace c) host
      then Inl Invalid_Host
      else
        case push_headers (body \<noteq> None) headers
               (method @ '' '' @ path @ '' HTTP/1.1'' @ crlf @ ''Host: '' @ host @ crlf @ ''Connection: close'' @ crlf) of
          Inl e \<Rightarrow> Inl e
        | Inr raw \<Rightarrow>
            Inr ((case body of
                    None \<Rightarrow> raw
                  | Some b \<Rightarrow> raw @ ''Content-Length: '' @ show_nat (length b) @ crlf) @ crlf))"

section \<open>Response heads\<close>

datatype body_framing = Close_Framing | Length_Framing nat | Chunked_Framing

text \<open>The loop over the header lines: the declared length and whether the body is chunked.\<close>

fun framing_lines :: "str list \<Rightarrow> nat option \<Rightarrow> bool \<Rightarrow> http_error + nat option \<times> bool" where
  "framing_lines [] content_length chunked = Inr (content_length, chunked)"
| "framing_lines (line # rest) content_length chunked =
     (case split_once CHR '':'' line of
        None \<Rightarrow> framing_lines rest content_length chunked
      | Some (name, value0) \<Rightarrow>
          let is_te = eq_ignore_ascii_case (trim name) ''transfer-encoding'';
              is_cl = eq_ignore_ascii_case (trim name) ''content-length''
          in if is_te \<and> (chunked \<or> \<not> eq_ignore_ascii_case (trim value0) ''chunked'')
             then Inl (Unsupported_Encoding (trim value0))
             else
               let chunked' = (chunked \<or> is_te)
               in if is_cl then
                    (case parse_uint (2 ^ 64) (trim value0) of
                       None \<Rightarrow> Inl Invalid_Length
                     | Some parsed \<Rightarrow>
                         if content_length \<noteq> None then Inl Duplicate_Length
                         else framing_lines rest (Some parsed) chunked')
                  else framing_lines rest content_length chunked')"

definition parse_body_framing :: "bytes \<Rightarrow> http_error + body_framing" where
  "parse_body_framing header_bytes =
     (case from_utf8 header_bytes of
        None \<Rightarrow> Inl Head_Not_Utf8
      | Some header \<Rightarrow>
          (case framing_lines (drop 1 (str_lines header)) None False of
             Inl e \<Rightarrow> Inl e
           | Inr (Some _, True) \<Rightarrow> Inl Conflicting_Framing
           | Inr (None, True) \<Rightarrow> Inr Chunked_Framing
           | Inr (Some length0, False) \<Rightarrow> Inr (Length_Framing length0)
           | Inr (None, False) \<Rightarrow> Inr Close_Framing))"

definition parse_status_code :: "bytes \<Rightarrow> http_error + nat" where
  "parse_status_code header_bytes =
     (case str_lines (from_utf8_lossy header_bytes) of
        [] \<Rightarrow> Inl No_Status_Line
      | status_line # _ \<Rightarrow>
          (case split_whitespace status_line of
             _ # code # _ \<Rightarrow>
               (case parse_uint 65536 code of
                  Some n \<Rightarrow> Inr n
                | None \<Rightarrow> Inl (Malformed_Status_Line status_line))
           | _ \<Rightarrow> Inl (Malformed_Status_Line status_line)))"

section \<open>Properties\<close>

subsection \<open>URLs\<close>

lemma strip_prefix_Some: "strip_prefix p s = Some t \<longleftrightarrow> s = p @ t"
  by (auto simp: strip_prefix_def) (metis append_take_drop_id)

definition schemes :: "(str \<times> bool) list" where
  "schemes = [(''https://'', True), (''wss://'', True), (''http://'', False), (''ws://'', False)]"

lemma split_scheme_iff:
  "split_scheme url = Some (rest, tls) \<longleftrightarrow> (\<exists>scheme. (scheme, tls) \<in> set schemes \<and> url = scheme @ rest)"
proof
  assume "split_scheme url = Some (rest, tls)"
  then show "\<exists>scheme. (scheme, tls) \<in> set schemes \<and> url = scheme @ rest"
    by (auto simp: split_scheme_def schemes_def strip_prefix_Some split: option.splits)
next
  assume "\<exists>scheme. (scheme, tls) \<in> set schemes \<and> url = scheme @ rest"
  then obtain scheme where "(scheme, tls) \<in> set schemes" "url = scheme @ rest" by blast
  then show "split_scheme url = Some (rest, tls)"
    by (auto simp: schemes_def split_scheme_def strip_prefix_def)
qed

text \<open>The text before the first occurrence of a character, and the text from there on.\<close>

lemma find_char_drop:
  assumes "find_char c s = Some i"
  shows "drop i s = c # drop (Suc i) s" and "c \<notin> set (take i s)"
  using find_char_Some [OF assms] by (auto simp: Cons_nth_drop_Suc)

definition port_text :: "bool \<Rightarrow> str \<Rightarrow> nat \<Rightarrow> bool" where
  "port_text tls authority port \<longleftrightarrow>
     authority = [] \<and> port = (if tls then 443 else 80) \<or>
     (\<exists>digits. authority = CHR '':'' # digits \<and> parse_uint 65536 digits = Some port)"

definition path_text :: "str \<Rightarrow> str \<Rightarrow> bool" where
  "path_text rest path \<longleftrightarrow> rest = [] \<and> path = ''/'' \<or> (\<exists>r. rest = CHR ''/'' # r \<and> path = rest)"

definition split_path :: "str \<Rightarrow> str \<times> str" where
  "split_path u = (case find_char CHR ''/'' u of Some i \<Rightarrow> (take i u, drop i u) | None \<Rightarrow> (u, ''/''))"

lemma split_path_iff:
  "split_path u = (hp, path) \<longleftrightarrow> (\<exists>rest. u = hp @ rest \<and> CHR ''/'' \<notin> set hp \<and> path_text rest path)"
proof
  assume *: "split_path u = (hp, path)"
  show "\<exists>rest. u = hp @ rest \<and> CHR ''/'' \<notin> set hp \<and> path_text rest path"
  proof (cases "find_char CHR ''/'' u")
    case None
    then show ?thesis using * find_char_None [THEN iffD1, OF None] by (simp add: split_path_def path_text_def)
  next
    case (Some i)
    note i = find_char_drop [OF Some]
    have "hp = take i u" "path = drop i u" using * Some by (auto simp: split_path_def)
    then show ?thesis using i append_take_drop_id [of i u]
      by (intro exI [of _ "drop i u"]) (simp add: path_text_def)
  qed
next
  assume "\<exists>rest. u = hp @ rest \<and> CHR ''/'' \<notin> set hp \<and> path_text rest path"
  then show "split_path u = (hp, path)"
    by (auto simp: path_text_def split_path_def find_char_append find_char_None [THEN iffD2])
qed

definition split_port :: "bool \<Rightarrow> str \<Rightarrow> (str \<times> nat) option" where
  "split_port tls hp =
     (case find_char CHR '':'' hp of
        Some i \<Rightarrow> map_option (\<lambda>port. (take i hp, port)) (parse_uint 65536 (drop (i + 1) hp))
      | None \<Rightarrow> Some (hp, if tls then 443 else 80))"

lemma split_port_iff:
  "split_port tls hp = Some (host, port) \<longleftrightarrow>
     (\<exists>authority. hp = host @ authority \<and> CHR '':'' \<notin> set host \<and> port_text tls authority port)"
proof
  assume *: "split_port tls hp = Some (host, port)"
  show "\<exists>authority. hp = host @ authority \<and> CHR '':'' \<notin> set host \<and> port_text tls authority port"
  proof (cases "find_char CHR '':'' hp")
    case None
    then show ?thesis using * find_char_None [THEN iffD1, OF None] by (auto simp: split_port_def port_text_def)
  next
    case (Some i)
    note i = find_char_drop [OF Some]
    have "hp = take i hp @ drop i hp" by simp
    then have "hp = take i hp @ CHR '':'' # drop (Suc i) hp" using i by simp
    moreover have "host = take i hp" "parse_uint 65536 (drop (Suc i) hp) = Some port"
      using * Some by (auto simp: split_port_def)
    ultimately show ?thesis using i(2) by (auto simp: port_text_def)
  qed
next
  assume "\<exists>authority. hp = host @ authority \<and> CHR '':'' \<notin> set host \<and> port_text tls authority port"
  then show "split_port tls hp = Some (host, port)"
    by (auto simp: port_text_def split_port_def find_char_append find_char_None [THEN iffD2])
qed

lemma parse_url_split:
  "parse_url url = Inr (host, port, path, tls) \<longleftrightarrow>
     (\<exists>rest hp. split_scheme url = Some (rest, tls) \<and> split_path rest = (hp, path) \<and>
        split_port tls hp = Some (host, port))"
  by (auto simp: parse_url_def split_path_def split_port_def Let_def split: option.splits)

text \<open>\<open>parse_url\<close> succeeds exactly on a known scheme, a host without slash or colon, an
  optional colon and port below 65536, and nothing or a path that starts with a slash; and it
  returns these parts, with the scheme's default port and the path \<open>/\<close> where they are missing.
\<close>

lemma parse_url_exact:
  "parse_url url = Inr (host, port, path, tls) \<longleftrightarrow>
     (\<exists>scheme authority rest.
        (scheme, tls) \<in> set schemes \<and> url = scheme @ host @ authority @ rest \<and>
        CHR ''/'' \<notin> set (host @ authority) \<and> CHR '':'' \<notin> set host \<and>
        port_text tls authority port \<and> path_text rest path)"
    (is "_ \<longleftrightarrow> ?parts")
proof
  assume "parse_url url = Inr (host, port, path, tls)"
  then show ?parts unfolding parse_url_split split_scheme_iff split_path_iff split_port_iff
    by (elim exE conjE) (intro exI conjI, assumption, simp_all)
next
  assume ?parts
  then show "parse_url url = Inr (host, port, path, tls)"
    unfolding parse_url_split split_scheme_iff split_path_iff split_port_iff
    by (elim exE conjE) (intro exI conjI, assumption, simp_all)
qed

subsection \<open>Request heads\<close>

definition field_line :: "str \<times> str \<Rightarrow> str" where
  "field_line kv = fst kv @ '': '' @ snd kv"

text \<open>The headers that are sent: with a body, the caller's \<open>Content-Length\<close> is not.\<close>

definition sent_headers :: "bool \<Rightarrow> (str \<times> str) list \<Rightarrow> (str \<times> str) list" where
  "sent_headers has_body = filter (\<lambda>(k, v). \<not> (has_body \<and> eq_ignore_ascii_case k ''content-length''))"

definition header_valid :: "str \<times> str \<Rightarrow> bool" where
  "header_valid kv \<longleftrightarrow>
     fst kv \<noteq> [] \<and> list_all is_http_token_byte (fst kv) \<and> CR \<notin> set (snd kv) \<and> LF \<notin> set (snd kv) \<and>
     CHR 0x00 \<notin> set (snd kv)"

lemma push_headers_iff:
  "push_headers has_body hs raw = Inr out \<longleftrightarrow>
     list_all header_valid hs \<and> out = raw @ concat (map (\<lambda>h. field_line h @ crlf) (sent_headers has_body hs))"
proof (induction has_body hs raw rule: push_headers.induct)
  case (2 has_body key value0 headers raw)
  have v: "(key = [] \<or> \<not> list_all is_http_token_byte key \<or>
      list_ex (\<lambda>c. c = CR \<or> c = LF \<or> c = CHR 0x00) value0) \<longleftrightarrow> \<not> header_valid (key, value0)"
    by (auto simp: header_valid_def list_ex_iff)
  show ?case using 2 unfolding push_headers.simps(2) v
    by (auto simp: sent_headers_def field_line_def)
qed (auto simp: sent_headers_def)

text \<open>A token has no colon, line break or white space; nor has a valid target or host a line break.\<close>

lemma token_bytes: "is_http_token_byte c \<Longrightarrow> c \<notin> {CHR '':'', CR, LF, CHR '' ''}"
  by (auto simp: is_http_token_byte_def is_ascii_alphanumeric_def char_code_def)

lemma line_breaks_control: "is_ascii_control CR" "is_ascii_control LF"
  by (simp_all add: is_ascii_control_def char_code_def)

definition one_line :: "str \<Rightarrow> bool" where
  "one_line l \<longleftrightarrow> CR \<notin> set l \<and> LF \<notin> set l"

lemma token_line: "list_all is_http_token_byte s \<Longrightarrow> one_line s"
  using token_bytes by (fastforce simp: one_line_def list_all_iff)

lemma field_one_line: "header_valid h \<Longrightarrow> one_line (field_line h)"
  using token_line [of "fst h"] by (auto simp: header_valid_def field_line_def one_line_def)

lemma field_split: "header_valid h \<Longrightarrow> split_once CHR '':'' (field_line h) = Some (fst h, CHR '' '' # snd h)"
proof -
  assume "header_valid h"
  then have "CHR '':'' \<notin> set (fst h)" using token_bytes by (fastforce simp: header_valid_def list_all_iff)
  then show ?thesis using split_once_append [of "CHR '':''" "fst h" "CHR '' '' # snd h"] by (simp add: field_line_def)
qed

lemma split_crlf_lines:
  "list_all one_line ls \<Longrightarrow> split_crlf (concat (map (\<lambda>l. l @ crlf) ls) @ t) = ls @ split_crlf t"
  by (induction ls) (auto simp: one_line_def split_crlf_line)

definition request_lines :: "str \<Rightarrow> str \<Rightarrow> str \<Rightarrow> (str \<times> str) list \<Rightarrow> bytes option \<Rightarrow> str list" where
  "request_lines method path host headers body =
     [method @ '' '' @ path @ '' HTTP/1.1'', ''Host: '' @ host, ''Connection: close''] @
     map field_line (sent_headers (body \<noteq> None) headers) @
     (case body of None \<Rightarrow> [] | Some b \<Rightarrow> [''Content-Length: '' @ show_nat (length b)])"

definition request_valid :: "str \<Rightarrow> str \<Rightarrow> str \<Rightarrow> (str \<times> str) list \<Rightarrow> bool" where
  "request_valid method path host headers \<longleftrightarrow>
     method \<noteq> [] \<and> list_all is_http_token_byte method \<and>
     (\<exists>r. path = CHR ''/'' # r) \<and> list_all (\<lambda>c. \<not> is_ascii_control c \<and> c \<noteq> CHR '' '') path \<and>
     host \<noteq> [] \<and> list_all (\<lambda>c. \<not> is_ascii_control c \<and> \<not> is_ascii_whitespace c) host \<and>
     list_all header_valid headers"

lemma build_raw_request_iff:
  "build_raw_request method path host headers body = Inr raw \<longleftrightarrow>
     request_valid method path host headers \<and>
     raw = concat (map (\<lambda>l. l @ crlf) (request_lines method path host headers body)) @ crlf"
proof -
  let ?head = "method @ '' '' @ path @ '' HTTP/1.1'' @ crlf @ ''Host: '' @ host @ crlf @ ''Connection: close'' @ crlf"
  let ?ok = "method \<noteq> [] \<and> list_all is_http_token_byte method \<and>
     (\<exists>r. path = CHR ''/'' # r) \<and> list_all (\<lambda>c. \<not> is_ascii_control c \<and> c \<noteq> CHR '' '') path \<and>
     host \<noteq> [] \<and> list_all (\<lambda>c. \<not> is_ascii_control c \<and> \<not> is_ascii_whitespace c) host"
  have p: "(path = [] \<or> hd path \<noteq> CHR ''/'') \<longleftrightarrow> \<not> (\<exists>r. path = CHR ''/'' # r)" by (cases path) auto
  have "build_raw_request method path host headers body = Inr raw \<longleftrightarrow>
    ?ok \<and> (\<exists>out. push_headers (body \<noteq> None) headers ?head = Inr out \<and>
      raw = (case body of None \<Rightarrow> out | Some b \<Rightarrow> out @ ''Content-Length: '' @ show_nat (length b) @ crlf) @ crlf)"
    unfolding build_raw_request_def p list_all_iff list_ex_iff
    by (cases "push_headers (body \<noteq> None) headers ?head") (simp_all only: sum.case, auto)
  also have "\<dots> \<longleftrightarrow> request_valid method path host headers \<and>
     raw = concat (map (\<lambda>l. l @ crlf) (request_lines method path host headers body)) @ crlf"
    by (cases body) (auto simp only: push_headers_iff request_valid_def request_lines_def option.case,
        auto simp: comp_def)
  finally show ?thesis .
qed

lemma request_lines_one_line:
  assumes "request_valid method path host headers"
  shows "list_all one_line (request_lines method path host headers body)"
proof -
  have "one_line path" "one_line host"
    using assms line_breaks_control by (auto simp: request_valid_def list_all_iff one_line_def)
  moreover have "one_line method" using assms token_line by (simp add: request_valid_def)
  moreover have "list_all one_line (map field_line (sent_headers b headers))" for b
    using assms field_one_line by (auto simp: request_valid_def list_all_iff sent_headers_def)
  moreover have "one_line (show_nat n)" for n using not_in_show_nat not_digits by (simp add: one_line_def)
  ultimately show ?thesis
    by (cases body) (auto simp: request_lines_def one_line_def)
qed

definition is_field :: "str \<Rightarrow> str \<Rightarrow> bool" where
  "is_field name l \<longleftrightarrow>
     (case split_once CHR '':'' l of Some (k, _) \<Rightarrow> eq_ignore_ascii_case k name | None \<Rightarrow> False)"

lemma fields_counted:
  "list_all header_valid hs \<Longrightarrow>
     length (filter (is_field name) (map field_line hs)) = length (filter (\<lambda>(k, _). eq_ignore_ascii_case k name) hs)"
  by (induction hs) (auto simp: is_field_def field_split)

lemma sent_headers_body:
  "sent_headers False hs = hs"
  "filter (\<lambda>(k, _). eq_ignore_ascii_case k ''content-length'') (sent_headers True hs) = []"
  by (auto simp: sent_headers_def filter_empty_conv)

lemma fixed_names:
  "eq_ignore_ascii_case ''Content-Length'' ''content-length''" "\<not> eq_ignore_ascii_case ''Host'' ''content-length''"
  "\<not> eq_ignore_ascii_case ''Connection'' ''content-length''"
  by code_simp+

lemma fixed_fields:
  "\<not> is_field ''content-length'' (''Host: '' @ host)" "\<not> is_field ''content-length'' ''Connection: close''"
  "is_field ''content-length'' (''Content-Length: '' @ len)" "\<not> is_field ''content-length'' []"
  by (simp_all add: is_field_def split_once_def fixed_names)

text \<open>C27: A request head is what the caller asked for and nothing else. \<open>build_raw_request\<close> accepts
  exactly the valid requests; the head then splits at the line breaks into the request line,
  \<open>Host\<close>, \<open>Connection\<close>, one line for each header sent, the computed \<open>Content-Length\<close> when there is
  a body, and the blank line. No line holds a line break of its own, and a header line splits
  at its first colon into the key and the value. So no method, path, host or header value can
  smuggle in another header or request, and the length of a body is declared once.
\<close>

theorem request_head_exact:
  "case build_raw_request method path host headers body of
     Inl _ \<Rightarrow> \<not> request_valid method path host headers
   | Inr raw \<Rightarrow>
       request_valid method path host headers \<and>
       split_crlf raw = request_lines method path host headers body @ [[], []] \<and>
       list_all one_line (split_crlf raw) \<and>
       map (split_once CHR '':'' \<circ> field_line) (sent_headers (body \<noteq> None) headers) =
         map (\<lambda>(k, v). Some (k, CHR '' '' # v)) (sent_headers (body \<noteq> None) headers) \<and>
       length (filter (is_field ''content-length'') (tl (split_crlf raw))) =
         (if body = None then length (filter (\<lambda>(k, _). eq_ignore_ascii_case k ''content-length'') headers) else 1)"
proof (cases "build_raw_request method path host headers body")
  case (Inl e)
  then have "\<nexists>raw. build_raw_request method path host headers body = Inr raw" by simp
  then have "\<not> request_valid method path host headers" unfolding build_raw_request_iff by blast
  then show ?thesis using Inl by simp
next
  case (Inr raw)
  let ?hs = "sent_headers (body \<noteq> None) headers"
  have v: "request_valid method path host headers"
    and raw: "raw = concat (map (\<lambda>l. l @ crlf) (request_lines method path host headers body)) @ crlf"
    using Inr by (simp_all add: build_raw_request_iff)
  have "split_crlf crlf = [[], []]" by simp
  then have lines: "split_crlf raw = request_lines method path host headers body @ [[], []]"
    unfolding raw split_crlf_lines [OF request_lines_one_line [OF v]] by simp
  have hs: "list_all header_valid ?hs" using v by (auto simp: request_valid_def list_all_iff sent_headers_def)
  have "list_all one_line (split_crlf raw)" unfolding lines using request_lines_one_line [OF v] by (simp add: one_line_def)
  moreover have "map (split_once CHR '':'' \<circ> field_line) ?hs = map (\<lambda>(k, v). Some (k, CHR '' '' # v)) ?hs"
    using hs by (auto simp: list_all_iff field_split)
  moreover have "length (filter (is_field ''content-length'') (tl (split_crlf raw))) =
    (if body = None then length (filter (\<lambda>(k, _). eq_ignore_ascii_case k ''content-length'') headers) else 1)"
    using fields_counted [OF hs] by (cases body) (auto simp: lines request_lines_def fixed_fields [simplified] sent_headers_body)
  ultimately show ?thesis using Inr v lines by simp
qed

end
