(* ===== verification/Transport.thy ===== *)
theory Transport
  imports Ws_Handshake Http_Text
begin

text \<open>
  The WebSocket transport of \<open>src/transport.rs\<close> and \<open>src/transport/write_completion.rs\<close>: the
  thread \<open>ws_thread\<close> that owns the socket, the queue of writes that \<open>Esp32Transport::send\<close> fills,
  and the channel of events to the client. The thread is cut at its accesses to shared state
  (\<open>thread_step\<close>); the steps of the client come in between (\<open>transport_step\<close>). The channel is the
  crate \<open>async_channel\<close>, an argument with the contract \<open>event_channel\<close>.
\<close>

section \<open>Sockets with TLS\<close>

text \<open>The result of \<open>esp_tls_conn_read\<close> and \<open>esp_tls_conn_write\<close>, as \<open>Read\<close> and \<open>Write\<close> report it.\<close>

definition tls_read_result :: "int \<Rightarrow> ws_error + nat" where
  "tls_read_result ret =
     (if ret < 0 then
        let esp_err = - ret in
        if esp_err = 11 \<or> esp_err = 0x6900 then Inl WouldBlock else Inl (OtherIo (nat esp_err))
      else Inr (nat ret))"

definition tls_write_result :: "int \<Rightarrow> ws_error + nat" where
  "tls_write_result ret = (if ret < 0 then Inl (OtherIo (nat (- ret))) else Inr (nat ret))"

text \<open>\<open>timeval\<close> of a timeout in milliseconds.\<close>

definition socket_timeout :: "nat \<Rightarrow> nat \<times> nat" where
  "socket_timeout ms = (ms div 1000, (ms mod 1000) * 1000)"

record tls_cfg =
  timeout_ms :: int
  skip_common_name :: bool
  crt_bundle_attach :: bool

definition tls_config :: "bool \<Rightarrow> nat \<Rightarrow> tls_cfg" where
  "tls_config skip_tls_verify timeout =
     \<lparr>timeout_ms = (if timeout < 2 ^ 31 then int timeout else 2 ^ 31 - 1),
      skip_common_name = skip_tls_verify, crt_bundle_attach = \<not> skip_tls_verify\<rparr>"

text \<open>
  \<open>connect_with_timeout\<close>; the state is the handles \<open>esp_tls_init\<close> has given out and that are not
  destroyed. \<open>init\<close> gives a new handle or null, \<open>conn_new\<close> is \<open>esp_tls_conn_new_sync\<close>.
\<close>

datatype tls_error = Init_Failed | Host_Has_Nul | Tls_Connection_Failed int

definition tls_connect_with_timeout ::
  "('h list \<Rightarrow> 'h option) \<Rightarrow> (str \<Rightarrow> nat \<Rightarrow> tls_cfg \<Rightarrow> 'h \<Rightarrow> int) \<Rightarrow>
   str \<Rightarrow> nat \<Rightarrow> bool \<Rightarrow> nat \<Rightarrow> ('h list, tls_error, 'h) io" where
  "tls_connect_with_timeout init conn_new host port skip_tls_verify timeout hs =
     (case init hs of
        None \<Rightarrow> (Inl Init_Failed, hs)
      | Some tls \<Rightarrow>
          if CHR 0x00 \<in> set host then (Inl Host_Has_Nul, tls # hs)
          else
            let ret = conn_new host port (tls_config skip_tls_verify timeout) tls
            in if ret \<noteq> 1 then (Inl (Tls_Connection_Failed ret), hs)
               else (Inr tls, tls # hs))"

section \<open>Events and write jobs\<close>

datatype transport_failure =
    Bad_Url http_error | Tls_Failed tls_error | Handshake_Failed ws_error
  | Send_Failed ws_error | Read_Failed ws_error

datatype disconnect_reason =
    ReadError transport_failure
  | ServerClose "u16 option" str
  | Unknown_Reason

datatype transport_event =
    Connected
  | DataReceived bytes
  | Disconnected disconnect_reason

datatype send_outcome = Sent | Full | Closed

datatype forward_progress = Ready | Blocked | Gone

text \<open>The channel's \<open>try_send\<close> gives back the event it does not take.\<close>

definition forward_pending ::
  "('e \<Rightarrow> 'c \<Rightarrow> send_outcome \<times> 'c) \<Rightarrow> 'c \<Rightarrow> 'e option \<Rightarrow> forward_progress \<times> 'c \<times> 'e option" where
  "forward_pending try_send ch pending =
     (case pending of
        None \<Rightarrow> (Ready, ch, None)
      | Some event \<Rightarrow>
          (case try_send event ch of
             (Sent, ch') \<Rightarrow> (Ready, ch', None)
           | (Full, ch') \<Rightarrow> (Blocked, ch', Some event)
           | (Closed, ch') \<Rightarrow> (Gone, ch', None)))"

definition SEND_QUEUE_CAP :: "bool \<Rightarrow> nat" where
  "SEND_QUEUE_CAP has_psram = (if has_psram then 64 else 1)"

definition event_capacity :: "bool \<Rightarrow> nat option" where
  "event_capacity has_psram = (if has_psram then None else Some 1)"

definition transport_limits :: "bool \<Rightarrow> limits" where
  "transport_limits has_psram =
     \<lparr>max_frame_size = (if has_psram then 16 * 2 ^ 20 else 32 * 1024),
      max_message_size = (if has_psram then 64 * 2 ^ 20 else 32 * 1024)\<rparr>"

section \<open>The state\<close>

text \<open>
  Where the thread stands: sending \<open>Connected\<close>; at the top of the loop; in the loop over the
  write queue; between a write, whose payload is dropped, and its completion; forwarding the
  pending event; reading; sending the last event; and gone.
\<close>

datatype position =
    Announcing
  | Looping
  | Draining
  | Completing nat "ws_error + unit"
  | Forwarding
  | Reading
  | Ending disconnect_reason
  | Exited

record ('s, 'c) transport =
  tp_pc :: position
  tp_ws :: "'s ws_client"
  tp_sends :: nat
  tp_jobs :: "(nat \<times> bytes) list"
  tp_open :: bool
  tp_next :: nat
  tp_acks :: "nat \<rightharpoonup> ws_error + unit"
  tp_pending :: "transport_event option"
  tp_chan :: 'c
  tp_shutdown :: bool

text \<open>The world of the thread: the socket, the random masks (one per frame sent), the channel.\<close>

record ('s, 'c) surroundings =
  sock_read :: "('s, ws_violation) reader"
  sock_write :: "'s writer"
  sock_flush :: "('s, ws_error, unit) io"
  random_mask :: "nat \<Rightarrow> bytes"
  chan_try_send :: "transport_event \<Rightarrow> 'c \<Rightarrow> send_outcome \<times> 'c"
  chan_recv :: "'c \<Rightarrow> transport_event option \<times> 'c"
  queue_cap :: nat

text \<open>What a step shows to the outside.\<close>

datatype label =
    Silent
  | Accept nat bytes
  | Wrote nat bytes "ws_error + unit"
  | Deliver frame
  | Emit transport_event
  | Take transport_event

section \<open>The socket thread\<close>

definition ws_binary ::
  "('s, 'c) surroundings \<Rightarrow> bytes \<Rightarrow> ('s, 'c) transport \<Rightarrow> (ws_error + unit) \<times> ('s, 'c) transport" where
  "ws_binary w payload st =
     (case send_binary (sock_write w) (sock_flush w) (random_mask w (tp_sends st)) payload (tp_ws st) of
        (r, c) \<Rightarrow> (r, st\<lparr>tp_ws := c, tp_sends := Suc (tp_sends st)\<rparr>))"

text \<open>\<open>let _ = ws.send_pong(..)\<close>, \<open>let _ = ws.send_close(1000)\<close>: the outcome is ignored.\<close>

definition ws_pong :: "('s, 'c) surroundings \<Rightarrow> bytes \<Rightarrow> ('s, 'c) transport \<Rightarrow> ('s, 'c) transport" where
  "ws_pong w payload st =
     st\<lparr>tp_ws := snd (send_pong (sock_write w) (sock_flush w) (random_mask w (tp_sends st)) payload (tp_ws st)),
        tp_sends := Suc (tp_sends st)\<rparr>"

definition ws_close :: "('s, 'c) surroundings \<Rightarrow> ('s, 'c) transport \<Rightarrow> ('s, 'c) transport" where
  "ws_close w st =
     st\<lparr>tp_ws := snd (send_close (sock_write w) (sock_flush w) (random_mask w (tp_sends st)) 1000 (tp_ws st)),
        tp_sends := Suc (tp_sends st)\<rparr>"

text \<open>\<open>drop(data_rx); drop(pending_event)\<close> and on to the last event.\<close>

definition wind_up :: "disconnect_reason \<Rightarrow> ('s, 'c) transport \<Rightarrow> ('s, 'c) transport" where
  "wind_up reason st = st\<lparr>tp_pc := Ending reason, tp_open := False, tp_jobs := [], tp_pending := None\<rparr>"

definition close_reason :: "(u16 \<times> str) option \<Rightarrow> disconnect_reason" where
  "close_reason frame =
     (case frame of Some (code, reason) \<Rightarrow> ServerClose (Some code) reason | None \<Rightarrow> ServerClose None [])"

text \<open>\<open>send_blocking\<close> waits while the channel is full; a closed channel is ignored.\<close>

definition blocking_step ::
  "('s, 'c) surroundings \<Rightarrow> transport_event \<Rightarrow> position \<Rightarrow> ('s, 'c) transport \<Rightarrow> label \<times> ('s, 'c) transport" where
  "blocking_step w event after st =
     (case chan_try_send w event (tp_chan st) of
        (Sent, ch) \<Rightarrow> (Emit event, st\<lparr>tp_chan := ch, tp_pc := after\<rparr>)
      | (Full, ch) \<Rightarrow> (Silent, st\<lparr>tp_chan := ch\<rparr>)
      | (Closed, ch) \<Rightarrow> (Silent, st\<lparr>tp_chan := ch, tp_pc := after\<rparr>))"

definition read_step :: "('s, 'c) surroundings \<Rightarrow> ('s, 'c) transport \<Rightarrow> (label \<times> ('s, 'c) transport) option" where
  "read_step w st =
     (case read_frame (sock_read w) (tp_ws st) of
        None \<Rightarrow> None
      | Some (r, c) \<Rightarrow>
          let st' = st\<lparr>tp_ws := c, tp_pc := Looping\<rparr> in
          Some (case r of
             Inr None \<Rightarrow> (Silent, st')
           | Inr (Some f) \<Rightarrow>
               (Deliver f,
                case f of
                  Binary d \<Rightarrow> st'\<lparr>tp_pending := Some (DataReceived d)\<rparr>
                | Ping payload \<Rightarrow> ws_pong w payload st'
                | Pong _ \<Rightarrow> st'
                | Text _ \<Rightarrow> st'
                | Close frame \<Rightarrow> wind_up (close_reason frame) (ws_close w st'))
           | Inl e \<Rightarrow> (Silent, wind_up (ReadError (Read_Failed e)) st')))"

definition forward_step :: "('s, 'c) surroundings \<Rightarrow> ('s, 'c) transport \<Rightarrow> label \<times> ('s, 'c) transport" where
  "forward_step w st =
     (case forward_pending (chan_try_send w) (tp_chan st) (tp_pending st) of
        (Ready, ch, pending) \<Rightarrow>
          ((case tp_pending st of None \<Rightarrow> Silent | Some e \<Rightarrow> Emit e),
           st\<lparr>tp_chan := ch, tp_pending := pending, tp_pc := Reading\<rparr>)
      | (Blocked, ch, pending) \<Rightarrow> (Silent, st\<lparr>tp_chan := ch, tp_pending := pending, tp_pc := Looping\<rparr>)
      | (Gone, ch, pending) \<Rightarrow>
          (Silent, wind_up Unknown_Reason (st\<lparr>tp_chan := ch, tp_pending := pending\<rparr>)))"

text \<open>\<open>WriteJob::perform\<close> is \<open>Draining\<close> up to the drop of the payload and \<open>Completing\<close> from there.\<close>

definition drain_step :: "('s, 'c) surroundings \<Rightarrow> ('s, 'c) transport \<Rightarrow> label \<times> ('s, 'c) transport" where
  "drain_step w st =
     (case tp_jobs st of
        [] \<Rightarrow> (Silent, st\<lparr>tp_pc := Forwarding\<rparr>)
      | (n, data) # jobs \<Rightarrow>
          (case ws_binary w data (st\<lparr>tp_jobs := jobs\<rparr>) of
             (r, st') \<Rightarrow> (Wrote n data r, st'\<lparr>tp_pc := Completing n r\<rparr>)))"

definition complete_step :: "nat \<Rightarrow> ws_error + unit \<Rightarrow> ('s, 'c) transport \<Rightarrow> ('s, 'c) transport" where
  "complete_step n r st =
     (let st' = st\<lparr>tp_acks := (tp_acks st)(n \<mapsto> r)\<rparr> in
      case r of
        Inr _ \<Rightarrow> st'\<lparr>tp_pc := Draining\<rparr>
      | Inl e \<Rightarrow> wind_up (ReadError (Send_Failed e)) st')"

definition thread_step :: "('s, 'c) surroundings \<Rightarrow> ('s, 'c) transport \<Rightarrow> (label \<times> ('s, 'c) transport) option" where
  "thread_step w st =
     (case tp_pc st of
        Announcing \<Rightarrow> Some (blocking_step w Connected Looping st)
      | Looping \<Rightarrow>
          Some (Silent, if tp_shutdown st then wind_up Unknown_Reason (ws_close w st) else st\<lparr>tp_pc := Draining\<rparr>)
      | Draining \<Rightarrow> Some (drain_step w st)
      | Completing n r \<Rightarrow> Some (Silent, complete_step n r st)
      | Forwarding \<Rightarrow> Some (forward_step w st)
      | Reading \<Rightarrow> read_step w st
      | Ending reason \<Rightarrow> Some (blocking_step w (Disconnected reason) Exited st)
      | Exited \<Rightarrow> None)"

section \<open>The client's side\<close>

text \<open>The first half of \<open>Esp32Transport::send\<close>: put a job into the queue.\<close>

datatype send_refusal = Queue_Full | Channel_Closed

definition send_enqueue ::
  "nat \<Rightarrow> bytes \<Rightarrow> ('s, 'c) transport \<Rightarrow> (send_refusal + nat) \<times> ('s, 'c) transport" where
  "send_enqueue cap data st =
     (if \<not> tp_open st then (Inl Channel_Closed, st)
      else if cap \<le> length (tp_jobs st) then (Inl Queue_Full, st)
      else (Inr (tp_next st), st\<lparr>tp_jobs := tp_jobs st @ [(tp_next st, data)], tp_next := Suc (tp_next st)\<rparr>))"

text \<open>The second half: what waiting for the completion gives; \<open>None\<close> while it is still to come.\<close>

datatype send_error = Write_Failed ws_error | Stopped_Before_Write

definition send_completed :: "nat \<Rightarrow> ('s, 'c) transport \<Rightarrow> (send_error + unit) option" where
  "send_completed n st =
     (case tp_acks st n of
        Some (Inr _) \<Rightarrow> Some (Inr ())
      | Some (Inl e) \<Rightarrow> Some (Inl (Write_Failed e))
      | None \<Rightarrow>
          if n \<in> fst ` set (tp_jobs st) \<or> (\<exists>r. tp_pc st = Completing n r) then None
          else Some (Inl Stopped_Before_Write))"

text \<open>\<open>disconnect\<close>, and \<open>Drop\<close> of the transport.\<close>

definition disconnect :: "('s, 'c) transport \<Rightarrow> ('s, 'c) transport" where
  "disconnect st = st\<lparr>tp_shutdown := True\<rparr>"

inductive transport_step :: "('s, 'c) surroundings \<Rightarrow> ('s, 'c) transport \<Rightarrow> label \<Rightarrow> ('s, 'c) transport \<Rightarrow> bool"
  for w where
  Thread: "thread_step w st = Some (l, st') \<Longrightarrow> transport_step w st l st'"
| Send: "send_enqueue (queue_cap w) data st = (Inr n, st') \<Longrightarrow> transport_step w st (Accept n data) st'"
| Receive: "chan_recv w (tp_chan st) = (Some e, ch) \<Longrightarrow> transport_step w st (Take e) (st\<lparr>tp_chan := ch\<rparr>)"
| Shut: "transport_step w st Silent (disconnect st)"

inductive transport_run :: "('s, 'c) surroundings \<Rightarrow> ('s, 'c) transport \<Rightarrow> label list \<Rightarrow> ('s, 'c) transport \<Rightarrow> bool"
  for w st0 where
  Begin: "transport_run w st0 [] st0"
| More: "transport_run w st0 tr st \<Longrightarrow> transport_step w st l st' \<Longrightarrow> transport_run w st0 (tr @ [l]) st'"

section \<open>Starting\<close>

text \<open>
  \<open>ws_thread\<close> up to its loop: the URL, the connection, the handshake. A failure is the only
  event the client gets. Setting the timeouts of the socket only logs a failure.
\<close>

definition transport_at :: "position \<Rightarrow> 's ws_client \<Rightarrow> 'c \<Rightarrow> ('s, 'c) transport" where
  "transport_at pc c ch =
     \<lparr>tp_pc = pc, tp_ws = c, tp_sends = 0, tp_jobs = [], tp_open = True, tp_next = 0, tp_acks = Map.empty,
      tp_pending = None, tp_chan = ch, tp_shutdown = False\<rparr>"

definition open_connection ::
  "crypto \<Rightarrow> ('s, 'c) surroundings \<Rightarrow> ('s \<Rightarrow> nat) \<Rightarrow> bytes \<Rightarrow> (str \<Rightarrow> nat \<Rightarrow> bool \<Rightarrow> tls_error + 's) \<Rightarrow>
   bool \<Rightarrow> bool \<Rightarrow> str \<Rightarrow> (disconnect_reason + 's ws_client) option" where
  "open_connection cr w now nonce tls has_psram skip_tls_verify ws_url =
     (case parse_url ws_url of
        Inl e \<Rightarrow> Some (Inl (ReadError (Bad_Url e)))
      | Inr (host, port, path, _) \<Rightarrow>
          (case tls host port skip_tls_verify of
             Inl e \<Rightarrow> Some (Inl (ReadError (Tls_Failed e)))
           | Inr stream \<Rightarrow>
               map_option (map_sum (\<lambda>e. ReadError (Handshake_Failed e)) id)
                 (connect cr (sock_read w) (sock_write w) (sock_flush w) now nonce host path
                    (''https://'' @ host) (transport_limits has_psram) stream)))"

end
