(* ===== verification/Transport_Properties.thy ===== *)
theory Transport_Properties
  imports Transport
begin

text \<open>
  What the client of the transport can rely on, however its steps and those of the socket
  thread interleave: the data it receives are the messages the server sent, in order; a write
  reported as done was done, in order; and the thread goes on writing while the client does
  not take events.
\<close>

section \<open>Observations\<close>

definition emitted :: "label list \<Rightarrow> transport_event list" where
  "emitted tr = concat (map (\<lambda>l. case l of Emit e \<Rightarrow> [e] | _ \<Rightarrow> []) tr)"

definition taken :: "label list \<Rightarrow> transport_event list" where
  "taken tr = concat (map (\<lambda>l. case l of Take e \<Rightarrow> [e] | _ \<Rightarrow> []) tr)"

definition delivered :: "label list \<Rightarrow> frame list" where
  "delivered tr = concat (map (\<lambda>l. case l of Deliver f \<Rightarrow> [f] | _ \<Rightarrow> []) tr)"

definition accepted :: "label list \<Rightarrow> (nat \<times> bytes) list" where
  "accepted tr = concat (map (\<lambda>l. case l of Accept n d \<Rightarrow> [(n, d)] | _ \<Rightarrow> []) tr)"

definition wrote :: "label list \<Rightarrow> (nat \<times> bytes \<times> (ws_error + unit)) list" where
  "wrote tr = concat (map (\<lambda>l. case l of Wrote n d r \<Rightarrow> [(n, d, r)] | _ \<Rightarrow> []) tr)"

lemmas observation_defs = emitted_def taken_def delivered_def accepted_def wrote_def

lemma observed_Nil [simp]:
  "emitted [] = []" "taken [] = []" "delivered [] = []" "accepted [] = []" "wrote [] = []"
  by (simp_all add: observation_defs)

lemma observed_snoc [simp]:
  "emitted (tr @ [l]) = emitted tr @ (case l of Emit e \<Rightarrow> [e] | _ \<Rightarrow> [])"
  "taken (tr @ [l]) = taken tr @ (case l of Take e \<Rightarrow> [e] | _ \<Rightarrow> [])"
  "delivered (tr @ [l]) = delivered tr @ (case l of Deliver f \<Rightarrow> [f] | _ \<Rightarrow> [])"
  "accepted (tr @ [l]) = accepted tr @ (case l of Accept n d \<Rightarrow> [(n, d)] | _ \<Rightarrow> [])"
  "wrote (tr @ [l]) = wrote tr @ (case l of Wrote n d r \<Rightarrow> [(n, d, r)] | _ \<Rightarrow> [])"
  by (simp_all add: observation_defs)

definition data_of :: "frame list \<Rightarrow> bytes list" where
  "data_of fs = concat (map (\<lambda>f. case f of Binary d \<Rightarrow> [d] | _ \<Rightarrow> []) fs)"

lemma data_of_simps [simp]: "data_of [] = []" "data_of (fs @ gs) = data_of fs @ data_of gs"
    "data_of [f] = (case f of Binary d \<Rightarrow> [d] | _ \<Rightarrow> [])"
  by (simp_all add: data_of_def)

definition is_close :: "frame \<Rightarrow> bool" where
  "is_close f \<longleftrightarrow> (\<exists>x. f = Close x)"

section \<open>The contract of the surroundings\<close>

locale event_channel =
  fixes try_send :: "transport_event \<Rightarrow> 'c \<Rightarrow> send_outcome \<times> 'c"
    and recv :: "'c \<Rightarrow> transport_event option \<times> 'c"
    and queued :: "'c \<Rightarrow> transport_event list"
  assumes sent: "try_send e ch = (Sent, ch') \<Longrightarrow> queued ch' = queued ch @ [e]"
    and not_sent: "try_send e ch = (out, ch') \<Longrightarrow> out \<noteq> Sent \<Longrightarrow> queued ch' = queued ch"
    and received: "recv ch = (Some e, ch') \<Longrightarrow> queued ch = e # queued ch'"

locale transport_world =
  ws_reader "sock_read w" unread + event_channel "chan_try_send w" "chan_recv w" queued
  for w :: "('s, 'c) surroundings" and unread :: "'s \<Rightarrow> bytes" and queued :: "'c \<Rightarrow> transport_event list" +
  assumes write_keeps: "sock_write w b s = (r, s') \<Longrightarrow> unread s' = unread s"
    and flush_keeps: "sock_flush w s = (r', s') \<Longrightarrow> unread s' = unread s"
begin

lemma write_pieces_keeps: "write_pieces (sock_write w) ps s = (r, s') \<Longrightarrow> unread s' = unread s"
  by (induction ps arbitrary: s) (auto simp: bindE_def split: prod.splits sum.splits dest!: write_keeps)

lemma send_frame_keeps:
  assumes "send_frame (sock_write w) (sock_flush w) mkey op payload c = (r, c')"
  shows "\<exists>s. c' = c\<lparr>ws_stream := s\<rparr> \<and> unread s = unread (ws_stream c)"
proof (cases "frame_writes op mkey payload")
  case (Inl e)
  then have "c' = c\<lparr>ws_stream := ws_stream c\<rparr>" using assms by (simp add: send_frame_def)
  then show ?thesis by blast
next
  case (Inr ps)
  obtain x s where s: "bindE (write_pieces (sock_write w) ps) (\<lambda>_. sock_flush w) (ws_stream c) = (x, s)" by (rule prod.exhaust)
  then have "unread s = unread (ws_stream c)"
    by (auto simp: bindE_def split: prod.splits sum.splits dest!: write_pieces_keeps flush_keeps)
  then show ?thesis using assms Inr s by (auto simp: send_frame_def)
qed

lemma to_come_stream: "to_come c fs \<Longrightarrow> unread s = unread (ws_stream c) \<Longrightarrow> to_come (c\<lparr>ws_stream := s\<rparr>) fs"
proof -
  assume c: "to_come c fs" and s: "unread s = unread (ws_stream c)"
  have "holds (c\<lparr>ws_stream := s\<rparr>) raw = holds c raw" for raw by (cases "ws_incoming c") (simp_all add: holds_def)
  moreover have "ahead (c\<lparr>ws_stream := s\<rparr>) = ahead c" using s by (simp add: ahead_def)
  ultimately show "to_come (c\<lparr>ws_stream := s\<rparr>) fs" using c by (simp add: to_come_def view_def)
qed

lemma send_frame_to_come:
  assumes "send_frame (sock_write w) (sock_flush w) mkey op payload c = (r, c')" and "to_come c fs"
  shows "to_come c' fs"
  using send_frame_keeps [OF assms(1)] to_come_stream [OF assms(2)] by auto

text \<open>The helpers of the thread keep the frames to come and touch nothing else.\<close>

lemma ws_binary_keeps:
  assumes "ws_binary w d st = (r, st')"
  shows "to_come (tp_ws st) fs \<Longrightarrow> to_come (tp_ws st') fs" and "st' = st\<lparr>tp_ws := tp_ws st', tp_sends := Suc (tp_sends st)\<rparr>"
  using assms send_frame_to_come by (auto simp: ws_binary_def send_binary_def split: prod.splits)

lemma ws_pong_keeps:
  "to_come (tp_ws st) fs \<Longrightarrow> to_come (tp_ws (ws_pong w d st)) fs"
  using send_frame_to_come [OF prod.collapse [symmetric]] by (simp add: ws_pong_def send_pong_def)

end

section \<open>Events\<close>

definition running :: "position \<Rightarrow> bool" where
  "running pc \<longleftrightarrow> pc \<in> {Looping, Draining, Forwarding, Reading} \<or> (\<exists>n r. pc = Completing n r)"

lemma running_simps [simp]:
  "running Looping" "running Draining" "running Forwarding" "running Reading" "running (Completing n r)"
  "\<not> running Announcing" "\<not> running (Ending d)" "\<not> running Exited"
  by (simp_all add: running_def)

text \<open>The reasons for which the thread ends after it has read everything it was given.\<close>

definition from_server :: "disconnect_reason \<Rightarrow> bool" where
  "from_server d \<longleftrightarrow> (\<exists>c why. d = ServerClose c why)"

definition pending_data :: "transport_event option \<Rightarrow> bytes list" where
  "pending_data p = (case p of Some (DataReceived d) \<Rightarrow> [d] | _ \<Rightarrow> [])"

lemma pending_data_simps [simp]: "pending_data None = []" "pending_data (Some (DataReceived d)) = [d]"
  by (simp_all add: pending_data_def)

definition sent_so_far :: "label list \<Rightarrow> bytes list \<Rightarrow> transport_event list \<Rightarrow> bool" where
  "sent_so_far tr ds tail \<longleftrightarrow>
     (\<exists>conn. conn \<in> {[], [Connected]} \<and> emitted tr = conn @ map DataReceived ds @ tail)"

text \<open>
  The invariant of the events: what has been emitted is the data read so far, but for the one
  event that is pending, or that was pending when the thread ended.
\<close>

definition pending_ok :: "('s, 'c) transport \<Rightarrow> bool" where
  "pending_ok st \<longleftrightarrow> (tp_pending st = None \<or> (\<exists>d. tp_pending st = Some (DataReceived d))) \<and>
     (tp_pc st = Reading \<longrightarrow> tp_pending st = None)"

definition ended :: "disconnect_reason \<Rightarrow> label list \<Rightarrow> bytes list \<Rightarrow> bool" where
  "ended d tr ds \<longleftrightarrow>
     (\<exists>lost. data_of (delivered tr) = ds @ lost) \<and>
     (from_server d \<longrightarrow> data_of (delivered tr) = ds \<and>
        (\<exists>fs x. delivered tr = fs @ [Close x] \<and> list_all (\<lambda>f. \<not> is_close f) fs))"

definition events_inv :: "label list \<Rightarrow> ('s, 'c) transport \<Rightarrow> bool" where
  "events_inv tr st \<longleftrightarrow>
     (tp_pc st = Announcing \<longrightarrow> emitted tr = [] \<and> delivered tr = [] \<and> tp_pending st = None) \<and>
     (running (tp_pc st) \<longrightarrow>
        pending_ok st \<and> list_all (\<lambda>f. \<not> is_close f) (delivered tr) \<and>
        (\<exists>ds. sent_so_far tr ds [] \<and> data_of (delivered tr) = ds @ pending_data (tp_pending st))) \<and>
     (\<forall>d. tp_pc st = Ending d \<longrightarrow> (\<exists>ds. sent_so_far tr ds [] \<and> ended d tr ds)) \<and>
     (tp_pc st = Exited \<longrightarrow>
        (\<exists>ds tail. sent_so_far tr ds tail \<and> (\<exists>lost. data_of (delivered tr) = ds @ lost) \<and>
           (tail = [] \<or> (\<exists>d. tail = [Disconnected d] \<and> ended d tr ds))))"

lemma sent_so_far_silent [simp]: "sent_so_far (tr @ [Silent]) ds tail = sent_so_far tr ds tail"
    "sent_so_far (tr @ [Deliver f]) ds tail = sent_so_far tr ds tail"
    "sent_so_far (tr @ [Wrote n d r]) ds tail = sent_so_far tr ds tail"
    "sent_so_far (tr @ [Accept n d]) ds tail = sent_so_far tr ds tail"
    "sent_so_far (tr @ [Take e]) ds tail = sent_so_far tr ds tail"
  by (simp_all add: sent_so_far_def)

lemma sent_so_far_emit:
  "sent_so_far tr ds [] \<Longrightarrow> sent_so_far (tr @ [Emit (DataReceived d)]) (ds @ [d]) []"
  "sent_so_far tr ds [] \<Longrightarrow> sent_so_far (tr @ [Emit (Disconnected x)]) ds [Disconnected x]"
  by (auto simp: sent_so_far_def)

lemma wind_up_fields [simp]:
  "tp_pc (wind_up d st) = Ending d" "tp_ws (wind_up d st) = tp_ws st" "tp_chan (wind_up d st) = tp_chan st"
  "tp_jobs (wind_up d st) = []" "\<not> tp_open (wind_up d st)" "tp_next (wind_up d st) = tp_next st"
  "tp_acks (wind_up d st) = tp_acks st" "tp_pending (wind_up d st) = None"
  by (simp_all add: wind_up_def)

lemma ws_close_fields [simp]:
  "tp_pc (ws_close w st) = tp_pc st" "tp_chan (ws_close w st) = tp_chan st" "tp_jobs (ws_close w st) = tp_jobs st"
  "tp_open (ws_close w st) = tp_open st" "tp_next (ws_close w st) = tp_next st" "tp_acks (ws_close w st) = tp_acks st"
  "tp_pending (ws_close w st) = tp_pending st" "tp_shutdown (ws_close w st) = tp_shutdown st"
  by (simp_all add: ws_close_def)

lemma ws_pong_fields [simp]:
  "tp_pc (ws_pong w d st) = tp_pc st" "tp_chan (ws_pong w d st) = tp_chan st" "tp_jobs (ws_pong w d st) = tp_jobs st"
  "tp_open (ws_pong w d st) = tp_open st" "tp_next (ws_pong w d st) = tp_next st" "tp_acks (ws_pong w d st) = tp_acks st"
  "tp_pending (ws_pong w d st) = tp_pending st" "tp_shutdown (ws_pong w d st) = tp_shutdown st"
  by (simp_all add: ws_pong_def)

lemma ws_binary_fields:
  assumes "ws_binary w d st = (r, st')"
  shows "tp_pc st' = tp_pc st" "tp_chan st' = tp_chan st" "tp_jobs st' = tp_jobs st" "tp_open st' = tp_open st"
    "tp_next st' = tp_next st" "tp_acks st' = tp_acks st" "tp_pending st' = tp_pending st" "tp_shutdown st' = tp_shutdown st"
  using assms by (auto simp: ws_binary_def split: prod.splits)

lemma ended_running:
  assumes "data_of (delivered tr) = ds @ rest" and "\<not> from_server d"
  shows "ended d (tr @ [Silent]) ds"
  using assms by (auto simp: ended_def)

lemma events_inv_cong:
  assumes "emitted tr' = emitted tr" "delivered tr' = delivered tr" "tp_pc st' = tp_pc st" "tp_pending st' = tp_pending st"
  shows "events_inv tr' st' = events_inv tr st"
  using assms by (simp add: events_inv_def sent_so_far_def ended_def pending_ok_def)

lemma events_inv_exitedI:
  assumes "tp_pc st = Exited" "sent_so_far tr ds tail" "ended d tr ds" "tail \<in> {[], [Disconnected d]}"
  shows "events_inv tr st"
proof -
  have "\<exists>lost. data_of (delivered tr) = ds @ lost" using assms(3) by (simp add: ended_def)
  then show ?thesis using assms unfolding events_inv_def by fastforce
qed

lemma events_announce:
  assumes "events_inv tr st" and "tp_pc st = Announcing" and "blocking_step w Connected Looping st = (l, st')"
  shows "events_inv (tr @ [l]) st'"
proof -
  have i: "emitted tr = []" "delivered tr = []" "tp_pending st = None" using assms(1,2) by (simp_all add: events_inv_def)
  obtain out ch where o: "chan_try_send w Connected (tp_chan st) = (out, ch)" by (rule prod.exhaust)
  show ?thesis using assms(2,3) i o
    by (cases out) (auto simp: blocking_step_def events_inv_def sent_so_far_def pending_ok_def)
qed

lemma events_last:
  assumes "events_inv tr st" and "tp_pc st = Ending d" and "blocking_step w (Disconnected d) Exited st = (l, st')"
  shows "events_inv (tr @ [l]) st'"
proof -
  obtain ds where ds: "sent_so_far tr ds []" "ended d tr ds" using assms(1,2) by (auto simp: events_inv_def)
  have d': "ended d (tr @ [x]) ds" if "delivered (tr @ [x]) = delivered tr" for x
    using ds(2) that by (simp add: ended_def del: observed_snoc)
  obtain out ch where o: "chan_try_send w (Disconnected d) (tp_chan st) = (out, ch)" by (rule prod.exhaust)
  show ?thesis
  proof (cases out)
    case Sent
    then have "l = Emit (Disconnected d)" "tp_pc st' = Exited" using assms(3) o by (auto simp: blocking_step_def)
    moreover have e: "ended d (tr @ [Emit (Disconnected d)]) ds" using d' by simp
    ultimately show ?thesis using sent_so_far_emit(2) [OF ds(1), of d] events_inv_exitedI [of st' "tr @ [l]" ds "[Disconnected d]" d]
      by (simp del: observed_snoc)
  next
    case Full
    then have "l = Silent" "tp_pc st' = Ending d" using assms(2,3) o by (auto simp: blocking_step_def)
    then show ?thesis using ds(1) d' [of Silent] by (auto simp: events_inv_def)
  next
    case Closed
    then have "l = Silent" "tp_pc st' = Exited" using assms(3) o by (auto simp: blocking_step_def)
    then show ?thesis using ds(1) d' [of Silent] events_inv_exitedI [of st' "tr @ [l]" ds "[]" d] by simp
  qed
qed

lemma events_inv_runningD:
  assumes "events_inv tr st" and "running (tp_pc st)"
  obtains ds where "pending_ok st" "list_all (\<lambda>f. \<not> is_close f) (delivered tr)" "sent_so_far tr ds []"
    "data_of (delivered tr) = ds @ pending_data (tp_pending st)"
  using assms by (auto simp: events_inv_def)

lemma events_inv_runningI:
  assumes "running (tp_pc st)" "pending_ok st" "list_all (\<lambda>f. \<not> is_close f) (delivered tr)" "sent_so_far tr ds []"
    "data_of (delivered tr) = ds @ pending_data (tp_pending st)"
  shows "events_inv tr st"
  using assms by (auto simp: events_inv_def running_def)

lemma events_inv_endingI:
  assumes "tp_pc st = Ending d" "sent_so_far tr ds []" "ended d tr ds"
  shows "events_inv tr st"
  using assms by (auto simp: events_inv_def)

lemma events_forward:
  assumes "events_inv tr st" and pc: "tp_pc st = Forwarding" and f: "forward_step w st = (l, st')"
  shows "events_inv (tr @ [l]) st'"
proof -
  obtain ds where i: "pending_ok st" "list_all (\<lambda>f. \<not> is_close f) (delivered tr)" "sent_so_far tr ds []"
    "data_of (delivered tr) = ds @ pending_data (tp_pending st)"
    using events_inv_runningD [OF assms(1)] pc by auto
  show ?thesis
  proof (cases "tp_pending st")
    case None
    then have "l = Silent" "st' = st\<lparr>tp_pending := None, tp_pc := Reading\<rparr>"
      using f by (auto simp: forward_step_def forward_pending_def)
    then show ?thesis using i None by (intro events_inv_runningI [of st' _ ds]) (auto simp: pending_ok_def)
  next
    case (Some e)
    then obtain d where d: "e = DataReceived d" using i(1) by (auto simp: pending_ok_def)
    obtain out ch where o: "chan_try_send w e (tp_chan st) = (out, ch)" by (rule prod.exhaust)
    show ?thesis
    proof (cases out)
      case Sent
      then have "l = Emit e" "tp_pending st' = None" "tp_pc st' = Reading"
        using f Some o by (auto simp: forward_step_def forward_pending_def)
      then show ?thesis using i Some d sent_so_far_emit(1) [OF i(3), of d]
        by (intro events_inv_runningI [of st' _ "ds @ [d]"]) (auto simp: pending_ok_def)
    next
      case Full
      then have "l = Silent" "tp_pending st' = Some e" "tp_pc st' = Looping"
        using f Some o by (auto simp: forward_step_def forward_pending_def)
      then show ?thesis using i Some d by (intro events_inv_runningI [of st' _ ds]) (auto simp: pending_ok_def)
    next
      case Closed
      then have "l = Silent" "tp_pc st' = Ending Unknown_Reason"
        using f Some o by (auto simp: forward_step_def forward_pending_def)
      then show ?thesis using i ended_running [OF i(4), of Unknown_Reason]
        by (intro events_inv_endingI [of st' Unknown_Reason _ ds]) (auto simp: from_server_def)
    qed
  qed
qed

lemma events_read:
  assumes "events_inv tr st" and pc: "tp_pc st = Reading" and f: "read_step w st = Some (l, st')"
  shows "events_inv (tr @ [l]) st'"
proof -
  obtain ds where i: "pending_ok st" "list_all (\<lambda>f. \<not> is_close f) (delivered tr)" "sent_so_far tr ds []"
    "data_of (delivered tr) = ds @ pending_data (tp_pending st)"
    using events_inv_runningD [OF assms(1)] pc by auto
  have none: "tp_pending st = None" using i(1) pc by (simp add: pending_ok_def)
  obtain r c where rf: "read_frame (sock_read w) (tp_ws st) = Some (r, c)"
    using f by (auto simp: read_step_def split: option.splits)
  show ?thesis
  proof (cases r)
    case (Inl e)
    then have "l = Silent" "tp_pc st' = Ending (ReadError (Read_Failed e))"
      using f rf by (auto simp: read_step_def Let_def)
    then show ?thesis using i ended_running [OF i(4), of "ReadError (Read_Failed e)"]
      by (intro events_inv_endingI [of st' "ReadError (Read_Failed e)" _ ds]) (auto simp: from_server_def)
  next
    case (Inr x)
    show ?thesis
    proof (cases x)
      case None
      then have "l = Silent" "tp_pc st' = Looping" "tp_pending st' = None"
        using f rf Inr none by (auto simp: read_step_def Let_def)
      then show ?thesis using i none by (intro events_inv_runningI [of st' _ ds]) (auto simp: pending_ok_def)
    next
      case (Some fr)
      then have l: "l = Deliver fr" using f rf Inr by (auto simp: read_step_def Let_def)
      consider (data) d where "fr = Binary d" | (close) why where "fr = Close why"
        | (other) "data_of [fr] = []" "\<not> is_close fr" "tp_pc st' = Looping" "tp_pending st' = None"
        using f rf Inr Some none by (cases fr) (auto simp: read_step_def Let_def is_close_def)
      then show ?thesis
      proof cases
        case data
        then have "tp_pc st' = Looping" "tp_pending st' = Some (DataReceived d)"
          using f rf Inr Some by (auto simp: read_step_def Let_def)
        then show ?thesis using i l none data
          by (intro events_inv_runningI [of st' _ ds]) (auto simp: pending_ok_def is_close_def)
      next
        case close
        have pc': "tp_pc st' = Ending (close_reason why)" using f rf Inr Some close by (auto simp: read_step_def Let_def)
        have "ended (close_reason why) (tr @ [l]) ds" using i l none close by (auto simp: ended_def)
        then show ?thesis using i l pc' by (intro events_inv_endingI [OF pc']) auto
      next
        case other
        then show ?thesis using i l none
          by (intro events_inv_runningI [of st' _ ds]) (auto simp: pending_ok_def simp del: data_of_simps(3))
      qed
    qed
  qed
qed

lemma events_step:
  assumes i: "events_inv tr st" and "transport_step w st l st'"
  shows "events_inv (tr @ [l]) st'"
  using assms(2)
proof cases
  case Thread
  show ?thesis
  proof (cases "tp_pc st")
    case Announcing
    then show ?thesis using events_announce [OF i] Thread by (simp add: thread_step_def)
  next
    case (Ending d)
    then show ?thesis using events_last [OF i] Thread by (simp add: thread_step_def)
  next
    case Reading
    then show ?thesis using events_read [OF i] Thread by (simp add: thread_step_def)
  next
    case Forwarding
    then show ?thesis using events_forward [OF i] Thread by (simp add: thread_step_def)
  next
    case Exited
    then show ?thesis using Thread by (simp add: thread_step_def)
  next
    case Looping
    then obtain ds where d: "pending_ok st" "list_all (\<lambda>f. \<not> is_close f) (delivered tr)" "sent_so_far tr ds []"
      "data_of (delivered tr) = ds @ pending_data (tp_pending st)" using events_inv_runningD [OF i] by auto
    have l: "l = Silent" using Looping Thread by (simp add: thread_step_def)
    show ?thesis
    proof (cases "tp_shutdown st")
      case True
      then have "tp_pc st' = Ending Unknown_Reason" using Looping Thread by (auto simp: thread_step_def)
      then show ?thesis using d l ended_running [OF d(4), of Unknown_Reason]
        by (intro events_inv_endingI [of st' Unknown_Reason _ ds]) (auto simp: from_server_def)
    next
      case False
      then have "st' = st\<lparr>tp_pc := Draining\<rparr>" using Looping Thread by (auto simp: thread_step_def)
      then show ?thesis using d l by (intro events_inv_runningI [of st' _ ds]) (auto simp: pending_ok_def)
    qed
  next
    case Draining
    then obtain ds where d: "pending_ok st" "list_all (\<lambda>f. \<not> is_close f) (delivered tr)" "sent_so_far tr ds []"
      "data_of (delivered tr) = ds @ pending_data (tp_pending st)" using events_inv_runningD [OF i] by auto
    then show ?thesis using Draining Thread
      by (intro events_inv_runningI [of st' _ ds])
        (auto simp: thread_step_def drain_step_def pending_ok_def dest!: ws_binary_fields(1,7) split: list.splits prod.splits)
  next
    case (Completing n r)
    then obtain ds where d: "pending_ok st" "list_all (\<lambda>f. \<not> is_close f) (delivered tr)" "sent_so_far tr ds []"
      "data_of (delivered tr) = ds @ pending_data (tp_pending st)" using events_inv_runningD [OF i] by auto
    have l: "l = Silent" and st': "st' = complete_step n r st" using Completing Thread by (simp_all add: thread_step_def)
    show ?thesis
    proof (cases r)
      case (Inl e)
      then have "tp_pc st' = Ending (ReadError (Send_Failed e))" using st' by (simp add: complete_step_def Let_def)
      then show ?thesis using d l ended_running [OF d(4), of "ReadError (Send_Failed e)"]
        by (intro events_inv_endingI [of st' "ReadError (Send_Failed e)" _ ds]) (auto simp: from_server_def)
    next
      case (Inr u)
      then show ?thesis using d l st'
        by (intro events_inv_runningI [of st' _ ds]) (auto simp: pending_ok_def complete_step_def Let_def)
    qed
  qed
next
  case (Send data n)
  then show ?thesis using i by (subst events_inv_cong [of _ tr _ st]) (auto simp: send_enqueue_def split: if_splits)
next
  case (Receive e ch)
  then show ?thesis using i by (subst events_inv_cong [of _ tr _ st]) auto
next
  case Shut
  then show ?thesis using i by (subst events_inv_cong [of _ tr _ st]) (auto simp: disconnect_def)
qed

section \<open>The server's frames and the channel\<close>

context transport_world
begin

definition frames_inv :: "frame list \<Rightarrow> label list \<Rightarrow> ('s, 'c) transport \<Rightarrow> bool" where
  "frames_inv all_fs tr st \<longleftrightarrow>
     (\<exists>rest. all_fs = delivered tr @ rest \<and>
        (tp_pc st = Announcing \<or> running (tp_pc st) \<longrightarrow> to_come (tp_ws st) rest))"

lemma frames_keep:
  assumes "frames_inv all_fs tr st" and "tp_pc st = Announcing \<or> running (tp_pc st)" and "delivered tr' = delivered tr"
    and "\<And>rest. to_come (tp_ws st) rest \<Longrightarrow> to_come (tp_ws st') rest"
  shows "frames_inv all_fs tr' st'"
  using assms by (auto simp: frames_inv_def)

lemma frames_stop:
  assumes "frames_inv all_fs tr st" and "\<not> running (tp_pc st')" "tp_pc st' \<noteq> Announcing" and "delivered tr' = delivered tr"
  shows "frames_inv all_fs tr' st'"
  using assms by (auto simp: frames_inv_def)

lemma frames_read:
  assumes i: "frames_inv all_fs tr st" and pc: "tp_pc st = Reading" and f: "read_step w st = Some (l, st')"
  shows "frames_inv all_fs (tr @ [l]) st'"
proof -
  obtain rest where rest: "all_fs = delivered tr @ rest" "to_come (tp_ws st) rest"
    using i pc by (auto simp: frames_inv_def)
  obtain r c where rf: "read_frame (sock_read w) (tp_ws st) = Some (r, c)"
    and r: "case r of Inl e \<Rightarrow> rest = [] \<or> to_come c rest | Inr None \<Rightarrow> to_come c rest
      | Inr (Some f) \<Rightarrow> \<exists>more. rest = f # more \<and> to_come c more"
    using read_frame_to_come [OF rest(2)] by blast
  consider (err) e where "r = Inl e" | (none) "r = Inr None" | (frame) fr where "r = Inr (Some fr)"
    by (cases r; cases "case r of Inr x \<Rightarrow> x | _ \<Rightarrow> None") auto
  then show ?thesis
  proof cases
    case err
    then show ?thesis using f rf rest by (auto simp: read_step_def Let_def frames_inv_def)
  next
    case none
    then show ?thesis using f rf rest r by (auto simp: read_step_def Let_def frames_inv_def)
  next
    case frame
    then obtain more where more: "rest = fr # more" "to_come c more" using r by auto
    have "l = Deliver fr" using f rf frame by (auto simp: read_step_def Let_def)
    moreover have "running (tp_pc st') \<Longrightarrow> to_come (tp_ws st') more" "tp_pc st' \<noteq> Announcing"
      using f rf frame more(2) ws_pong_keeps [of "st\<lparr>tp_ws := c, tp_pc := Looping\<rparr>" more]
      by (cases fr; auto simp: read_step_def Let_def)+
    ultimately show ?thesis using rest(1) more(1) by (auto simp: frames_inv_def)
  qed
qed

lemma frames_step:
  assumes i: "frames_inv all_fs tr st" and "transport_step w st l st'"
  shows "frames_inv all_fs (tr @ [l]) st'"
  using assms(2)
proof cases
  case Thread
  show ?thesis
  proof (cases "tp_pc st")
    case Reading
    then show ?thesis using frames_read [OF i] Thread by (simp add: thread_step_def)
  next
    case Announcing
    then show ?thesis using Thread
      by (intro frames_keep [OF i]) (auto simp: thread_step_def blocking_step_def split: prod.splits send_outcome.splits)
  next
    case (Ending d)
    then show ?thesis using Thread
      by (intro frames_stop [OF i]) (auto simp: thread_step_def blocking_step_def split: prod.splits send_outcome.splits)
  next
    case Exited
    then show ?thesis using Thread by (simp add: thread_step_def)
  next
    case Forwarding
    then show ?thesis using Thread
      by (intro frames_keep [OF i])
        (auto simp: thread_step_def forward_step_def split: prod.splits forward_progress.splits option.splits)
  next
    case Looping
    then show ?thesis using Thread i by (auto simp: thread_step_def frames_inv_def split: if_splits)
  next
    case (Completing n r)
    then show ?thesis using Thread
      by (intro frames_keep [OF i]) (auto simp: thread_step_def complete_step_def Let_def split: sum.splits)
  next
    case Draining
    show ?thesis
    proof (cases "tp_jobs st")
      case Nil
      then show ?thesis using Draining Thread
        by (intro frames_keep [OF i]) (auto simp: thread_step_def drain_step_def)
    next
      case (Cons job jobs)
      obtain n d where job: "job = (n, d)" by (rule prod.exhaust)
      obtain r st1 where b: "ws_binary w d (st\<lparr>tp_jobs := jobs\<rparr>) = (r, st1)" by (rule prod.exhaust)
      have "l = Wrote n d r" "st' = st1\<lparr>tp_pc := Completing n r\<rparr>"
        using Draining Thread Cons job b by (auto simp: thread_step_def drain_step_def)
      then show ?thesis using Draining ws_binary_keeps(1) [OF b] by (intro frames_keep [OF i]) auto
    qed
  qed
next
  case (Send data n)
  then show ?thesis using i by (auto simp: frames_inv_def send_enqueue_def split: if_splits)
next
  case (Receive e ch)
  then show ?thesis using i by (auto simp: frames_inv_def)
next
  case Shut
  then show ?thesis using i by (auto simp: frames_inv_def disconnect_def)
qed

lemma queue_step:
  assumes i: "emitted tr = taken tr @ queued (tp_chan st)" and "transport_step w st l st'"
  shows "emitted (tr @ [l]) = taken (tr @ [l]) @ queued (tp_chan st')"
  using assms(2)
proof cases
  case Thread
  have b: "blocking_step w e after st = (l, st') \<Longrightarrow> ?thesis" for e after
    using i sent not_sent by (auto simp: blocking_step_def split: prod.splits send_outcome.splits)
  show ?thesis
  proof (cases "tp_pc st")
    case Forwarding
    then show ?thesis using Thread i sent not_sent
      by (auto simp: thread_step_def forward_step_def forward_pending_def split: prod.splits send_outcome.splits option.splits)
  next
    case Reading
    then show ?thesis using Thread i
      by (auto simp: thread_step_def read_step_def Let_def split: option.splits sum.splits frame.splits)
  next
    case Draining
    then show ?thesis using Thread i
      by (auto simp: thread_step_def drain_step_def dest: ws_binary_fields(2) split: list.splits prod.splits)
  next
    case (Completing n r)
    then show ?thesis using Thread i by (auto simp: thread_step_def complete_step_def Let_def split: sum.splits)
  next
    case Looping
    then show ?thesis using Thread i by (auto simp: thread_step_def)
  qed (use Thread b in \<open>auto simp: thread_step_def\<close>)
next
  case (Send data n)
  then show ?thesis using i by (auto simp: send_enqueue_def split: if_splits)
next
  case (Receive e ch)
  then show ?thesis using i received by auto
next
  case Shut
  then show ?thesis using i by (auto simp: disconnect_def)
qed

lemma run_invariants:
  assumes "transport_run w st0 tr st" and "tp_pc st0 = Announcing" "tp_pending st0 = None" "queued (tp_chan st0) = []"
    and "to_come (tp_ws st0) all_fs"
  shows "events_inv tr st \<and> frames_inv all_fs tr st \<and> emitted tr = taken tr @ queued (tp_chan st)"
  using assms(1)
proof induction
  case Begin
  then show ?case using assms(2-) by (auto simp: events_inv_def frames_inv_def)
next
  case (More tr st l st')
  then show ?case using events_step frames_step queue_step by blast
qed

end

section \<open>Writes\<close>

definition jobs_of :: "(nat \<times> bytes \<times> (ws_error + unit)) list \<Rightarrow> (nat \<times> bytes) list" where
  "jobs_of ws = map (\<lambda>(n, d, r). (n, d)) ws"

lemma jobs_of_simps [simp]: "jobs_of [] = []" "jobs_of (ws @ vs) = jobs_of ws @ jobs_of vs" "jobs_of [(n, d, r)] = [(n, d)]"
  by (simp_all add: jobs_of_def)

definition alive :: "position \<Rightarrow> bool" where
  "alive pc \<longleftrightarrow> pc = Announcing \<or> running pc"

lemma alive_simps [simp]:
  "alive Looping" "alive Draining" "alive Forwarding" "alive Reading" "alive (Completing n r)" "alive Announcing"
  "\<not> alive (Ending d)" "\<not> alive Exited"
  by (simp_all add: alive_def)

definition writes_inv :: "label list \<Rightarrow> ('s, 'c) transport \<Rightarrow> bool" where
  "writes_inv tr st \<longleftrightarrow>
     map fst (accepted tr) = [0..<tp_next st] \<and>
     (\<exists>lost. accepted tr = jobs_of (wrote tr) @ tp_jobs st @ lost \<and> (tp_open st \<longrightarrow> lost = [])) \<and>
     (tp_open st \<longleftrightarrow> alive (tp_pc st)) \<and> (\<not> tp_open st \<longrightarrow> tp_jobs st = []) \<and>
     (\<forall>n r. tp_acks st n = Some r \<longleftrightarrow> (\<exists>d. (n, d, r) \<in> set (wrote tr)) \<and> tp_pc st \<noteq> Completing n r) \<and>
     (\<forall>n r. tp_pc st = Completing n r \<longrightarrow> (\<exists>d ws. wrote tr = ws @ [(n, d, r)] \<and> list_all (\<lambda>(n, d, r). r = Inr ()) ws)) \<and>
     (tp_open st \<and> (\<forall>n r. tp_pc st \<noteq> Completing n r) \<longrightarrow> list_all (\<lambda>(n, d, r). r = Inr ()) (wrote tr)) \<and>
     list_all (\<lambda>(n, d, r). r = Inr ()) (butlast (wrote tr))"

text \<open>Steps that write nothing, accept nothing and complete nothing.\<close>

lemma writes_same:
  assumes "writes_inv tr st" and "accepted tr' = accepted tr" "wrote tr' = wrote tr"
    and "tp_next st' = tp_next st" "tp_acks st' = tp_acks st"
    and "\<forall>n r. tp_pc st \<noteq> Completing n r" "\<forall>n r. tp_pc st' \<noteq> Completing n r"
    and "tp_open st' = tp_open st \<and> tp_jobs st' = tp_jobs st \<and> alive (tp_pc st') = alive (tp_pc st) \<or>
      \<not> tp_open st' \<and> tp_jobs st' = [] \<and> \<not> alive (tp_pc st')"
  shows "writes_inv tr' st'"
  using assms unfolding writes_inv_def by auto

lemma writes_drain:
  assumes i: "writes_inv tr st" and pc: "tp_pc st = Draining" and f: "drain_step w st = (l, st')"
  shows "writes_inv (tr @ [l]) st'"
proof (cases "tp_jobs st")
  case Nil
  then have "l = Silent" "st' = st\<lparr>tp_pc := Forwarding\<rparr>" using f by (auto simp: drain_step_def)
  then show ?thesis using pc by (intro writes_same [OF i]) auto
next
  case (Cons job jobs)
  obtain n d where job: "job = (n, d)" by (rule prod.exhaust)
  obtain r st1 where b: "ws_binary w d (st\<lparr>tp_jobs := jobs\<rparr>) = (r, st1)" by (rule prod.exhaust)
  have l: "l = Wrote n d r" and st': "st' = st1\<lparr>tp_pc := Completing n r\<rparr>"
    using f Cons job b by (auto simp: drain_step_def)
  note fields = ws_binary_fields [OF b]
  have acc: "accepted tr = jobs_of (wrote tr) @ (n, d) # jobs" and ids: "map fst (accepted tr) = [0..<tp_next st]"
    and ok: "list_all (\<lambda>(n, d, r). r = Inr ()) (wrote tr)" and op: "tp_open st"
    using i pc Cons job by (auto simp: writes_inv_def)
  have "distinct (map fst (accepted tr))" using ids by simp
  then have fresh: "(n, d', r') \<notin> set (wrote tr)" for d' r' unfolding acc by (force simp: jobs_of_def)
  then have acks: "tp_acks st m = Some q \<longleftrightarrow> (\<exists>d. (m, d, q) \<in> set (wrote tr))" for m q
    using i pc by (auto simp: writes_inv_def)
  have "tp_acks st' m = Some q \<longleftrightarrow> (\<exists>d. (m, d, q) \<in> set (wrote (tr @ [l]))) \<and> tp_pc st' \<noteq> Completing m q" for m q
    using acks [of m q] fresh st' fields l by auto
  then show ?thesis using acc ids ok op st' fields l unfolding writes_inv_def by (auto simp: butlast_append)
qed

lemma writes_complete:
  assumes i: "writes_inv tr st" and pc: "tp_pc st = Completing n r"
  shows "writes_inv (tr @ [Silent]) (complete_step n r st)"
proof -
  obtain d ws where w: "wrote tr = ws @ [(n, d, r)]" "list_all (\<lambda>(n, d, r). r = Inr ()) ws" and op: "tp_open st"
    and acc: "accepted tr = jobs_of (wrote tr) @ tp_jobs st" and ids: "map fst (accepted tr) = [0..<tp_next st]"
    and acks: "\<And>m q. tp_acks st m = Some q \<longleftrightarrow> (\<exists>d. (m, d, q) \<in> set (wrote tr)) \<and> Completing n r \<noteq> Completing m q"
    using i pc by (auto simp: writes_inv_def)
  have "distinct (map fst (accepted tr))" using ids by simp
  then have fresh: "(n, d', r') \<notin> set ws" for d' r' unfolding acc w(1) by (force simp: jobs_of_def)
  have new: "((tp_acks st)(n \<mapsto> r)) m = Some q \<longleftrightarrow> (\<exists>d. (m, d, q) \<in> set (wrote tr))" for m q
    using acks [of m q] fresh w(1) by auto
  show ?thesis
  proof (cases r)
    case (Inl e)
    then show ?thesis using w op acc ids new by (simp add: complete_step_def Let_def writes_inv_def)
  next
    case (Inr u)
    then show ?thesis using w op acc ids new by (simp add: complete_step_def Let_def writes_inv_def)
  qed
qed

lemma writes_step:
  assumes i: "writes_inv tr st" and "transport_step w st l st'"
  shows "writes_inv (tr @ [l]) st'"
  using assms(2)
proof cases
  case Thread
  show ?thesis
  proof (cases "tp_pc st")
    case Draining
    then show ?thesis using writes_drain [OF i] Thread by (simp add: thread_step_def)
  next
    case (Completing n r)
    then show ?thesis using writes_complete [OF i] Thread by (simp add: thread_step_def)
  next
    case Announcing
    then show ?thesis using Thread
      by (intro writes_same [OF i]) (auto simp: thread_step_def blocking_step_def split: prod.splits send_outcome.splits)
  next
    case (Ending d)
    then show ?thesis using Thread
      by (intro writes_same [OF i]) (auto simp: thread_step_def blocking_step_def split: prod.splits send_outcome.splits)
  next
    case Exited
    then show ?thesis using Thread by (simp add: thread_step_def)
  next
    case Forwarding
    then show ?thesis using Thread
      by (intro writes_same [OF i])
        (auto simp: thread_step_def forward_step_def split: prod.splits forward_progress.splits option.splits)
  next
    case Reading
    then show ?thesis using Thread
      by (intro writes_same [OF i])
        (auto simp: thread_step_def read_step_def Let_def split: option.splits sum.splits frame.splits)
  next
    case Looping
    then show ?thesis using Thread by (intro writes_same [OF i]) (auto simp: thread_step_def split: if_splits)
  qed
next
  case (Send data n)
  then have st': "st' = st\<lparr>tp_jobs := tp_jobs st @ [(n, data)], tp_next := Suc n\<rparr>" and n: "n = tp_next st" and op: "tp_open st"
    by (auto simp: send_enqueue_def split: if_splits)
  then show ?thesis using i Send(1) unfolding writes_inv_def by auto
next
  case (Receive e ch)
  then show ?thesis using i unfolding writes_inv_def by auto
next
  case Shut
  then show ?thesis using i unfolding writes_inv_def by (auto simp: disconnect_def)
qed

lemma writes_inv_run: "transport_run w (transport_at Announcing c ch) tr st \<Longrightarrow> writes_inv tr st"
proof (induction rule: transport_run.induct)
  case Begin
  then show ?case by (simp add: writes_inv_def transport_at_def)
next
  case (More tr st l st')
  then show ?case using writes_step by blast
qed

section \<open>Progress\<close>

fun thread_steps ::
  "('s, 'c) surroundings \<Rightarrow> nat \<Rightarrow> ('s, 'c) transport \<Rightarrow> (label list \<times> ('s, 'c) transport) option" where
  "thread_steps w 0 st = Some ([], st)"
| "thread_steps w (Suc k) st =
     (case thread_step w st of
        None \<Rightarrow> None
      | Some (l, st') \<Rightarrow> map_option (\<lambda>(tr, st''). (l # tr, st'')) (thread_steps w k st'))"

definition job_settled :: "nat \<Rightarrow> bytes \<Rightarrow> label list \<Rightarrow> ('s, 'c) transport \<Rightarrow> bool" where
  "job_settled n d tr st \<longleftrightarrow> (\<exists>r. Wrote n d r \<in> set tr) \<or> (\<exists>reason. tp_pc st = Ending reason)"

definition settles :: "('s, 'c) surroundings \<Rightarrow> nat \<Rightarrow> nat \<Rightarrow> bytes \<Rightarrow> ('s, 'c) transport \<Rightarrow> bool" where
  "settles w k n d st \<longleftrightarrow> (\<exists>j \<le> k. \<exists>tr st'. thread_steps w j st = Some (tr, st') \<and> job_settled n d tr st')"

lemma settles_step:
  assumes "thread_step w st = Some (l, st')" and "settles w k n d st' \<or> (\<exists>reason. tp_pc st' = Ending reason) \<or> (\<exists>r. l = Wrote n d r)"
  shows "settles w (Suc k) n d st"
proof -
  consider (later) "settles w k n d st'" | (now) "job_settled n d [l] st'"
    using assms(2) by (auto simp: job_settled_def)
  then show ?thesis
  proof cases
    case later
    then obtain j tr st'' where "j \<le> k" "thread_steps w j st' = Some (tr, st'')" "job_settled n d tr st''"
      by (auto simp: settles_def)
    then have "thread_steps w (Suc j) st = Some (l # tr, st'')" "job_settled n d (l # tr) st''" "Suc j \<le> Suc k"
      using assms(1) by (auto simp: job_settled_def)
    then show ?thesis unfolding settles_def by blast
  next
    case now
    moreover have "thread_steps w 1 st = Some ([l], st')" using assms(1) by simp
    ultimately show ?thesis unfolding settles_def by (intro exI [of _ 1]) auto
  qed
qed

lemma settles_mono: "settles w k n d st \<Longrightarrow> k \<le> m \<Longrightarrow> settles w m n d st"
  unfolding settles_def using le_trans by blast

context transport_world
begin

lemma settles_draining:
  assumes "tp_pc st = Draining" "tp_jobs st = (n, d) # js"
  shows "settles w 1 n d st"
proof -
  obtain r st1 where b: "ws_binary w d (st\<lparr>tp_jobs := js\<rparr>) = (r, st1)" by (rule prod.exhaust)
  have "thread_step w st = Some (Wrote n d r, st1\<lparr>tp_pc := Completing n r\<rparr>)"
    using assms b by (simp add: thread_step_def drain_step_def)
  then show ?thesis using settles_step [of w st "Wrote n d r" _ 0 n d] by simp
qed

lemma settles_looping:
  assumes "tp_pc st = Looping" "tp_jobs st = (n, d) # js"
  shows "settles w 2 n d st"
proof (cases "tp_shutdown st")
  case True
  have "thread_step w st = Some (Silent, wind_up Unknown_Reason (ws_close w st))" using assms True by (simp add: thread_step_def)
  then show ?thesis using settles_step [of w st Silent _ 1 n d] by (simp add: numeral_2_eq_2)
next
  case False
  have "thread_step w st = Some (Silent, st\<lparr>tp_pc := Draining\<rparr>)" using assms False by (simp add: thread_step_def)
  moreover have "settles w 1 n d (st\<lparr>tp_pc := Draining\<rparr>)" using assms by (intro settles_draining) auto
  ultimately show ?thesis using settles_step [of w st Silent _ 1 n d] by (simp add: numeral_2_eq_2)
qed

lemma settles_reading:
  assumes "tp_pc st = Reading" "tp_jobs st = (n, d) # js" "to_come (tp_ws st) fs"
  shows "settles w 3 n d st"
proof -
  obtain r c where rf: "read_frame (sock_read w) (tp_ws st) = Some (r, c)" using read_frame_to_come [OF assms(3)] by blast
  obtain l st' where s: "thread_step w st = Some (l, st')"
    using assms(1) rf by (cases "the (thread_step w st)") (auto simp: thread_step_def read_step_def Let_def)
  have "tp_pc st' = Looping \<and> tp_jobs st' = (n, d) # js \<or> (\<exists>reason. tp_pc st' = Ending reason)"
    using assms rf s by (auto simp: thread_step_def read_step_def Let_def split: sum.splits option.splits frame.splits)
  then show ?thesis using settles_step [OF s, of 2 n d] settles_looping [of st' n d js] by (auto simp: numeral_3_eq_3 numeral_2_eq_2)
qed

lemma settles_running:
  assumes "running (tp_pc st)" "tp_jobs st = (n, d) # js" "to_come (tp_ws st) fs"
  shows "settles w 4 n d st"
proof (cases "tp_pc st")
  case Forwarding
  obtain l st' where s: "thread_step w st = Some (l, st')"
    using Forwarding by (cases "forward_step w st") (simp add: thread_step_def)
  have "tp_pc st' = Reading \<and> tp_jobs st' = (n, d) # js \<and> tp_ws st' = tp_ws st \<or>
     tp_pc st' = Looping \<and> tp_jobs st' = (n, d) # js \<or> (\<exists>reason. tp_pc st' = Ending reason)"
    using assms Forwarding s
    by (auto simp: thread_step_def forward_step_def split: prod.splits forward_progress.splits)
  then show ?thesis
    using settles_step [OF s, of 3 n d] settles_looping [of st' n d js] settles_reading [of st' n d js fs] assms(3)
      settles_mono [of w 2 n d st' 3] by (auto simp: eval_nat_numeral)
next
  case (Completing m r)
  obtain st' where s: "thread_step w st = Some (Silent, st')"
    "tp_pc st' = Draining \<and> tp_jobs st' = (n, d) # js \<or> (\<exists>reason. tp_pc st' = Ending reason)"
    using assms Completing by (cases r) (auto simp: thread_step_def complete_step_def Let_def)
  then show ?thesis using settles_step [OF s(1), of 3 n d] settles_draining [of st' n d js] settles_mono [of w 1 n d st' 3]
    by (auto simp: eval_nat_numeral)
qed (use assms settles_draining [of st n d js] settles_looping [of st n d js] settles_reading [of st n d js fs]
      settles_mono [of w _ n d st 4] in auto)

end

section \<open>TLS handles\<close>

text \<open>
  A connection that fails gives its handle back, except when the host holds a null byte: then
  \<open>CString::new\<close> fails after \<open>esp_tls_init\<close>, and the handle is lost.
\<close>

lemma tls_connect_handles:
  assumes "init hs = Some tls"
  shows "snd (tls_connect_with_timeout init conn_new host port skip timeout hs) =
    (if CHR 0x00 \<in> set host \<or> conn_new host port (tls_config skip timeout) tls = 1 then tls # hs else hs)"
  using assms by (simp add: tls_connect_with_timeout_def Let_def)

section \<open>A scripted world\<close>

text \<open>A channel with a capacity, and a server that only speaks.\<close>

definition list_try_send :: "nat option \<Rightarrow> transport_event \<Rightarrow> transport_event list \<Rightarrow> send_outcome \<times> transport_event list" where
  "list_try_send cap e q =
     (case cap of
        Some c \<Rightarrow> if c \<le> length q then (Full, q) else (Sent, q @ [e])
      | None \<Rightarrow> (Sent, q @ [e]))"

definition list_recv :: "transport_event list \<Rightarrow> transport_event option \<times> transport_event list" where
  "list_recv q = (case q of [] \<Rightarrow> (None, []) | e # q' \<Rightarrow> (Some e, q'))"

definition demo_world :: "(ws_violation peer, transport_event list) surroundings" where
  "demo_world =
     \<lparr>sock_read = peer_read, sock_write = (\<lambda>b s. (Inr (), s)), sock_flush = retE (), random_mask = (\<lambda>_. [1, 2, 3, 4]),
      chan_try_send = list_try_send (event_capacity False), chan_recv = list_recv, queue_cap = SEND_QUEUE_CAP False\<rparr>"

interpretation demo: transport_world demo_world peer_unread "\<lambda>q. q"
  by unfold_locales
    (auto simp: demo_world_def list_try_send_def list_recv_def event_capacity_def retE_def
      dest: peer_law split: option.splits if_splits list.splits)

text \<open>A run: the client takes \<open>Connected\<close> and asks for a write.\<close>

definition demo_start :: "(ws_violation peer, transport_event list) transport" where
  "demo_start = transport_at Announcing (ws_start \<lparr>max_frame_size = 125, max_message_size = 125\<rparr> [] [Gives 0x82 [1, 42]]) []"

definition demo_trace :: "label list" where
  "demo_trace = [Emit Connected, Take Connected, Accept 0 [9]]"

definition demo_state :: "(ws_violation peer, transport_event list) transport" where
  "demo_state = demo_start\<lparr>tp_pc := Looping, tp_jobs := [(0, [9])], tp_next := 1\<rparr>"

lemma demo_run: "transport_run demo_world demo_start demo_trace demo_state"
proof -
  let ?s1 = "demo_start\<lparr>tp_pc := Looping, tp_chan := [Connected]\<rparr>"
  let ?s2 = "demo_start\<lparr>tp_pc := Looping\<rparr>"
  have "transport_step demo_world demo_start (Emit Connected) ?s1"
    by (rule Thread)
      (simp add: thread_step_def blocking_step_def demo_start_def transport_at_def demo_world_def list_try_send_def event_capacity_def)
  with Begin have "transport_run demo_world demo_start ([] @ [Emit Connected]) ?s1" by (rule More)
  moreover have "transport_step demo_world ?s1 (Take Connected) ?s2"
    using Receive [of demo_world ?s1 Connected "[]"]
    by (simp add: demo_world_def list_recv_def demo_start_def transport_at_def)
  ultimately have "transport_run demo_world demo_start (([] @ [Emit Connected]) @ [Take Connected]) ?s2" by (rule More)
  moreover have "transport_step demo_world ?s2 (Accept 0 [9]) demo_state"
    by (rule Send) (simp add: send_enqueue_def demo_world_def SEND_QUEUE_CAP_def demo_start_def demo_state_def transport_at_def)
  ultimately have "transport_run demo_world demo_start ((([] @ [Emit Connected]) @ [Take Connected]) @ [Accept 0 [9]]) demo_state"
    by (rule More)
  then show ?thesis by (simp add: demo_trace_def)
qed

section \<open>Properties\<close>

text \<open>C28: The client gets the server's messages, and nothing else. In every run of the transport,
  however the steps of the thread and of the client interleave, what the client has received
  or can still receive is \<open>Connected\<close>, then the binary messages that the reference decoder finds
  in the bytes of the server, in order and without a gap, then at most one \<open>Disconnected\<close>, once
  the thread has gone. When that says that the server closed the connection, the client has
  every message the server sent before its close frame.\<close>

theorem transport_delivers:
  assumes "transport_world w unread queued" and "queued ch = []"
    and "transport_run w (transport_at Announcing (ws_start lim pending s) ch) tr st"
  shows "\<exists>conn ds tail. taken tr @ queued (tp_chan st) = conn @ map DataReceived ds @ tail \<and>
    conn \<in> {[], [Connected]} \<and>
    (\<exists>lost. data_of (decode_all lim None (pending @ unread s)) = ds @ lost) \<and>
    (tail = [] \<or> tp_pc st = Exited \<and> (\<exists>reason. tail = [Disconnected reason] \<and>
       (from_server reason \<longrightarrow>
          ds = data_of (takeWhile (\<lambda>f. \<not> is_close f) (decode_all lim None (pending @ unread s))))))"
proof -
  let ?all = "decode_all lim None (pending @ unread s)"
  let ?st0 = "transport_at Announcing (ws_start lim pending s) ch"
  have W: "ws_reader (sock_read w) unread" using assms(1) by (simp add: transport_world_def)
  have "events_inv tr st \<and> transport_world.frames_inv unread ?all tr st \<and> emitted tr = taken tr @ queued (tp_chan st)"
    using ws_start_to_come [OF W, of lim pending s] assms(2)
    by (intro transport_world.run_invariants [OF assms(1,3)]) (simp_all add: transport_at_def)
  then have ev: "events_inv tr st" and q: "emitted tr = taken tr @ queued (tp_chan st)"
    and fr: "\<exists>rest. ?all = delivered tr @ rest"
    unfolding transport_world.frames_inv_def [OF assms(1)] by blast+
  obtain rest where rest: "?all = delivered tr @ rest" using fr by blast
  have closed: "data_of (takeWhile (\<lambda>f. \<not> is_close f) ?all) = ds" if ended: "ended d tr ds" and server: "from_server d" for d ds
  proof -
    obtain fs x where "delivered tr = fs @ [Close x]" "list_all (\<lambda>f. \<not> is_close f) fs" "data_of (delivered tr) = ds"
      using ended server unfolding ended_def by blast
    then show ?thesis unfolding rest by (simp add: is_close_def takeWhile_append2 list_all_iff)
  qed
  have "\<exists>ds tail. sent_so_far tr ds tail \<and> (\<exists>lost. data_of (delivered tr) = ds @ lost) \<and>
    (tail = [] \<or> tp_pc st = Exited \<and> (\<exists>d. tail = [Disconnected d] \<and> ended d tr ds))"
  proof (cases "tp_pc st")
    case Announcing
    then show ?thesis using ev by (intro exI [of _ "[]"]) (simp add: events_inv_def sent_so_far_def)
  next
    case (Ending d)
    then show ?thesis using ev by (auto simp: events_inv_def ended_def)
  next
    case Exited
    then show ?thesis using ev by (auto simp: events_inv_def)
  qed (use ev in \<open>auto elim!: events_inv_runningD\<close>)
  then obtain ds tail lost where t: "sent_so_far tr ds tail" "data_of (delivered tr) = ds @ lost"
    "tail = [] \<or> tp_pc st = Exited \<and> (\<exists>d. tail = [Disconnected d] \<and> ended d tr ds)" by blast
  have "data_of ?all = ds @ lost @ data_of rest" using rest t(2) by simp
  moreover obtain conn where "conn \<in> {[], [Connected]}" "taken tr @ queued (tp_chan st) = conn @ map DataReceived ds @ tail"
    using t(1) q unfolding sent_so_far_def by metis
  moreover have "tail = [] \<or> tp_pc st = Exited \<and> (\<exists>reason. tail = [Disconnected reason] \<and>
    (from_server reason \<longrightarrow> ds = data_of (takeWhile (\<lambda>f. \<not> is_close f) ?all)))"
    using t(3) closed by metis
  ultimately show ?thesis by blast
qed

theorem transport_delivers_witness:
  "\<exists>conn ds tail. taken demo_trace @ tp_chan demo_state = conn @ map DataReceived ds @ tail \<and> conn = [Connected] \<and> tail = []"
proof -
  have taken: "taken demo_trace @ tp_chan demo_state = [Connected]"
    by (simp add: demo_trace_def taken_def demo_state_def demo_start_def transport_at_def)
  have pc: "tp_pc demo_state = Looping" by (simp add: demo_state_def)
  show ?thesis
    using transport_delivers [OF demo.transport_world_axioms refl demo_run [unfolded demo_start_def]] pc
    unfolding taken by (auto simp: Cons_eq_append_conv)
qed

text \<open>C29: A write that is reported as done was done. In every run, the writes the thread performs
  are the accepted writes in the order of acceptance, each once, and all but the last
  performed one succeeded. A sender is told of success only after its frame was written, of a
  failure only when its own write failed, and that the transport stopped only when its frame
  was never written; once the thread is gone no sender waits.\<close>

theorem transport_writes:
  assumes "transport_run w (transport_at Announcing c ch) tr st"
  shows "map fst (accepted tr) = [0..<tp_next st] \<and>
    (\<exists>lost. accepted tr = jobs_of (wrote tr) @ lost) \<and>
    list_all (\<lambda>(n, d, r). r = Inr ()) (butlast (wrote tr)) \<and>
    list_all (\<lambda>(n, d). case send_completed n st of
        Some (Inr _) \<Rightarrow> (n, d, Inr ()) \<in> set (wrote tr)
      | Some (Inl (Write_Failed e)) \<Rightarrow> (n, d, Inl e) \<in> set (wrote tr)
      | Some (Inl Stopped_Before_Write) \<Rightarrow> \<not> tp_open st \<and> (n, d) \<notin> set (jobs_of (wrote tr))
      | None \<Rightarrow> alive (tp_pc st)) (accepted tr)"
proof -
  have i: "writes_inv tr st" using writes_inv_run [OF assms] .
  then obtain lost where acc: "accepted tr = jobs_of (wrote tr) @ tp_jobs st @ lost"
    and lost: "tp_open st \<longrightarrow> lost = []" and ids: "map fst (accepted tr) = [0..<tp_next st]"
    and op: "tp_open st \<longleftrightarrow> alive (tp_pc st)" "\<not> tp_open st \<longrightarrow> tp_jobs st = []"
    and acks: "\<forall>n r. tp_acks st n = Some r \<longleftrightarrow> (\<exists>d. (n, d, r) \<in> set (wrote tr)) \<and> tp_pc st \<noteq> Completing n r"
    by (auto simp: writes_inv_def)
  have "distinct (map fst (accepted tr))" using ids by simp
  then have same: "d = d'" if "(n, d) \<in> set (accepted tr)" "(n, d') \<in> set (accepted tr)" for n d d'
    using that by (meson eq_key_imp_eq_value)
  have wrote_acc: "(n, d) \<in> set (accepted tr)" if "(n, d, r) \<in> set (wrote tr)" for n d r
    using that unfolding acc by (force simp: jobs_of_def)
  have "case send_completed n st of
        Some (Inr _) \<Rightarrow> (n, d, Inr ()) \<in> set (wrote tr)
      | Some (Inl (Write_Failed e)) \<Rightarrow> (n, d, Inl e) \<in> set (wrote tr)
      | Some (Inl Stopped_Before_Write) \<Rightarrow> \<not> tp_open st \<and> (n, d) \<notin> set (jobs_of (wrote tr))
      | None \<Rightarrow> alive (tp_pc st)" if nd: "(n, d) \<in> set (accepted tr)" for n d
  proof (cases "tp_acks st n")
    case (Some r)
    then obtain d' where "(n, d', r) \<in> set (wrote tr)" using acks by blast
    then have "(n, d, r) \<in> set (wrote tr)" using same [OF nd wrote_acc] by blast
    then show ?thesis using Some by (cases r) (auto simp: send_completed_def)
  next
    case None
    show ?thesis
    proof (cases "n \<in> fst ` set (tp_jobs st) \<or> (\<exists>r. tp_pc st = Completing n r)")
      case True
      then have "alive (tp_pc st)" using op by auto
      then show ?thesis using None True by (auto simp: send_completed_def)
    next
      case False
      have new: "(n, d) \<notin> set (jobs_of (wrote tr))"
      proof
        assume "(n, d) \<in> set (jobs_of (wrote tr))"
        then obtain r where "(n, d, r) \<in> set (wrote tr)" by (auto simp: jobs_of_def)
        then show False using acks [rule_format, of n r] None False by auto
      qed
      have "(n, d) \<notin> set (tp_jobs st)" using False by (metis fst_conv image_eqI)
      then have "(n, d) \<in> set lost" using nd new acc by auto
      then have "\<not> tp_open st" using lost by auto
      then show ?thesis using None False new by (simp add: send_completed_def)
    qed
  qed
  then show ?thesis using i ids acc unfolding writes_inv_def by (auto simp: list_all_iff)
qed

theorem transport_writes_witness:
  "send_completed 0 demo_state = None \<and> alive (tp_pc demo_state) \<and> map fst (accepted demo_trace) = [0..<tp_next demo_state]"
proof -
  have "send_completed 0 demo_state = None"
    by (simp add: send_completed_def demo_state_def demo_start_def transport_at_def)
  then show ?thesis
    using transport_writes [OF demo_run [unfolded demo_start_def]] by (auto simp: demo_trace_def accepted_def)
qed

text \<open>C30: Writes go on while the client does not take its events. In every run, from every moment at
  which the thread is in its loop and a write is queued, at most four steps of the thread, on
  whatever the socket gives and however full the channel of events is, perform that write, or
  the thread is ending.\<close>

theorem transport_write_progress:
  assumes "transport_world w unread queued" and "queued ch = []"
    and "transport_run w (transport_at Announcing (ws_start lim pending s) ch) tr st"
    and "running (tp_pc st)" and "tp_jobs st = (n, d) # js"
  shows "\<exists>k \<le> 4. \<exists>ls st'. thread_steps w k st = Some (ls, st') \<and>
    ((\<exists>r. Wrote n d r \<in> set ls) \<or> (\<exists>reason. tp_pc st' = Ending reason))"
proof -
  let ?all = "decode_all lim None (pending @ unread s)"
  have W: "ws_reader (sock_read w) unread" using assms(1) by (simp add: transport_world_def)
  have "transport_world.frames_inv unread ?all tr st"
    using ws_start_to_come [OF W, of lim pending s] assms(2)
      transport_world.run_invariants [OF assms(1,3), of ?all] by (simp add: transport_at_def)
  then obtain rest where "ws_reader.to_come unread (tp_ws st) rest"
    using assms(4) unfolding transport_world.frames_inv_def [OF assms(1)] by blast
  from transport_world.settles_running [OF assms(1,4,5) this] show ?thesis
    unfolding settles_def job_settled_def .
qed

theorem transport_write_progress_witness:
  "\<exists>k \<le> 4. \<exists>ls st'. thread_steps demo_world k demo_state = Some (ls, st') \<and>
    ((\<exists>r. Wrote 0 [9] r \<in> set ls) \<or> (\<exists>reason. tp_pc st' = Ending reason))"
  by (rule transport_write_progress [OF demo.transport_world_axioms refl demo_run [unfolded demo_start_def]])
    (simp_all add: demo_state_def)

end
