(* ===== verification/Http_Body.thy ===== *)
theory Http_Body
  imports Http_Text
begin

text \<open>
  The body readers of the HTTP client: \<open>ExactLengthReader\<close> of \<open>src/http_client.rs\<close> and
  \<open>ChunkedReader\<close> of \<open>src/http_chunked.rs\<close>, over the \<open>BufReader\<close>, \<open>Chain\<close>, \<open>read_until\<close>,
  \<open>read_exact\<close> and \<open>read_to_end\<close> of the standard library. Loops that retry on \<open>Interrupted\<close>
  may run forever on a socket that is interrupted forever, so they are partial; they are shown
  to return on every other socket.
\<close>

type_synonym ioerr = "http_violation io_error"

section \<open>Partial computations with state and errors\<close>

type_synonym ('s, 'e, 'a) iop = "'s \<Rightarrow> (('e + 'a) \<times> 's) option"

definition retP :: "'a \<Rightarrow> ('s, 'e, 'a) iop" where
  "retP x = (\<lambda>s. Some (Inr x, s))"

definition liftP :: "'e + 'a \<Rightarrow> ('s, 'e, 'a) iop" where
  "liftP r = (\<lambda>s. Some (r, s))"

definition bindP :: "('s, 'e, 'a) iop \<Rightarrow> ('a \<Rightarrow> ('s, 'e, 'b) iop) \<Rightarrow> ('s, 'e, 'b) iop" where
  "bindP m f = (\<lambda>s. case m s of
     None \<Rightarrow> None
   | Some (Inl e, s') \<Rightarrow> Some (Inl e, s')
   | Some (Inr x, s') \<Rightarrow> f x s')"

text \<open>
  \<open>read_to_end\<close>: reads until an empty read, retrying on \<open>Interrupted\<close>. How the library sizes its
  buffer is its own affair: \<open>sizes\<close> is any sequence of sizes, one for each round.
\<close>

partial_function (option) read_to_end ::
  "(nat \<Rightarrow> ('s, ioerr, bytes) iop) \<Rightarrow> (nat \<Rightarrow> nat) \<Rightarrow> nat \<Rightarrow> bytes \<Rightarrow> ('s, ioerr, bytes) iop" where
  "read_to_end rd sizes i acc s =
     (case rd (Suc (sizes i)) s of
        None \<Rightarrow> None
      | Some (Inr bs, s') \<Rightarrow>
          if bs = [] then Some (Inr acc, s') else read_to_end rd sizes (Suc i) (acc @ bs) s'
      | Some (Inl e, s') \<Rightarrow>
          if e = Interrupted then read_to_end rd sizes (Suc i) acc s' else Some (Inl e, s'))"

section \<open>A known length\<close>

record 's exact_reader =
  ex_inner :: 's
  ex_remaining :: nat

definition exact_read :: "('s, http_violation) reader \<Rightarrow> ('s exact_reader, http_violation) reader" where
  "exact_read rd n r =
     (if n = 0 \<or> ex_remaining r = 0 then (Inr [], r)
      else case rd (min (ex_remaining r) n) (ex_inner r) of
             (Inl e, s) \<Rightarrow> (Inl e, r\<lparr>ex_inner := s\<rparr>)
           | (Inr bs, s) \<Rightarrow>
               if bs = [] then (Inl UnexpectedEof, r\<lparr>ex_inner := s\<rparr>)
               else (Inr bs, r\<lparr>ex_inner := s, ex_remaining := ex_remaining r - length bs\<rparr>))"

section \<open>Bytes read too early, in front of the stream\<close>

text \<open>\<open>Cursor::new(overflow).chain(stream)\<close>.\<close>

record 's chain =
  ch_first :: bytes
  ch_second :: 's

definition chain_read :: "('s, 'w) reader \<Rightarrow> ('s chain, 'w) reader" where
  "chain_read rd n c =
     (if ch_first c \<noteq> [] \<and> 0 < n then (Inr (take n (ch_first c)), c\<lparr>ch_first := drop n (ch_first c)\<rparr>)
      else if n = 0 then (Inr [], c)
      else case rd n (ch_second c) of (r, s) \<Rightarrow> (r, c\<lparr>ch_second := s\<rparr>))"

section \<open>\<open>BufReader\<close>\<close>

record 's buf_reader =
  br_buf :: bytes
  br_inner :: 's

definition BUF_CAPACITY :: nat where "BUF_CAPACITY = 512"

definition fill_buf :: "('s, http_violation) reader \<Rightarrow> ('s buf_reader, ioerr, bytes) io" where
  "fill_buf rd b =
     (if br_buf b \<noteq> [] then (Inr (br_buf b), b)
      else case rd BUF_CAPACITY (br_inner b) of
             (Inl e, s) \<Rightarrow> (Inl e, b\<lparr>br_inner := s\<rparr>)
           | (Inr bs, s) \<Rightarrow> (Inr bs, b\<lparr>br_buf := bs, br_inner := s\<rparr>))"

definition consume :: "nat \<Rightarrow> 's buf_reader \<Rightarrow> 's buf_reader" where
  "consume n b = b\<lparr>br_buf := drop n (br_buf b)\<rparr>"

definition buf_read :: "('s, http_violation) reader \<Rightarrow> ('s buf_reader, http_violation) reader" where
  "buf_read rd n b =
     (if br_buf b = [] \<and> BUF_CAPACITY \<le> n then
        (case rd n (br_inner b) of (r, s) \<Rightarrow> (r, b\<lparr>br_inner := s\<rparr>))
      else case fill_buf rd b of
             (Inl e, b') \<Rightarrow> (Inl e, b')
           | (Inr avail, b') \<Rightarrow> (Inr (take n avail), consume n b'))"

partial_function (option) read_exact ::
  "('s, http_violation) reader \<Rightarrow> nat \<Rightarrow> bytes \<Rightarrow> ('s buf_reader, ioerr, bytes) iop" where
  "read_exact rd n acc b =
     (if n = 0 then Some (Inr acc, b)
      else case buf_read rd n b of
             (Inr bs, b') \<Rightarrow>
               if bs = [] then Some (Inl UnexpectedEof, b')
               else read_exact rd (n - length bs) (acc @ bs) b'
           | (Inl e, b') \<Rightarrow> if e = Interrupted then read_exact rd n acc b' else Some (Inl e, b'))"

text \<open>\<open>take(limit).read_until(b'\n')\<close>.\<close>

partial_function (option) read_until ::
  "('s, http_violation) reader \<Rightarrow> nat \<Rightarrow> bytes \<Rightarrow> ('s buf_reader, ioerr, bytes) iop" where
  "read_until rd limit line b =
     (if limit = 0 then Some (Inr line, b)
      else case fill_buf rd b of
             (Inl e, b') \<Rightarrow> if e = Interrupted then read_until rd limit line b' else Some (Inl e, b')
           | (Inr avail0, b') \<Rightarrow>
               let avail = take limit avail0 in
               if 0x0A \<in> set avail then
                 let used = takeWhile (\<lambda>x. x \<noteq> 0x0A) avail @ [0x0A]
                 in Some (Inr (line @ used), consume (length used) b')
               else if avail = [] then Some (Inr line, b')
               else read_until rd (limit - length avail) (line @ avail) (consume (length avail) b'))"

section \<open>Chunked bodies\<close>

definition MAX_METADATA_BYTES :: nat where "MAX_METADATA_BYTES = 8 * 1024"

record 's chunked_reader =
  cr_inner :: "'s buf_reader"
  cr_remaining :: nat
  needs_crlf :: bool
  finished :: bool

definition chunked_new :: "'s \<Rightarrow> 's chunked_reader" where
  "chunked_new s = \<lparr>cr_inner = \<lparr>br_buf = [], br_inner = s\<rparr>, cr_remaining = 0, needs_crlf = False, finished = False\<rparr>"

abbreviation CRLF :: bytes where "CRLF \<equiv> [0x0D, 0x0A]"

definition ends_crlf :: "bytes \<Rightarrow> bool" where
  "ends_crlf l \<longleftrightarrow> 2 \<le> length l \<and> drop (length l - 2) l = CRLF"

definition check_line :: "bytes \<Rightarrow> ioerr + bytes" where
  "check_line l = (if ends_crlf l then Inr l else Inl (InvalidData Chunk_Metadata))"

definition line :: "('s, http_violation) reader \<Rightarrow> nat \<Rightarrow> ('s buf_reader, ioerr, bytes) iop" where
  "line rd limit = bindP (read_until rd limit []) (\<lambda>l. liftP (check_line l))"

definition chunk_size :: "bytes \<Rightarrow> ioerr + nat" where
  "chunk_size l =
     (let sz = map char_of_byte (takeWhile (\<lambda>b. b \<noteq> 0x3B) (take (length l - 2) l)) in
      if sz = [] \<or> \<not> list_all (\<lambda>c. hex_val c \<noteq> None) sz then Inl (InvalidData Chunk_Size)
      else case parse_digits hex_val 16 (2 ^ 64) 0 sz of
             None \<Rightarrow> Inl (InvalidData Chunk_Size_Overflow)
           | Some n \<Rightarrow> Inr n)"

definition check_crlf :: "bytes \<Rightarrow> ioerr + unit" where
  "check_crlf l = (if l = CRLF then Inr () else Inl (InvalidData Chunk_Terminator))"

partial_function (option) trailers ::
  "('s, http_violation) reader \<Rightarrow> nat \<Rightarrow> ('s buf_reader, ioerr, unit) iop" where
  "trailers rd budget b =
     (case line rd budget b of
        None \<Rightarrow> None
      | Some (Inl e, b') \<Rightarrow> Some (Inl e, b')
      | Some (Inr trailer, b') \<Rightarrow>
          if trailer = CRLF then Some (Inr (), b')
          else if 0x3A \<notin> set (take (length trailer - 2) trailer)
          then Some (Inl (InvalidData Chunk_Trailer), b')
          else trailers rd (budget - length trailer) b')"

text \<open>The part of \<open>read\<close> before the data: the size of the next chunk, zero after the trailers.\<close>

definition chunk_header :: "('s, http_violation) reader \<Rightarrow> bool \<Rightarrow> ('s buf_reader, ioerr, nat) iop" where
  "chunk_header rd needs =
     bindP (if needs then bindP (read_exact rd 2 []) (\<lambda>l. liftP (check_crlf l)) else retP ()) (\<lambda>_.
     bindP (line rd MAX_METADATA_BYTES) (\<lambda>l.
     bindP (liftP (chunk_size l)) (\<lambda>size0.
     if size0 = 0 then bindP (trailers rd MAX_METADATA_BYTES) (\<lambda>_. retP 0)
     else retP size0)))"

definition chunk_data :: "('s, http_violation) reader \<Rightarrow> nat \<Rightarrow> ('s chunked_reader, ioerr, bytes) io" where
  "chunk_data rd n c =
     (case buf_read rd (min (cr_remaining c) n) (cr_inner c) of
        (Inl e, b) \<Rightarrow> (Inl e, c\<lparr>cr_inner := b\<rparr>)
      | (Inr bs, b) \<Rightarrow>
          if bs = [] then (Inl UnexpectedEof, c\<lparr>cr_inner := b\<rparr>)
          else (Inr bs, c\<lparr>cr_inner := b, cr_remaining := cr_remaining c - length bs\<rparr>))"

definition chunked_read :: "('s, http_violation) reader \<Rightarrow> nat \<Rightarrow> ('s chunked_reader, ioerr, bytes) iop" where
  "chunked_read rd n c =
     (if n = 0 \<or> finished c then Some (Inr [], c)
      else if cr_remaining c = 0 then
        (case chunk_header rd (needs_crlf c) (cr_inner c) of
           None \<Rightarrow> None
         | Some (Inl e, b) \<Rightarrow> Some (Inl e, c\<lparr>cr_inner := b\<rparr>)
         | Some (Inr size0, b) \<Rightarrow>
             if size0 = 0 then Some (Inr [], c\<lparr>cr_inner := b, finished := True\<rparr>)
             else Some (chunk_data rd n (c\<lparr>cr_inner := b, cr_remaining := size0, needs_crlf := True\<rparr>)))
      else Some (chunk_data rd n c))"

end
