(* ===== verification/Http_Flat.thy ===== *)
theory Http_Flat
  imports Http_Body
begin

text \<open>
  The chunked transfer coding as functions on the bytes of a body: what \<open>ChunkedReader\<close> has to
  compute, without sockets, buffers or partial reads. The functions return what they read
  and the bytes that follow. Success is stable when more bytes follow, so no proper prefix of
  a body is a body.
\<close>

section \<open>Lines and sizes\<close>

definition until_lf :: "nat \<Rightarrow> bytes \<Rightarrow> bytes \<times> bytes" where
  "until_lf limit bs =
     (let w = take limit bs in
      if 0x0A \<in> set w then let used = takeWhile (\<lambda>x. x \<noteq> 0x0A) w @ [0x0A] in (used, drop (length used) bs)
      else (w, drop limit bs))"

definition metadata_line :: "nat \<Rightarrow> (bytes, ioerr, bytes) io" where
  "metadata_line limit bs = (case until_lf limit bs of (l, rest) \<Rightarrow> (check_line l, rest))"

definition take_exact :: "nat \<Rightarrow> (bytes, ioerr, bytes) io" where
  "take_exact n bs = (if n \<le> length bs then (Inr (take n bs), drop n bs) else (Inl UnexpectedEof, []))"

lemma takeWhile_split: "x \<in> set w \<Longrightarrow> w = takeWhile (\<lambda>y. y \<noteq> x) w @ x # drop (Suc (length (takeWhile (\<lambda>y. y \<noteq> x) w))) w"
  by (induction w) auto

lemma takeWhile_shorter: "x \<in> set w \<Longrightarrow> length (takeWhile (\<lambda>y. y \<noteq> x) w) < length w"
  by (induction w) auto

lemma until_lf_split: "until_lf limit bs = (u, rest) \<Longrightarrow> bs = u @ rest \<and> length u \<le> limit"
proof -
  assume *: "until_lf limit bs = (u, rest)"
  let ?w = "take limit bs"
  show ?thesis
  proof (cases "0x0A \<in> set ?w")
    case True
    define k where "k = length (takeWhile (\<lambda>x. x \<noteq> 0x0A) ?w)"
    have w: "?w = (takeWhile (\<lambda>x. x \<noteq> 0x0A) ?w @ [0x0A]) @ drop (Suc k) ?w"
      using takeWhile_split [OF True] by (simp add: k_def)
    have u: "u = takeWhile (\<lambda>x. x \<noteq> 0x0A) ?w @ [0x0A]" "rest = drop (length u) bs"
      using * True by (auto simp: until_lf_def Let_def)
    have "?w = u @ drop (Suc k) ?w" using w u(1) by simp
    then have "length u \<le> length ?w" "take (length u) ?w = u" by (metis length_append le_add1, metis append_eq_conv_conj)
    then have "length u \<le> limit" by simp
    then have "take (length u) bs = u" using \<open>take (length u) ?w = u\<close> by (simp add: min_absorb1)
    then show ?thesis using u(2) \<open>length u \<le> limit\<close> by (metis append_take_drop_id)
  next
    case False
    then show ?thesis using * by (auto simp: until_lf_def Let_def)
  qed
qed

text \<open>The pieces in which a buffered reader finds a line.\<close>

lemma until_lf_found:
  assumes "0x0A \<in> set (take limit a)"
  shows "until_lf limit (a @ b) =
    (takeWhile (\<lambda>x. x \<noteq> 0x0A) (take limit a) @ [0x0A],
     drop (Suc (length (takeWhile (\<lambda>x. x \<noteq> 0x0A) (take limit a)))) (a @ b))"
  using assms by (simp add: until_lf_def Let_def)

lemma until_lf_step:
  assumes "0x0A \<notin> set (take limit a)" and "length a \<le> limit"
  shows "until_lf limit (a @ b) = (case until_lf (limit - length a) b of (u, rest) \<Rightarrow> (a @ u, rest))"
proof -
  define w where "w = take (limit - length a) b"
  have a: "0x0A \<notin> set a" and t: "take limit (a @ b) = a @ w" using assms by (simp_all add: w_def)
  have "takeWhile (\<lambda>x. x \<noteq> 0x0A) (a @ w) = a @ takeWhile (\<lambda>x. x \<noteq> 0x0A) w"
    using a by (intro takeWhile_append2) auto
  moreover have "drop limit (a @ b) = drop (limit - length a) b" using assms(2) by simp
  ultimately show ?thesis unfolding until_lf_def Let_def t w_def [symmetric] using a by simp
qed

lemma ends_crlf_LF: "ends_crlf l \<Longrightarrow> 0x0A \<in> set l"
proof -
  assume "ends_crlf l"
  then have "0x0A \<in> set (drop (length l - 2) l)" by (simp add: ends_crlf_def)
  then show ?thesis by (rule in_set_dropD)
qed

lemma metadata_line_ok:
  assumes "metadata_line limit bs = (Inr l, rest)"
  shows "bs = l @ rest" and "2 \<le> length l" and "length l \<le> limit" and "metadata_line limit (bs @ x) = (Inr l, rest @ x)"
proof -
  have u: "until_lf limit bs = (l, rest)" and e: "ends_crlf l"
    using assms by (auto simp: metadata_line_def check_line_def split: prod.splits if_splits)
  show "bs = l @ rest" "2 \<le> length l" "length l \<le> limit"
    using until_lf_split [OF u] e by (auto simp: ends_crlf_def)
  have lf: "0x0A \<in> set (take limit bs)"
    using u ends_crlf_LF [OF e] by (auto simp: until_lf_def Let_def split: if_splits)
  define w where "w = takeWhile (\<lambda>x. x \<noteq> 0x0A) (take limit bs)"
  have "l = w @ [0x0A]" using until_lf_found [OF lf, of "[]"] u by (simp add: w_def)
  then have "until_lf limit (bs @ x) = (l, drop (length l) (bs @ x))"
    using until_lf_found [OF lf, of x] by (simp add: w_def)
  then have "until_lf limit (bs @ x) = (l, rest @ x)" using \<open>bs = l @ rest\<close> by simp
  then show "metadata_line limit (bs @ x) = (Inr l, rest @ x)" using e by (simp add: metadata_line_def check_line_def)
qed

lemma metadata_line_less: "(Inr l, rest) = metadata_line limit bs \<Longrightarrow> limit - length l < limit"
  using metadata_line_ok(2,3) [of limit bs l rest] by simp

section \<open>Trailers\<close>

function skip_trailers :: "nat \<Rightarrow> (bytes, ioerr, unit) io" where
  "skip_trailers budget bs =
     (case metadata_line budget bs of
        (Inl e, rest) \<Rightarrow> (Inl e, rest)
      | (Inr trailer, rest) \<Rightarrow>
          if trailer = CRLF then (Inr (), rest)
          else if 0x3A \<notin> set (take (length trailer - 2) trailer) then (Inl (InvalidData Chunk_Trailer), rest)
          else skip_trailers (budget - length trailer) rest)"
  by pat_completeness auto
termination
  by (relation "measure fst") (auto dest!: metadata_line_less)

declare skip_trailers.simps [simp del]

lemma skip_trailers_ok:
  "skip_trailers budget bs = (Inr (), rest) \<Longrightarrow>
     (\<exists>used. bs = used @ rest) \<and> skip_trailers budget (bs @ x) = (Inr (), rest @ x)"
proof (induction budget bs rule: skip_trailers.induct)
  case (1 budget bs)
  obtain t r where l: "metadata_line budget bs = (Inr t, r)"
    using "1.prems" by (subst (asm) skip_trailers.simps) (auto split: prod.splits sum.splits)
  note o = metadata_line_ok [OF l]
  show ?case
  proof (cases "t = CRLF")
    case True
    then show ?thesis using "1.prems" l o
      by (subst (asm) skip_trailers.simps, subst skip_trailers.simps) (auto simp: o(4))
  next
    case False
    have colon: "0x3A \<in> set (take (length t - 2) t)"
      using "1.prems" l False by (subst (asm) skip_trailers.simps) (auto split: if_splits)
    have rec: "skip_trailers (budget - length t) r = (Inr (), rest)"
      using "1.prems" l False colon by (subst (asm) skip_trailers.simps) auto
    have "(\<exists>used. r = used @ rest) \<and> skip_trailers (budget - length t) (r @ x) = (Inr (), rest @ x)"
      using "1.IH" [OF l [symmetric] refl False] colon rec by blast
    then show ?thesis using o False colon by (subst skip_trailers.simps) (auto simp: o(4))
  qed
qed

section \<open>Chunks\<close>

definition chunk_start :: "bool \<Rightarrow> (bytes, ioerr, nat) io" where
  "chunk_start needs =
     bindE (if needs then bindE (take_exact 2) (\<lambda>l. liftE (check_crlf l)) else retE ()) (\<lambda>_.
     bindE (metadata_line MAX_METADATA_BYTES) (\<lambda>l.
     bindE (liftE (chunk_size l)) (\<lambda>size0.
     if size0 = 0 then bindE (skip_trailers MAX_METADATA_BYTES) (\<lambda>_. retE 0)
     else retE size0)))"

lemma chunk_start_ok:
  assumes "chunk_start needs bs = (Inr k, rest)"
  shows "\<exists>used. used \<noteq> [] \<and> bs = used @ rest" and "chunk_start needs (bs @ x) = (Inr k, rest @ x)"
proof -
  let ?crlf = "if needs then bindE (take_exact 2) (\<lambda>l. liftE (check_crlf l)) else retE ()"
  obtain u r1 where c: "?crlf bs = (Inr u, r1)" using assms unfolding chunk_start_def by (rule bindE_InrE) auto
  have c': "?crlf (bs @ x) = (Inr u, r1 @ x)" "\<exists>used. bs = used @ r1"
    using c by (auto simp: bindE_def take_exact_def liftE_def check_crlf_def retE_def split: if_splits)
      (metis append_take_drop_id)+
  obtain l r2 where l: "metadata_line MAX_METADATA_BYTES r1 = (Inr l, r2)"
    using assms c unfolding chunk_start_def by (auto simp: bindE_Inr elim!: bindE_InrE)
  note o = metadata_line_ok [OF l]
  obtain n where n: "chunk_size l = Inr n"
    using assms c l unfolding chunk_start_def by (cases "chunk_size l") (auto simp: bindE_Inr)
  have tail: "(if n = 0 then bindE (skip_trailers MAX_METADATA_BYTES) (\<lambda>_. retE 0) else retE n) r2 = (Inr k, rest)"
    using assms c l n unfolding chunk_start_def by (simp add: bindE_Inr)
  have "(\<exists>used. r2 = used @ rest) \<and>
    (if n = 0 then bindE (skip_trailers MAX_METADATA_BYTES) (\<lambda>_. retE 0) else retE n) (r2 @ x) = (Inr k, rest @ x)"
  proof (cases "n = 0")
    case True
    then obtain r3 where "skip_trailers MAX_METADATA_BYTES r2 = (Inr (), r3)" "r3 = rest" "k = 0"
      using tail by (auto elim!: bindE_InrE)
    then show ?thesis using skip_trailers_ok True by (auto simp: bindE_Inr)
  next
    case False
    then show ?thesis using tail by simp
  qed
  then show "\<exists>used. used \<noteq> [] \<and> bs = used @ rest" and "chunk_start needs (bs @ x) = (Inr k, rest @ x)"
    using c' o n unfolding chunk_start_def by (auto simp: bindE_Inr o(4))
qed

text \<open>The body: chunks after each other, up to the chunk of size zero and its trailers.\<close>

function dechunk :: "bool \<Rightarrow> bytes \<Rightarrow> (bytes, ioerr, bytes) io" where
  "dechunk needs acc bs =
     (case chunk_start needs bs of
        (Inl e, rest) \<Rightarrow> (Inl e, rest)
      | (Inr k, rest) \<Rightarrow>
          if k = 0 then (Inr acc, rest)
          else if length rest < k then (Inl UnexpectedEof, [])
          else dechunk True (acc @ take k rest) (drop k rest))"
  by pat_completeness auto
termination
  by (relation "measure (\<lambda>(_, _, bs). length bs)") (auto dest!: sym [of "(Inr _, _)"] chunk_start_ok(1))

declare dechunk.simps [simp del]

text \<open>What a reader in the middle of a chunk will give: the rest of the chunk, then the others.\<close>

definition from_chunk :: "nat \<Rightarrow> bool \<Rightarrow> bytes \<Rightarrow> (bytes, ioerr, bytes) io" where
  "from_chunk k needs acc bs =
     (if length bs < k then (Inl UnexpectedEof, []) else dechunk needs (acc @ take k bs) (drop k bs))"

lemma from_chunk_0 [simp]: "from_chunk 0 needs acc = dechunk needs acc"
  by (simp add: from_chunk_def fun_eq_iff)

lemma from_chunk_take: "length a \<le> k \<Longrightarrow> from_chunk (k - length a) needs (acc @ a) b = from_chunk k needs acc (a @ b)"
  by (auto simp: from_chunk_def)

lemma dechunk_eq:
  "dechunk needs acc bs =
     (case chunk_start needs bs of
        (Inl e, rest) \<Rightarrow> (Inl e, rest)
      | (Inr k, rest) \<Rightarrow> if k = 0 then (Inr acc, rest) else from_chunk k True acc rest)"
  by (subst dechunk.simps) (auto simp: from_chunk_def split: prod.splits sum.splits)

lemma dechunk_ok:
  "dechunk needs acc bs = (Inr body, rest) \<Longrightarrow>
     (\<exists>used. bs = used @ rest) \<and> dechunk needs acc (bs @ x) = (Inr body, rest @ x)"
proof (induction needs acc bs rule: dechunk.induct)
  case (1 needs acc bs)
  obtain k r where s: "chunk_start needs bs = (Inr k, r)"
    using "1.prems" by (subst (asm) dechunk.simps) (auto split: prod.splits sum.splits)
  note o = chunk_start_ok [OF s]
  show ?case
  proof (cases "k = 0")
    case True
    then show ?thesis using "1.prems" s o by (subst (asm) dechunk.simps, subst dechunk.simps) auto
  next
    case False
    then have len: "\<not> length r < k" using "1.prems" s by (subst (asm) dechunk.simps) auto
    have rec: "dechunk True (acc @ take k r) (drop k r) = (Inr body, rest)"
      using "1.prems" s False len by (subst (asm) dechunk.simps) auto
    have "(\<exists>used. drop k r = used @ rest) \<and> dechunk True (acc @ take k r) (drop k r @ x) = (Inr body, rest @ x)"
      using "1.IH" [OF s [symmetric] refl False len] rec by blast
    moreover have "r = take k r @ drop k r" by simp
    ultimately show ?thesis using o False len
      by (subst dechunk.simps) (auto simp: o(2), metis append_assoc append_take_drop_id)
  qed
qed

end
