(* ===== verification/Http_Refine.thy ===== *)
theory Http_Refine
  imports Http_Flat
begin

text \<open>
  The body readers refine the format: whatever sizes the socket's reads have, and however
  often it is interrupted, \<open>ChunkedReader\<close> computes \<open>dechunk\<close> of the bytes that arrive, and
  \<open>ExactLengthReader\<close> gives exactly the declared number of bytes; or the error is one of the
  socket's. Every loop returns.
\<close>

locale body_reader = patient_reader rd unread interruptions
  for rd :: "('s, http_violation) reader" and unread :: "'s \<Rightarrow> bytes" and interruptions :: "'s \<Rightarrow> nat"
begin

text \<open>The errors of the socket that are passed on.\<close>

definition raised :: "ioerr \<Rightarrow> bool" where
  "raised e \<longleftrightarrow> e \<noteq> Interrupted \<and> (\<exists>n s s'. rd n s = (Inl e, s'))"

lemma raisedI: "rd n s = (Inl e, s') \<Longrightarrow> e \<noteq> Interrupted \<Longrightarrow> raised e"
  by (auto simp: raised_def)

text \<open>Reading to the end of a reader gives all its bytes; an invariant comes along.\<close>

lemma read_to_end_all:
  assumes "I s"
    and I: "\<And>n s r s'. I s \<Longrightarrow> rd n s = (r, s') \<Longrightarrow> I s'"
  shows "\<exists>r s'. read_to_end (\<lambda>n s. Some (rd n s)) sizes i acc s = Some (r, s') \<and>
    (\<forall>body. r = Inr body \<longrightarrow>
       body = acc @ unread s \<and> unread s' = [] \<and> (\<exists>n s0. I s0 \<and> rd (Suc n) s0 = (Inr [], s'))) \<and>
    (\<forall>e. r = Inl e \<longrightarrow> raised e \<and> (\<exists>n s0. I s0 \<and> rd (Suc n) s0 = (Inl e, s')))"
  using \<open>I s\<close>
proof (induction "length (unread s) + interruptions s" arbitrary: s acc i rule: less_induct)
  case less
  obtain r s' where r: "rd (Suc (sizes i)) s = (r, s')" by (rule prod.exhaust)
  have I': "I s'" using I [OF less.prems r] .
  show ?case
  proof (cases r)
    case (Inl e)
    note e = r [unfolded Inl]
    show ?thesis
    proof (cases "e = Interrupted")
      case True
      have "length (unread s') + interruptions s' < length (unread s) + interruptions s"
        using read_err [OF e] interrupted [OF e [unfolded True]] by simp
      from less.hyps [OF this I', where acc = acc and i = "Suc i"] show ?thesis
        using e True read_err [OF e] by (subst read_to_end.simps) simp
    next
      case False
      then show ?thesis using e less.prems raisedI [OF e] by (subst read_to_end.simps) auto
    qed
  next
    case (Inr bs)
    note o = r [unfolded Inr]
    show ?thesis
    proof (cases "bs = []")
      case True
      then show ?thesis using o less.prems read_eof [of "Suc (sizes i)" s s'] read_ok [OF o]
        by (subst read_to_end.simps) auto
    next
      case False
      have "length (unread s') + interruptions s' < length (unread s) + interruptions s"
        using read_shrinks [OF o] not_interrupted [OF o] False by (cases bs) auto
      from less.hyps [OF this I', where acc = "acc @ bs" and i = "Suc i"] show ?thesis
        using o False read_ok [OF o] by (subst read_to_end.simps) simp
    qed
  qed
qed

section \<open>Simulation\<close>

definition bview :: "'s buf_reader \<Rightarrow> bytes" where
  "bview b = br_buf b @ unread (br_inner b)"

definition bints :: "'s buf_reader \<Rightarrow> nat" where
  "bints b = interruptions (br_inner b)"

text \<open>
  A computation on the buffered socket returns, and does on the bytes to come what the
  function on byte strings does; or it stops with an error of the socket.
\<close>

definition sim :: "('s buf_reader, ioerr, 'a) iop \<Rightarrow> (bytes, ioerr, 'a) io \<Rightarrow> bool" where
  "sim m f \<longleftrightarrow> (\<forall>b. \<exists>r b'. m b = Some (r, b') \<and>
     ((r, bview b') = f (bview b) \<and> r \<noteq> Inl Interrupted \<and> (isl r \<or> bints b' \<le> bints b) \<or>
      (\<exists>e. r = Inl e \<and> raised e)))"

lemma simI:
  assumes "\<And>b. \<exists>r b'. m b = Some (r, b') \<and>
     ((r, bview b') = f (bview b) \<and> r \<noteq> Inl Interrupted \<and> (isl r \<or> bints b' \<le> bints b) \<or>
      (\<exists>e. r = Inl e \<and> raised e))"
  shows "sim m f"
  using assms by (simp add: sim_def)

lemma simD:
  assumes "sim m f"
  shows "\<exists>r b'. m b = Some (r, b') \<and>
     ((r, bview b') = f (bview b) \<and> r \<noteq> Inl Interrupted \<and> (isl r \<or> bints b' \<le> bints b) \<or>
      (\<exists>e. r = Inl e \<and> raised e))"
  using assms by (simp add: sim_def)

lemma sim_retP: "sim (retP x) (retE x)"
  by (auto simp: sim_def retP_def)

lemma sim_liftP: "r \<noteq> Inl Interrupted \<Longrightarrow> sim (liftP r) (liftE r)"
  by (auto simp: sim_def liftP_def)

lemma sim_bindP:
  assumes "sim m f" and k: "\<And>x. sim (k x) (g x)"
  shows "sim (bindP m k) (bindE f g)"
proof (rule simI)
  fix b
  obtain r b' where m: "m b = Some (r, b')"
    and r: "(r, bview b') = f (bview b) \<and> r \<noteq> Inl Interrupted \<and> (isl r \<or> bints b' \<le> bints b) \<or>
      (\<exists>e. r = Inl e \<and> raised e)"
    using simD [OF \<open>sim m f\<close>, of b] by blast
  show "\<exists>r b'. bindP m k b = Some (r, b') \<and>
     ((r, bview b') = bindE f g (bview b) \<and> r \<noteq> Inl Interrupted \<and> (isl r \<or> bints b' \<le> bints b) \<or>
      (\<exists>e. r = Inl e \<and> raised e))"
  proof (cases r)
    case (Inl e)
    then show ?thesis using m r bindE_Inl [of f "bview b" e "bview b'" g] by (auto simp: bindP_def)
  next
    case (Inr x)
    have f: "bindE f g (bview b) = g x (bview b')" using r Inr bindE_Inr [of f "bview b" x "bview b'" g] by simp
    have m': "bindP m k b = k x b'" using m Inr by (simp add: bindP_def)
    show ?thesis unfolding f m' using simD [OF k, of x b'] r Inr by fastforce
  qed
qed

lemma fill_buf_ok:
  assumes "fill_buf rd b = (Inr a, b')"
  shows "bview b' = bview b" and "br_buf b' = a" and "bints b' \<le> bints b" and "a = [] \<Longrightarrow> bview b = []"
  using assms read_ok [of BUF_CAPACITY "br_inner b" a] not_interrupted [of BUF_CAPACITY "br_inner b" a]
    read_eof [of BUF_CAPACITY "br_inner b"]
  by (auto simp: fill_buf_def bview_def bints_def BUF_CAPACITY_def split: if_splits prod.splits sum.splits)

lemma fill_buf_err:
  assumes "fill_buf rd b = (Inl e, b')"
  shows "bview b' = bview b" and "e = Interrupted \<Longrightarrow> bints b' < bints b" and "e \<noteq> Interrupted \<Longrightarrow> raised e"
  using assms read_err [of BUF_CAPACITY "br_inner b" e] interrupted [of BUF_CAPACITY "br_inner b"]
  by (auto simp: fill_buf_def bview_def bints_def raised_def split: if_splits prod.splits sum.splits)

lemma consume_view: "br_buf b = a \<Longrightarrow> n \<le> length a \<Longrightarrow> bview (consume n b) = drop n (bview b)"
  by (simp add: bview_def consume_def)

lemma bints_consume [simp]: "bints (consume n b) = bints b"
  by (simp add: bints_def consume_def)

text \<open>The buffered reader is a reader.\<close>

lemma buf_read_ok:
  assumes "buf_read rd n b = (Inr bs, b')"
  shows "length bs \<le> n \<and> bview b = bs @ bview b' \<and> bints b' \<le> bints b \<and> (bs = [] \<longrightarrow> 0 < n \<longrightarrow> bview b = [])"
proof (cases "br_buf b = [] \<and> BUF_CAPACITY \<le> n")
  case True
  then obtain s where s: "rd n (br_inner b) = (Inr bs, s)" "b' = b\<lparr>br_inner := s\<rparr>"
    using assms by (auto simp: buf_read_def split: prod.splits)
  then show ?thesis using True read_ok [OF s(1)] not_interrupted [OF s(1)] read_eof [of n "br_inner b" s]
    by (auto simp: bview_def bints_def)
next
  case False
  then obtain a b1 where f: "fill_buf rd b = (Inr a, b1)" "bs = take n a" "b' = consume n b1"
    using assms by (auto simp: buf_read_def split: prod.splits sum.splits)
  note o = fill_buf_ok [OF f(1)]
  have "bview b1 = a @ unread (br_inner b1)" using o(2) by (simp add: bview_def)
  moreover have "bview b' = drop n a @ unread (br_inner b1)" using f(3) o(2) by (simp add: bview_def consume_def)
  ultimately show ?thesis using o f by auto
qed

lemma buf_read_err:
  assumes "buf_read rd n b = (Inl e, b')"
  shows "bview b' = bview b \<and> (e = Interrupted \<longrightarrow> bints b' < bints b) \<and> (e \<noteq> Interrupted \<longrightarrow> raised e)"
proof (cases "br_buf b = [] \<and> BUF_CAPACITY \<le> n")
  case True
  then obtain s where s: "rd n (br_inner b) = (Inl e, s)" "b' = b\<lparr>br_inner := s\<rparr>"
    using assms by (auto simp: buf_read_def split: prod.splits)
  then show ?thesis using read_err [OF s(1)] interrupted [of n "br_inner b" s] raisedI [OF s(1)]
    by (auto simp: bview_def bints_def)
next
  case False
  then have "fill_buf rd b = (Inl e, b')"
    using assms by (auto simp: buf_read_def split: prod.splits sum.splits)
  then show ?thesis using fill_buf_err by blast
qed

end

sublocale body_reader \<subseteq> buf: patient_reader "buf_read rd" bview bints
  by unfold_locales (use buf_read_ok buf_read_err in blast)+

context body_reader
begin

text \<open>\<open>read_exact\<close> and \<open>read_until\<close>.\<close>

lemma read_exact_sim:
  "\<exists>r b'. read_exact rd n acc b = Some (r, b') \<and>
     (r = (if n \<le> length (bview b) then Inr (acc @ take n (bview b)) else Inl UnexpectedEof) \<and>
        bview b' = drop n (bview b) \<and> (isl r \<or> bints b' \<le> bints b) \<or>
      (\<exists>e. r = Inl e \<and> raised e))"
proof (induction "n + bints b" arbitrary: n acc b rule: less_induct)
  case less
  show ?case
  proof (cases "n = 0")
    case True
    then show ?thesis by (subst read_exact.simps) simp
  next
    case False
    obtain x b1 where x: "buf_read rd n b = (x, b1)" by (rule prod.exhaust)
    show ?thesis
    proof (cases x)
      case (Inl e)
      note e = buf_read_err [OF x [unfolded Inl]]
      show ?thesis
      proof (cases "e = Interrupted")
        case True
        have "n + bints b1 < n + bints b" using e True by simp
        from less.hyps [OF this, of acc] show ?thesis using x Inl True e False
          by (subst read_exact.simps) (auto intro: order.trans)
      next
        case ne: False
        then show ?thesis using x Inl e False by (subst read_exact.simps) auto
      qed
    next
      case (Inr bs)
      note o = buf_read_ok [OF x [unfolded Inr]]
      show ?thesis
      proof (cases "bs = []")
        case True
        then show ?thesis using x Inr o False by (subst read_exact.simps) auto
      next
        case ne: False
        have "n - length bs + bints b1 < n + bints b" using o ne False by (cases bs) auto
        from less.hyps [OF this, of "acc @ bs"] show ?thesis using x Inr o ne False
          by (subst read_exact.simps) (auto intro: order.trans)
      qed
    qed
  qed
qed

lemma sim_read_exact: "sim (read_exact rd n []) (take_exact n)"
  using read_exact_sim [of n "[]"] by (fastforce simp: sim_def take_exact_def)

lemma read_until_sim:
  "\<exists>r b'. read_until rd limit acc b = Some (r, b') \<and>
     ((\<exists>u. until_lf limit (bview b) = (u, bview b') \<and> r = Inr (acc @ u) \<and> bints b' \<le> bints b) \<or>
      (\<exists>e. r = Inl e \<and> raised e))"
proof (induction "limit + bints b" arbitrary: limit acc b rule: less_induct)
  case less
  show ?case
  proof (cases "limit = 0")
    case True
    then show ?thesis by (subst read_until.simps) (simp add: until_lf_def)
  next
    case False
    obtain x b1 where x: "fill_buf rd b = (x, b1)" by (rule prod.exhaust)
    show ?thesis
    proof (cases x)
      case (Inl e)
      note e = fill_buf_err [OF x [unfolded Inl]]
      show ?thesis
      proof (cases "e = Interrupted")
        case True
        then have lt: "bints b1 < bints b" using e(2) by simp
        have run: "read_until rd limit acc b = read_until rd limit acc b1"
          using x Inl True False by (subst read_until.simps) simp
        from less.hyps [of limit b1 acc] lt show ?thesis unfolding run e(1) by fastforce
      next
        case ne: False
        then show ?thesis using x Inl e False by (subst read_until.simps) auto
      qed
    next
      case (Inr a)
      note o = fill_buf_ok [OF x [unfolded Inr]]
      let ?avail = "take limit a"
      have ab: "bview b = a @ unread (br_inner b1)" using o(1,2) by (simp add: bview_def)
      then have "take (length ?avail) (bview b) = ?avail" by (simp add: min_def)
      then have split: "bview b = ?avail @ drop (length ?avail) (bview b)" by (metis append_take_drop_id)
      consider (found) "0x0A \<in> set ?avail" | (eof) "0x0A \<notin> set ?avail" "?avail = []"
        | (more) "0x0A \<notin> set ?avail" "?avail \<noteq> []" by blast
      then show ?thesis
      proof cases
        case found
        define w where "w = takeWhile (\<lambda>x. x \<noteq> 0x0A) ?avail"
        have "length w < length ?avail" unfolding w_def by (rule takeWhile_shorter [OF found])
        then have "Suc (length w) \<le> length a" by simp
        then have v: "bview (consume (Suc (length w)) b1) = drop (Suc (length w)) (bview b)"
          using consume_view [OF o(2)] o(1) by simp
        have "until_lf limit (bview b) = (w @ [0x0A], drop (Suc (length w)) (bview b))"
          using until_lf_found [OF found, of "unread (br_inner b1)"] by (simp add: w_def ab)
        moreover have "read_until rd limit acc b = Some (Inr (acc @ w @ [0x0A]), consume (Suc (length w)) b1)"
          using x Inr False found by (subst read_until.simps) (simp add: Let_def w_def)
        ultimately show ?thesis using o(3) v by simp
      next
        case eof
        then have "bview b = []" using o(4) False by simp
        moreover have "read_until rd limit acc b = Some (Inr acc, b1)"
          using x Inr False eof by (subst read_until.simps) (simp add: Let_def)
        ultimately show ?thesis using o(1,3) by (simp add: until_lf_def)
      next
        case more
        let ?b = "consume (length ?avail) b1"
        have v: "bview ?b = drop (length ?avail) (bview b)" using consume_view [OF o(2)] o(1) by simp
        have "until_lf limit (bview b) =
          (case until_lf (limit - length ?avail) (bview ?b) of (u, rest) \<Rightarrow> (?avail @ u, rest))"
          unfolding v by (subst split, rule until_lf_step) (use more in auto)
        moreover have "read_until rd limit acc b = read_until rd (limit - length ?avail) (acc @ ?avail) ?b"
          using x Inr False more by (subst read_until.simps) (simp add: Let_def)
        moreover have "limit - length ?avail + bints ?b < limit + bints b"
          using more o(3) False by (cases a) auto
        note less.hyps [OF this, of "acc @ ?avail"]
        ultimately show ?thesis using o(3) by fastforce
      qed
    qed
  qed
qed

lemma sim_line: "sim (line rd limit) (metadata_line limit)"
proof -
  let ?until = "\<lambda>bs. case until_lf limit bs of (u, rest) \<Rightarrow> (Inr u, rest)"
  have "sim (read_until rd limit []) ?until"
    using read_until_sim [of limit "[]"] unfolding sim_def by fastforce
  moreover have "sim (liftP (check_line l)) (liftE (check_line l))" for l
    by (rule sim_liftP) (simp add: check_line_def)
  ultimately have "sim (line rd limit) (bindE ?until (\<lambda>l. liftE (check_line l)))"
    unfolding line_def by (rule sim_bindP)
  moreover have "bindE ?until (\<lambda>l. liftE (check_line l)) = metadata_line limit"
    by (rule ext) (simp add: metadata_line_def bindE_def split: prod.splits)
  ultimately show ?thesis by simp
qed

lemma sim_trailers: "sim (trailers rd budget) (skip_trailers budget)"
proof (rule simI)
  fix b
  show "\<exists>r b'. trailers rd budget b = Some (r, b') \<and>
     ((r, bview b') = skip_trailers budget (bview b) \<and> r \<noteq> Inl Interrupted \<and> (isl r \<or> bints b' \<le> bints b) \<or>
      (\<exists>e. r = Inl e \<and> raised e))"
  proof (induction budget arbitrary: b rule: less_induct)
    case (less budget)
    obtain r b1 where l: "line rd budget b = Some (r, b1)"
      and r: "(r, bview b1) = metadata_line budget (bview b) \<and> r \<noteq> Inl Interrupted \<and> (isl r \<or> bints b1 \<le> bints b) \<or>
        (\<exists>e. r = Inl e \<and> raised e)"
      using simD [OF sim_line, of budget b] by blast
    show ?case
    proof (cases r)
      case (Inl e)
      then have "trailers rd budget b = Some (Inl e, b1)" using l by (subst trailers.simps) simp
      moreover have "(Inl e, bview b1) = skip_trailers budget (bview b) \<or> raised e"
        using r Inl by (subst skip_trailers.simps) (auto dest: sym)
      ultimately show ?thesis using r Inl by auto
    next
      case (Inr t)
      then have m: "metadata_line budget (bview b) = (Inr t, bview b1)" and ints: "bints b1 \<le> bints b" using r by auto
      note o = metadata_line_ok [OF m]
      have run: "trailers rd budget b =
        (if t = CRLF then Some (Inr (), b1)
         else if 0x3A \<notin> set (take (length t - 2) t) then Some (Inl (InvalidData Chunk_Trailer), b1)
         else trailers rd (budget - length t) b1)"
        using l Inr by (subst trailers.simps) simp
      have flat: "skip_trailers budget (bview b) =
        (if t = CRLF then (Inr (), bview b1)
         else if 0x3A \<notin> set (take (length t - 2) t) then (Inl (InvalidData Chunk_Trailer), bview b1)
         else skip_trailers (budget - length t) (bview b1))"
        using m by (subst skip_trailers.simps) simp
      show ?thesis
      proof (cases "t \<noteq> CRLF \<and> 0x3A \<in> set (take (length t - 2) t)")
        case True
        then show ?thesis using less [of "budget - length t" b1] o ints unfolding run flat by fastforce
      next
        case False
        then show ?thesis unfolding run flat using ints by auto
      qed
    qed
  qed
qed

lemma sim_chunk_header: "sim (chunk_header rd needs) (chunk_start needs)"
proof -
  have crlf: "sim (if needs then bindP (read_exact rd 2 []) (\<lambda>l. liftP (check_crlf l)) else retP ())
    (if needs then bindE (take_exact 2) (\<lambda>l. liftE (check_crlf l)) else retE ())"
    by (auto intro!: sim_bindP sim_read_exact sim_liftP sim_retP simp: check_crlf_def split: if_splits)
  have size0: "sim (liftP (chunk_size l)) (liftE (chunk_size l))" for l
    by (rule sim_liftP) (simp add: chunk_size_def Let_def split: option.splits)
  have last: "sim (if n = 0 then bindP (trailers rd MAX_METADATA_BYTES) (\<lambda>_. retP 0) else retP n)
    (if n = 0 then bindE (skip_trailers MAX_METADATA_BYTES) (\<lambda>_. retE 0) else retE n)" for n
    by (auto intro!: sim_bindP sim_trailers sim_retP)
  show ?thesis unfolding chunk_header_def chunk_start_def
    by (intro sim_bindP crlf sim_line size0 last)
qed

section \<open>The chunked reader\<close>

definition cview :: "'s chunked_reader \<Rightarrow> bytes" where
  "cview c = bview (cr_inner c)"

definition work :: "'s chunked_reader \<Rightarrow> nat" where
  "work c = length (cview c) + bints (cr_inner c)"

text \<open>The rest of the body, from the state the reader is in.\<close>

definition rest_of :: "'s chunked_reader \<Rightarrow> bytes \<Rightarrow> (ioerr + bytes) \<times> bytes" where
  "rest_of c acc =
     (if finished c then (Inr acc, cview c) else from_chunk (cr_remaining c) (needs_crlf c) acc (cview c))"

text \<open>What one \<open>read\<close> may do.\<close>

definition good_read :: "'s chunked_reader \<Rightarrow> ioerr + bytes \<Rightarrow> 's chunked_reader \<Rightarrow> bool" where
  "good_read c r c' \<longleftrightarrow>
     (\<forall>acc. r = Inr [] \<and> rest_of c acc = (Inr acc, cview c') \<or>
       (\<exists>bs. r = Inr bs \<and> bs \<noteq> [] \<and> rest_of c acc = rest_of c' (acc @ bs) \<and> work c' < work c) \<or>
       r = Inl Interrupted \<and> rest_of c acc = rest_of c' acc \<and> work c' < work c \<or>
       (\<exists>e. r = Inl e \<and> e \<noteq> Interrupted \<and> (raised e \<or> rest_of c acc = (Inl e, cview c'))))"

lemma chunk_data_good:
  assumes "0 < n" "0 < cr_remaining c" "\<not> finished c" and d: "chunk_data rd n c = (r, c')"
  shows "good_read c r c'"
proof -
  let ?n = "min (cr_remaining c) n"
  obtain x b where x: "buf_read rd ?n (cr_inner c) = (x, b)" by (rule prod.exhaust)
  show ?thesis
  proof (cases x)
    case (Inl e)
    note e = buf_read_err [OF x [unfolded Inl]]
    have "r = Inl e" "c' = c\<lparr>cr_inner := b\<rparr>" using d x Inl by (simp_all add: chunk_data_def)
    then show ?thesis using e assms(3) by (auto simp: good_read_def rest_of_def cview_def work_def)
  next
    case (Inr bs)
    note o = buf_read_ok [OF x [unfolded Inr]]
    show ?thesis
    proof (cases "bs = []")
      case True
      then have "r = Inl UnexpectedEof" "c' = c\<lparr>cr_inner := b\<rparr>" using d x Inr by (simp_all add: chunk_data_def)
      then show ?thesis using o True assms by (auto simp: good_read_def rest_of_def cview_def from_chunk_def)
    next
      case False
      then have c': "r = Inr bs" "c' = c\<lparr>cr_inner := b, cr_remaining := cr_remaining c - length bs\<rparr>"
        using d x Inr by (simp_all add: chunk_data_def)
      have "length bs \<le> cr_remaining c" using o by simp
      then have "rest_of c acc = rest_of c' (acc @ bs)" for acc
        using c' o assms(3) from_chunk_take [of bs "cr_remaining c" "needs_crlf c" acc "bview b"]
        by (simp add: rest_of_def cview_def)
      moreover have "work c' < work c" using c' o False by (cases bs) (auto simp: work_def cview_def)
      ultimately show ?thesis using c'(1) False by (auto simp: good_read_def)
    qed
  qed
qed

lemma good_read_later:
  assumes "good_read c1 r c'" "\<And>acc. rest_of c acc = rest_of c1 acc" "work c1 \<le> work c"
  shows "good_read c r c'"
  unfolding good_read_def
proof
  fix acc
  show "r = Inr [] \<and> rest_of c acc = (Inr acc, cview c') \<or>
       (\<exists>bs. r = Inr bs \<and> bs \<noteq> [] \<and> rest_of c acc = rest_of c' (acc @ bs) \<and> work c' < work c) \<or>
       r = Inl Interrupted \<and> rest_of c acc = rest_of c' acc \<and> work c' < work c \<or>
       (\<exists>e. r = Inl e \<and> e \<noteq> Interrupted \<and> (raised e \<or> rest_of c acc = (Inl e, cview c')))"
    using assms(1) [unfolded good_read_def, rule_format, of acc] assms(2) [of acc] assms(3) by auto
qed

lemma chunked_read_good:
  assumes "0 < n"
  shows "\<exists>r c'. chunked_read rd n c = Some (r, c') \<and> good_read c r c'"
proof (cases "finished c")
  case True
  then show ?thesis by (simp add: chunked_read_def good_read_def rest_of_def)
next
  case nf: False
  show ?thesis
  proof (cases "cr_remaining c = 0")
    case False
    obtain r c' where "chunk_data rd n c = (r, c')" by (rule prod.exhaust)
    then show ?thesis using chunk_data_good [of n c r c'] nf False assms by (simp add: chunked_read_def)
  next
    case rem: True
    obtain x b where h: "chunk_header rd (needs_crlf c) (cr_inner c) = Some (x, b)"
      and x: "(x, bview b) = chunk_start (needs_crlf c) (cview c) \<and> x \<noteq> Inl Interrupted \<and>
        (isl x \<or> bints b \<le> bints (cr_inner c)) \<or> (\<exists>e. x = Inl e \<and> raised e)"
      using simD [OF sim_chunk_header, of "needs_crlf c" "cr_inner c"] unfolding cview_def by blast
    have rest: "rest_of c acc = dechunk (needs_crlf c) acc (cview c)" for acc using nf rem by (simp add: rest_of_def)
    show ?thesis
    proof (cases x)
      case (Inl e)
      have "raised e \<or> rest_of c acc = (Inl e, bview b)" for acc
        using x Inl unfolding rest by (subst dechunk_eq) (auto dest: sym)
      moreover have "e \<noteq> Interrupted" using x Inl by (auto simp: raised_def)
      ultimately show ?thesis using h Inl nf rem assms
        by (simp add: chunked_read_def good_read_def cview_def)
    next
      case (Inr k)
      then have s: "chunk_start (needs_crlf c) (cview c) = (Inr k, bview b)" and ints: "bints b \<le> bints (cr_inner c)"
        using x by auto
      have shrink: "length (bview b) < length (cview c)" using chunk_start_ok(1) [OF s] by auto
      show ?thesis
      proof (cases "k = 0")
        case True
        then have "rest_of c acc = (Inr acc, bview b)" for acc unfolding rest using s by (subst dechunk_eq) simp
        then show ?thesis using h Inr nf rem assms True by (simp add: chunked_read_def good_read_def cview_def)
      next
        case False
        let ?c = "c\<lparr>cr_inner := b, cr_remaining := k, needs_crlf := True\<rparr>"
        obtain r c' where d: "chunk_data rd n ?c = (r, c')" by (rule prod.exhaust)
        have "rest_of c acc = rest_of ?c acc" for acc
          unfolding rest using s False nf by (subst dechunk_eq) (simp add: rest_of_def cview_def)
        moreover have "work ?c \<le> work c" using shrink ints by (simp add: work_def cview_def)
        moreover have "good_read ?c r c'" using chunk_data_good [OF assms _ _ d] False nf by simp
        ultimately have "good_read c r c'" using good_read_later [of ?c r c' c] by blast
        then show ?thesis using h Inr nf rem assms False d by (simp add: chunked_read_def)
      qed
    qed
  qed
qed

lemma read_to_end_chunked:
  "\<exists>r c'. read_to_end (chunked_read rd) sizes i acc c = Some (r, c') \<and>
     ((r, cview c') = rest_of c acc \<or> (\<exists>e. r = Inl e \<and> raised e))"
proof (induction "work c" arbitrary: c acc i rule: less_induct)
  case less
  obtain r c' where r: "chunked_read rd (Suc (sizes i)) c = Some (r, c')" and good: "good_read c r c'"
    using chunked_read_good [of "Suc (sizes i)" c] by blast
  consider (stop) "r = Inr []" "rest_of c acc = (Inr acc, cview c')"
    | (more) bs where "r = Inr bs" "bs \<noteq> []" "rest_of c acc = rest_of c' (acc @ bs)" "work c' < work c"
    | (again) "r = Inl Interrupted" "rest_of c acc = rest_of c' acc" "work c' < work c"
    | (err) e where "r = Inl e" "e \<noteq> Interrupted" "raised e \<or> rest_of c acc = (Inl e, cview c')"
    using good [unfolded good_read_def, rule_format, of acc] by blast
  then show ?case
  proof cases
    case stop
    then show ?thesis using r by (subst read_to_end.simps) simp
  next
    case more
    then show ?thesis using r less [of c' "Suc i" "acc @ bs"] by (subst read_to_end.simps) simp
  next
    case again
    then show ?thesis using r less [of c' "Suc i" acc] by (subst read_to_end.simps) simp
  next
    case err
    then show ?thesis using r by (subst read_to_end.simps) auto
  qed
qed

lemma chunked_body:
  "\<exists>r c'. read_to_end (chunked_read rd) sizes 0 [] (chunked_new s) = Some (r, c') \<and>
     ((r, cview c') = dechunk False [] (unread s) \<or> (\<exists>e. r = Inl e \<and> raised e))"
proof -
  have "rest_of (chunked_new s) [] = dechunk False [] (unread s)"
    by (simp add: rest_of_def chunked_new_def cview_def bview_def)
  then show ?thesis using read_to_end_chunked [of sizes 0 "[]" "chunked_new s"] by metis
qed

end

end
