(* ===== verification/Http_Head.thy ===== *)
theory Http_Head
  imports Http_Text
begin

text \<open>
  What the response heads of \<open>src/http_client.rs\<close> mean: how a body ends, which heads are
  refused, and that cutting a head before or after its blank line makes no difference, which
  the buffered and the streaming request rely on.
\<close>

section \<open>The framing of a body\<close>

text \<open>The values of the fields of a name, in order.\<close>

definition line_value :: "str \<Rightarrow> str \<Rightarrow> str list" where
  "line_value name l =
     (case split_once CHR '':'' l of
        None \<Rightarrow> []
      | Some (n, v) \<Rightarrow> if eq_ignore_ascii_case (trim n) name then [trim v] else [])"

definition field_values :: "str \<Rightarrow> str list \<Rightarrow> str list" where
  "field_values name ls = concat (map (line_value name) ls)"

lemma framing_names_differ:
  "eq_ignore_ascii_case x ''transfer-encoding'' \<Longrightarrow> \<not> eq_ignore_ascii_case x ''content-length''"
proof -
  have "\<not> eq_ignore_ascii_case ''transfer-encoding'' ''content-length''" by code_simp
  then show "eq_ignore_ascii_case x ''transfer-encoding'' \<Longrightarrow> ?thesis" by (simp add: eq_ignore_ascii_case_def)
qed

definition te_ok :: "bool \<Rightarrow> str list \<Rightarrow> bool \<Rightarrow> bool" where
  "te_ok ch vs ch' \<longleftrightarrow>
     vs = [] \<and> ch' = ch \<or> (\<exists>v. vs = [v] \<and> eq_ignore_ascii_case v ''chunked'' \<and> \<not> ch \<and> ch')"

definition cl_ok :: "nat option \<Rightarrow> str list \<Rightarrow> nat option \<Rightarrow> bool" where
  "cl_ok cl vs cl' \<longleftrightarrow>
     vs = [] \<and> cl' = cl \<or> (\<exists>v n. vs = [v] \<and> parse_uint (2 ^ 64) v = Some n \<and> cl = None \<and> cl' = Some n)"

lemma te_ok_Cons:
  "te_ok ch (v # vs) ch' \<longleftrightarrow> eq_ignore_ascii_case v ''chunked'' \<and> \<not> ch \<and> te_ok True vs ch'"
  by (auto simp: te_ok_def)

lemma cl_ok_Cons:
  "cl_ok cl (v # vs) cl' \<longleftrightarrow> (\<exists>n. parse_uint (2 ^ 64) v = Some n \<and> cl = None \<and> cl_ok (Some n) vs cl')"
  by (auto simp: cl_ok_def)

lemma framing_lines_iff:
  "framing_lines ls cl ch = Inr (cl', ch') \<longleftrightarrow>
     te_ok ch (field_values ''transfer-encoding'' ls) ch' \<and> cl_ok cl (field_values ''content-length'' ls) cl'"
proof (induction ls cl ch rule: framing_lines.induct)
  case (1 cl ch)
  then show ?case by (auto simp: field_values_def te_ok_def cl_ok_def)
next
  case (2 line rest cl ch)
  show ?case
  proof (cases "split_once CHR '':'' line")
    case None
    then show ?thesis using 2(1) by (simp add: field_values_def line_value_def)
  next
    case (Some nv)
    obtain n v where nv: "nv = (n, v)" by (rule prod.exhaust)
    note split = Some [unfolded nv]
    note ih = 2(2,3) [OF split refl refl refl]
    consider (te) "eq_ignore_ascii_case (trim n) ''transfer-encoding''" "\<not> eq_ignore_ascii_case (trim n) ''content-length''"
      | (cl) "\<not> eq_ignore_ascii_case (trim n) ''transfer-encoding''" "eq_ignore_ascii_case (trim n) ''content-length''"
      | (other) "\<not> eq_ignore_ascii_case (trim n) ''transfer-encoding''" "\<not> eq_ignore_ascii_case (trim n) ''content-length''"
      using framing_names_differ by blast
    then show ?thesis
    proof cases
      case te
      then show ?thesis using split ih
        by (auto simp: Let_def field_values_def line_value_def te_ok_Cons)
    next
      case cl
      then show ?thesis using split ih
        by (auto simp: Let_def field_values_def line_value_def cl_ok_Cons split: option.splits)
    next
      case other
      then show ?thesis using split ih by (simp add: Let_def field_values_def line_value_def)
    qed
  qed
qed

lemma framing_unambiguous_aux:
  "parse_body_framing head = Inr f \<longleftrightarrow>
     (\<exists>text0. from_utf8 head = Some text0 \<and>
        (let te = field_values ''transfer-encoding'' (drop 1 (str_lines text0));
             cl = field_values ''content-length'' (drop 1 (str_lines text0))
         in te = [] \<and> cl = [] \<and> f = Close_Framing \<or>
            (\<exists>v. te = [v] \<and> cl = [] \<and> eq_ignore_ascii_case v ''chunked'' \<and> f = Chunked_Framing) \<or>
            (\<exists>v n. te = [] \<and> cl = [v] \<and> parse_uint (2 ^ 64) v = Some n \<and> f = Length_Framing n)))"
proof (cases "from_utf8 head")
  case None
  then show ?thesis by (simp add: parse_body_framing_def)
next
  case (Some t)
  let ?ls = "drop 1 (str_lines t)"
  have "parse_body_framing head = Inr f \<longleftrightarrow>
    (\<exists>cl ch. framing_lines ?ls None False = Inr (cl, ch) \<and>
      (cl = None \<and> \<not> ch \<and> f = Close_Framing \<or> cl = None \<and> ch \<and> f = Chunked_Framing \<or>
       (\<exists>n. cl = Some n \<and> \<not> ch \<and> f = Length_Framing n)))"
    using Some by (auto simp: parse_body_framing_def split: sum.splits option.splits bool.splits)
  then show ?thesis using Some
    unfolding framing_lines_iff by (auto simp: Let_def te_ok_def cl_ok_def)
qed

text \<open>C26: A response head is accepted exactly when its framing is unambiguous: no
  \<open>Transfer-Encoding\<close> and no \<open>Content-Length\<close>, or one \<open>Transfer-Encoding: chunked\<close> alone, or one
  numeric \<open>Content-Length\<close> alone. Any other combination, such as the two together or one of them
  twice, is an error.
\<close>

theorem framing_unambiguous:
  "parse_body_framing head = Inr f \<longleftrightarrow>
     (\<exists>text0. from_utf8 head = Some text0 \<and>
        (let te = field_values ''transfer-encoding'' (drop 1 (str_lines text0));
             cl = field_values ''content-length'' (drop 1 (str_lines text0))
         in te = [] \<and> cl = [] \<and> f = Close_Framing \<or>
            (\<exists>v. te = [v] \<and> cl = [] \<and> eq_ignore_ascii_case v ''chunked'' \<and> f = Chunked_Framing) \<or>
            (\<exists>v n. te = [] \<and> cl = [v] \<and> parse_uint (2 ^ 64) v = Some n \<and> f = Length_Framing n)))"
  by (rule framing_unambiguous_aux)

section \<open>A head with and without its blank line\<close>

text \<open>Bytes below 0x80 do not continue a character, so appending them does not change what precedes.\<close>

lemma utf8_step_append:
  assumes "bs \<noteq> []" and x: "\<forall>b \<in> set x. unat b < 0x80"
  shows "utf8_step (bs @ x) = utf8_step bs" and "snd (utf8_step bs) \<le> length bs"
proof -
  have ok: "(i < length (bs @ x) \<and> in_range lo hi ((bs @ x) ! i)) = (i < length bs \<and> in_range lo hi (bs ! i))"
    if "0x80 \<le> lo" for i lo hi
    using that x by (auto simp: nth_append in_range_def) (metis leD le_trans nth_mem add_diff_inverse_nat nat_add_left_cancel_less)
  have "(bs @ x) ! 0 = bs ! 0" using assms by (simp add: nth_append)
  then show "utf8_step (bs @ x) = utf8_step bs"
    by (simp add: utf8_step_def Let_def ok del: length_append)
  have "length bs = 1 \<or> 1 < length bs" using assms(1) by (cases bs) auto
  then show "snd (utf8_step bs) \<le> length bs" by (elim disjE) (simp_all add: utf8_step_def Let_def)
qed

lemma utf8_lossy_ascii: "\<forall>b \<in> set x. unat b < 0x80 \<Longrightarrow> utf8_lossy x = x"
proof (induction x)
  case (Cons b x)
  then have "utf8_step (b # x) = (True, 1)" by (simp add: utf8_step_def)
  then show ?case using Cons by (subst utf8_lossy.simps) simp
qed (simp add: utf8_lossy.simps)

lemma utf8_lossy_append:
  assumes x: "\<forall>b \<in> set x. unat b < 0x80"
  shows "utf8_lossy (bs @ x) = utf8_lossy bs @ x"
proof (induction bs rule: utf8_lossy.induct)
  case (1 bs)
  show ?case
  proof (cases "bs = []")
    case True
    then show ?thesis using utf8_lossy_ascii [OF x] by (simp add: utf8_lossy.simps)
  next
    case False
    obtain v n where s: "utf8_step bs = (v, n)" by (rule prod.exhaust)
    have n: "n \<le> length bs" using utf8_step_append(2) [OF False x] s by simp
    have "utf8_step (bs @ x) = (v, n)" using utf8_step_append(1) [OF False x] s by simp
    then have "utf8_lossy (bs @ x) =
      (if v then take n bs else [0xEF, 0xBF, 0xBD]) @ utf8_lossy (drop n bs @ x)"
      using False n by (subst utf8_lossy.simps) (cases v; simp)
    also have "utf8_lossy (drop n bs @ x) = utf8_lossy (drop n bs) @ x"
      using 1 False s by (cases v) auto
    also have "(if v then take n bs else [0xEF, 0xBF, 0xBD]) @ utf8_lossy (drop n bs) @ x = utf8_lossy bs @ x"
      using False s by (subst (2) utf8_lossy.simps) (cases v; simp)
    finally show ?thesis .
  qed
qed

lemma utf8_valid_then_ascii:
  assumes x: "x \<noteq> []" "\<forall>b \<in> set x. unat b < 0x80"
  shows "utf8_valid (bs @ x) = utf8_valid bs"
proof -
  obtain c y where c: "x = c # y" using x(1) by (cases x) auto
  have v: "utf8_valid x" using x(2) by (rule utf8_valid_ascii)
  have "unat c < 0x80" using x c by simp
  then have nc: "\<not> in_range lo hi c" if "0x80 \<le> lo" for lo hi using that by (auto simp: in_range_def)
  show ?thesis
  proof (induction bs rule: utf8_valid.induct)
    case 1
    then show ?case using v by simp
  next
    case (2 b bs)
    show ?case
      by (cases bs; cases "tl bs"; cases "tl (tl bs)") (use 2 nc c v \<open>unat c < 0x80\<close> in \<open>auto split: list.splits\<close>)
  qed
qed

lemma split_char_nonempty [simp]: "split_char c s \<noteq> []"
  by (induction s) (auto split: list.splits)

lemma split_char_append:
  "c \<notin> set t \<Longrightarrow> split_char c (s @ t @ c # u) =
     butlast (split_char c s) @ [last (split_char c s) @ t] @ split_char c u"
proof (induction s)
  case Nil
  then show ?case by (induction t) (auto split: list.splits)
next
  case (Cons d s)
  then show ?case by (cases "split_char c s") (auto split: list.splits)
qed

abbreviation blank :: str where "blank \<equiv> [CR, LF, CR, LF]"

lemma str_lines_blank:
  "str_lines (s @ blank) = str_lines s @ (if last (split_char LF s) = [] then [[], []] else [[]])"
proof -
  have "split_char LF (s @ [CR] @ LF # [CR, LF]) =
    butlast (split_char LF s) @ [last (split_char LF s) @ [CR]] @ [[CR], []]"
    by (subst split_char_append) simp_all
  then show ?thesis by (simp add: str_lines_def Let_def strip_cr_def butlast_append)
qed

lemma field_values_blank:
  assumes "set extra \<subseteq> {[]}"
  shows "field_values name (drop 1 (ls @ extra)) = field_values name (drop 1 ls)"
proof -
  have "line_value name [] = []" by (simp add: line_value_def split_once_def)
  then have "field_values name e = []" if "set e \<subseteq> {[]}" for e using that by (auto simp: field_values_def)
  moreover have "set (drop 1 extra) \<subseteq> {[]}" using assms set_drop_subset by fastforce
  ultimately show ?thesis using assms by (cases ls) (simp_all add: field_values_def)
qed

lemma as_bytes_blank: "as_bytes blank = [0x0D, 0x0A, 0x0D, 0x0A]"
  by (simp add: as_bytes_def byte_of_char_def)

lemma parse_body_framing_blank: "parse_body_framing (head @ as_bytes blank) = Inr f \<longleftrightarrow> parse_body_framing head = Inr f"
proof -
  have "utf8_valid (head @ as_bytes blank) = utf8_valid head"
    by (rule utf8_valid_then_ascii) (simp_all add: as_bytes_blank)
  moreover have "str_of_bytes (head @ as_bytes blank) = str_of_bytes head @ blank"
    by (metis as_bytes_append str_of_bytes_as_bytes as_bytes_str_of_bytes)
  moreover have "field_values name (drop 1 (str_lines (t @ blank))) = field_values name (drop 1 (str_lines t))" for name t
    by (subst str_lines_blank, rule field_values_blank) simp
  ultimately show ?thesis unfolding framing_unambiguous_aux from_utf8_def by simp
qed

lemma parse_status_code_blank: "parse_status_code (head @ as_bytes blank) = Inr n \<longleftrightarrow> parse_status_code head = Inr n"
proof -
  have "utf8_lossy (head @ as_bytes blank) = utf8_lossy head @ as_bytes blank"
    by (rule utf8_lossy_append) (simp add: as_bytes_blank)
  then have l: "from_utf8_lossy (head @ as_bytes blank) = from_utf8_lossy head @ blank"
    unfolding from_utf8_lossy_def by (metis as_bytes_append str_of_bytes_as_bytes as_bytes_str_of_bytes)
  have "split_whitespace [] = []" by code_simp
  then show ?thesis unfolding parse_status_code_def l str_lines_blank
    by (cases "str_lines (from_utf8_lossy head)") simp_all
qed

end
