(* ===== verification/Http_Client.thy ===== *)
theory Http_Client
  imports Http_Refine Http_Head
begin

text \<open>
  The client of \<open>src/http_client.rs\<close>: dialing, the buffered request and the streaming request.
  The network is an argument: name resolution, TCP and TLS connections, and the reader, writer
  and flush of a connected stream.
\<close>

section \<open>Connecting\<close>

text \<open>
  Errors are those of \<open>anyhow\<close>: a message. \<open>dial\<close> is \<open>TcpStream::connect_timeout\<close>, \<open>tls_connect\<close> is
  \<open>EspTlsStream::connect_with_timeout\<close> with \<open>skip_tls_verify\<close>.
\<close>

record ('addr, 's) net =
  to_socket_addrs :: "str \<Rightarrow> ioerr + 'addr list"
  dial :: "'addr \<Rightarrow> ioerr + 's"
  tls_connect :: "str \<Rightarrow> nat \<Rightarrow> bool \<Rightarrow> ioerr + 's"
  set_timeouts :: "'s \<Rightarrow> ioerr + 's"

datatype connect_error = Connect_Io ioerr | No_Addresses str

text \<open>The loop over the addresses: the first connection, or the last error.\<close>

fun dial_any :: "('addr \<Rightarrow> ioerr + 's) \<Rightarrow> 'addr list \<Rightarrow> ioerr option \<Rightarrow> 's option \<times> ioerr option" where
  "dial_any d [] last_err = (None, last_err)"
| "dial_any d (address # rest) last_err =
     (case d address of
        Inr s \<Rightarrow> (Some s, last_err)
      | Inl e \<Rightarrow> dial_any d rest (Some e))"

definition connect_tcp :: "('addr, 's) net \<Rightarrow> str \<Rightarrow> nat \<Rightarrow> connect_error + 's" where
  "connect_tcp nw host port =
     (let authority = host @ '':'' @ show_nat port in
      case to_socket_addrs nw authority of
        Inl e \<Rightarrow> Inl (Connect_Io e)
      | Inr addrs \<Rightarrow>
          (case dial_any (dial nw) addrs None of
             (Some s, _) \<Rightarrow> Inr s
           | (None, Some e) \<Rightarrow> Inl (Connect_Io e)
           | (None, None) \<Rightarrow> Inl (No_Addresses authority)))"

definition connect_stream :: "('addr, 's) net \<Rightarrow> str \<Rightarrow> nat \<Rightarrow> bool \<Rightarrow> bool \<Rightarrow> connect_error + 's" where
  "connect_stream nw host port use_tls skip_tls_verify =
     (case (if use_tls then map_sum Connect_Io id (tls_connect nw host port skip_tls_verify)
            else connect_tcp nw host port) of
        Inl e \<Rightarrow> Inl e
      | Inr s \<Rightarrow> map_sum Connect_Io id (set_timeouts nw s))"

section \<open>The buffered request\<close>

definition MAX_RESPONSE_HEADER_BYTES :: nat where "MAX_RESPONSE_HEADER_BYTES = 8 * 1024"
definition MAX_RESPONSE_BODY_BYTES :: nat where "MAX_RESPONSE_BODY_BYTES = 1024 * 1024"
definition MIN_HEAP_FOR_BUFFERED_FETCH :: nat where "MIN_HEAP_FOR_BUFFERED_FETCH = 32 * 1024"

text \<open>\<open>write_all\<close> of a stream.\<close>

type_synonym 's http_writer = "bytes \<Rightarrow> ('s, ioerr, unit) io"

function response_loop :: "('s, http_violation) reader \<Rightarrow> bytes \<Rightarrow> ('s, http_error, bytes) io" where
  "response_loop rd response_buf s =
     (case rd 4096 s of
        (Inr bs, s') \<Rightarrow>
          if bs = [] then (Inr response_buf, s')
          else if length response_buf + length bs > MAX_RESPONSE_BODY_BYTES then (Inl Response_Too_Large, s')
          else response_loop rd (response_buf @ bs) s'
      | (Inl e, s') \<Rightarrow>
          (Inl (if e = WouldBlock \<or> e = TimedOut then Response_Timed_Out else Io_Error e), s'))"
  by pat_completeness auto
termination
  by (relation "measure (\<lambda>(_, buf, _). MAX_RESPONSE_BODY_BYTES - length buf)")
    (auto simp flip: length_greater_0_conv)

declare response_loop.simps [simp del]

text \<open>\<open>Read\<close> for a byte slice.\<close>

definition slice_read :: "(bytes, 'w) reader" where
  "slice_read n s = (Inr (take n s), drop n s)"

abbreviation BLANK :: bytes where "BLANK \<equiv> [0x0D, 0x0A, 0x0D, 0x0A]"

definition parse_http_response :: "(nat \<Rightarrow> nat) \<Rightarrow> bytes \<Rightarrow> (http_error + nat \<times> bytes) option" where
  "parse_http_response sizes response_buf =
     (case find_sub BLANK response_buf of
        None \<Rightarrow> Some (Inl Malformed_Response)
      | Some header_end \<Rightarrow>
          (case parse_status_code (take header_end response_buf) of
             Inl e \<Rightarrow> Some (Inl e)
           | Inr code \<Rightarrow>
               (case parse_body_framing (take header_end response_buf) of
                  Inl e \<Rightarrow> Some (Inl e)
                | Inr framing \<Rightarrow>
                    let body_slice = drop (header_end + 4) response_buf in
                    (case framing of
                       Chunked_Framing \<Rightarrow>
                         map_option (\<lambda>(r, _). map_sum Io_Error (\<lambda>b. (code, b)) r)
                           (read_to_end (chunked_read slice_read) sizes 0 [] (chunked_new body_slice))
                     | Length_Framing expected_len \<Rightarrow>
                         Some (if usize_limit \<le> expected_len then Inl Length_Exceeds_Memory
                               else if length body_slice < expected_len
                               then Inl (Response_Truncated expected_len (length body_slice))
                               else Inr (code, take expected_len body_slice))
                     | Close_Framing \<Rightarrow> Some (Inr (code, body_slice))))))"

definition send_request ::
  "'s http_writer \<Rightarrow> ('s, ioerr, unit) io \<Rightarrow> str \<Rightarrow> bytes option \<Rightarrow> ('s, http_error, unit) io" where
  "send_request wr fl raw_request body =
     map_errE Io_Error
       (bindE (wr (as_bytes raw_request)) (\<lambda>_.
        bindE (case body of None \<Rightarrow> retE () | Some b \<Rightarrow> wr b) (\<lambda>_. fl)))"

definition do_request ::
  "(nat \<Rightarrow> nat) \<Rightarrow> ('s, http_violation) reader \<Rightarrow> 's http_writer \<Rightarrow> ('s, ioerr, unit) io \<Rightarrow>
   str \<Rightarrow> bytes option \<Rightarrow> 's \<Rightarrow> (http_error + nat \<times> bytes) option" where
  "do_request sizes rd wr fl raw_request body s =
     (case bindE (send_request wr fl raw_request body) (\<lambda>_. response_loop rd []) s of
        (Inl e, _) \<Rightarrow> Some (Inl e)
      | (Inr response_buf, _) \<Rightarrow> parse_http_response sizes response_buf)"

section \<open>The streaming request\<close>

function head_loop :: "('s, http_violation) reader \<Rightarrow> bytes \<Rightarrow> ('s, http_error, nat \<times> bytes) io" where
  "head_loop rd header_buf s =
     (case rd 512 s of
        (Inr bs, s') \<Rightarrow>
          if bs = [] then (Inl Closed_In_Head, s')
          else
            (case find_sub BLANK (header_buf @ bs) of
               Some pos \<Rightarrow> (Inr (pos + 4, header_buf @ bs), s')
             | None \<Rightarrow>
                 if length (header_buf @ bs) > MAX_RESPONSE_HEADER_BYTES then (Inl Head_Too_Large, s')
                 else head_loop rd (header_buf @ bs) s')
      | (Inl e, s') \<Rightarrow> (Inl (Io_Error e), s'))"
  by pat_completeness auto
termination
  by (relation "measure (\<lambda>(_, buf, _). MAX_RESPONSE_HEADER_BYTES - length buf)")
    (auto simp flip: length_greater_0_conv)

declare head_loop.simps [simp del]

text \<open>The body of a \<open>StreamingHttpResponse\<close>.\<close>

datatype 's body =
    Close_Body "'s chain"
  | Length_Body "'s chain exact_reader"
  | Chunked_Body "'s chain chunked_reader"

definition make_body :: "body_framing \<Rightarrow> 's chain \<Rightarrow> 's body" where
  "make_body framing rest =
     (case framing of
        Length_Framing len \<Rightarrow> Length_Body \<lparr>ex_inner = rest, ex_remaining = len\<rparr>
      | Close_Framing \<Rightarrow> Close_Body rest
      | Chunked_Framing \<Rightarrow> Chunked_Body (chunked_new rest))"

definition body_read_to_end ::
  "(nat \<Rightarrow> nat) \<Rightarrow> ('s, http_violation) reader \<Rightarrow> 's body \<Rightarrow> (ioerr + bytes) option" where
  "body_read_to_end sizes rd b =
     (case b of
        Close_Body c \<Rightarrow> map_option fst (read_to_end (\<lambda>n s. Some (chain_read rd n s)) sizes 0 [] c)
      | Length_Body c \<Rightarrow> map_option fst (read_to_end (\<lambda>n s. Some (exact_read (chain_read rd) n s)) sizes 0 [] c)
      | Chunked_Body c \<Rightarrow> map_option fst (read_to_end (chunked_read (chain_read rd)) sizes 0 [] c))"

definition do_streaming_request ::
  "('s, http_violation) reader \<Rightarrow> 's http_writer \<Rightarrow> ('s, ioerr, unit) io \<Rightarrow> str \<Rightarrow> 's \<Rightarrow>
   http_error + nat \<times> 's body" where
  "do_streaming_request rd wr fl raw_request s =
     (case bindE (send_request wr fl raw_request None) (\<lambda>_. head_loop rd []) s of
        (Inl e, _) \<Rightarrow> Inl e
      | (Inr (header_end, header_buf), s') \<Rightarrow>
          (case parse_status_code (take header_end header_buf) of
             Inl e \<Rightarrow> Inl e
           | Inr code \<Rightarrow>
               (case parse_body_framing (take header_end header_buf) of
                  Inl e \<Rightarrow> Inl e
                | Inr framing \<Rightarrow>
                    Inr (code, make_body framing \<lparr>ch_first = drop header_end header_buf, ch_second = s'\<rparr>))))"

section \<open>The client\<close>

record http_request =
  rq_url :: str
  rq_method :: str
  rq_headers :: "(str \<times> str) list"
  rq_body :: "bytes option"

datatype client_error = Client_Http http_error | Client_Connect connect_error

text \<open>\<open>execute\<close> once the memory gate has let it in; \<open>free\<close> is what \<open>heap_now\<close> reports.\<close>

definition execute ::
  "bool \<Rightarrow> ('addr, 's) net \<Rightarrow> (nat \<Rightarrow> nat) \<Rightarrow> ('s, http_violation) reader \<Rightarrow> 's http_writer \<Rightarrow>
   ('s, ioerr, unit) io \<Rightarrow> bool \<Rightarrow> nat \<Rightarrow> http_request \<Rightarrow> (client_error + nat \<times> bytes) option" where
  "execute qemu nw sizes rd wr fl skip_tls_verify free rq =
     (if free < MIN_HEAP_FOR_BUFFERED_FETCH then Some (Inl (Client_Http Heap_Too_Low))
      else case parse_url (rq_url rq) of
        Inl e \<Rightarrow> Some (Inl (Client_Http e))
      | Inr (host, port, path, use_tls) \<Rightarrow>
          (case build_raw_request (rq_method rq) path host (rq_headers rq) (rq_body rq) of
             Inl e \<Rightarrow> Some (Inl (Client_Http e))
           | Inr raw \<Rightarrow>
               (case connect_stream nw (qemu_host qemu host) port use_tls skip_tls_verify of
                  Inl e \<Rightarrow> Some (Inl (Client_Connect e))
                | Inr s \<Rightarrow>
                    map_option (map_sum Client_Http id) (do_request sizes rd wr fl raw (rq_body rq) s))))"

definition execute_streaming ::
  "bool \<Rightarrow> ('addr, 's) net \<Rightarrow> ('s, http_violation) reader \<Rightarrow> 's http_writer \<Rightarrow>
   ('s, ioerr, unit) io \<Rightarrow> bool \<Rightarrow> http_request \<Rightarrow> client_error + nat \<times> 's body" where
  "execute_streaming qemu nw rd wr fl skip_tls_verify rq =
     (case parse_url (rq_url rq) of
        Inl e \<Rightarrow> Inl (Client_Http e)
      | Inr (host, port, path, use_tls) \<Rightarrow>
          (case build_raw_request (rq_method rq) path host (rq_headers rq) None of
             Inl e \<Rightarrow> Inl (Client_Http e)
           | Inr raw \<Rightarrow>
               (case connect_stream nw (qemu_host qemu host) port use_tls skip_tls_verify of
                  Inl e \<Rightarrow> Inl (Client_Connect e)
                | Inr s \<Rightarrow> map_sum Client_Http id (do_streaming_request rd wr fl raw s))))"

end
