(* ===== verification/Http_Chunks.thy ===== *)
theory Http_Chunks
  imports Http_Flat
begin

text \<open>
  A server's side of the chunked transfer coding, and the round trip: what it writes is read
  back, with its extensions and trailers skipped, and no proper prefix of it is accepted.
\<close>

section \<open>Writing chunks\<close>

fun show_hex :: "nat \<Rightarrow> str" where
  "show_hex n =
     (let d = (\<lambda>k. char_of (if k < 10 then 48 + k else 87 + k)) in
      if n < 16 then [d n] else show_hex (n div 16) @ [d (n mod 16)])"

declare show_hex.simps [simp del]

record chunk =
  extension :: bytes
  data :: bytes

definition size_line :: "nat \<Rightarrow> bytes \<Rightarrow> bytes" where
  "size_line n ext = as_bytes (show_hex n) @ ext @ CRLF"

definition encode_chunk :: "chunk \<Rightarrow> bytes" where
  "encode_chunk c = size_line (length (data c)) (extension c) @ data c @ CRLF"

definition encode_trailers :: "bytes list \<Rightarrow> bytes" where
  "encode_trailers ts = concat (map (\<lambda>t. t @ CRLF) ts) @ CRLF"

definition encode_body :: "chunk list \<Rightarrow> bytes list \<Rightarrow> bytes" where
  "encode_body cs ts = concat (map encode_chunk cs) @ size_line 0 [] @ encode_trailers ts"

definition extension_ok :: "bytes \<Rightarrow> bool" where
  "extension_ok ext \<longleftrightarrow> 0x0A \<notin> set ext \<and> (ext = [] \<or> hd ext = 0x3B)"

definition chunk_ok :: "chunk \<Rightarrow> bool" where
  "chunk_ok c \<longleftrightarrow>
     data c \<noteq> [] \<and> length (data c) < 2 ^ 64 \<and> extension_ok (extension c) \<and>
     length (size_line (length (data c)) (extension c)) \<le> MAX_METADATA_BYTES"

definition trailers_ok :: "bytes list \<Rightarrow> bool" where
  "trailers_ok ts \<longleftrightarrow>
     list_all (\<lambda>t. 0x0A \<notin> set t \<and> 0x3A \<in> set t) ts \<and> length (encode_trailers ts) \<le> MAX_METADATA_BYTES"

section \<open>Hexadecimal numerals\<close>

lemma hex_val_digit: "k < 16 \<Longrightarrow> hex_val (char_of (if k < 10 then 48 + k else 87 + k :: nat)) = Some k"
  by (auto simp: hex_val_def Let_def)

lemma show_hex_digits: "list_all (\<lambda>c. hex_val c \<noteq> None) (show_hex n)"
proof (induction n rule: show_hex.induct)
  case (1 n)
  show ?case
  proof (cases "n < 16")
    case True
    then show ?thesis using hex_val_digit [OF True] by (subst show_hex.simps) (simp add: Let_def)
  next
    case False
    then show ?thesis using 1 hex_val_digit [of "n mod 16"] by (subst show_hex.simps) (simp add: Let_def)
  qed
qed

lemma show_hex_nonempty: "show_hex n \<noteq> []"
  by (subst show_hex.simps) (simp add: Let_def)

lemma parse_show_hex: "n < limit \<Longrightarrow> parse_digits hex_val 16 limit 0 (show_hex n) = Some n"
proof (induction n rule: show_hex.induct)
  case (1 n)
  show ?case
  proof (cases "n < 16")
    case True
    then show ?thesis using 1 hex_val_digit [OF True] by (subst show_hex.simps) (simp add: Let_def)
  next
    case False
    then show ?thesis using 1 hex_val_digit [of "n mod 16"]
      by (subst show_hex.simps) (simp add: Let_def parse_digits_append)
  qed
qed

lemma hex_bytes: "b \<in> set (as_bytes (show_hex n)) \<Longrightarrow> b \<noteq> 0x0A \<and> b \<noteq> 0x3B"
proof -
  assume "b \<in> set (as_bytes (show_hex n))"
  then obtain c where c: "c \<in> set (show_hex n)" "b = byte_of_char c" by (auto simp: as_bytes_def)
  have "hex_val c \<noteq> None" using show_hex_digits [of n] c(1) by (auto simp: list_all_iff)
  then have "c \<noteq> CHR 0x0A \<and> c \<noteq> CHR 0x3B" by (auto simp: hex_val_def)
  moreover have "byte_of_char CHR 0x0A = 0x0A" "byte_of_char CHR 0x3B = 0x3B" by (simp_all add: byte_of_char_def)
  ultimately show ?thesis using c(2) char_of_byte_of_char by metis
qed

section \<open>Reading them back\<close>

lemma metadata_line_crlf:
  assumes "0x0A \<notin> set l" and "length l + 2 \<le> limit"
  shows "metadata_line limit (l @ CRLF @ x) = (Inr (l @ CRLF), x)"
proof -
  have lf: "0x0A \<in> set (take limit (l @ CRLF))" using assms(2) by (simp add: take_Cons' split: nat.splits)
  have "takeWhile (\<lambda>y. y \<noteq> 0x0A) (l @ CRLF) = l @ takeWhile (\<lambda>y. y \<noteq> 0x0A) CRLF"
    using assms(1) by (intro takeWhile_append2) auto
  moreover have "take limit (l @ CRLF) = l @ CRLF" using assms(2) by simp
  ultimately have "takeWhile (\<lambda>y. y \<noteq> 0x0A) (take limit (l @ CRLF)) = l @ [0x0D]" by simp
  then have "until_lf limit (l @ CRLF @ x) = (l @ CRLF, x)"
    using until_lf_found [OF lf, of x] by simp
  then show ?thesis by (simp add: metadata_line_def check_line_def ends_crlf_def)
qed

lemma chunk_size_line:
  assumes "n < 2 ^ 64" "extension_ok ext"
  shows "chunk_size (size_line n ext) = Inr n"
proof -
  have h: "takeWhile (\<lambda>b. b \<noteq> 0x3B) (as_bytes (show_hex n) @ ext) = as_bytes (show_hex n)"
    using assms(2) hex_bytes [of _ n] by (cases ext) (auto simp: extension_ok_def takeWhile_tail)
  have "map char_of_byte (as_bytes s) = s" for s using str_of_bytes_as_bytes by (simp add: str_of_bytes_def)
  then show ?thesis using assms(1) show_hex_digits [of n] show_hex_nonempty [of n] h
    by (simp add: chunk_size_def size_line_def parse_show_hex)
qed

lemma skip_trailers_encoded:
  "list_all (\<lambda>t. 0x0A \<notin> set t \<and> 0x3A \<in> set t) ts \<Longrightarrow> length (encode_trailers ts) \<le> budget \<Longrightarrow>
     skip_trailers budget (encode_trailers ts @ x) = (Inr (), x)"
proof (induction ts arbitrary: budget)
  case Nil
  then show ?case using metadata_line_crlf [of "[]" budget x]
    by (subst skip_trailers.simps) (simp add: encode_trailers_def)
next
  case (Cons t ts)
  have e: "encode_trailers (t # ts) = t @ CRLF @ encode_trailers ts" by (simp add: encode_trailers_def)
  have "metadata_line budget (encode_trailers (t # ts) @ x) = (Inr (t @ CRLF), encode_trailers ts @ x)"
    using metadata_line_crlf [of t budget "encode_trailers ts @ x"] Cons.prems by (simp add: e)
  moreover have "t @ CRLF \<noteq> CRLF" using Cons.prems by auto
  ultimately show ?case using Cons by (subst skip_trailers.simps) (simp add: e)
qed

lemma chunk_start_size:
  assumes "n < 2 ^ 64" "extension_ok ext" "length (size_line n ext) \<le> MAX_METADATA_BYTES"
  shows "chunk_start False (size_line n ext @ x) =
    (if n = 0 then bindE (skip_trailers MAX_METADATA_BYTES) (\<lambda>_. retE 0) x else (Inr n, x))"
proof -
  have "0x0A \<notin> set (as_bytes (show_hex n) @ ext)" using hex_bytes [of "0x0A" n] assms(2) by (auto simp: extension_ok_def)
  then have "metadata_line MAX_METADATA_BYTES (size_line n ext @ x) = (Inr (size_line n ext), x)"
    using metadata_line_crlf [of "as_bytes (show_hex n) @ ext" MAX_METADATA_BYTES x] assms(3)
    by (simp add: size_line_def)
  then show ?thesis using chunk_size_line [OF assms(1,2)] by (simp add: chunk_start_def bindE_Inr)
qed

lemma chunk_start_crlf: "chunk_start True (CRLF @ x) = chunk_start False x"
proof -
  have "bindE (take_exact 2) (\<lambda>l. liftE (check_crlf l)) (CRLF @ x) = (Inr (), x)"
    by (simp add: bindE_def take_exact_def check_crlf_def numeral_eq_Suc)
  then show ?thesis by (simp add: chunk_start_def bindE_Inr)
qed

lemma dechunk_crlf: "dechunk True acc (CRLF @ x) = dechunk False acc x"
  by (simp only: dechunk_eq chunk_start_crlf)

lemma dechunk_encoded:
  assumes "list_all chunk_ok cs" and t: "trailers_ok ts"
  shows "dechunk False acc (encode_body cs ts @ x) = (Inr (acc @ concat (map data cs)), x)"
  using assms(1)
proof (induction cs arbitrary: acc)
  case Nil
  have "length (size_line 0 []) \<le> MAX_METADATA_BYTES"
    by (subst size_line_def, subst show_hex.simps) (simp add: MAX_METADATA_BYTES_def Let_def)
  then have "chunk_start False (size_line 0 [] @ encode_trailers ts @ x) = (Inr 0, x)"
    using chunk_start_size [of 0 "[]" "encode_trailers ts @ x"] t
      skip_trailers_encoded [of ts MAX_METADATA_BYTES x]
    by (simp add: extension_ok_def trailers_ok_def bindE_Inr)
  then show ?case by (simp add: dechunk_eq encode_body_def)
next
  case (Cons c cs)
  have "chunk_start False (encode_body (c # cs) ts @ x) =
    (Inr (length (data c)), data c @ CRLF @ encode_body cs ts @ x)"
    using Cons.prems chunk_start_size [of "length (data c)" "extension c" "data c @ CRLF @ encode_body cs ts @ x"]
    by (simp add: chunk_ok_def encode_body_def encode_chunk_def)
  moreover have "data c \<noteq> []" using Cons.prems by (simp add: chunk_ok_def)
  ultimately have "dechunk False acc (encode_body (c # cs) ts @ x) =
    dechunk True (acc @ data c) (CRLF @ encode_body cs ts @ x)"
    by (simp add: dechunk_eq from_chunk_def)
  then show ?case using Cons by (simp only: dechunk_crlf) simp
qed

text \<open>No proper prefix of a body is a body: success would survive the bytes that follow.\<close>

lemma dechunk_truncated:
  assumes "dechunk needs acc (p @ q) = (Inr body, [])" and "q \<noteq> []"
  shows "isl (fst (dechunk needs acc p))"
proof (rule ccontr)
  assume "\<not> isl (fst (dechunk needs acc p))"
  then obtain b r where "dechunk needs acc p = (Inr b, r)" by (metis fst_conv isl_def old.sum.exhaust surj_pair)
  from dechunk_ok [OF this, of q] show False using assms by simp
qed

end
