(* ===== verification/Http_Properties.thy ===== *)
theory Http_Properties
  imports Http_Client Http_Chunks
begin

text \<open>
  The HTTP client end to end. \<open>response_of\<close> says which response a byte string is. Whatever the
  socket does, a request returns, and a response it returns is the one in the bytes that
  arrived, complete; on a socket that does not fail the buffered and the streaming request
  find it whenever it is within the limits.
\<close>

section \<open>Wrapped readers\<close>

context body_reader
begin

lemma chain_body_reader:
  "body_reader (chain_read rd) (\<lambda>c. ch_first c @ unread (ch_second c)) (\<lambda>c. interruptions (ch_second c))"
proof unfold_locales
  fix n c bs c'
  assume *: "chain_read rd n c = (Inr bs, c')"
  consider (first) "ch_first c \<noteq> [] \<and> 0 < n" | (none) "n = 0" | (second) "ch_first c = []" "0 < n" by auto
  then have "length bs \<le> n \<and> ch_first c @ unread (ch_second c) = bs @ ch_first c' @ unread (ch_second c') \<and>
    interruptions (ch_second c') \<le> interruptions (ch_second c) \<and>
    (bs = [] \<longrightarrow> 0 < n \<longrightarrow> ch_first c @ unread (ch_second c) = [])"
  proof cases
    case first
    then show ?thesis using * by (cases "ch_first c") (auto simp: chain_read_def)
  next
    case none
    then show ?thesis using * by (simp add: chain_read_def)
  next
    case second
    then obtain s where s: "rd n (ch_second c) = (Inr bs, s)" "c' = c\<lparr>ch_second := s\<rparr>"
      using * by (auto simp: chain_read_def split: prod.splits)
    then show ?thesis using second read_ok [OF s(1)] not_interrupted [OF s(1)] read_eof [of n "ch_second c" s] by auto
  qed
  then show "length bs \<le> n \<and> ch_first c @ unread (ch_second c) = bs @ ch_first c' @ unread (ch_second c')"
    and "interruptions (ch_second c') \<le> interruptions (ch_second c)" by blast+
next
  fix n c c'
  assume "chain_read rd n c = (Inr [], c')" "0 < n"
  then show "ch_first c @ unread (ch_second c) = []"
    using read_eof [of n "ch_second c"] by (auto simp: chain_read_def split: if_splits prod.splits)
next
  fix n c e c'
  assume "chain_read rd n c = (Inl e, c')"
  then show "ch_first c' @ unread (ch_second c') = ch_first c @ unread (ch_second c)"
    using read_err [of n "ch_second c" e] by (auto simp: chain_read_def split: if_splits prod.splits)
next
  fix n c c'
  assume "chain_read rd n c = (Inl Interrupted, c')"
  then show "interruptions (ch_second c') < interruptions (ch_second c)"
    using interrupted [of n "ch_second c"] by (auto simp: chain_read_def split: if_splits prod.splits)
qed

lemma exact_body_reader:
  "body_reader (exact_read rd) (\<lambda>r. take (ex_remaining r) (unread (ex_inner r))) (\<lambda>r. interruptions (ex_inner r))"
proof unfold_locales
  fix n r bs r'
  assume *: "exact_read rd n r = (Inr bs, r')"
  have "length bs \<le> n \<and>
    take (ex_remaining r) (unread (ex_inner r)) = bs @ take (ex_remaining r') (unread (ex_inner r')) \<and>
    interruptions (ex_inner r') \<le> interruptions (ex_inner r)"
  proof (cases "n = 0 \<or> ex_remaining r = 0")
    case True
    then show ?thesis using * by (simp add: exact_read_def)
  next
    case False
    then obtain s where s: "rd (min (ex_remaining r) n) (ex_inner r) = (Inr bs, s)"
      and r': "r' = r\<lparr>ex_inner := s, ex_remaining := ex_remaining r - length bs\<rparr>"
      using * by (auto simp: exact_read_def split: prod.splits sum.splits if_splits)
    then show ?thesis using read_ok [OF s] not_interrupted [OF s] by simp
  qed
  then show "length bs \<le> n \<and>
    take (ex_remaining r) (unread (ex_inner r)) = bs @ take (ex_remaining r') (unread (ex_inner r'))"
    and "interruptions (ex_inner r') \<le> interruptions (ex_inner r)" by blast+
next
  fix n r r'
  assume "exact_read rd n r = (Inr [], r')" "0 < n"
  then show "take (ex_remaining r) (unread (ex_inner r)) = []"
    by (auto simp: exact_read_def split: if_splits prod.splits sum.splits)
next
  fix n r e r'
  assume *: "exact_read rd n r = (Inl e, r')"
  then have "unread (ex_inner r') = unread (ex_inner r) \<and> ex_remaining r' = ex_remaining r"
    using read_err [of _ "ex_inner r" e] read_ok [of _ "ex_inner r" "[]"]
    by (auto simp: exact_read_def split: if_splits prod.splits sum.splits)
  then show "take (ex_remaining r') (unread (ex_inner r')) = take (ex_remaining r) (unread (ex_inner r))" by simp
next
  fix n r r'
  assume "exact_read rd n r = (Inl Interrupted, r')"
  then show "interruptions (ex_inner r') < interruptions (ex_inner r)"
    using interrupted [of _ "ex_inner r"] by (auto simp: exact_read_def split: if_splits prod.splits sum.splits)
qed

lemma exact_read_balance:
  assumes "exact_read rd n y = (r, y')"
  shows "int (length (unread (ex_inner y'))) - int (ex_remaining y') =
    int (length (unread (ex_inner y))) - int (ex_remaining y)"
proof (cases "n = 0 \<or> ex_remaining y = 0")
  case True
  then show ?thesis using assms by (simp add: exact_read_def)
next
  case False
  let ?m = "min (ex_remaining y) n"
  obtain x s where x: "rd ?m (ex_inner y) = (x, s)" by (rule prod.exhaust)
  show ?thesis
  proof (cases x)
    case (Inl e)
    then have "y' = y\<lparr>ex_inner := s\<rparr>" using assms False x by (simp add: exact_read_def)
    then show ?thesis using read_err [of ?m "ex_inner y" e s] x Inl by simp
  next
    case (Inr bs)
    then have o: "length bs \<le> ?m" "length (unread s) + length bs = length (unread (ex_inner y))"
      using read_ok [of ?m "ex_inner y" bs s] read_shrinks [of ?m "ex_inner y" bs s] x by simp_all
    have "y' = (if bs = [] then y\<lparr>ex_inner := s\<rparr> else y\<lparr>ex_inner := s, ex_remaining := ex_remaining y - length bs\<rparr>)"
      using assms False x Inr by (auto simp: exact_read_def)
    then show ?thesis using o by auto
  qed
qed

text \<open>\<open>ExactLengthReader\<close> gives the declared number of bytes or an error.\<close>

lemma exact_read_to_end:
  "\<exists>r x'. read_to_end (\<lambda>n s. Some (exact_read rd n s)) sizes 0 [] x = Some (r, x') \<and>
     (\<forall>body. r = Inr body \<longrightarrow> body = take (ex_remaining x) (unread (ex_inner x)) \<and> length body = ex_remaining x) \<and>
     (\<forall>e. r = Inl e \<longrightarrow> raised e \<or> e = UnexpectedEof \<and> length (unread (ex_inner x)) < ex_remaining x)"
proof -
  let ?k = "int (length (unread (ex_inner x))) - int (ex_remaining x)"
  let ?I = "\<lambda>y :: 's exact_reader. int (length (unread (ex_inner y))) - int (ex_remaining y) = ?k"
  have I: "?I y \<Longrightarrow> exact_read rd n y = (r, y') \<Longrightarrow> ?I y'" for n y r y'
    using exact_read_balance [of n y r y'] by simp
  have all: "\<exists>r s'. read_to_end (\<lambda>n s. Some (exact_read rd n s)) sizes 0 [] x = Some (r, s') \<and>
      (\<forall>body. r = Inr body \<longrightarrow> body = [] @ take (ex_remaining x) (unread (ex_inner x)) \<and>
         take (ex_remaining s') (unread (ex_inner s')) = [] \<and> (\<exists>n s0. ?I s0 \<and> exact_read rd (Suc n) s0 = (Inr [], s'))) \<and>
      (\<forall>e. r = Inl e \<longrightarrow> body_reader.raised (exact_read rd) e \<and> (\<exists>n s0. ?I s0 \<and> exact_read rd (Suc n) s0 = (Inl e, s')))"
    by (rule body_reader.read_to_end_all [OF exact_body_reader, where I = ?I]) (rule refl, rule I)
  obtain r x' where run: "read_to_end (\<lambda>n s. Some (exact_read rd n s)) sizes 0 [] x = Some (r, x')"
    and ok: "\<forall>body. r = Inr body \<longrightarrow> body = [] @ take (ex_remaining x) (unread (ex_inner x)) \<and>
       take (ex_remaining x') (unread (ex_inner x')) = [] \<and> (\<exists>n y. ?I y \<and> exact_read rd (Suc n) y = (Inr [], x'))"
    and err: "\<forall>e. r = Inl e \<longrightarrow> body_reader.raised (exact_read rd) e \<and>
       (\<exists>n y. ?I y \<and> exact_read rd (Suc n) y = (Inl e, x'))"
    using all by blast
  have "length body = ex_remaining x" if r: "r = Inr body" for body
  proof -
    obtain n y where y: "?I y" "exact_read rd (Suc n) y = (Inr [], x')" using ok r by blast
    then have "ex_remaining x' = 0" "?I x'" using I [OF y]
      by (auto simp: exact_read_def split: if_splits prod.splits sum.splits)
    then have "ex_remaining x \<le> length (unread (ex_inner x))" by linarith
    then show ?thesis using ok r by simp
  qed
  moreover have "raised e \<or> e = UnexpectedEof \<and> length (unread (ex_inner x)) < ex_remaining x" if r: "r = Inl e" for e
  proof -
    obtain n y where y: "?I y" "exact_read rd (Suc n) y = (Inl e, x')" "e \<noteq> Interrupted"
      using err r body_reader.raised_def [OF exact_body_reader] by blast
    then consider s where "rd (min (ex_remaining y) (Suc n)) (ex_inner y) = (Inl e, s)"
      | s where "rd (min (ex_remaining y) (Suc n)) (ex_inner y) = (Inr [], s)" "0 < ex_remaining y" "e = UnexpectedEof"
      by (auto simp: exact_read_def split: if_splits prod.splits sum.splits)
    then show ?thesis
    proof cases
      case 1
      then show ?thesis using raisedI y(3) by blast
    next
      case (2 s)
      then have "unread (ex_inner y) = []" using read_eof [of "min (ex_remaining y) (Suc n)" "ex_inner y" s] by simp
      then show ?thesis using y(1) 2 by simp
    qed
  qed
  ultimately show ?thesis using run ok by auto
qed

end

interpretation slice: body_reader slice_read "\<lambda>s. s" "\<lambda>_. 0"
  by unfold_locales (auto simp: slice_read_def)

lemma slice_never_fails [simp]: "\<not> slice.raised e"
  by (simp add: slice.raised_def slice_read_def)

section \<open>The response in a byte string\<close>

definition body_of :: "body_framing \<Rightarrow> bytes \<Rightarrow> bytes option" where
  "body_of f bs =
     (case f of
        Close_Framing \<Rightarrow> Some bs
      | Length_Framing n \<Rightarrow> if n \<le> length bs then Some (take n bs) else None
      | Chunked_Framing \<Rightarrow> (case dechunk False [] bs of (Inr b, _) \<Rightarrow> Some b | _ \<Rightarrow> None))"

definition response_of :: "bytes \<Rightarrow> (nat \<times> bytes) option" where
  "response_of bs =
     (case find_sub BLANK bs of
        None \<Rightarrow> None
      | Some i \<Rightarrow>
          (case (parse_status_code (take i bs), parse_body_framing (take i bs)) of
             (Inr code, Inr f) \<Rightarrow> map_option (Pair code) (body_of f (drop (i + 4) bs))
           | _ \<Rightarrow> None))"

lemma response_of_iff:
  "response_of bs = Some (code, b) \<longleftrightarrow>
     (\<exists>i f. find_sub BLANK bs = Some i \<and> parse_status_code (take i bs) = Inr code \<and>
        parse_body_framing (take i bs) = Inr f \<and> body_of f (drop (i + 4) bs) = Some b)"
  by (auto simp: response_of_def split: option.splits sum.splits)

lemma parse_http_response_ok:
  "\<exists>r. parse_http_response sizes bs = Some r \<and>
     (\<forall>code b. r = Inr (code, b) \<longrightarrow> response_of bs = Some (code, b)) \<and>
     (\<forall>code b. response_of bs = Some (code, b) \<longrightarrow> length bs < usize_limit \<longrightarrow> r = Inr (code, b))"
proof -
  have chunked: "map_option (\<lambda>(r, _). g r) (read_to_end (chunked_read slice_read) sizes 0 [] (chunked_new body)) =
      Some (g (fst (dechunk False [] body)))" for g :: "ioerr + bytes \<Rightarrow> http_error + nat \<times> bytes" and body
    using slice.chunked_body [of sizes body] by auto (metis fst_conv)
  show ?thesis
    unfolding parse_http_response_def response_of_iff chunked
    by (auto simp: body_of_def Let_def split: option.splits sum.splits body_framing.splits prod.splits)
qed

text \<open>A pattern found in a prefix is found in the whole, at the same place.\<close>

lemma find_sub_append: "find_sub p s = Some i \<Longrightarrow> p \<noteq> [] \<Longrightarrow> find_sub p (s @ t) = Some i"
proof (induction s arbitrary: i)
  case (Cons b s)
  show ?case
  proof (cases "take (length p) (b # s) = p")
    case True
    then have "length p \<le> length (b # s)" by (metis length_take min.cobounded1 min_def)
    then have "take (length p) (b # s @ t) = take (length p) (b # s)" by (cases p) auto
    then show ?thesis using Cons.prems True by simp
  next
    case False
    then obtain j where j: "find_sub p s = Some j" "i = Suc j" using Cons.prems by auto
    note ih = Cons.IH [OF j(1) Cons.prems(2)]
    have "length p \<le> length s" using find_sub_Some [OF j(1)] by simp
    then have "take (length p) (b # s @ t) = take (length p) (b # s)" by (cases p) auto
    then show ?thesis using False j ih by simp
  qed
qed simp

lemma find_sub_later:
  assumes "find_sub p s = None" and "find_sub p (s @ t) = Some i"
  shows "length s < i + length p"
proof (rule ccontr)
  assume "\<not> length s < i + length p"
  then have le: "i + length p \<le> length s" by simp
  have "take (length p) (drop i (s @ t)) = p" using find_sub_Some [OF assms(2)] by simp
  then have "take (length p) (drop i s) = p" using le by simp
  then show False using find_sub_le [OF _ le] assms(1) by auto
qed

context body_reader
begin

lemma response_loop_ok:
  assumes "response_loop rd acc s = (Inr buf, s')" and "length acc \<le> MAX_RESPONSE_BODY_BYTES"
  shows "buf = acc @ unread s \<and> length buf \<le> MAX_RESPONSE_BODY_BYTES"
  using assms
proof (induction "MAX_RESPONSE_BODY_BYTES - length acc" arbitrary: acc s rule: less_induct)
  case less
  obtain x s1 where x: "rd 4096 s = (x, s1)" by (rule prod.exhaust)
  obtain bs where bs: "x = Inr bs" using less.prems x by (subst (asm) response_loop.simps) (auto split: sum.splits)
  note o = x [unfolded bs]
  show ?case
  proof (cases "bs = []")
    case True
    then show ?thesis using less.prems o read_eof [of 4096 s s1] by (subst (asm) response_loop.simps) simp
  next
    case False
    have le: "length (acc @ bs) \<le> MAX_RESPONSE_BODY_BYTES" and run: "response_loop rd (acc @ bs) s1 = (Inr buf, s')"
      using less.prems(1) o False by (subst (asm) response_loop.simps, simp split: if_splits)+
    have "MAX_RESPONSE_BODY_BYTES - length (acc @ bs) < MAX_RESPONSE_BODY_BYTES - length acc"
      using le False by (cases bs) auto
    from less.hyps [OF this run le] show ?thesis using read_ok [OF o] by auto
  qed
qed

lemma response_loop_complete:
  assumes good: "\<And>n s. \<not> isl (fst (rd n s))" and "length (acc @ unread s) \<le> MAX_RESPONSE_BODY_BYTES"
  shows "\<exists>s'. response_loop rd acc s = (Inr (acc @ unread s), s')"
  using assms(2)
proof (induction "length (unread s)" arbitrary: acc s rule: less_induct)
  case less
  obtain bs s1 where o: "rd 4096 s = (Inr bs, s1)" using good [of 4096 s] by (cases "rd 4096 s"; cases "fst (rd 4096 s)") auto
  show ?case
  proof (cases "bs = []")
    case True
    then show ?thesis using o read_eof [of 4096 s s1] by (subst response_loop.simps) simp
  next
    case False
    then have "length (unread s1) < length (unread s)" using read_shrinks [OF o] by (cases bs) auto
    from less.hyps [OF this, of "acc @ bs"] show ?thesis using o False read_ok [OF o] less.prems
      by (subst response_loop.simps) simp
  qed
qed

lemma head_loop_ok:
  assumes "head_loop rd acc s = (Inr (he, buf), s')" and "length acc \<le> MAX_RESPONSE_HEADER_BYTES"
  shows "\<exists>i. he = i + 4 \<and> find_sub BLANK buf = Some i \<and> buf @ unread s' = acc @ unread s \<and>
    length buf \<le> MAX_RESPONSE_HEADER_BYTES + 512"
  using assms
proof (induction "MAX_RESPONSE_HEADER_BYTES - length acc" arbitrary: acc s rule: less_induct)
  case less
  obtain x s1 where x: "rd 512 s = (x, s1)" by (rule prod.exhaust)
  obtain bs where bs: "x = Inr bs" using less.prems x by (subst (asm) head_loop.simps) (auto split: sum.splits)
  note o = x [unfolded bs]
  have ne: "bs \<noteq> []" using less.prems(1) o by (subst (asm) head_loop.simps) auto
  show ?case
  proof (cases "find_sub BLANK (acc @ bs)")
    case (Some i)
    then have "he = i + 4" "buf = acc @ bs" "s' = s1" using less.prems(1) o ne
      by (subst (asm) head_loop.simps, simp)+
    then show ?thesis using Some read_ok [OF o] less.prems(2) by auto
  next
    case None
    have le: "length (acc @ bs) \<le> MAX_RESPONSE_HEADER_BYTES" and run: "head_loop rd (acc @ bs) s1 = (Inr (he, buf), s')"
      using less.prems(1) o ne None by (subst (asm) head_loop.simps, simp split: if_splits)+
    have "MAX_RESPONSE_HEADER_BYTES - length (acc @ bs) < MAX_RESPONSE_HEADER_BYTES - length acc"
      using le ne by (cases bs) auto
    from less.hyps [OF this run le] show ?thesis using read_ok [OF o] by simp
  qed
qed

lemma head_loop_complete:
  assumes good: "\<And>n s. \<not> isl (fst (rd n s))"
    and "find_sub BLANK acc = None" "find_sub BLANK (acc @ unread s) = Some i" "i + 4 \<le> MAX_RESPONSE_HEADER_BYTES"
  shows "\<exists>buf s'. head_loop rd acc s = (Inr (i + 4, buf), s')"
  using assms(2-)
proof (induction "length (unread s)" arbitrary: acc s rule: less_induct)
  case less
  obtain bs s1 where o: "rd 512 s = (Inr bs, s1)" using good [of 512 s] by (cases "rd 512 s"; cases "fst (rd 512 s)") auto
  have ne: "bs \<noteq> []" using read_eof [of 512 s s1] o less.prems by auto
  have all: "acc @ unread s = (acc @ bs) @ unread s1" using read_ok [OF o] by simp
  show ?case
  proof (cases "find_sub BLANK (acc @ bs)")
    case (Some j)
    then have "j = i" using find_sub_append [OF Some, of "unread s1"] less.prems(2) unfolding all by simp
    then show ?thesis using o ne Some by (subst head_loop.simps) simp
  next
    case None
    have later: "length (acc @ bs) < i + 4" using find_sub_later [OF None] less.prems(2) unfolding all by fastforce
    have "length (unread s1) < length (unread s)" using read_shrinks [OF o] ne by (cases bs) auto
    from less.hyps [OF this None] less.prems later all show ?thesis using o ne None
      by (subst head_loop.simps) simp
  qed
qed

text \<open>Reading the body of a streaming response to its end.\<close>

lemma chain_raised: "body_reader.raised (chain_read rd) e \<Longrightarrow> raised e"
  unfolding body_reader.raised_def [OF chain_body_reader] raised_def
  by (fastforce simp: chain_read_def split: if_splits prod.splits)

lemma body_read_ok:
  fixes c :: "'s chain"
  defines "v \<equiv> ch_first c @ unread (ch_second c)"
  shows "\<exists>r. body_read_to_end sizes rd (make_body f c) = Some r \<and>
     (\<forall>b. r = Inr b \<longrightarrow> body_of f v = Some b) \<and> (\<forall>e. r = Inl e \<longrightarrow> raised e \<or> body_of f v = None)"
proof (cases f)
  case Close_Framing
  show ?thesis
    using body_reader.read_to_end_all [OF chain_body_reader, where I = "\<lambda>_. True" and s = c and sizes = sizes and i = 0 and acc = "[]"]
      chain_raised by (auto simp: Close_Framing body_read_to_end_def make_body_def body_of_def v_def)
next
  case (Length_Framing n)
  show ?thesis
    using body_reader.exact_read_to_end [OF chain_body_reader, of sizes "\<lparr>ex_inner = c, ex_remaining = n\<rparr>"] chain_raised
    by (auto simp: Length_Framing body_read_to_end_def make_body_def body_of_def v_def)
next
  case Chunked_Framing
  show ?thesis
    using body_reader.chunked_body [OF chain_body_reader, of sizes c] chain_raised
    by (auto simp: Chunked_Framing body_read_to_end_def make_body_def body_of_def v_def dest!: sym [of "(_, _)"] split: prod.splits sum.splits)
qed

end

section \<open>Requests\<close>

text \<open>A connected stream: writing and flushing leave alone what is still to be read.\<close>

locale http_socket = body_reader rd unread interruptions
  for rd :: "('s, http_violation) reader" and unread :: "'s \<Rightarrow> bytes" and interruptions :: "'s \<Rightarrow> nat" +
  fixes wr :: "'s http_writer" and fl :: "('s, ioerr, unit) io"
  assumes write_keeps: "wr b s = (r, s') \<Longrightarrow> unread s' = unread s"
    and flush_keeps: "fl s = (r', s') \<Longrightarrow> unread s' = unread s"
begin

lemma send_request_keeps: "send_request wr fl raw body s = (r, s') \<Longrightarrow> unread s' = unread s"
  unfolding send_request_def map_errE_def bindE_def
  by (auto split: prod.splits sum.splits option.splits dest!: write_keeps flush_keeps)

lemma send_request_good:
  assumes "\<And>b s. \<not> isl (fst (wr b s))" "\<And>s. \<not> isl (fst (fl s))"
  shows "\<exists>s'. send_request wr fl raw body s = (Inr (), s')"
proof -
  have w: "\<exists>s'. wr b s = (Inr (), s')" for b s using assms(1) [of b s] by (cases "wr b s"; cases "fst (wr b s)") auto
  have f: "\<exists>s'. fl s = (Inr (), s')" for s using assms(2) [of s] by (cases "fl s"; cases "fst (fl s)") auto
  obtain s1 where s1: "wr (as_bytes raw) s = (Inr (), s1)" using w by blast
  obtain s2 where s2: "(case body of None \<Rightarrow> retE () | Some b \<Rightarrow> wr b) s1 = (Inr (), s2)" using w by (cases body) auto
  obtain s3 where "fl s2 = (Inr (), s3)" using f by blast
  then show ?thesis using s1 s2 by (simp add: send_request_def map_errE_def bindE_Inr)
qed

lemma do_request_ok:
  "\<exists>r. do_request sizes rd wr fl raw body s = Some r \<and>
     (\<forall>code b. r = Inr (code, b) \<longrightarrow>
        response_of (unread s) = Some (code, b) \<and> length (unread s) \<le> MAX_RESPONSE_BODY_BYTES)"
proof (cases "bindE (send_request wr fl raw body) (\<lambda>_. response_loop rd []) s")
  case (Pair x s')
  show ?thesis
  proof (cases x)
    case (Inl e)
    then show ?thesis using Pair by (simp add: do_request_def)
  next
    case (Inr buf)
    then obtain s1 where "send_request wr fl raw body s = (Inr (), s1)" "response_loop rd [] s1 = (Inr buf, s')"
      using Pair by (auto elim!: bindE_InrE)
    then have "buf = unread s \<and> length buf \<le> MAX_RESPONSE_BODY_BYTES"
      using response_loop_ok [of "[]" s1 buf s'] send_request_keeps [of raw body s "Inr ()" s1] by auto
    then show ?thesis using Pair Inr parse_http_response_ok [of sizes buf] by (auto simp: do_request_def)
  qed
qed

lemma do_request_complete:
  assumes "\<And>n s. \<not> isl (fst (rd n s))" "\<And>b s. \<not> isl (fst (wr b s))" "\<And>s. \<not> isl (fst (fl s))"
    and "length (unread s) \<le> MAX_RESPONSE_BODY_BYTES" "response_of (unread s) = Some (code, b)"
  shows "do_request sizes rd wr fl raw body s = Some (Inr (code, b))"
proof -
  obtain s1 where s1: "send_request wr fl raw body s = (Inr (), s1)" using send_request_good [OF assms(2,3)] by blast
  have u: "unread s1 = unread s" using send_request_keeps [OF s1] .
  then obtain s2 where "response_loop rd [] s1 = (Inr (unread s), s2)"
    using response_loop_complete [OF assms(1), of "[]" s1] assms(4) by auto
  then have "bindE (send_request wr fl raw body) (\<lambda>_. response_loop rd []) s = (Inr (unread s), s2)"
    using s1 by (simp add: bindE_Inr)
  moreover have "length (unread s) < usize_limit"
    using assms(4) by (simp add: MAX_RESPONSE_BODY_BYTES_def usize_limit_def)
  ultimately show ?thesis using parse_http_response_ok [of sizes "unread s"] assms(5) by (auto simp: do_request_def)
qed

lemma do_streaming_request_ok:
  assumes "do_streaming_request rd wr fl raw s = Inr (code, st)"
  shows "\<exists>i f c. find_sub BLANK (unread s) = Some i \<and> parse_status_code (take i (unread s)) = Inr code \<and>
    parse_body_framing (take i (unread s)) = Inr f \<and> st = make_body f c \<and>
    ch_first c @ unread (ch_second c) = drop (i + 4) (unread s)"
proof -
  obtain he buf s2 where run: "bindE (send_request wr fl raw None) (\<lambda>_. head_loop rd []) s = (Inr (he, buf), s2)"
    using assms by (auto simp: do_streaming_request_def split: prod.splits sum.splits)
  then obtain s1 where s1: "send_request wr fl raw None s = (Inr (), s1)" "head_loop rd [] s1 = (Inr (he, buf), s2)"
    by (auto elim!: bindE_InrE)
  then obtain i where i: "he = i + 4" "find_sub BLANK buf = Some i" "buf @ unread s2 = unread s"
    using head_loop_ok [of "[]" s1 he buf s2] send_request_keeps [OF s1(1)] by auto
  have le: "i + 4 \<le> length buf" and blank: "take 4 (drop i buf) = BLANK" using find_sub_Some [OF i(2)] by (simp_all add: numeral_eq_Suc)
  have head: "take he buf = take i (unread s) @ as_bytes blank" "drop he buf @ unread s2 = drop (i + 4) (unread s)"
    using i le blank by (simp_all flip: i(3) add: take_add as_bytes_blank)
  have "find_sub BLANK (unread s) = Some i" using find_sub_append [OF i(2), of "unread s2"] i(3) by simp
  then show ?thesis using assms run head
    by (auto simp: do_streaming_request_def parse_status_code_blank parse_body_framing_blank split: sum.splits
        intro!: exI [of _ "\<lparr>ch_first = drop he buf, ch_second = s2\<rparr>"])
qed

lemma do_streaming_request_complete:
  assumes "\<And>n s. \<not> isl (fst (rd n s))" "\<And>b s. \<not> isl (fst (wr b s))" "\<And>s. \<not> isl (fst (fl s))"
    and f: "find_sub BLANK (unread s) = Some i" "i + 4 \<le> MAX_RESPONSE_HEADER_BYTES"
    and head: "parse_status_code (take i (unread s)) = Inr code" "parse_body_framing (take i (unread s)) = Inr f"
  shows "\<exists>st. do_streaming_request rd wr fl raw s = Inr (code, st)"
proof -
  obtain s1 where s1: "send_request wr fl raw None s = (Inr (), s1)" using send_request_good [OF assms(2,3)] by blast
  have u: "unread s1 = unread s" using send_request_keeps [OF s1] .
  obtain buf s2 where h: "head_loop rd [] s1 = (Inr (i + 4, buf), s2)"
    using head_loop_complete [OF assms(1), of "[]" s1 i] f u by auto
  then have i: "find_sub BLANK buf = Some i" "buf @ unread s2 = unread s"
    using head_loop_ok [of "[]" s1 "i + 4" buf s2] u by auto
  have le: "i + 4 \<le> length buf" and blank: "take 4 (drop i buf) = BLANK" using find_sub_Some [OF i(1)] by (simp_all add: numeral_eq_Suc)
  have "take (i + 4) buf = take i (unread s) @ as_bytes blank"
    using le blank by (simp flip: i(2) add: take_add as_bytes_blank)
  then show ?thesis using s1 h head
    by (simp add: do_streaming_request_def bindE_Inr parse_status_code_blank [THEN iffD2] parse_body_framing_blank [THEN iffD2])
qed

end

section \<open>A scripted web server\<close>

record web =
  web_in :: "http_violation peer"
  web_out :: bytes

definition web_read :: "(web, http_violation) reader" where
  "web_read n w = (case peer_read n (web_in w) of (r, p) \<Rightarrow> (r, w\<lparr>web_in := p\<rparr>))"

definition web_write :: "web http_writer" where
  "web_write b w = (Inr (), w\<lparr>web_out := web_out w @ b\<rparr>)"

interpretation web: http_socket web_read "\<lambda>w. peer_unread (web_in w)" "\<lambda>w. peer_interruptions (web_in w)"
    web_write "retE ()"
  by unfold_locales (auto simp: web_read_def web_write_def retE_def dest: peer_law split: prod.splits)

text \<open>The socket of the unit tests: a byte string to read, and writes that succeed.\<close>

interpretation cursor: http_socket slice_read "\<lambda>s. s" "\<lambda>_. 0" "\<lambda>b s. (Inr (), s)" "retE ()"
  by unfold_locales (auto simp: retE_def)

definition demo_chunk :: chunk where
  "demo_chunk = \<lparr>extension = as_bytes '';a=b'', data = as_bytes ''Wiki''\<rparr>"

definition demo_trailer :: bytes where
  "demo_trailer = as_bytes ''X: y''"

definition demo_head :: str where
  "demo_head = ''HTTP/1.1 200 OK'' @ crlf @ ''content-length: 2''"

definition demo_response :: bytes where
  "demo_response = as_bytes (demo_head @ blank @ ''hi'')"

lemma demo_chunk_ok: "list_all chunk_ok [demo_chunk]" "trailers_ok [demo_trailer]"
  by (simp_all add: chunk_ok_def demo_chunk_def extension_ok_def size_line_def show_hex.simps Let_def as_bytes_def
      byte_of_char_def MAX_METADATA_BYTES_def trailers_ok_def demo_trailer_def encode_trailers_def)

text \<open>On ASCII text the byte functions are the text functions.\<close>

lemma find_sub_as_bytes: "find_sub (as_bytes p) (as_bytes t) = find_sub p t"
proof (induction t)
  case Nil
  then show ?case by (simp add: as_bytes_def)
next
  case (Cons c t)
  have "take (length p) (as_bytes (c # t)) = as_bytes (take (length p) (c # t))" by (simp only: as_bytes_def take_map)
  moreover have "as_bytes (c # t) = byte_of_char c # as_bytes t" by (simp add: as_bytes_def)
  ultimately show ?case using Cons by (metis (no_types) as_bytes_inject find_sub.simps(2) length_as_bytes)
qed

lemma as_bytes_ascii: "list_all (\<lambda>c. char_code c < 128) t \<Longrightarrow> \<forall>b \<in> set (as_bytes t). unat b < 0x80"
  by (auto simp: as_bytes_def byte_of_char_def char_code_def list_all_iff)

lemma ascii_text:
  assumes "list_all (\<lambda>c. char_code c < 128) t"
  shows "from_utf8_lossy (as_bytes t) = t" and "from_utf8 (as_bytes t) = Some t"
  using utf8_lossy_ascii [OF as_bytes_ascii [OF assms]] utf8_valid_ascii [OF as_bytes_ascii [OF assms]]
  by (simp_all add: from_utf8_lossy_def from_utf8_def)

lemma demo_head_text:
  "list_all (\<lambda>c. char_code c < 128) demo_head" "find_sub blank (demo_head @ blank @ ''hi'') = Some 34"
  "length demo_head = 34" "take 34 (demo_head @ blank @ ''hi'') = demo_head"
  "drop 38 (demo_head @ blank @ ''hi'') = ''hi''"
  by (simp_all add: demo_head_def char_code_def)

lemma demo_head_lines: "str_lines demo_head = [''HTTP/1.1 200 OK'', ''content-length: 2'']"
  by code_simp

lemma demo_status: "split_whitespace ''HTTP/1.1 200 OK'' = [''HTTP/1.1'', ''200'', ''OK'']"
  by code_simp

lemma demo_field: "split_once CHR '':'' ''content-length: 2'' = Some (''content-length'', '' 2'')"
  "trim ''content-length'' = ''content-length''" "trim '' 2'' = ''2''"
  "eq_ignore_ascii_case ''content-length'' ''content-length''"
  "\<not> eq_ignore_ascii_case ''content-length'' ''transfer-encoding''"
  by code_simp+

lemma demo_numbers: "parse_uint 65536 ''200'' = Some 200" "parse_uint 18446744073709551616 ''2'' = Some 2"
  by (simp_all add: parse_uint_def digit_val_def)

lemma demo_response_head:
  "find_sub BLANK demo_response = Some 34" "take 34 demo_response = as_bytes demo_head"
  "drop 38 demo_response = as_bytes ''hi''" "length demo_response = 40"
proof -
  show "find_sub BLANK demo_response = Some 34"
    using find_sub_as_bytes [of blank "demo_head @ blank @ ''hi''"] demo_head_text(2)
    by (simp add: demo_response_def as_bytes_blank)
  show "take 34 demo_response = as_bytes demo_head" "drop 38 demo_response = as_bytes ''hi''"
    unfolding demo_response_def as_bytes_def take_map drop_map demo_head_text(4,5) by (rule refl)+
  show "length demo_response = 40" using demo_head_text(3) by (simp add: demo_response_def)
qed

lemma demo_response_of: "response_of demo_response = Some (200, as_bytes ''hi'')"
proof -
  have "parse_status_code (as_bytes demo_head) = Inr 200"
    using ascii_text [OF demo_head_text(1)] demo_head_lines demo_status demo_numbers by (simp add: parse_status_code_def)
  moreover have "parse_body_framing (as_bytes demo_head) = Inr (Length_Framing 2)"
    using ascii_text [OF demo_head_text(1)] demo_head_lines demo_field demo_numbers
    by (simp add: parse_body_framing_def Let_def)
  ultimately show ?thesis using demo_response_head by (simp add: response_of_def body_of_def as_bytes_def)
qed

section \<open>Properties\<close>

text \<open>C24: \<open>ChunkedReader\<close> implements the chunked transfer coding. Over any reader, whatever the sizes
  of its reads and the caller's buffers and however often it is interrupted, reading a chunked
  body to the end returns; the result is the decoded body or the format error of the bytes
  that arrive, and what is buffered or still to come is what follows the body; or the reader
  itself failed.
\<close>

theorem chunked_reader_refines:
  assumes "body_reader rd unread interruptions"
  shows "\<exists>r c. read_to_end (chunked_read rd) sizes 0 [] (chunked_new s) = Some (r, c) \<and>
    ((r, br_buf (cr_inner c) @ unread (br_inner (cr_inner c))) = dechunk False [] (unread s) \<or>
     (\<exists>e n s s'. r = Inl e \<and> e \<noteq> Interrupted \<and> rd n s = (Inl e, s')))"
  using body_reader.chunked_body [OF assms, of sizes s]
  unfolding body_reader.cview_def [OF assms] body_reader.bview_def [OF assms] body_reader.raised_def [OF assms]
  by blast

theorem chunked_reader_refines_witness:
  "\<exists>r c. read_to_end (chunked_read slice_read) (\<lambda>i. i) 0 [] (chunked_new (encode_body [demo_chunk] [demo_trailer])) = Some (r, c) \<and>
    (r, br_buf (cr_inner c) @ br_inner (cr_inner c)) = (Inr (as_bytes ''Wiki''), [])"
  using chunked_reader_refines [OF slice.body_reader_axioms, of "\<lambda>i. i" "encode_body [demo_chunk] [demo_trailer]"]
    dechunk_encoded [OF demo_chunk_ok, of "[]" "[]"]
  by (auto simp: slice_read_def demo_chunk_def)

text \<open>C25: A chunked body arrives whole or not at all. When the bytes to come are the chunks and
  trailers of a server, each within the limit on metadata, the reader gives exactly their
  data and leaves what follows; when the connection ends anywhere before the last byte, the
  result is an error and never a shorter body.
\<close>

theorem chunked_body_roundtrip:
  assumes "body_reader rd unread interruptions" and "\<forall>n s. \<not> isl (fst (rd n s))"
    and "list_all chunk_ok cs" and "trailers_ok ts"
  shows "(unread s = encode_body cs ts @ rest \<longrightarrow>
      (\<exists>c. read_to_end (chunked_read rd) sizes 0 [] (chunked_new s) = Some (Inr (concat (map data cs)), c) \<and>
         br_buf (cr_inner c) @ unread (br_inner (cr_inner c)) = rest)) \<and>
    (encode_body cs ts = unread s @ missing \<and> missing \<noteq> [] \<longrightarrow>
      (\<exists>e c. read_to_end (chunked_read rd) sizes 0 [] (chunked_new s) = Some (Inl e, c)))"
proof -
  have quiet: "\<not> body_reader.raised rd e" for e
    using assms(2) unfolding body_reader.raised_def [OF assms(1)] by (metis fst_conv sum.disc(1))
  obtain r c where run: "read_to_end (chunked_read rd) sizes 0 [] (chunked_new s) = Some (r, c)"
    and r: "(r, br_buf (cr_inner c) @ unread (br_inner (cr_inner c))) = dechunk False [] (unread s)"
    using body_reader.chunked_body [OF assms(1), of sizes s] quiet
    unfolding body_reader.cview_def [OF assms(1)] body_reader.bview_def [OF assms(1)] by blast
  have "\<exists>e. r = Inl e" if "encode_body cs ts = unread s @ missing" "missing \<noteq> []"
  proof -
    have "dechunk False [] (unread s @ missing) = (Inr (concat (map data cs)), [])"
      using dechunk_encoded [OF assms(3,4), of "[]" "[]"] that(1) by simp
    from dechunk_truncated [OF this that(2)] show ?thesis using r by (metis fst_conv isl_def)
  qed
  then show ?thesis using run r dechunk_encoded [OF assms(3,4), of "[]" rest] by auto
qed

theorem chunked_body_roundtrip_witness:
  "(\<exists>c. read_to_end (chunked_read slice_read) (\<lambda>i. i) 0 [] (chunked_new (encode_body [demo_chunk] [demo_trailer] @ [7])) =
      Some (Inr (as_bytes ''Wiki''), c) \<and> br_buf (cr_inner c) @ br_inner (cr_inner c) = [7]) \<and>
   (\<exists>e c. read_to_end (chunked_read slice_read) (\<lambda>i. i) 0 [] (chunked_new (butlast (encode_body [demo_chunk] [demo_trailer]))) =
      Some (Inl e, c))"
proof -
  let ?all = "encode_body [demo_chunk] [demo_trailer]"
  have good: "\<forall>n s. \<not> isl (fst (slice_read n s))" by (simp add: slice_read_def)
  note rt = chunked_body_roundtrip [OF slice.body_reader_axioms good demo_chunk_ok, where sizes = "\<lambda>i. i"]
  have "?all = butlast ?all @ [last ?all]"
    by (rule append_butlast_last_id [symmetric]) (simp add: encode_body_def encode_trailers_def)
  then show ?thesis using rt [of "?all @ [7]" "[7]" "[]"] rt [of "butlast ?all" "[]" "[last ?all]"]
    by (simp add: demo_chunk_def)
qed

text \<open>A response is never made up or cut short. Whatever the socket does, the buffered request
  returns, and what it returns is the response in all the bytes received, at most a megabyte;
  reading the body of a streaming response returns too, and a body read to its end belongs to
  the response in the bytes received, complete by its length, its chunks or the close.
\<close>

lemma http_response_exact:
  assumes "http_socket rd unread interruptions wr fl"
  shows "(\<exists>r. do_request sizes rd wr fl raw body s = Some r \<and>
      (\<forall>code b. r = Inr (code, b) \<longrightarrow>
         response_of (unread s) = Some (code, b) \<and> length (unread s) \<le> MAX_RESPONSE_BODY_BYTES)) \<and>
    (\<forall>code st. do_streaming_request rd wr fl raw s = Inr (code, st) \<longrightarrow>
      (\<exists>r. body_read_to_end sizes rd st = Some r \<and>
         (\<forall>b. r = Inr b \<longrightarrow> response_of (unread s) = Some (code, b))))"
proof (intro conjI allI impI)
  show "\<exists>r. do_request sizes rd wr fl raw body s = Some r \<and>
      (\<forall>code b. r = Inr (code, b) \<longrightarrow>
         response_of (unread s) = Some (code, b) \<and> length (unread s) \<le> MAX_RESPONSE_BODY_BYTES)"
    by (rule http_socket.do_request_ok [OF assms])
next
  fix code st
  assume "do_streaming_request rd wr fl raw s = Inr (code, st)"
  then obtain i f c where h: "find_sub BLANK (unread s) = Some i" "parse_status_code (take i (unread s)) = Inr code"
    "parse_body_framing (take i (unread s)) = Inr f" "st = make_body f c"
    "ch_first c @ unread (ch_second c) = drop (i + 4) (unread s)"
    using http_socket.do_streaming_request_ok [OF assms] by metis
  have B: "body_reader rd unread interruptions" using assms by (simp add: http_socket_def)
  show "\<exists>r. body_read_to_end sizes rd st = Some r \<and> (\<forall>b. r = Inr b \<longrightarrow> response_of (unread s) = Some (code, b))"
    using body_reader.body_read_ok [OF B, of sizes f c] h unfolding response_of_iff by fastforce
qed

text \<open>C22: The two request paths agree. On a socket that does not fail, with a response of at most a
  megabyte whose head is within eight kilobytes, the buffered request returns a response
  exactly when the streaming request does and its body can be read to the end, with the same
  status and the same bytes: the response in the bytes received.
\<close>

theorem http_requests_agree:
  assumes S: "http_socket rd unread interruptions wr fl"
    and good: "\<forall>n s. \<not> isl (fst (rd n s))" "\<forall>b s. \<not> isl (fst (wr b s))" "\<forall>s. \<not> isl (fst (fl s))"
    and size: "length (unread s) \<le> MAX_RESPONSE_BODY_BYTES"
    and head: "\<forall>i. find_sub BLANK (unread s) = Some i \<longrightarrow> i + 4 \<le> MAX_RESPONSE_HEADER_BYTES"
  shows "(do_request sizes rd wr fl raw None s = Some (Inr (code, b)) \<longleftrightarrow> response_of (unread s) = Some (code, b)) \<and>
    ((\<exists>st. do_streaming_request rd wr fl raw s = Inr (code, st) \<and> body_read_to_end sizes' rd st = Some (Inr b)) \<longleftrightarrow>
       response_of (unread s) = Some (code, b))"
proof -
  have B: "body_reader rd unread interruptions" using S by (simp add: http_socket_def)
  have quiet: "\<not> body_reader.raised rd e" for e
    using good(1) unfolding body_reader.raised_def [OF B] by (metis fst_conv sum.disc(1))
  have "do_request sizes rd wr fl raw None s = Some (Inr (code, b)) \<longleftrightarrow> response_of (unread s) = Some (code, b)"
  proof
    assume "do_request sizes rd wr fl raw None s = Some (Inr (code, b))"
    then show "response_of (unread s) = Some (code, b)"
      using http_socket.do_request_ok [OF S, of sizes raw None s] by fastforce
  next
    assume "response_of (unread s) = Some (code, b)"
    then show "do_request sizes rd wr fl raw None s = Some (Inr (code, b))"
      by (intro http_socket.do_request_complete [OF S] good [rule_format] size)
  qed
  moreover have "response_of (unread s) = Some (code, b)"
    if st: "do_streaming_request rd wr fl raw s = Inr (code, st)" "body_read_to_end sizes' rd st = Some (Inr b)" for st
  proof -
    obtain i f c where h: "find_sub BLANK (unread s) = Some i" "parse_status_code (take i (unread s)) = Inr code"
      "parse_body_framing (take i (unread s)) = Inr f" "st = make_body f c"
      "ch_first c @ unread (ch_second c) = drop (i + 4) (unread s)"
      using http_socket.do_streaming_request_ok [OF S st(1)] by metis
    then show ?thesis using body_reader.body_read_ok [OF B, of sizes' f c] st(2) unfolding response_of_iff by fastforce
  qed
  moreover have "\<exists>st. do_streaming_request rd wr fl raw s = Inr (code, st) \<and> body_read_to_end sizes' rd st = Some (Inr b)"
    if r: "response_of (unread s) = Some (code, b)"
  proof -
    obtain i f where i: "find_sub BLANK (unread s) = Some i" "parse_status_code (take i (unread s)) = Inr code"
      "parse_body_framing (take i (unread s)) = Inr f" "body_of f (drop (i + 4) (unread s)) = Some b"
      using r unfolding response_of_iff by blast
    obtain st where st: "do_streaming_request rd wr fl raw s = Inr (code, st)"
      using http_socket.do_streaming_request_complete [OF S good [rule_format] i(1) _ i(2,3)] head i(1) by blast
    then obtain f' c where h: "parse_body_framing (take i (unread s)) = Inr f'" "st = make_body f' c"
      "ch_first c @ unread (ch_second c) = drop (i + 4) (unread s)"
      using http_socket.do_streaming_request_ok [OF S st] i(1) by auto
    have "f' = f" using h(1) i(3) by simp
    then obtain r' where r': "body_read_to_end sizes' rd st = Some r'" "\<forall>b'. r' = Inr b' \<longrightarrow> b' = b" "\<forall>e. r' \<noteq> Inl e"
      using body_reader.body_read_ok [OF B, of sizes' f c] h(2,3) quiet i(4) by fastforce
    then have "r' = Inr b" by (cases r') auto
    then show ?thesis using r'(1) st by blast
  qed
  ultimately show ?thesis by blast
qed

theorem http_requests_agree_witness:
  "do_request (\<lambda>i. i) slice_read (\<lambda>b s. (Inr (), s)) (retE ()) ''GET / HTTP/1.1'' None demo_response =
     Some (Inr (200, as_bytes ''hi'')) \<and>
   (\<exists>st. do_streaming_request slice_read (\<lambda>b s. (Inr (), s)) (retE ()) ''GET / HTTP/1.1'' demo_response = Inr (200, st) \<and>
      body_read_to_end (\<lambda>i. i) slice_read st = Some (Inr (as_bytes ''hi'')))"
proof -
  have "\<forall>n s. \<not> isl (fst (slice_read n s))" by (simp add: slice_read_def)
  moreover have "length demo_response \<le> MAX_RESPONSE_BODY_BYTES" "34 + 4 \<le> MAX_RESPONSE_HEADER_BYTES"
    by (simp_all add: demo_response_head MAX_RESPONSE_BODY_BYTES_def MAX_RESPONSE_HEADER_BYTES_def)
  ultimately show ?thesis
    using http_requests_agree [OF cursor.http_socket_axioms, of demo_response "\<lambda>i. i" "''GET / HTTP/1.1''" 200 "as_bytes ''hi''" "\<lambda>i. i"]
      demo_response_of demo_response_head by simp
qed

end
