(* ===== verification/Http_Execute.thy ===== *)
theory Http_Execute
  imports Http_Properties
begin

text \<open>
  The HTTP client as its callers see it: \<open>EspHttpClient::execute\<close> and \<open>execute_streaming\<close>, from the URL
  to the response.
\<close>

section \<open>From the URL to the stream\<close>

text \<open>
  The stream a request is made on: the URL's own parts, the head built from them, a connection to the
  host (over TLS exactly for the secure schemes), and its timeouts set.
\<close>

definition dialled ::
  "bool \<Rightarrow> ('addr, 's) net \<Rightarrow> bool \<Rightarrow> http_request \<Rightarrow> bytes option \<Rightarrow> str \<Rightarrow> 's \<Rightarrow> bool" where
  "dialled qemu nw skip_tls_verify rq body raw s \<longleftrightarrow>
     (\<exists>scheme tls host port path stream.
        (scheme, tls) \<in> set schemes \<and> strip_prefix scheme (rq_url rq) \<noteq> None \<and>
        parse_url (rq_url rq) = Inr (host, port, path, tls) \<and>
        build_raw_request (rq_method rq) path host (rq_headers rq) body = Inr raw \<and>
        (if tls then tls_connect nw (qemu_host qemu host) port skip_tls_verify = Inr stream
         else connect_tcp nw (qemu_host qemu host) port = Inr stream) \<and>
        set_timeouts nw stream = Inr s)"

lemma parse_url_scheme:
  assumes "parse_url url = Inr (host, port, path, tls)"
  shows "\<exists>scheme. (scheme, tls) \<in> set schemes \<and> strip_prefix scheme url \<noteq> None"
proof -
  obtain scheme rest where "(scheme, tls) \<in> set schemes" "url = scheme @ rest"
    using assms unfolding parse_url_exact by blast
  then show ?thesis by (auto simp: strip_prefix_def)
qed

lemma connect_stream_dialled:
  assumes "parse_url (rq_url rq) = Inr (host, port, path, tls)"
    and "build_raw_request (rq_method rq) path host (rq_headers rq) body = Inr raw"
    and "connect_stream nw (qemu_host qemu host) port tls skip = Inr s"
  shows "dialled qemu nw skip rq body raw s"
proof -
  obtain stream where "if tls then tls_connect nw (qemu_host qemu host) port skip = Inr stream
      else connect_tcp nw (qemu_host qemu host) port = Inr stream" and "set_timeouts nw stream = Inr s"
    using assms(3) by (auto simp: connect_stream_def map_sum_def split: if_splits sum.splits)
  then show ?thesis
    using assms(1,2) parse_url_scheme [OF assms(1)] unfolding dialled_def by blast
qed

text \<open>Every execution is a refusal that never looks at the network, a failed connection, or a request on a dialled stream.\<close>

definition refused :: "http_request \<Rightarrow> bytes option \<Rightarrow> bool" where
  "refused rq body \<longleftrightarrow>
     (case parse_url (rq_url rq) of
        Inl _ \<Rightarrow> True
      | Inr (host, _, path, _) \<Rightarrow> isl (build_raw_request (rq_method rq) path host (rq_headers rq) body))"

lemma execute_cases:
  obtains (low) "free < MIN_HEAP_FOR_BUFFERED_FETCH"
      "execute qemu nw sizes rd wr fl skip free rq = Some (Inl (Client_Http Heap_Too_Low))"
  | (bad) e where "refused rq (rq_body rq)" "execute qemu nw sizes rd wr fl skip free rq = Some (Inl (Client_Http e))"
  | (unconnected) e where "execute qemu nw sizes rd wr fl skip free rq = Some (Inl (Client_Connect e))"
  | (dialled) raw s where "MIN_HEAP_FOR_BUFFERED_FETCH \<le> free" "dialled qemu nw skip rq (rq_body rq) raw s"
      "execute qemu nw sizes rd wr fl skip free rq =
         map_option (map_sum Client_Http id) (do_request sizes rd wr fl raw (rq_body rq) s)"
proof (cases "free < MIN_HEAP_FOR_BUFFERED_FETCH")
  case True
  then show ?thesis by (intro low) (simp_all add: execute_def)
next
  case free: False
  show ?thesis
  proof (cases "parse_url (rq_url rq)")
    case (Inl e)
    then show ?thesis using free by (intro bad [of e]) (simp_all add: refused_def execute_def)
  next
    case (Inr parts)
    obtain host port path tls where url: "parse_url (rq_url rq) = Inr (host, port, path, tls)"
      using Inr by (cases parts) auto
    show ?thesis
    proof (cases "build_raw_request (rq_method rq) path host (rq_headers rq) (rq_body rq)")
      case (Inl e)
      then show ?thesis using free url by (intro bad [of e]) (simp_all add: refused_def execute_def)
    next
      case (Inr raw)
      show ?thesis
      proof (cases "connect_stream nw (qemu_host qemu host) port tls skip")
        case (Inl e)
        then show ?thesis using free url Inr by (intro unconnected [of e]) (simp add: execute_def)
      next
        case (Inr s)
        then show ?thesis
          using free url \<open>build_raw_request _ _ _ _ _ = Inr raw\<close> connect_stream_dialled [OF url]
          by (intro dialled [of raw s]) (simp_all add: execute_def)
      qed
    qed
  qed
qed

lemma execute_streaming_Inr:
  assumes "execute_streaming qemu nw rd wr fl skip rq = Inr (code, st)"
  obtains raw s where "dialled qemu nw skip rq None raw s" "do_streaming_request rd wr fl raw s = Inr (code, st)"
proof -
  obtain host port path tls raw s where "parse_url (rq_url rq) = Inr (host, port, path, tls)"
    "build_raw_request (rq_method rq) path host (rq_headers rq) None = Inr raw"
    "connect_stream nw (qemu_host qemu host) port tls skip = Inr s" "do_streaming_request rd wr fl raw s = Inr (code, st)"
    using assms by (auto simp: execute_streaming_def map_sum_def split: sum.splits prod.splits)
  then show thesis by (intro that [OF connect_stream_dialled])
qed

lemma execute_refused:
  assumes "free < MIN_HEAP_FOR_BUFFERED_FETCH \<or> refused rq (rq_body rq)"
  shows "\<exists>e. \<forall>(nw :: ('addr, 's) net) rd wr fl.
    execute qemu nw sizes rd wr fl skip free rq = Some (Inl (Client_Http e))"
proof (cases "free < MIN_HEAP_FOR_BUFFERED_FETCH")
  case True
  then show ?thesis by (simp add: execute_def)
next
  case False
  then have refused: "refused rq (rq_body rq)" using assms by simp
  show ?thesis
  proof (cases "parse_url (rq_url rq)")
    case (Inl e)
    then show ?thesis by (simp add: execute_def False)
  next
    case (Inr parts)
    obtain host port path tls where "parts = (host, port, path, tls)" by (cases parts)
    moreover from this obtain e where "build_raw_request (rq_method rq) path host (rq_headers rq) (rq_body rq) = Inl e"
      using refused Inr by (auto simp: refused_def isl_def)
    ultimately show ?thesis using Inr by (simp add: execute_def False)
  qed
qed

section \<open>Properties\<close>


text \<open>A network with one TLS server, whose answer is already there.\<close>

definition demo_net :: "(unit, bytes) net" where
  "demo_net = \<lparr>to_socket_addrs = \<lambda>_. Inr [], dial = \<lambda>_. Inr [], tls_connect = \<lambda>_ _ _. Inr demo_response,
     set_timeouts = Inr\<rparr>"

definition demo_fetch :: http_request where
  "demo_fetch = \<lparr>rq_url = ''https://x/'', rq_method = ''GET'', rq_headers = [], rq_body = None\<rparr>"


end
