(* ===== verification/Send_Admission.thy ===== *)
theory Send_Admission
  imports Esp_Prelude
begin

text \<open>
  \<open>src/admin/send_admission.rs\<close> and the two waiting phases of \<open>wait_for_send_admission\<close> in
  \<open>src/admin.rs\<close>: a dashboard send on a board without PSRAM first waits for a quiet second of
  the client, for five seconds at most, and then queues for the memory gate until it gets the
  permit or is cancelled. An \<open>Instant\<close> is a number of nanoseconds; \<open>duration_since\<close> saturates
  at zero, as the subtraction of naturals does. The loops may wait for ever, so they are partial
  functions over what they observe in each round.
\<close>

section \<open>The quiet period\<close>

definition from_secs :: "nat \<Rightarrow> nat" where "from_secs s = s * 1000000000"
definition from_millis :: "nat \<Rightarrow> nat" where "from_millis m = m * 1000000"

record quiet_period =
  qp_started :: nat
  quiet_since :: "nat option"

definition quiet_new :: "nat \<Rightarrow> quiet_period" where
  "quiet_new started = \<lparr>qp_started = started, quiet_since = None\<rparr>"

definition ready :: "nat \<Rightarrow> bool \<Rightarrow> quiet_period \<Rightarrow> bool \<times> quiet_period" where
  "ready now quiet q =
     (if now - qp_started q \<ge> from_secs 5 then (True, q)
      else if quiet then
        let since = (case quiet_since q of None \<Rightarrow> now | Some t \<Rightarrow> t)
        in (now - since \<ge> from_secs 1, q\<lparr>quiet_since := Some since\<rparr>)
      else (False, q\<lparr>quiet_since := None\<rparr>))"

text \<open>What the client's \<open>memory_report\<close> says of work in progress.\<close>

record memory_report =
  response_waiters :: nat
  app_state_syncing :: nat
  inbound_chat_charged_bytes :: nat

definition report_quiet :: "memory_report \<Rightarrow> bool" where
  "report_quiet r \<longleftrightarrow>
     response_waiters r = 0 \<and> app_state_syncing r = 0 \<and> inbound_chat_charged_bytes r = 0"

datatype 'e admission_error = Admission_Unavailable | Send_Cancelled | Timer_Error 'e

text \<open>
  What round \<open>i\<close> of the loop observes: whether the send is cancelled (abandoned, or the client
  logged out), the report, the clock, and how the 100 ms timer ends.
\<close>

record 'e admission_rounds =
  at_cancelled :: "nat \<Rightarrow> bool"
  at_report :: "nat \<Rightarrow> memory_report"
  at_now :: "nat \<Rightarrow> nat"
  at_tick :: "nat \<Rightarrow> 'e + unit"

partial_function (option) quiet_loop ::
  "'e admission_rounds \<Rightarrow> nat \<Rightarrow> quiet_period \<Rightarrow> ('e admission_error + unit) option" where
  "quiet_loop env i q =
     (if at_cancelled env i then Some (Inl Send_Cancelled)
      else
        let (done_waiting, q') = ready (at_now env i) (report_quiet (at_report env i)) q in
        if done_waiting then Some (Inr ())
        else case at_tick env i of
               Inl e \<Rightarrow> Some (Inl (Timer_Error e))
             | Inr _ \<Rightarrow> quiet_loop env (Suc i) q')"

declare quiet_loop.simps [code]

section \<open>The queue for the gate\<close>

text \<open>
  How \<open>select(acquire, ticks.next())\<close> ends. The acquisition is polled first, and it stays
  queued when a tick wins.
\<close>

datatype ('t, 'e) wake = Acquired 't | Tick "'e + unit" | Ticks_Ended

text \<open>One round after the wake-up: a result, or another round.\<close>

definition acquire_woken :: "('t, 'e) wake \<Rightarrow> bool \<Rightarrow> ('e + 't option) option" where
  "acquire_woken w cancelled =
     (case w of
        Acquired permit \<Rightarrow> Some (Inr (if \<not> cancelled then Some permit else None))
      | Tick (Inl e) \<Rightarrow> Some (Inl e)
      | Tick (Inr _) \<Rightarrow> None
      | Ticks_Ended \<Rightarrow> Some (Inr None))"

text \<open>
  \<open>cancelled\<close> is asked before round \<open>i\<close> and again once a permit is there.
\<close>

partial_function (option) acquire_cancellable ::
  "(nat \<Rightarrow> bool) \<Rightarrow> (nat \<Rightarrow> bool) \<Rightarrow> (nat \<Rightarrow> ('t, 'e) wake) \<Rightarrow> nat \<Rightarrow> ('e + 't option) option" where
  "acquire_cancellable cancelled cancelled_then wakes i =
     (if cancelled i then Some (Inr None)
      else case acquire_woken (wakes i) (cancelled_then i) of
             Some r \<Rightarrow> Some r
           | None \<Rightarrow> acquire_cancellable cancelled cancelled_then wakes (Suc i))"

declare acquire_cancellable.simps [code]

section \<open>When the quiet period ends\<close>

text \<open>The quiet period at the head of round \<open>i\<close>, if the loop gets there.\<close>

primrec quiet_at :: "(nat \<Rightarrow> nat) \<Rightarrow> (nat \<Rightarrow> bool) \<Rightarrow> nat \<Rightarrow> nat \<Rightarrow> quiet_period" where
  "quiet_at now quiet t0 0 = quiet_new t0"
| "quiet_at now quiet t0 (Suc i) = snd (ready (now i) (quiet i) (quiet_at now quiet t0 i))"

lemma ready_started [simp]: "qp_started (snd (ready t b q)) = qp_started q"
  by (simp add: ready_def Let_def)

lemma quiet_at_started [simp]: "qp_started (quiet_at now quiet t0 i) = t0"
  by (induction i) (simp_all add: quiet_new_def)

text \<open>All rounds from \<open>j\<close> up to, but not including, \<open>i\<close> were quiet.\<close>

definition quiet_run :: "(nat \<Rightarrow> bool) \<Rightarrow> nat \<Rightarrow> nat \<Rightarrow> bool" where
  "quiet_run quiet j i \<longleftrightarrow> (\<forall>k. j \<le> k \<longrightarrow> k < i \<longrightarrow> quiet k)"

lemma quiet_run_Suc: "j \<le> i \<Longrightarrow> quiet_run quiet j (Suc i) \<longleftrightarrow> quiet_run quiet j i \<and> quiet i"
  by (auto simp: quiet_run_def less_Suc_eq)

text \<open>\<open>quiet_since\<close> is the time of the first round of the quiet rounds that just passed.\<close>

definition since_ok :: "(nat \<Rightarrow> nat) \<Rightarrow> (nat \<Rightarrow> bool) \<Rightarrow> nat \<Rightarrow> nat option \<Rightarrow> bool" where
  "since_ok now quiet i s \<longleftrightarrow>
     (case s of
        None \<Rightarrow> \<forall>j<i. \<not> quiet_run quiet j i
      | Some t \<Rightarrow> (\<exists>j<i. quiet_run quiet j i \<and> t = now j) \<and> (\<forall>j<i. quiet_run quiet j i \<longrightarrow> t \<le> now j))"

lemma since_ok_step:
  assumes "mono now" and "since_ok now quiet i (quiet_since q)" and "now i - qp_started q < from_secs 5"
  shows "since_ok now quiet (Suc i) (quiet_since (snd (ready (now i) (quiet i) q)))"
proof (cases "quiet i")
  case False
  then show ?thesis using assms(3) by (auto simp: since_ok_def ready_def quiet_run_Suc less_Suc_eq_le)
next
  case True
  have le: "j \<le> i \<Longrightarrow> now j \<le> now i" for j using assms(1) by (rule monoD)
  show ?thesis
  proof (cases "quiet_since q")
    case None
    then have no: "\<forall>j<i. \<not> quiet_run quiet j i" using assms(2) by (simp add: since_ok_def)
    have "quiet_run quiet i (Suc i)" using True by (auto simp: quiet_run_def less_Suc_eq)
    then show ?thesis
      using None True no assms(3)
      by (auto simp: since_ok_def ready_def Let_def quiet_run_Suc less_Suc_eq)
  next
    case (Some t)
    then obtain j where j: "j < i" "quiet_run quiet j i" "t = now j"
      and least: "\<forall>j<i. quiet_run quiet j i \<longrightarrow> t \<le> now j"
      using assms(2) by (auto simp: since_ok_def)
    have "quiet_run quiet j (Suc i)" using j True by (simp add: quiet_run_Suc)
    then show ?thesis
      using Some True j(1,3) least le assms(3)
      by (auto simp: since_ok_def ready_def Let_def quiet_run_Suc less_Suc_eq intro!: exI [of _ j])
  qed
qed

lemma quiet_at_since:
  assumes "mono now" and "0 < i \<Longrightarrow> now (i - 1) - t0 < from_secs 5"
  shows "since_ok now quiet i (quiet_since (quiet_at now quiet t0 i))"
  using assms(2)
proof (induction i)
  case 0
  then show ?case by (simp add: since_ok_def quiet_new_def)
next
  case (Suc i)
  have "0 < i \<Longrightarrow> now (i - 1) - t0 < from_secs 5"
    using Suc.prems monoD [OF assms(1), of "i - 1" i] by auto
  then show ?case using Suc since_ok_step [OF assms(1), of quiet i "quiet_at now quiet t0 i"] by simp
qed

text \<open>The reference: five seconds since the start, or a second of quiet rounds up to this one.\<close>

definition quiet_enough :: "(nat \<Rightarrow> nat) \<Rightarrow> (nat \<Rightarrow> bool) \<Rightarrow> nat \<Rightarrow> nat \<Rightarrow> bool" where
  "quiet_enough now quiet t0 i \<longleftrightarrow>
     now i - t0 \<ge> from_secs 5 \<or> (\<exists>j\<le>i. quiet_run quiet j (Suc i) \<and> now i - now j \<ge> from_secs 1)"

lemma ready_exact:
  assumes "mono now"
  shows "fst (ready (now i) (quiet i) (quiet_at now quiet t0 i)) \<longleftrightarrow> quiet_enough now quiet t0 i"
proof (cases "now i - t0 \<ge> from_secs 5")
  case True
  then show ?thesis by (simp add: quiet_enough_def ready_def)
next
  case False
  have "now (i - 1) - t0 < from_secs 5" using False monoD [OF assms, of "i - 1" i] by simp
  then have "since_ok now quiet i (quiet_since (quiet_at now quiet t0 i))"
    by (rule quiet_at_since [OF assms])
  then have "since_ok now quiet (Suc i) (quiet_since (snd (ready (now i) (quiet i) (quiet_at now quiet t0 i))))"
    by (rule since_ok_step [OF assms]) (use False in simp)
  then show ?thesis
    using False
    by (auto simp: ready_def Let_def since_ok_def quiet_enough_def quiet_run_Suc from_secs_def
        less_Suc_eq_le split: if_splits option.splits)
qed

section \<open>The waits end\<close>

abbreviation env_quiet :: "'e admission_rounds \<Rightarrow> nat \<Rightarrow> bool" where
  "env_quiet env i \<equiv> report_quiet (at_report env i)"

text \<open>What ends the first loop in round \<open>i\<close>, and with which result.\<close>

definition round_ends :: "'e admission_rounds \<Rightarrow> nat \<Rightarrow> nat \<Rightarrow> bool" where
  "round_ends env t0 i \<longleftrightarrow>
     at_cancelled env i \<or> quiet_enough (at_now env) (env_quiet env) t0 i \<or> isl (at_tick env i)"

definition round_result :: "'e admission_rounds \<Rightarrow> nat \<Rightarrow> nat \<Rightarrow> 'e admission_error + unit" where
  "round_result env t0 i =
     (if at_cancelled env i then Inl Send_Cancelled
      else if quiet_enough (at_now env) (env_quiet env) t0 i then Inr ()
      else Inl (Timer_Error (projl (at_tick env i))))"

lemma quiet_loop_round:
  assumes "mono (at_now env)"
  shows "quiet_loop env i (quiet_at (at_now env) (env_quiet env) t0 i) =
     (if round_ends env t0 i then Some (round_result env t0 i)
      else quiet_loop env (Suc i) (quiet_at (at_now env) (env_quiet env) t0 (Suc i)))"
  using ready_exact [OF assms, of i "env_quiet env" t0]
  by (subst quiet_loop.simps)
    (auto simp: round_ends_def round_result_def split: prod.splits sum.splits)

lemma quiet_loop_first:
  assumes "mono (at_now env)" and "\<And>j. i \<le> j \<Longrightarrow> j < n \<Longrightarrow> \<not> round_ends env t0 j" and "round_ends env t0 n" and "i \<le> n"
  shows "quiet_loop env i (quiet_at (at_now env) (env_quiet env) t0 i) = Some (round_result env t0 n)"
  using assms(4,2)
proof (induction i rule: inc_induct)
  case base
  show ?case using assms(3) by (subst quiet_loop_round [OF assms(1)]) (rule if_P)
next
  case (step i)
  have "\<not> round_ends env t0 i" using step.hyps step.prems by simp
  moreover have "quiet_loop env (Suc i) (quiet_at (at_now env) (env_quiet env) t0 (Suc i)) =
      Some (round_result env t0 n)"
    by (rule step.IH) (use step.prems in simp)
  ultimately show ?case by (subst quiet_loop_round [OF assms(1)]) (simp only: if_False)
qed

lemma clock_advances:
  assumes "\<And>i. now i + from_millis 100 \<le> now (Suc i)"
  shows "now 0 + i * from_millis 100 \<le> now i"
proof (induction i)
  case (Suc i)
  then show ?case using assms [of i] by simp
qed simp

lemma ticking_mono: "(\<And>i. now i + from_millis 100 \<le> now (Suc i)) \<Longrightarrow> mono now"
  by (rule mono_iff_le_Suc [THEN iffD2]) (meson add_leD1)

lemma acquire_cases:
  assumes "cancelled n \<or> (\<exists>p. wakes n = Acquired p)" and "i \<le> n"
  shows "\<exists>r. acquire_cancellable cancelled cancelled_then wakes i = Some r"
  using assms(2)
proof (induction i rule: inc_induct)
  case base
  then show ?case
    using assms(1) by (subst acquire_cancellable.simps) (auto simp: acquire_woken_def)
next
  case (step i)
  then show ?case by (subst acquire_cancellable.simps) (auto split: option.splits)
qed

lemma acquire_permit:
  assumes "acquire_cancellable cancelled cancelled_then wakes i = Some (Inr (Some p))"
  shows "\<exists>k\<ge>i. wakes k = Acquired p \<and> \<not> cancelled_then k \<and> (\<forall>j. i \<le> j \<longrightarrow> j \<le> k \<longrightarrow> \<not> cancelled j)"
proof -
  have "\<forall>p. r = Inr (Some p) \<longrightarrow>
      (\<exists>k\<ge>i. wakes k = Acquired p \<and> \<not> cancelled_then k \<and> (\<forall>j. i \<le> j \<longrightarrow> j \<le> k \<longrightarrow> \<not> cancelled j))"
    if "acquire_cancellable cancelled cancelled_then wakes i = Some r" for r
    using that
  proof (induction rule: acquire_cancellable.raw_induct [rotated, consumes 1])
    case (1 acquire cancelled cancelled_then wakes i r)
    show ?case
    proof (intro allI impI)
      fix p assume r: "r = Inr (Some p)"
      show "\<exists>k\<ge>i. wakes k = Acquired p \<and> \<not> cancelled_then k \<and> (\<forall>j. i \<le> j \<longrightarrow> j \<le> k \<longrightarrow> \<not> cancelled j)"
      proof (cases "acquire_woken (wakes i) (cancelled_then i)")
        case None
        then have "\<not> cancelled i" "acquire cancelled cancelled_then wakes (Suc i) = Some r"
          using 1(2) r by (auto split: if_splits)
        then obtain k where "k \<ge> Suc i" "wakes k = Acquired p" "\<not> cancelled_then k"
          "\<forall>j. Suc i \<le> j \<longrightarrow> j \<le> k \<longrightarrow> \<not> cancelled j"
          using 1(1) r by blast
        then show ?thesis
          using \<open>\<not> cancelled i\<close> by (metis Suc_leD Suc_leI le_neq_implies_less)
      next
        case (Some r')
        then have "wakes i = Acquired p" "\<not> cancelled_then i" "\<not> cancelled i"
          using 1(2) r by (auto simp: acquire_woken_def split: if_splits wake.splits sum.splits)
        then show ?thesis by (metis order_antisym order_refl)
      qed
    qed
  qed
  then show ?thesis using assms by blast
qed

text \<open>C36: a dashboard send does not wait for ever. If every timer round takes its 100 ms, the
wait for a quiet client ends by its 51st round, and it ends in the first round in which the send
is cancelled, five seconds have passed, the client has been quiet in every round for one second,
or the timer fails, with the result for that cause. The queue for the memory gate ends as soon
as the send is cancelled or the gate is free, and a permit is handed on only if the send was not
cancelled in any round, nor when the permit arrived.\<close>

theorem admission_wait_ends:
  assumes "\<And>i. at_now env i + from_millis 100 \<le> at_now env (Suc i)" and "t0 \<le> at_now env 0"
    and "cancelled n \<or> (\<exists>p. wakes n = Acquired p)"
  shows "(\<exists>i\<le>50. quiet_loop env 0 (quiet_new t0) = Some (round_result env t0 i) \<and>
            round_ends env t0 i \<and> (\<forall>j<i. \<not> round_ends env t0 j)) \<and>
     (\<exists>r. acquire_cancellable cancelled cancelled_then wakes 0 = Some r \<and>
        (\<forall>p. r = Inr (Some p) \<longrightarrow>
           (\<exists>k. wakes k = Acquired p \<and> \<not> cancelled_then k \<and> (\<forall>j\<le>k. \<not> cancelled j))))"
proof
  have "at_now env 0 + 50 * from_millis 100 \<le> at_now env 50"
    by (rule clock_advances) (rule assms(1))
  then have "at_now env 50 - t0 \<ge> from_secs 5"
    using assms(2) by (simp add: from_secs_def from_millis_def)
  then have "quiet_enough (at_now env) (env_quiet env) t0 50"
    unfolding quiet_enough_def by (rule disjI1)
  then have ends: "round_ends env t0 50" by (simp add: round_ends_def)
  define i where "i = Least (round_ends env t0)"
  have i: "round_ends env t0 i" "i \<le> 50" "\<And>j. j < i \<Longrightarrow> \<not> round_ends env t0 j"
    unfolding i_def
    by (fact LeastI [of "round_ends env t0", OF ends], fact Least_le [of "round_ends env t0", OF ends])
      (fact not_less_Least)
  have "quiet_loop env 0 (quiet_at (at_now env) (env_quiet env) t0 0) = Some (round_result env t0 i)"
    by (rule quiet_loop_first [OF ticking_mono [of "at_now env", OF assms(1)]]) (use i in simp_all)
  then have "quiet_loop env 0 (quiet_new t0) = Some (round_result env t0 i)" by simp
  then show "\<exists>i\<le>50. quiet_loop env 0 (quiet_new t0) = Some (round_result env t0 i) \<and>
      round_ends env t0 i \<and> (\<forall>j<i. \<not> round_ends env t0 j)"
    using i by blast
  obtain r where r: "acquire_cancellable cancelled cancelled_then wakes 0 = Some r"
    using acquire_cases [of cancelled n wakes 0 cancelled_then, OF assms(3)] by auto
  show "\<exists>r. acquire_cancellable cancelled cancelled_then wakes 0 = Some r \<and>
        (\<forall>p. r = Inr (Some p) \<longrightarrow>
           (\<exists>k. wakes k = Acquired p \<and> \<not> cancelled_then k \<and> (\<forall>j\<le>k. \<not> cancelled j)))"
    using r acquire_permit [of cancelled cancelled_then wakes 0]
    by (intro exI [of _ r] conjI allI impI) simp_all
qed

text \<open>A client that is never quiet: the wait ends in round 50, and the gate is free in round 2.\<close>

definition busy_rounds :: "nat admission_rounds" where
  "busy_rounds = \<lparr>at_cancelled = \<lambda>_. False,
     at_report = \<lambda>_. \<lparr>response_waiters = 1, app_state_syncing = 0, inbound_chat_charged_bytes = 0\<rparr>,
     at_now = \<lambda>i. i * from_millis 100, at_tick = \<lambda>_. Inr ()\<rparr>"

definition busy_gate :: "nat \<Rightarrow> (nat, nat) wake" where
  "busy_gate i = (if i < 2 then Tick (Inr ()) else Acquired 7)"

lemma busy_rounds_end: "round_ends busy_rounds 0 i \<longleftrightarrow> 50 \<le> i"
  by (auto simp: round_ends_def busy_rounds_def quiet_enough_def report_quiet_def quiet_run_def
      from_secs_def from_millis_def)

theorem admission_wait_ends_witness:
  "quiet_loop busy_rounds 0 (quiet_new 0) = Some (Inr ()) \<and>
   (\<exists>r. acquire_cancellable (\<lambda>_. False) (\<lambda>_. False) busy_gate 0 = Some r)"
proof -
  have clock: "at_now busy_rounds i + from_millis 100 \<le> at_now busy_rounds (Suc i)" for i
    by (simp add: busy_rounds_def)
  have gate: "False \<or> (\<exists>p. busy_gate 2 = Acquired p)" by (simp add: busy_gate_def)
  obtain i where i: "i \<le> 50" "quiet_loop busy_rounds 0 (quiet_new 0) = Some (round_result busy_rounds 0 i)"
    "round_ends busy_rounds 0 i"
    using admission_wait_ends [of busy_rounds 0 "\<lambda>_. False" 2 busy_gate, OF clock _ gate] by blast
  then have "i = 50" by (simp add: busy_rounds_end)
  moreover have "quiet_enough (at_now busy_rounds) (env_quiet busy_rounds) 0 50"
    unfolding quiet_enough_def by (rule disjI1) (simp add: busy_rounds_def from_secs_def from_millis_def)
  ultimately have "round_result busy_rounds 0 i = Inr ()"
    by (simp add: round_result_def) (simp add: busy_rounds_def)
  then show ?thesis
    using i(2) admission_wait_ends [of busy_rounds 0 "\<lambda>_. False" 2 busy_gate "\<lambda>_. False", OF clock _ gate]
    by auto
qed

end
