(* ===== verification/Send_Race.thy ===== *)
theory Send_Race
  imports Maintenance Send_Admission
begin

text \<open>
  \<open>POST /send\<close> of \<open>src/admin.rs\<close> from the moment its checks have passed: the executor task that
  waits for admission and sends, and the handler thread that waits for its outcome with
  \<open>recv_timeout\<close>. Several sends can be under way (a handler that gave up leaves its task
  behind), they share the timer's lock and the memory gate, and the client logs out, reconnects
  or other users take the gate in between. Each access of a task or a handler to what they share
  is one step.
\<close>

section \<open>State\<close>

text \<open>
  Where the task stands in \<open>wait_for_send_admission\<close> and behind it. The flag says whether it
  holds a memory permit; the text of an error is what \<open>to_string\<close> gives.
\<close>

datatype send_pc =
    S_Queued
  | S_Locking
  | S_Polling quiet_period
  | S_Ticking quiet_period
  | S_Acquiring
  | S_Selecting
  | S_Woken "(unit, str) wake"
  | S_Admitted bool
  | S_Checked bool
  | S_Sending bool
  | S_Reporting bool "str + str"
  | S_Closing bool
  | S_Done

text \<open>The handler: inside \<open>recv_timeout\<close>, past its \<open>Err\<close>, or with its response written.\<close>

datatype handler_pc = H_Waiting | H_Timed_Out | H_Answered nat str

record 'j send_op =
  so_client :: client
  so_to :: str
  so_jid :: 'j
  so_text :: str
  so_pc :: send_pc
  so_handler :: handler_pc
  so_abandoned :: bool
  so_slot :: "(str + str) option"

datatype gate_user = Send_Task nat | Other_User nat

text \<open>
  \<open>sw_admission\<close> is the captured \<open>admission\<close>: \<open>None\<close> with PSRAM, otherwise whether the timer
  could be allocated. \<open>sw_calls\<close> and \<open>sw_outcomes\<close> record the calls of \<open>send_message\<close> and what
  they returned, oldest last.
\<close>

record 'j send_world =
  sw_admission :: "bool option"
  sw_ops :: "nat \<Rightarrow> 'j send_op option"
  sw_timer :: "nat option"
  sw_gate :: "gate_user option"
  sw_active :: active_client
  sw_logged_in :: "client \<Rightarrow> bool"
  sw_calls :: "(nat \<times> client \<times> 'j \<times> str) list"
  sw_outcomes :: "(nat \<times> (str + str)) list"

text \<open>What a step of a task observes outside: clock, report, timer, lock and send result.\<close>

record observation =
  ob_now :: nat
  ob_report :: memory_report
  ob_tick :: "str + unit"
  ob_lock_ready :: bool
  ob_sent :: "str + str"

definition UNAVAILABLE :: str where
  "UNAVAILABLE = ''send admission unavailable''"

definition CANCELLED :: str where
  "CANCELLED = ''send cancelled while waiting for transient-memory admission''"

definition RECONNECTED :: str where
  "RECONNECTED = ''WhatsApp client reconnected; try again''"

section \<open>Steps of the task\<close>

definition put_op :: "nat \<Rightarrow> 'j send_op \<Rightarrow> 'j send_world \<Rightarrow> 'j send_world" where
  "put_op n op w = w\<lparr>sw_ops := (sw_ops w)(n \<mapsto> op)\<rparr>"

definition goto_pc :: "nat \<Rightarrow> 'j send_op \<Rightarrow> send_pc \<Rightarrow> 'j send_world \<Rightarrow> 'j send_world" where
  "goto_pc n op pc w = put_op n (op\<lparr>so_pc := pc\<rparr>) w"

text \<open>The guards of the timer's lock and of the gate are dropped.\<close>

definition unlock_timer :: "'j send_world \<Rightarrow> 'j send_world" where
  "unlock_timer w = w\<lparr>sw_timer := None\<rparr>"

definition drop_permit :: "bool \<Rightarrow> 'j send_world \<Rightarrow> 'j send_world" where
  "drop_permit permit w = (if permit then w\<lparr>sw_gate := None\<rparr> else w)"

definition cancelled_op :: "'j send_op \<Rightarrow> 'j send_world \<Rightarrow> bool" where
  "cancelled_op op w \<longleftrightarrow> so_abandoned op \<or> \<not> sw_logged_in w (so_client op)"

definition refuse :: "nat \<Rightarrow> 'j send_op \<Rightarrow> str \<Rightarrow> 'j send_world \<Rightarrow> 'j send_world" where
  "refuse n op e w = goto_pc n op (S_Reporting False (Inl e)) (unlock_timer w)"

text \<open>One step of \<open>wait_for_send_admission\<close>.\<close>

definition admission_step :: "observation \<Rightarrow> nat \<Rightarrow> 'j send_op \<Rightarrow> 'j send_world \<Rightarrow> 'j send_world" where
  "admission_step ob n op w =
     (case so_pc op of
        S_Queued \<Rightarrow>
          (case sw_admission w of
             None \<Rightarrow> goto_pc n op (S_Admitted False) w
           | Some False \<Rightarrow> goto_pc n op (S_Reporting False (Inl UNAVAILABLE)) w
           | Some True \<Rightarrow> goto_pc n op S_Locking w)
      | S_Locking \<Rightarrow>
          if ob_lock_ready ob \<and> sw_timer w = None
          then goto_pc n op (S_Polling (quiet_new (ob_now ob))) (w\<lparr>sw_timer := Some n\<rparr>)
          else w
      | S_Polling q \<Rightarrow>
          if cancelled_op op w then refuse n op CANCELLED w
          else (case ready (ob_now ob) (report_quiet (ob_report ob)) q of
                  (True, _) \<Rightarrow> goto_pc n op S_Acquiring w
                | (False, q') \<Rightarrow> goto_pc n op (S_Ticking q') w)
      | S_Ticking q \<Rightarrow>
          (case ob_tick ob of
             Inl e \<Rightarrow> refuse n op e w
           | Inr _ \<Rightarrow> goto_pc n op (S_Polling q) w)
      | S_Acquiring \<Rightarrow>
          if cancelled_op op w then refuse n op CANCELLED w else goto_pc n op S_Selecting w
      | S_Selecting \<Rightarrow>
          if ob_lock_ready ob \<and> sw_gate w = None
          then goto_pc n op (S_Woken (Acquired ())) (w\<lparr>sw_gate := Some (Send_Task n)\<rparr>)
          else goto_pc n op (S_Woken (Tick (ob_tick ob))) w
      | S_Woken wk \<Rightarrow>
          (case acquire_woken wk (cancelled_op op w) of
             None \<Rightarrow> goto_pc n op S_Acquiring w
           | Some (Inl e) \<Rightarrow> refuse n op e w
           | Some (Inr None) \<Rightarrow> refuse n op CANCELLED (drop_permit (wk = Acquired ()) w)
           | Some (Inr (Some _)) \<Rightarrow> goto_pc n op (S_Admitted True) (unlock_timer w))
      | _ \<Rightarrow> w)"

text \<open>
  The task after admission. \<open>result_tx.send\<close> puts the outcome into the channel's one slot, and
  fails silently once the handler has dropped the receiver; the permit is dropped when the task
  ends.
\<close>

definition send_task_step :: "observation \<Rightarrow> nat \<Rightarrow> 'j send_op \<Rightarrow> 'j send_world \<Rightarrow> 'j send_world" where
  "send_task_step ob n op w =
     (case so_pc op of
        S_Admitted permit \<Rightarrow>
          if so_abandoned op then goto_pc n op (S_Closing permit) w
          else goto_pc n op (S_Checked permit) w
      | S_Checked permit \<Rightarrow>
          if is_current (so_client op) (sw_active w)
          then goto_pc n op (S_Sending permit)
                 (w\<lparr>sw_calls := (n, so_client op, so_jid op, so_text op) # sw_calls w\<rparr>)
          else goto_pc n op (S_Reporting permit (Inl RECONNECTED)) w
      | S_Sending permit \<Rightarrow>
          goto_pc n op (S_Reporting permit (ob_sent ob))
            (w\<lparr>sw_outcomes := (n, ob_sent ob) # sw_outcomes w\<rparr>)
      | S_Reporting permit r \<Rightarrow>
          put_op n (op\<lparr>so_pc := S_Closing permit,
                       so_slot := (if so_handler op = H_Waiting then Some r else so_slot op)\<rparr>) w
      | S_Closing permit \<Rightarrow> goto_pc n op S_Done (drop_permit permit w)
      | _ \<Rightarrow> admission_step ob n op w)"

section \<open>Steps of the handler\<close>

text \<open>The response to an outcome of the send.\<close>

definition outcome_response :: "(json \<Rightarrow> str) \<Rightarrow> str \<Rightarrow> str + str \<Rightarrow> nat \<times> str" where
  "outcome_response print_json to r =
     (case r of
        Inr message_id \<Rightarrow>
          (200, print_json (JObj [(''result'', JStr ''sent''), (''message_id'', JStr message_id), (''to'', JStr to)]))
      | Inl error \<Rightarrow> (502, print_json (JObj [(''error'', JStr error)])))"

definition TIMED_OUT :: str where
  "TIMED_OUT = ''{\"error\":\"Send did not complete in time\"}''"

text \<open>
  \<open>recv_timeout\<close> takes what is in the slot, and otherwise may give up (the time is over, or the
  task is gone); a handler that gave up raises the flag and answers.
\<close>

definition handler_step :: "(json \<Rightarrow> str) \<Rightarrow> nat \<Rightarrow> 'j send_op \<Rightarrow> 'j send_world \<Rightarrow> 'j send_world" where
  "handler_step print_json n op w =
     (case so_handler op of
        H_Waiting \<Rightarrow>
          (case so_slot op of
             Some r \<Rightarrow>
               (case outcome_response print_json (so_to op) r of
                  (status, body) \<Rightarrow> put_op n (op\<lparr>so_slot := None, so_handler := H_Answered status body\<rparr>) w)
           | None \<Rightarrow> put_op n (op\<lparr>so_handler := H_Timed_Out\<rparr>) w)
      | H_Timed_Out \<Rightarrow>
          put_op n (op\<lparr>so_abandoned := True, so_handler := H_Answered 504 TIMED_OUT\<rparr>) w
      | H_Answered _ _ \<Rightarrow> w)"

text \<open>The task is queued and the handler starts to wait.\<close>

definition new_op :: "client \<Rightarrow> str \<Rightarrow> 'j \<Rightarrow> str \<Rightarrow> 'j send_op" where
  "new_op c to jid text = \<lparr>so_client = c, so_to = to, so_jid = jid, so_text = text, so_pc = S_Queued,
     so_handler = H_Waiting, so_abandoned = False, so_slot = None\<rparr>"

inductive send_step :: "(json \<Rightarrow> str) \<Rightarrow> 'j send_world \<Rightarrow> 'j send_world \<Rightarrow> bool" for print_json where
  accepts: "sw_ops w n = None \<Longrightarrow> send_step print_json w (put_op n (new_op c to jid text) w)"
| task: "sw_ops w n = Some op \<Longrightarrow> send_step print_json w (send_task_step ob n op w)"
| handler: "sw_ops w n = Some op \<Longrightarrow> send_step print_json w (handler_step print_json n op w)"
| takes_gate: "sw_gate w = None \<Longrightarrow> send_step print_json w (w\<lparr>sw_gate := Some (Other_User k)\<rparr>)"
| frees_gate: "sw_gate w = Some (Other_User k) \<Longrightarrow> send_step print_json w (w\<lparr>sw_gate := None\<rparr>)"
| connection: "send_step print_json w (w\<lparr>sw_active := a, sw_logged_in := l\<rparr>)"

inductive send_runs :: "(json \<Rightarrow> str) \<Rightarrow> 'j send_world \<Rightarrow> 'j send_world \<Rightarrow> bool" for print_json where
  start: "send_runs print_json w w"
| more: "send_runs print_json w w' \<Longrightarrow> send_step print_json w' w'' \<Longrightarrow> send_runs print_json w w''"

definition sends_start :: "bool option \<Rightarrow> 'j send_world" where
  "sends_start admission = \<lparr>sw_admission = admission, sw_ops = (\<lambda>_. None), sw_timer = None, sw_gate = None,
     sw_active = None, sw_logged_in = (\<lambda>_. False), sw_calls = [], sw_outcomes = []\<rparr>"

section \<open>Invariants\<close>

text \<open>The calls and outcomes of one send, and which guards its task holds.\<close>

definition calls_of :: "nat \<Rightarrow> 'j send_world \<Rightarrow> (client \<times> 'j \<times> str) list" where
  "calls_of n w = map snd (filter (\<lambda>c. fst c = n) (sw_calls w))"

definition outs_of :: "nat \<Rightarrow> 'j send_world \<Rightarrow> (str + str) list" where
  "outs_of n w = map snd (filter (\<lambda>c. fst c = n) (sw_outcomes w))"

fun has_permit :: "send_pc \<Rightarrow> bool" where
  "has_permit (S_Woken wk) = (wk = Acquired ())"
| "has_permit (S_Admitted b) = b"
| "has_permit (S_Checked b) = b"
| "has_permit (S_Sending b) = b"
| "has_permit (S_Reporting b _) = b"
| "has_permit (S_Closing b) = b"
| "has_permit _ = False"

fun has_timer :: "send_pc \<Rightarrow> bool" where
  "has_timer (S_Polling _) = True"
| "has_timer (S_Ticking _) = True"
| "has_timer S_Acquiring = True"
| "has_timer S_Selecting = True"
| "has_timer (S_Woken _) = True"
| "has_timer _ = False"

text \<open>A task about to send holds a permit, on a board that has the gate.\<close>

fun pc_admitted :: "bool \<Rightarrow> send_pc \<Rightarrow> bool" where
  "pc_admitted gated (S_Admitted b) = (gated \<longrightarrow> b)"
| "pc_admitted gated (S_Checked b) = (gated \<longrightarrow> b)"
| "pc_admitted gated (S_Sending b) = (gated \<longrightarrow> b)"
| "pc_admitted gated _ = True"

definition locks_ok :: "'j send_world \<Rightarrow> bool" where
  "locks_ok w \<longleftrightarrow>
     (\<forall>n op. sw_ops w n = Some op \<longrightarrow>
        (has_permit (so_pc op) \<longrightarrow> sw_gate w = Some (Send_Task n)) \<and>
        (has_timer (so_pc op) \<longrightarrow> sw_timer w = Some n) \<and>
        pc_admitted (sw_admission w \<noteq> None) (so_pc op))"

lemmas task_defs = send_task_step_def admission_step_def refuse_def goto_pc_def put_op_def
  unlock_timer_def drop_permit_def

text \<open>
  What a step of task \<open>n\<close> may do with the locks: take a free one, keep it or give up its own.
\<close>

definition lock_move :: "nat \<Rightarrow> 'j send_op \<Rightarrow> 'j send_world \<Rightarrow> 'j send_op \<Rightarrow> 'j send_world \<Rightarrow> bool" where
  "lock_move n op w op' w' \<longleftrightarrow>
     sw_ops w' = (sw_ops w)(n \<mapsto> op') \<and> sw_admission w' = sw_admission w \<and>
     (sw_gate w' = sw_gate w \<or> sw_gate w = None \<or> has_permit (so_pc op)) \<and>
     (sw_timer w' = sw_timer w \<or> sw_timer w = None \<or> has_timer (so_pc op)) \<and>
     (has_permit (so_pc op') \<longrightarrow> sw_gate w' = Some (Send_Task n)) \<and>
     (has_timer (so_pc op') \<longrightarrow> sw_timer w' = Some n) \<and>
     pc_admitted (sw_admission w \<noteq> None) (so_pc op')"

lemma lock_move_locks:
  assumes "locks_ok w" and "sw_ops w n = Some op" and "lock_move n op w op' w'"
  shows "locks_ok w'"
  unfolding locks_ok_def
proof (intro allI impI)
  fix m opm assume m: "sw_ops w' m = Some opm"
  show "(has_permit (so_pc opm) \<longrightarrow> sw_gate w' = Some (Send_Task m)) \<and>
        (has_timer (so_pc opm) \<longrightarrow> sw_timer w' = Some m) \<and>
        pc_admitted (sw_admission w' \<noteq> None) (so_pc opm)"
  proof (cases "m = n")
    case True
    then show ?thesis using m assms(3) by (simp add: lock_move_def)
  next
    case False
    then have "sw_ops w m = Some opm" using m assms(3) by (simp add: lock_move_def)
    then have other: "has_permit (so_pc opm) \<longrightarrow> sw_gate w = Some (Send_Task m)"
      "has_timer (so_pc opm) \<longrightarrow> sw_timer w = Some m" "pc_admitted (sw_admission w \<noteq> None) (so_pc opm)"
      using assms(1) by (simp_all add: locks_ok_def)
    have "has_permit (so_pc op) \<longrightarrow> sw_gate w = Some (Send_Task n)" "has_timer (so_pc op) \<longrightarrow> sw_timer w = Some n"
      using assms(1,2) by (simp_all add: locks_ok_def)
    then show ?thesis using assms(3) other False by (auto simp: lock_move_def)
  qed
qed

lemma task_moves:
  assumes "locks_ok w" and "sw_ops w n = Some op"
  shows "\<exists>op'. lock_move n op w op' (send_task_step ob n op w)"
proof -
  have own: "has_permit (so_pc op) \<Longrightarrow> sw_gate w = Some (Send_Task n)" "has_timer (so_pc op) \<Longrightarrow> sw_timer w = Some n"
    "pc_admitted (sw_admission w \<noteq> None) (so_pc op)"
    using assms by (auto simp: locks_ok_def)
  have same: "send_task_step ob n op w = w \<Longrightarrow> ?thesis"
    using own assms(2) by (auto simp: lock_move_def intro!: exI [of _ op])
  note defs = lock_move_def task_defs
  show ?thesis
  proof (cases "so_pc op")
    case S_Queued
    then show ?thesis using own by (cases "sw_admission w"; cases "the (sw_admission w)") (auto simp: defs)
  next
    case S_Locking
    then show ?thesis using own same by (cases "ob_lock_ready ob \<and> sw_timer w = None") (auto simp: defs)
  next
    case (S_Polling q)
    then show ?thesis using own by (auto simp: defs split: prod.split bool.split)
  next
    case (S_Ticking q)
    then show ?thesis using own by (auto simp: defs split: sum.split)
  next
    case S_Acquiring
    then show ?thesis using own by (auto simp: defs)
  next
    case S_Selecting
    then show ?thesis using own by (auto simp: defs)
  next
    case (S_Woken wk)
    then show ?thesis
      using own by (auto simp: defs acquire_woken_def split: wake.split sum.split)
  next
    case (S_Admitted b)
    then show ?thesis using own by (auto simp: defs)
  next
    case (S_Checked b)
    then show ?thesis using own by (auto simp: defs)
  next
    case (S_Sending b)
    then show ?thesis using own by (auto simp: defs)
  next
    case (S_Reporting b r)
    then show ?thesis using own by (auto simp: defs)
  next
    case (S_Closing b)
    then show ?thesis using own by (auto simp: defs)
  next
    case S_Done
    then show ?thesis by (intro same) (simp add: task_defs)
  qed
qed

lemma task_locks: "locks_ok w \<Longrightarrow> sw_ops w n = Some op \<Longrightarrow> locks_ok (send_task_step ob n op w)"
  using task_moves lock_move_locks by blast

text \<open>Steps of a handler touch no lock and leave the task where it is.\<close>

lemma handler_op:
  assumes "sw_ops w n = Some op"
  obtains op' where "handler_step print_json n op w = put_op n op' w" "so_pc op' = so_pc op"
proof -
  have same: "w = put_op n op w" using assms by (simp add: put_op_def fun_upd_idem)
  have "\<exists>op'. handler_step print_json n op w = put_op n op' w \<and> so_pc op' = so_pc op"
  proof (cases "so_handler op")
    case H_Waiting
    then show ?thesis
      by (cases "so_slot op") (auto simp: handler_step_def split: prod.split)
  next
    case H_Timed_Out
    then show ?thesis by (auto simp: handler_step_def)
  next
    case H_Answered
    then show ?thesis using same by (auto simp: handler_step_def)
  qed
  then show ?thesis using that by blast
qed

lemma send_step_locks: "send_step print_json w w' \<Longrightarrow> locks_ok w \<Longrightarrow> locks_ok w'"
proof (induction rule: send_step.induct)
  case (accepts w n c to jid msg)
  then show ?case by (auto simp: locks_ok_def put_op_def new_op_def)
next
  case (task w n op ob)
  then show ?case by (simp add: task_locks)
next
  case (handler w n op)
  from handler(1) obtain op' where "handler_step print_json n op w = put_op n op' w" "so_pc op' = so_pc op"
    by (rule handler_op)
  then show ?case using handler by (auto simp: locks_ok_def put_op_def)
qed (auto simp: locks_ok_def)

section \<open>What is reported\<close>

definition call_of :: "'j send_op \<Rightarrow> client \<times> 'j \<times> str" where
  "call_of op = (so_client op, so_jid op, so_text op)"

text \<open>\<open>r\<close> is what the one call returned, or there was no call and \<open>r\<close> is an error.\<close>

definition settled :: "'j send_op \<Rightarrow> (client \<times> 'j \<times> str) list \<Rightarrow> (str + str) list \<Rightarrow> str + str \<Rightarrow> bool" where
  "settled op calls outs r \<longleftrightarrow>
     (calls = [call_of op] \<and> outs = [r]) \<or> (calls = [] \<and> outs = [] \<and> isl r)"

fun closed_pc :: "send_pc \<Rightarrow> bool" where
  "closed_pc (S_Closing _) = True"
| "closed_pc S_Done = True"
| "closed_pc _ = False"

definition pc_ok :: "'j send_op \<Rightarrow> (client \<times> 'j \<times> str) list \<Rightarrow> (str + str) list \<Rightarrow> bool" where
  "pc_ok op calls outs \<longleftrightarrow>
     (case so_pc op of
        S_Sending _ \<Rightarrow> calls = [call_of op] \<and> outs = []
      | S_Reporting _ r \<Rightarrow> settled op calls outs r
      | S_Closing _ \<Rightarrow> calls = [] \<or> calls = [call_of op]
      | S_Done \<Rightarrow> calls = [] \<or> calls = [call_of op]
      | _ \<Rightarrow> calls = [] \<and> outs = [])"

definition handler_ok ::
  "(json \<Rightarrow> str) \<Rightarrow> 'j send_op \<Rightarrow> (client \<times> 'j \<times> str) list \<Rightarrow> (str + str) list \<Rightarrow> bool" where
  "handler_ok print_json op calls outs \<longleftrightarrow>
     (case so_handler op of
        H_Waiting \<Rightarrow> \<not> so_abandoned op \<and>
          (\<forall>r. so_slot op = Some r \<longrightarrow> closed_pc (so_pc op) \<and> settled op calls outs r)
      | H_Timed_Out \<Rightarrow> \<not> so_abandoned op
      | H_Answered status body \<Rightarrow>
          status = 504 \<and> so_abandoned op \<or>
          closed_pc (so_pc op) \<and>
          (\<exists>r. settled op calls outs r \<and> (status, body) = outcome_response print_json (so_to op) r))"

definition reports_ok :: "(json \<Rightarrow> str) \<Rightarrow> 'j send_world \<Rightarrow> bool" where
  "reports_ok print_json w \<longleftrightarrow>
     (\<forall>n. case sw_ops w n of
            None \<Rightarrow> calls_of n w = [] \<and> outs_of n w = []
          | Some op \<Rightarrow> pc_ok op (calls_of n w) (outs_of n w) \<and>
                       handler_ok print_json op (calls_of n w) (outs_of n w))"

text \<open>A step of task or handler \<open>n\<close> is judged by what it does to \<open>n\<close>.\<close>

definition own_step :: "nat \<Rightarrow> 'j send_world \<Rightarrow> 'j send_op \<Rightarrow> 'j send_world \<Rightarrow> bool" where
  "own_step n w op' w' \<longleftrightarrow>
     sw_ops w' = (sw_ops w)(n \<mapsto> op') \<and>
     (\<forall>m. m \<noteq> n \<longrightarrow> calls_of m w' = calls_of m w \<and> outs_of m w' = outs_of m w)"

lemma own_step_reports:
  assumes "reports_ok print_json w" and "own_step n w op' w'"
    and "pc_ok op' (calls_of n w') (outs_of n w')" and "handler_ok print_json op' (calls_of n w') (outs_of n w')"
  shows "reports_ok print_json w'"
  unfolding reports_ok_def
proof
  fix m
  show "case sw_ops w' m of
          None \<Rightarrow> calls_of m w' = [] \<and> outs_of m w' = []
        | Some op \<Rightarrow> pc_ok op (calls_of m w') (outs_of m w') \<and> handler_ok print_json op (calls_of m w') (outs_of m w')"
  proof (cases "m = n")
    case True
    then show ?thesis using assms by (simp add: own_step_def)
  next
    case False
    have "case sw_ops w m of
          None \<Rightarrow> calls_of m w = [] \<and> outs_of m w = []
        | Some op \<Rightarrow> pc_ok op (calls_of m w) (outs_of m w) \<and> handler_ok print_json op (calls_of m w) (outs_of m w)"
      using assms(1) unfolding reports_ok_def by (rule spec)
    moreover have "sw_ops w' m = sw_ops w m" "calls_of m w' = calls_of m w" "outs_of m w' = outs_of m w"
      using assms(2) False by (simp_all add: own_step_def)
    ultimately show ?thesis by (cases "sw_ops w m") simp_all
  qed
qed

lemma calls_of_simps [simp]:
  "calls_of n (w\<lparr>sw_ops := x\<rparr>) = calls_of n w" "outs_of n (w\<lparr>sw_ops := x\<rparr>) = outs_of n w"
  "calls_of n (w\<lparr>sw_timer := t\<rparr>) = calls_of n w" "outs_of n (w\<lparr>sw_timer := t\<rparr>) = outs_of n w"
  "calls_of n (w\<lparr>sw_gate := g\<rparr>) = calls_of n w" "outs_of n (w\<lparr>sw_gate := g\<rparr>) = outs_of n w"
  "calls_of n (w\<lparr>sw_active := a\<rparr>) = calls_of n w" "outs_of n (w\<lparr>sw_active := a\<rparr>) = outs_of n w"
  "calls_of n (w\<lparr>sw_logged_in := l\<rparr>) = calls_of n w" "outs_of n (w\<lparr>sw_logged_in := l\<rparr>) = outs_of n w"
  "calls_of n (w\<lparr>sw_calls := c\<rparr>) = map snd (filter (\<lambda>c. fst c = n) c)"
  "outs_of n (w\<lparr>sw_calls := c\<rparr>) = outs_of n w"
  "calls_of n (w\<lparr>sw_outcomes := o'\<rparr>) = calls_of n w"
  "outs_of n (w\<lparr>sw_outcomes := o'\<rparr>) = map snd (filter (\<lambda>c. fst c = n) o')"
  by (simp_all add: calls_of_def outs_of_def)

text \<open>
  The task's part: the effect of a step on its own record, its calls and outcomes. The
  admission phase changes nothing but the program counter.
\<close>

fun waiting_pc :: "send_pc \<Rightarrow> bool" where
  "waiting_pc S_Queued = True"
| "waiting_pc S_Locking = True"
| "waiting_pc (S_Polling _) = True"
| "waiting_pc (S_Ticking _) = True"
| "waiting_pc S_Acquiring = True"
| "waiting_pc S_Selecting = True"
| "waiting_pc (S_Woken _) = True"
| "waiting_pc _ = False"

lemma admission_effect:
  assumes "waiting_pc (so_pc op)" and "sw_ops w n = Some op"
  shows "\<exists>pc. own_step n w (op\<lparr>so_pc := pc\<rparr>) (send_task_step ob n op w) \<and>
     calls_of n (send_task_step ob n op w) = calls_of n w \<and> outs_of n (send_task_step ob n op w) = outs_of n w \<and>
     (waiting_pc pc \<or> (\<exists>b. pc = S_Admitted b) \<or> (\<exists>e. pc = S_Reporting False (Inl e)))"
proof -
  have same: "send_task_step ob n op w = w \<Longrightarrow> ?thesis"
    using assms by (intro exI [of _ "so_pc op"]) (auto simp: own_step_def)
  note defs = own_step_def task_defs
  show ?thesis
  proof (cases "so_pc op")
    case S_Queued
    then show ?thesis by (cases "sw_admission w"; cases "the (sw_admission w)") (auto simp: defs)
  next
    case S_Locking
    then show ?thesis using same by (cases "ob_lock_ready ob \<and> sw_timer w = None") (auto simp: defs)
  next
    case (S_Polling q)
    then show ?thesis by (auto simp: defs split: prod.split bool.split)
  next
    case (S_Ticking q)
    then show ?thesis by (auto simp: defs split: sum.split)
  next
    case S_Acquiring
    then show ?thesis by (auto simp: defs)
  next
    case S_Selecting
    then show ?thesis by (auto simp: defs)
  next
    case (S_Woken wk)
    then show ?thesis by (auto simp: defs acquire_woken_def split: wake.split sum.split)
  qed (use assms(1) in simp_all)
qed

lemma task_reports:
  assumes "reports_ok print_json w" and "sw_ops w n = Some op"
  shows "reports_ok print_json (send_task_step ob n op w)"
proof -
  have own: "pc_ok op (calls_of n w) (outs_of n w)" "handler_ok print_json op (calls_of n w) (outs_of n w)"
    using assms unfolding reports_ok_def by (auto split: option.splits dest: spec [of _ n])
  note rule = own_step_reports [OF assms(1)]
  show ?thesis
  proof (cases "waiting_pc (so_pc op)")
    case True
    obtain pc where pc: "own_step n w (op\<lparr>so_pc := pc\<rparr>) (send_task_step ob n op w)"
      "calls_of n (send_task_step ob n op w) = calls_of n w" "outs_of n (send_task_step ob n op w) = outs_of n w"
      "waiting_pc pc \<or> (\<exists>b. pc = S_Admitted b) \<or> (\<exists>e. pc = S_Reporting False (Inl e))"
      using admission_effect [OF True assms(2)] by blast
    have "calls_of n w = []" "outs_of n w = []" using own(1) True by (auto simp: pc_ok_def split: send_pc.splits)
    then have "pc_ok (op\<lparr>so_pc := pc\<rparr>) [] []" using pc(4) by (auto simp: pc_ok_def settled_def split: send_pc.splits)
    moreover have "handler_ok print_json (op\<lparr>so_pc := pc\<rparr>) [] []"
      using own(2) True \<open>calls_of n w = []\<close> \<open>outs_of n w = []\<close>
      by (cases "so_pc op") (auto simp: handler_ok_def settled_def call_of_def split: handler_pc.splits)
    ultimately show ?thesis
      using rule [OF pc(1)] pc(2,3) \<open>calls_of n w = []\<close> \<open>outs_of n w = []\<close> by simp
  next
    case False
    let ?w' = "send_task_step ob n op w"
    note defs = own_step_def task_defs pc_ok_def handler_ok_def settled_def call_of_def
    note splits = handler_pc.splits if_splits
    show ?thesis
    proof (cases "so_pc op")
      case (S_Admitted b)
      then show ?thesis
        using own by (intro rule [of n "op\<lparr>so_pc := if so_abandoned op then S_Closing b else S_Checked b\<rparr>"])
          (auto simp: defs split: splits)
    next
      case (S_Checked b)
      then show ?thesis
        using own
        by (intro rule [of n "op\<lparr>so_pc := if is_current (so_client op) (sw_active w) then S_Sending b
              else S_Reporting b (Inl RECONNECTED)\<rparr>"])
          (auto simp: defs calls_of_def outs_of_def split: splits)
    next
      case (S_Sending b)
      then show ?thesis
        using own by (intro rule [of n "op\<lparr>so_pc := S_Reporting b (ob_sent ob)\<rparr>"])
          (auto simp: defs calls_of_def outs_of_def split: splits)
    next
      case (S_Reporting b r)
      then show ?thesis
        using own
        by (intro rule [of n "op\<lparr>so_pc := S_Closing b,
              so_slot := (if so_handler op = H_Waiting then Some r else so_slot op)\<rparr>"])
          (auto simp: defs split: splits)
    next
      case (S_Closing b)
      then show ?thesis
        using own by (intro rule [of n "op\<lparr>so_pc := S_Done\<rparr>"]) (auto simp: defs split: splits)
    next
      case S_Done
      then show ?thesis using assms(1) by (simp add: task_defs)
    qed (use False in simp_all)
  qed
qed

lemma handler_reports:
  assumes "reports_ok print_json w" and "sw_ops w n = Some op"
  shows "reports_ok print_json (handler_step print_json n op w)"
proof -
  have own: "pc_ok op (calls_of n w) (outs_of n w)" "handler_ok print_json op (calls_of n w) (outs_of n w)"
    using assms unfolding reports_ok_def by (auto split: option.splits dest: spec [of _ n])
  note rule = own_step_reports [OF assms(1)]
  note defs = own_step_def handler_step_def put_op_def pc_ok_def handler_ok_def settled_def call_of_def
  show ?thesis
  proof (cases "so_handler op")
    case H_Waiting
    show ?thesis
    proof (cases "so_slot op")
      case None
      then show ?thesis
        using H_Waiting own by (intro rule [of n "op\<lparr>so_handler := H_Timed_Out\<rparr>"])
          (auto simp: defs split: send_pc.splits)
    next
      case (Some r)
      obtain status body where resp: "outcome_response print_json (so_to op) r = (status, body)" by fastforce
      show ?thesis
        using H_Waiting Some own resp
        by (intro rule [of n "op\<lparr>so_slot := None, so_handler := H_Answered status body\<rparr>"])
          (auto simp: defs split: send_pc.splits)
    qed
  next
    case H_Timed_Out
    then show ?thesis
      using own by (intro rule [of n "op\<lparr>so_abandoned := True, so_handler := H_Answered 504 TIMED_OUT\<rparr>"])
        (auto simp: defs split: send_pc.splits)
  next
    case H_Answered
    then show ?thesis using assms(1) by (simp add: handler_step_def)
  qed
qed

lemma send_step_reports: "send_step print_json w w' \<Longrightarrow> reports_ok print_json w \<Longrightarrow> reports_ok print_json w'"
proof (induction rule: send_step.induct)
  case (accepts w n c to jid msg)
  have none: "calls_of n w = []" "outs_of n w = []"
    using accepts unfolding reports_ok_def by (auto dest!: spec [of _ n])
  show ?case
    by (rule own_step_reports [OF accepts(2), of n "new_op c to jid msg"])
      (simp_all add: own_step_def put_op_def new_op_def pc_ok_def handler_ok_def none)
next
  case (task w n op ob)
  then show ?case by (simp add: task_reports)
next
  case (handler w n op)
  then show ?case by (simp add: handler_reports)
qed (simp_all add: reports_ok_def cong: option.case_cong)

section \<open>Sends that are over\<close>

text \<open>The task will not call \<open>send_message\<close> any more.\<close>

definition will_not_send :: "'j send_op \<Rightarrow> bool" where
  "will_not_send op \<longleftrightarrow>
     (case so_pc op of
        S_Reporting _ _ \<Rightarrow> True
      | S_Closing _ \<Rightarrow> True
      | S_Done \<Rightarrow> True
      | S_Checked _ \<Rightarrow> False
      | _ \<Rightarrow> so_abandoned op)"

lemma task_over:
  assumes "will_not_send op" and "sw_ops w n = Some op"
  shows "\<exists>op'. sw_ops (send_task_step ob n op w) n = Some op' \<and> will_not_send op' \<and>
     calls_of n (send_task_step ob n op w) = calls_of n w"
proof (cases "waiting_pc (so_pc op)")
  case True
  obtain pc where pc: "own_step n w (op\<lparr>so_pc := pc\<rparr>) (send_task_step ob n op w)"
    "calls_of n (send_task_step ob n op w) = calls_of n w"
    "waiting_pc pc \<or> (\<exists>b. pc = S_Admitted b) \<or> (\<exists>e. pc = S_Reporting False (Inl e))"
    using admission_effect [OF True assms(2)] by blast
  have "so_abandoned op" using assms(1) True by (cases "so_pc op") (simp_all add: will_not_send_def)
  then have "will_not_send (op\<lparr>so_pc := pc\<rparr>)" using pc(3) by (cases pc) (simp_all add: will_not_send_def)
  then show ?thesis using pc(1,2) by (simp add: own_step_def)
next
  case False
  then show ?thesis using assms by (cases "so_pc op") (auto simp: will_not_send_def task_defs)
qed

lemma handler_over:
  assumes "will_not_send op" and "sw_ops w n = Some op"
  shows "\<exists>op'. sw_ops (handler_step print_json n op w) n = Some op' \<and> will_not_send op' \<and>
     calls_of n (handler_step print_json n op w) = calls_of n w"
proof (cases "so_handler op")
  case H_Waiting
  then show ?thesis
    using assms(1)
    by (cases "so_slot op") (auto simp: handler_step_def put_op_def will_not_send_def split: prod.split send_pc.splits)
next
  case H_Timed_Out
  then show ?thesis
    using assms(1) by (auto simp: handler_step_def put_op_def will_not_send_def split: send_pc.splits)
next
  case H_Answered
  then show ?thesis using assms by (simp add: handler_step_def)
qed

text \<open>Steps of others leave a send and its calls alone.\<close>

lemma task_other:
  assumes "sw_ops w m = Some op" and "m \<noteq> n"
  shows "sw_ops (send_task_step ob m op w) n = sw_ops w n \<and> calls_of n (send_task_step ob m op w) = calls_of n w"
proof (cases "waiting_pc (so_pc op)")
  case True
  then show ?thesis using admission_effect [OF True assms(1), of ob] assms(2) by (auto simp: own_step_def)
next
  case False
  then show ?thesis using assms by (cases "so_pc op") (auto simp: task_defs calls_of_def)
qed

lemma handler_other:
  assumes "sw_ops w m = Some op" and "m \<noteq> n"
  shows "sw_ops (handler_step print_json m op w) n = sw_ops w n \<and>
     calls_of n (handler_step print_json m op w) = calls_of n w"
proof -
  from assms(1) obtain op' where "handler_step print_json m op w = put_op m op' w" by (rule handler_op)
  then show ?thesis using assms(2) by (simp add: put_op_def)
qed

definition send_over :: "nat \<Rightarrow> (client \<times> 'j \<times> str) list \<Rightarrow> 'j send_world \<Rightarrow> bool" where
  "send_over n calls w \<longleftrightarrow> (\<exists>op. sw_ops w n = Some op \<and> will_not_send op) \<and> calls_of n w = calls"

lemma send_step_over: "send_step print_json w w' \<Longrightarrow> send_over n calls w \<Longrightarrow> send_over n calls w'"
proof (induction rule: send_step.induct)
  case (accepts w m c to jid msg)
  then show ?case by (auto simp: send_over_def put_op_def)
next
  case (task w m op ob)
  then show ?case
    using task_over [of op w n ob] task_other [of w m op n ob] by (cases "m = n") (auto simp: send_over_def)
next
  case (handler w m op)
  then show ?case
    using handler_over [of op w n print_json] handler_other [of w m op n print_json]
    by (cases "m = n") (auto simp: send_over_def)
qed (simp_all add: send_over_def)

lemma send_runs_over: "send_runs print_json w w' \<Longrightarrow> send_over n calls w \<Longrightarrow> send_over n calls w'"
  by (induction rule: send_runs.induct) (blast intro: send_step_over)+

lemma send_runs_ok:
  assumes "send_runs print_json (sends_start adm) w"
  shows "locks_ok w \<and> reports_ok print_json w \<and> sw_admission w = adm"
proof -
  have admission: "send_step print_json w w' \<Longrightarrow> locks_ok w \<Longrightarrow> sw_admission w' = sw_admission w" for w w' :: "'a send_world"
  proof (induction rule: send_step.induct)
    case (task w n op ob)
    then show ?case using task_moves [of w n op ob] by (auto simp: lock_move_def)
  next
    case (handler w n op)
    from handler(1) obtain op' where "handler_step print_json n op w = put_op n op' w" by (rule handler_op)
    then show ?case by (simp add: put_op_def)
  qed (simp_all add: put_op_def)
  have "\<exists>w0. w0 = sends_start adm \<and> send_runs print_json w0 w" using assms by simp
  then obtain w0 where "w0 = sends_start adm" "send_runs print_json w0 w" by blast
  from this(2,1) show ?thesis
  proof (induction rule: send_runs.induct)
    case start
    then show ?case by (simp add: locks_ok_def reports_ok_def sends_start_def calls_of_def outs_of_def)
  next
    case (more w w' w'')
    then show ?case using send_step_locks send_step_reports admission by metis
  qed
qed

section \<open>The outcome that is reported\<close>

lemma outcome_response_cases:
  "outcome_response print_json to r = (200, body) \<longleftrightarrow>
     (\<exists>m. r = Inr m \<and>
        body = print_json (JObj [(''result'', JStr ''sent''), (''message_id'', JStr m), (''to'', JStr to)]))"
  "outcome_response print_json to r = (502, body) \<longleftrightarrow>
     (\<exists>e. r = Inl e \<and> body = print_json (JObj [(''error'', JStr e)]))"
  "outcome_response print_json to r \<noteq> (504, body)"
  by (auto simp: outcome_response_def split: sum.splits)

lemma answered:
  assumes "reports_ok print_json w" and "sw_ops w n = Some op" and "so_handler op = H_Answered status body" and "status \<noteq> 504"
  obtains r where "settled op (calls_of n w) (outs_of n w) r" "outcome_response print_json (so_to op) r = (status, body)"
    "will_not_send op"
proof -
  have "handler_ok print_json op (calls_of n w) (outs_of n w)"
    using assms(1,2) unfolding reports_ok_def by (auto dest!: spec [of _ n])
  then have "closed_pc (so_pc op)" and "\<exists>r. settled op (calls_of n w) (outs_of n w) r \<and>
      outcome_response print_json (so_to op) r = (status, body)"
    using assms(3,4) by (auto simp: handler_ok_def)
  moreover from this(1) have "will_not_send op" by (cases "so_pc op") (simp_all add: will_not_send_def)
  ultimately show ?thesis using that by blast
qed

text \<open>C15: the dashboard reports the truth about a send, in every interleaving of any number of
sends, their handlers and the rest of the firmware. A send calls \<open>send_message\<close> at most once, with
the client, recipient and text of its request. A 200 carries the id this call returned; a 502
carries the error it returned, or there was no call and there will never be one; and a 504 whose
task has not passed its last check of the flag means that nothing is ever sent. On a board with
the memory gate, a task that is sending holds the gate, so no two send at the same time.\<close>

theorem send_reports_the_truth:
  assumes "send_runs print_json (sends_start adm) w" and "sw_ops w n = Some op"
  shows "calls_of n w \<in> {[], [call_of op]} \<and>
     (\<forall>body. so_handler op = H_Answered 200 body \<longrightarrow>
        (\<exists>m. outs_of n w = [Inr m] \<and> calls_of n w = [call_of op] \<and>
           body = print_json (JObj [(''result'', JStr ''sent''), (''message_id'', JStr m), (''to'', JStr (so_to op))]))) \<and>
     (\<forall>body. so_handler op = H_Answered 502 body \<longrightarrow>
        (\<exists>e. body = print_json (JObj [(''error'', JStr e)]) \<and>
           (outs_of n w = [Inl e] \<or> (\<forall>w'. send_runs print_json w w' \<longrightarrow> calls_of n w' = [])))) \<and>
     (so_handler op = H_Answered 504 TIMED_OUT \<longrightarrow> calls_of n w = [] \<longrightarrow> \<not> (\<exists>b. so_pc op = S_Checked b) \<longrightarrow>
        (\<forall>w'. send_runs print_json w w' \<longrightarrow> calls_of n w' = [])) \<and>
     (adm \<noteq> None \<longrightarrow> (\<forall>b. so_pc op = S_Sending b \<longrightarrow> sw_gate w = Some (Send_Task n)))"
proof (intro conjI allI impI)
  have ok: "locks_ok w" "reports_ok print_json w" "sw_admission w = adm"
    using send_runs_ok [OF assms(1)] by simp_all
  have own: "pc_ok op (calls_of n w) (outs_of n w)" "handler_ok print_json op (calls_of n w) (outs_of n w)"
    using ok(2) assms(2) unfolding reports_ok_def by (auto dest!: spec [of _ n])
  show "calls_of n w \<in> {[], [call_of op]}"
    using own(1) by (auto simp: pc_ok_def settled_def split: send_pc.splits)
  have over: "\<forall>w'. send_runs print_json w w' \<longrightarrow> calls_of n w' = calls_of n w" if "will_not_send op"
    using that assms(2) send_runs_over [of print_json w _ n "calls_of n w"] by (auto simp: send_over_def)
  show "\<exists>m. outs_of n w = [Inr m] \<and> calls_of n w = [call_of op] \<and>
      body = print_json (JObj [(''result'', JStr ''sent''), (''message_id'', JStr m), (''to'', JStr (so_to op))])"
    if ans: "so_handler op = H_Answered 200 body" for body
    by (rule answered [OF ok(2) assms(2) ans]) (auto simp: outcome_response_cases(1) settled_def)
  show "\<exists>e. body = print_json (JObj [(''error'', JStr e)]) \<and>
      (outs_of n w = [Inl e] \<or> (\<forall>w'. send_runs print_json w w' \<longrightarrow> calls_of n w' = []))"
    if ans: "so_handler op = H_Answered 502 body" for body
  proof (rule answered [OF ok(2) assms(2) ans])
    fix r assume r: "settled op (calls_of n w) (outs_of n w) r"
      "outcome_response print_json (so_to op) r = (502, body)" "will_not_send op"
    then obtain e where "r = Inl e" "body = print_json (JObj [(''error'', JStr e)])"
      by (auto simp: outcome_response_cases(2))
    then show ?thesis using r(1) over [OF r(3)] by (auto simp: settled_def)
  qed simp
  show "calls_of n w' = []"
    if a: "so_handler op = H_Answered 504 TIMED_OUT" and "calls_of n w = []" "\<not> (\<exists>b. so_pc op = S_Checked b)"
      "send_runs print_json w w'" for w'
  proof -
    have "so_abandoned op"
      using own(2) a outcome_response_cases(3) [of print_json "so_to op" _ TIMED_OUT]
      by (auto simp: handler_ok_def) metis
    then have "will_not_send op" using that(3) by (auto simp: will_not_send_def split: send_pc.split)
    then show ?thesis using over that(2,4) by simp
  qed
  show "sw_gate w = Some (Send_Task n)" if "adm \<noteq> None" "so_pc op = S_Sending b" for b
  proof -
    have "pc_admitted (sw_admission w \<noteq> None) (so_pc op)"
      and "has_permit (so_pc op) \<longrightarrow> sw_gate w = Some (Send_Task n)"
      using ok(1) assms(2) by (simp_all add: locks_ok_def)
    then show ?thesis using that ok(3) by simp
  qed
qed

text \<open>On a board with PSRAM: one send from the request to the answer.\<close>

definition demo_obs :: observation where
  "demo_obs = \<lparr>ob_now = 0, ob_report = \<lparr>response_waiters = 0, app_state_syncing = 0, inbound_chat_charged_bytes = 0\<rparr>,
     ob_tick = Inr (), ob_lock_ready = True, ob_sent = Inr ''3EB0''\<rparr>"

definition demo_connected :: "nat send_world" where
  "demo_connected = (sends_start None)\<lparr>sw_active := Some 1, sw_logged_in := \<lambda>_. True\<rparr>"

definition demo_op :: "nat send_op" where
  "demo_op = new_op 1 ''15551234567@s.whatsapp.net'' 15551234567 ''hello''"

text \<open>The task of a send that goes through, step by step.\<close>

lemma task_run:
  assumes "send_runs print_json w0 (put_op n op w)" and "send_task_step ob n op (put_op n op w) = put_op n op' w'"
  shows "send_runs print_json w0 (put_op n op' w')"
  using more [OF assms(1) task [where n = n and op = op and ob = ob]] assms(2) by (simp add: put_op_def)

definition demo_called :: "nat send_world" where
  "demo_called = demo_connected\<lparr>sw_calls := [(0, 1, 15551234567, ''hello'')]\<rparr>"

definition demo_sent :: "nat send_world" where
  "demo_sent = demo_called\<lparr>sw_outcomes := [(0, Inr ''3EB0'')]\<rparr>"

lemmas demo_defs = demo_op_def new_op_def demo_connected_def demo_called_def demo_sent_def sends_start_def demo_obs_def

lemma demo_sent_runs:
  "send_runs print_json (sends_start None)
     (put_op 0 (demo_op\<lparr>so_pc := S_Done, so_slot := Some (Inr ''3EB0'')\<rparr>) demo_sent)"
proof -
  have "send_runs print_json (sends_start None) demo_connected"
    unfolding demo_connected_def by (rule more [OF start connection])
  then have "send_runs print_json (sends_start None) (put_op 0 demo_op demo_connected)"
    unfolding demo_op_def by (rule more) (rule accepts, simp add: demo_connected_def sends_start_def)
  then have "send_runs print_json (sends_start None) (put_op 0 (demo_op\<lparr>so_pc := S_Admitted False\<rparr>) demo_connected)"
    by (rule task_run [where ob = demo_obs]) (simp add: task_defs demo_defs)
  then have "send_runs print_json (sends_start None) (put_op 0 (demo_op\<lparr>so_pc := S_Checked False\<rparr>) demo_connected)"
    by (rule task_run [where ob = demo_obs]) (simp add: task_defs demo_defs)
  then have "send_runs print_json (sends_start None) (put_op 0 (demo_op\<lparr>so_pc := S_Sending False\<rparr>) demo_called)"
    by (rule task_run [where ob = demo_obs]) (simp add: task_defs demo_defs is_current_def)
  then have "send_runs print_json (sends_start None)
      (put_op 0 (demo_op\<lparr>so_pc := S_Reporting False (Inr ''3EB0'')\<rparr>) demo_sent)"
    by (rule task_run [where ob = demo_obs]) (simp add: task_defs demo_defs)
  then have "send_runs print_json (sends_start None)
      (put_op 0 (demo_op\<lparr>so_pc := S_Closing False, so_slot := Some (Inr ''3EB0'')\<rparr>) demo_sent)"
    by (rule task_run [where ob = demo_obs]) (simp add: task_defs demo_defs)
  then show ?thesis
    by (rule task_run [where ob = demo_obs]) (simp add: task_defs demo_defs)
qed

theorem send_reports_the_truth_witness:
  "\<exists>w op m. sw_ops w 0 = Some op \<and> so_handler op = H_Answered 200 ''sent'' \<and>
     outs_of 0 w = [Inr m] \<and> calls_of 0 w = [call_of demo_op]"
proof -
  define pj :: "json \<Rightarrow> str" where "pj = (\<lambda>_. ''sent'')"
  define op where "op = demo_op\<lparr>so_pc := S_Done, so_slot := None, so_handler := H_Answered 200 ''sent''\<rparr>"
  have "send_step pj (put_op 0 (demo_op\<lparr>so_pc := S_Done, so_slot := Some (Inr ''3EB0'')\<rparr>) demo_sent) (put_op 0 op demo_sent)"
    using handler [where print_json = pj and w = "put_op 0 (demo_op\<lparr>so_pc := S_Done, so_slot := Some (Inr ''3EB0'')\<rparr>) demo_sent" and n = 0
        and op = "demo_op\<lparr>so_pc := S_Done, so_slot := Some (Inr ''3EB0'')\<rparr>"]
    by (simp add: handler_step_def put_op_def op_def pj_def demo_op_def new_op_def outcome_response_def)
  then have runs: "send_runs pj (sends_start None) (put_op 0 op demo_sent)"
    by (rule more [OF demo_sent_runs])
  have at: "sw_ops (put_op 0 op demo_sent) 0 = Some op" by (simp add: put_op_def)
  have ans: "so_handler op = H_Answered 200 ''sent''" and call: "call_of op = call_of demo_op"
    by (simp_all add: op_def call_of_def)
  from send_reports_the_truth [OF runs at] ans
  have "\<exists>m. outs_of 0 (put_op 0 op demo_sent) = [Inr m] \<and> calls_of 0 (put_op 0 op demo_sent) = [call_of op]"
    by blast
  then show ?thesis using at ans call by metis
qed

end
