(* ===== verification/Admin.thy ===== *)
theory Admin
  imports Send_Race
begin

text \<open>
  The dashboard's HTTP routes of \<open>src/admin.rs\<close>: the token check, the request body, and every
  handler with its effect on the store, the device status, the coordinator and the executor's
  queue. A request is served by one handler call; what the handler reads elsewhere (clock, heap,
  client, serde_json, the parser of JIDs) is collected in \<open>admin_env\<close>. The executor tasks a
  handler queues are \<open>run_maintenance\<close> (\<open>Maintenance\<close>), the send (\<open>Send_Race\<close>) and the
  pairing task below.
\<close>

unbundle bit_operations_syntax

section \<open>Requests, responses, authentication\<close>

text \<open>
  The accessors of a request: \<open>header\<close> by lower-case name, \<open>content_len\<close> (a \<open>u64\<close>), and what
  \<open>read_exact\<close> gives for a number of bytes.
\<close>

record admin_request =
  rq_header :: "str \<Rightarrow> str option"
  rq_content_len :: "u64 option"
  rq_read_exact :: "nat \<Rightarrow> bytes option"

datatype reply =
    Response (rs_status: nat) (rs_headers: "(str \<times> str) list") (rs_body: str)
  | Awaiting_Send
  | Panicked

definition TOKEN_HEADER :: str where "TOKEN_HEADER = ''x-admin-token''"

text \<open>A literal body \<open>{"error":"..."}\<close>.\<close>

definition error_literal :: "str \<Rightarrow> str" where
  "error_literal m = ''{\"error\":\"'' @ m @ ''\"}''"

definition admin_check :: "str option \<Rightarrow> admin_request \<Rightarrow> (nat \<times> str) + unit" where
  "admin_check configured rq =
     (case configured of
        None \<Rightarrow> Inr ()
      | Some expected \<Rightarrow>
          let provided = (case rq_header rq TOKEN_HEADER of None \<Rightarrow> '''' | Some v \<Rightarrow> v);
              matches = length provided = length expected \<and>
                fold (\<lambda>(a, b) acc. acc OR (a XOR b)) (zip (as_bytes provided) (as_bytes expected)) 0 = 0
          in if matches then Inr ()
             else Inl (401, error_literal ''A valid X-Admin-Token header is required''))"

definition json_response_status :: "nat \<Rightarrow> str \<Rightarrow> reply" where
  "json_response_status status body =
     Response status [(''Content-Type'', ''application/json''), (''Cache-Control'', ''no-store'')] body"

definition json_response :: "str \<Rightarrow> reply" where
  "json_response body = json_response_status 200 body"

definition error_body :: "(json \<Rightarrow> str) \<Rightarrow> str \<Rightarrow> str" where
  "error_body print_json message = print_json (JObj [(''error'', JStr message)])"

definition starts_with :: "str \<Rightarrow> str \<Rightarrow> bool" where
  "starts_with s t \<longleftrightarrow> take (length t) s = t"

definition read_json_body ::
  "(bytes \<Rightarrow> json option) \<Rightarrow> admin_request \<Rightarrow> nat \<Rightarrow> (nat \<times> str) + json" where
  "read_json_body parse_json rq max_len =
     (if \<not> (case rq_header rq ''content-type'' of None \<Rightarrow> False | Some v \<Rightarrow> starts_with v ''application/json'')
      then Inl (415, error_literal ''Content-Type must be application/json'')
      else
        case Option.bind (rq_content_len rq) (\<lambda>len. if unat len < usize_limit then Some (unat len) else None) of
          None \<Rightarrow> Inl (411, error_literal ''Content-Length required'')
        | Some content_len \<Rightarrow>
            if content_len = 0 \<or> content_len > max_len then Inl (413, error_literal ''Invalid request size'')
            else
              (case rq_read_exact rq content_len of
                 None \<Rightarrow> Inl (400, error_literal ''Could not read the request body'')
               | Some body \<Rightarrow>
                   (case parse_json body of
                      None \<Rightarrow> Inl (400, error_literal ''Invalid JSON'')
                    | Some value \<Rightarrow> Inr value)))"

text \<open>\<open>value.get(key).and_then(|value| value.as_str())\<close>.\<close>

definition get_str :: "str \<Rightarrow> json \<Rightarrow> str option" where
  "get_str key v =
     (case v of
        JObj kvs \<Rightarrow> (case map_of kvs key of Some (JStr s) \<Rightarrow> Some s | _ \<Rightarrow> None)
      | _ \<Rightarrow> None)"

section \<open>What a handler finds\<close>

text \<open>
  \<open>admission\<close> is \<open>None\<close> with PSRAM and otherwise tells whether the timer was allocated at start.
  \<open>executor_open\<close> is whether \<open>task_tx.try_send\<close> succeeds, which for the unbounded queue is
  whether the executor still exists. \<open>key_order\<close> is the order in which sessions are listed.
\<close>

record ('n, 'd, 'k, 'j) admin_env =
  ad_platform :: "('n, 'd, 'k) platform"
  ad_token :: "str option"
  ad_admission :: "bool option"
  ad_now :: nat
  logged_in :: "client \<Rightarrow> bool"
  executor_open :: bool
  heap_free :: nat
  heap_internal :: nat
  metrics_json :: str
  dashboard_html :: str
  qrcode_js :: str
  print_json :: "json \<Rightarrow> str"
  parse_json :: "bytes \<Rightarrow> json option"
  parse_jid :: "str \<Rightarrow> 'j option"
  show_store_error :: "store_error \<Rightarrow> str"
  key_order :: "str set \<Rightarrow> str list"

text \<open>What a handler hands to the executor.\<close>

datatype 'j admin_task =
    Run_Maintenance
  | Run_Send client str 'j str
  | Run_Pair client u32 str

type_synonym ('n, 'd, 'k, 'h, 'l, 'v, 'j) served =
  "reply \<times> ('n, 'd, 'k, 'h, 'l, 'v) sys \<times> 'j admin_task option"

section \<open>Maintenance routes\<close>

definition queue_maintenance ::
  "('n, 'd, 'k, 'j) admin_env \<Rightarrow> maintenance_action \<Rightarrow> str \<Rightarrow> admin_request \<Rightarrow>
   ('n, 'd, 'k, 'h, 'l, 'v) sys \<Rightarrow> ('n, 'd, 'k, 'h, 'l, 'v, 'j) served" where
  "queue_maintenance env action accepted rq w =
     (case admin_check (ad_token env) rq of
        Inl (status, body) \<Rightarrow> (json_response_status status body, w, None)
      | Inr _ \<Rightarrow>
          (case fst (request action (sys_coord w)) of
             Rejected \<Rightarrow> (json_response_status 409 (error_literal ''Device is already rebooting''), w, None)
           | Queued \<Rightarrow> (json_response_status 202 accepted, ask action w, None)
           | Start \<Rightarrow>
               if executor_open env
               then (json_response_status 202 accepted, (ask action w)\<lparr>sys_task := Entering\<rparr>, Some Run_Maintenance)
               else (json_response_status 503 (error_literal ''WhatsApp executor is unavailable''),
                     (ask action w)\<lparr>sys_task := No_Task, sys_coord := cancel_start (sys_coord (ask action w)),
                       sys_accepted := []\<rparr>, None)))"

section \<open>Status routes\<close>

definition handle_root ::
  "('n, 'd, 'k, 'j) admin_env \<Rightarrow> ('n, 'd, 'k, 'h, 'l, 'v) sys \<Rightarrow> ('n, 'd, 'k, 'h, 'l, 'v, 'j) served" where
  "handle_root env w =
     (case stats (ad_platform env) (sys_store w) of
        (st, s) \<Rightarrow>
          (json_response (print_json env (JObj
             [(''status'', JStr ''running''), (''heap_free'', JNum (int (heap_free env))),
              (''heap_internal'', JNum (int (heap_internal env))),
              (''sessions'', JNum (int (stats_sessions st))), (''identities'', JNum (int (stats_identities st))),
              (''prekeys'', JNum (int (stats_prekeys st))), (''sender_keys'', JNum (int (stats_sender_keys st))),
              (''device_paired'', JBool (device_exists st))])), w\<lparr>sys_store := s\<rparr>, None))"

definition handle_device ::
  "('n, 'd, 'k, 'j) admin_env \<Rightarrow> admin_request \<Rightarrow> ('n, 'd, 'k, 'h, 'l, 'v) sys \<Rightarrow> ('n, 'd, 'k, 'h, 'l, 'v, 'j) served" where
  "handle_device env rq w =
     (let authenticated = (admin_check (ad_token env) rq = Inr ())
      in (json_response (to_json_authenticated (print_json env) (ad_now env) authenticated (sys_status w)), w, None))"

definition handle_messages ::
  "('n, 'd, 'k, 'j) admin_env \<Rightarrow> admin_request \<Rightarrow> ('n, 'd, 'k, 'h, 'l, 'v) sys \<Rightarrow> ('n, 'd, 'k, 'h, 'l, 'v, 'j) served" where
  "handle_messages env rq w =
     (case admin_check (ad_token env) rq of
        Inr _ \<Rightarrow> (json_response (messages_json (print_json env) (sys_status w)), w, None)
      | Inl (status, body) \<Rightarrow> (json_response_status status body, w, None))"

definition handle_sessions ::
  "('n, 'd, 'k, 'j) admin_env \<Rightarrow> admin_request \<Rightarrow> ('n, 'd, 'k, 'h, 'l, 'v) sys \<Rightarrow> ('n, 'd, 'k, 'h, 'l, 'v, 'j) served" where
  "handle_sessions env rq w =
     (case admin_check (ad_token env) rq of
        Inl (status, body) \<Rightarrow> (json_response_status status body, w, None)
      | Inr _ \<Rightarrow>
          (case list_sessions (ad_platform env) (sys_store w) of
             (Inl e, s) \<Rightarrow>
               (json_response_status 500 (error_literal (''session list failed: '' @ show_store_error env e)),
                w\<lparr>sys_store := s\<rparr>, None)
           | (Inr found, s) \<Rightarrow>
               let addresses = key_order env found in
               (json_response (print_json env (JObj
                  [(''count'', JNum (int (length addresses))), (''addresses'', JArr (map JStr addresses))])),
                w\<lparr>sys_store := s\<rparr>, None)))"

section \<open>\<open>POST /send\<close>\<close>

text \<open>Up to the executor: then the handler waits (\<open>Send_Race\<close>).\<close>

definition handle_send ::
  "('n, 'd, 'k, 'j) admin_env \<Rightarrow> admin_request \<Rightarrow> ('n, 'd, 'k, 'h, 'l, 'v) sys \<Rightarrow> ('n, 'd, 'k, 'h, 'l, 'v, 'j) served" where
  "handle_send env rq w =
     (let answer = (\<lambda>status message. (json_response_status status (error_literal message), w, None)) in
      case admin_check (ad_token env) rq of
        Inl (status, body) \<Rightarrow> (json_response_status status body, w, None)
      | Inr _ \<Rightarrow>
      if ad_admission env = Some False then answer 503 ''Send admission unavailable; reboot to retry''
      else
      case read_json_body (parse_json env) rq 2048 of
        Inl (status, body) \<Rightarrow> (json_response_status status body, w, None)
      | Inr value \<Rightarrow>
      case get_str ''to'' value of
        None \<Rightarrow> answer 400 ''to is required''
      | Some to \<Rightarrow>
      case get_str ''text'' value of
        None \<Rightarrow> answer 400 ''text is required''
      | Some content \<Rightarrow>
      if content = '''' then answer 400 ''text is empty''
      else
      case parse_jid env to of
        None \<Rightarrow> answer 400 ''to is not a JID''
      | Some jid \<Rightarrow>
      case current (sys_active w) of
        None \<Rightarrow> answer 503 ''WhatsApp client is starting''
      | Some c \<Rightarrow>
      if \<not> logged_in env c then answer 503 ''Not connected''
      else if \<not> executor_open env then answer 503 ''WhatsApp executor is unavailable''
      else (Awaiting_Send, w, Some (Run_Send c to jid content)))"

section \<open>\<open>POST /pair-code\<close>\<close>

definition phone_char :: "char \<Rightarrow> bool" where
  "phone_char c \<longleftrightarrow> is_digit c \<or> c \<in> {CHR ''+'', CHR '' '', CHR ''-'', CHR ''('', CHR '')''}"

definition refusal_message :: "pair_code_refusal \<Rightarrow> str" where
  "refusal_message r =
     (case r of
        Code_Being_Generated \<Rightarrow> ''A linking code is being generated''
      | Code_Already_Active \<Rightarrow> ''A linking code is already active'')"

definition handle_pair_code ::
  "('n, 'd, 'k, 'j) admin_env \<Rightarrow> admin_request \<Rightarrow> ('n, 'd, 'k, 'h, 'l, 'v) sys \<Rightarrow> ('n, 'd, 'k, 'h, 'l, 'v, 'j) served" where
  "handle_pair_code env rq w =
     (let answer = (\<lambda>status message w. (json_response_status status (error_literal message), w, None)) in
      case admin_check (ad_token env) rq of
        Inl (status, body) \<Rightarrow> (json_response_status status body, w, None)
      | Inr _ \<Rightarrow>
      case read_json_body (parse_json env) rq 128 of
        Inl (status, body) \<Rightarrow> (json_response_status status body, w, None)
      | Inr value \<Rightarrow>
      case get_str ''phone_number'' value of
        None \<Rightarrow> answer 400 ''phone_number is required'' w
      | Some raw_phone \<Rightarrow>
      if \<not> list_all phone_char raw_phone then answer 400 ''Invalid phone number'' w
      else
      let phone = filter is_digit raw_phone in
      if \<not> (7 \<le> length phone \<and> length phone \<le> 15) \<or> starts_with phone ''0''
      then answer 400 ''Use 7-15 international digits without a leading zero'' w
      else if \<not> is_idle (sys_coord w) then answer 409 ''Device maintenance is in progress'' w
      else
      case current (sys_active w) of
        None \<Rightarrow> answer 503 ''WhatsApp client is starting'' w
      | Some c \<Rightarrow>
      case stats (ad_platform env) (sys_store w) of
        (st, s) \<Rightarrow>
      let w = w\<lparr>sys_store := s\<rparr> in
      if device_exists st \<or> logged_in env c then answer 409 ''Device is already paired'' w
      else
      case begin_pair_code (ad_now env) (sys_status w) of
        (Inl r, _) \<Rightarrow> (json_response_status 409 (error_body (print_json env) (refusal_message r)), w, None)
      | (Inr request_id, ds) \<Rightarrow>
      if \<not> executor_open env
      then answer 503 ''WhatsApp executor is unavailable''
             (w\<lparr>sys_status := fail_pair_code request_id ''WhatsApp executor is unavailable'' ds\<rparr>)
      else (json_response_status 202 ''{\"result\":\"pending\"}'', w\<lparr>sys_status := ds\<rparr>,
            Some (Run_Pair c request_id phone)))"

text \<open>
  The pairing task once \<open>wait_for_socket_ready\<close> has returned: it ends, or it calls
  \<open>pair_with_code\<close> with the number returned here.
\<close>

definition pair_task_ready ::
  "('n, 'd, 'k, 'j) admin_env \<Rightarrow> bool \<Rightarrow> client \<Rightarrow> u32 \<Rightarrow> str \<Rightarrow> ('n, 'd, 'k, 'h, 'l, 'v) sys \<Rightarrow>
   str option \<times> ('n, 'd, 'k, 'h, 'l, 'v) sys" where
  "pair_task_ready env socket_ready c request_id phone w =
     (let fail = (\<lambda>m w. (None, w\<lparr>sys_status := fail_pair_code request_id m (sys_status w)\<rparr>)) in
      if \<not> socket_ready then fail ''WhatsApp connection is not ready'' w
      else if \<not> is_current c (sys_active w) then fail ''WhatsApp client restarted; try again'' w
      else
      case stats (ad_platform env) (sys_store w) of
        (st, s) \<Rightarrow>
      let w = w\<lparr>sys_store := s\<rparr> in
      if device_exists st \<or> logged_in env c then fail ''Device is already paired'' w
      else if \<not> is_idle (sys_coord w) then fail ''Device maintenance is in progress'' w
      else (Some phone, w))"

text \<open>The end of \<open>pair_with_code\<close>: a code for 180 seconds, or an error.\<close>

definition pair_task_finish ::
  "nat \<Rightarrow> u32 \<Rightarrow> str option \<Rightarrow> ('n, 'd, 'k, 'h, 'l, 'v) sys \<Rightarrow> ('n, 'd, 'k, 'h, 'l, 'v) sys" where
  "pair_task_finish now request_id result w =
     w\<lparr>sys_status :=
        (case result of
           Some code \<Rightarrow> complete_pair_code now request_id code (from_secs 180) (sys_status w)
         | None \<Rightarrow> fail_pair_code request_id ''Could not generate a pairing code; try again later'' (sys_status w))\<rparr>"

section \<open>The server\<close>

datatype route =
    Get_Dashboard | Get_Qrcode_Js | Get_Root | Get_Device | Get_Messages | Post_Send | Post_Pair_Code
  | Get_Health | Post_Test_Panic | Get_Metrics | Post_Reset | Post_Reboot | Get_Sessions | Delete_Sessions

definition handle ::
  "('n, 'd, 'k, 'j) admin_env \<Rightarrow> route \<Rightarrow> admin_request \<Rightarrow> ('n, 'd, 'k, 'h, 'l, 'v) sys \<Rightarrow>
   ('n, 'd, 'k, 'h, 'l, 'v, 'j) served" where
  "handle env r rq w =
     (case r of
        Get_Dashboard \<Rightarrow> (Response 200 [(''Content-Type'', ''text/html'')] (dashboard_html env), w, None)
      | Get_Qrcode_Js \<Rightarrow>
          (Response 200 [(''Content-Type'', ''application/javascript''), (''Cache-Control'', ''no-cache''),
             (''X-Content-Type-Options'', ''nosniff'')] (qrcode_js env), w, None)
      | Get_Root \<Rightarrow> handle_root env w
      | Get_Device \<Rightarrow> handle_device env rq w
      | Get_Messages \<Rightarrow> handle_messages env rq w
      | Post_Send \<Rightarrow> handle_send env rq w
      | Post_Pair_Code \<Rightarrow> handle_pair_code env rq w
      | Get_Health \<Rightarrow> (Response 200 [] ''ok'', w, None)
      | Post_Test_Panic \<Rightarrow> (Panicked, w, None)
      | Get_Metrics \<Rightarrow> (json_response (metrics_json env), w, None)
      | Post_Reset \<Rightarrow>
          queue_maintenance env Reset
            ''{\"result\":\"resetting\",\"message\":\"Logging out, clearing persistent data, and rebooting.\"}'' rq w
      | Post_Reboot \<Rightarrow> queue_maintenance env Reboot ''{\"result\":\"rebooting\"}'' rq w
      | Get_Sessions \<Rightarrow> handle_sessions env rq w
      | Delete_Sessions \<Rightarrow>
          queue_maintenance env ClearSessions
            ''{\"result\":\"clearing\",\"message\":\"Disconnecting, clearing sessions, and rebooting.\"}'' rq w)"

end
