(* ===== verification/Admin_Properties.thy ===== *)
theory Admin_Properties
  imports Admin
begin

text \<open>
  What the dashboard's routes guarantee: who may use them, how they drive the maintenance
  coordinator, and when a phone-number pairing is asked for.
\<close>

unbundle bit_operations_syntax

section \<open>The token\<close>

lemma or_bytes_zero: "(a :: byte) OR b = 0 \<longleftrightarrow> a = 0 \<and> b = 0"
  by (rule or_eq_0_iff)

lemma xor_bytes_zero: "(a :: byte) XOR b = 0 \<longleftrightarrow> a = b"
  by (metis xor_self_eq bit.xor_left_self xor.right_neutral)

lemma fold_differences:
  "length xs = length ys \<Longrightarrow>
     fold (\<lambda>(a, b) acc. acc OR (a XOR b)) (zip xs ys) (acc :: byte) = 0 \<longleftrightarrow> acc = 0 \<and> xs = ys"
  by (induction xs ys arbitrary: acc rule: list_induct2)
    (auto simp: or_bytes_zero xor_bytes_zero)

lemma as_bytes_inj: "as_bytes s = as_bytes t \<longleftrightarrow> s = t"
  by (metis str_of_bytes_as_bytes)

definition provided_token :: "admin_request \<Rightarrow> str" where
  "provided_token rq = (case rq_header rq TOKEN_HEADER of None \<Rightarrow> '''' | Some v \<Rightarrow> v)"

definition authorised :: "str option \<Rightarrow> admin_request \<Rightarrow> bool" where
  "authorised configured rq \<longleftrightarrow> (case configured of None \<Rightarrow> True | Some t \<Rightarrow> provided_token rq = t)"

definition UNAUTHORISED :: reply where
  "UNAUTHORISED = json_response_status 401 (error_literal ''A valid X-Admin-Token header is required'')"

text \<open>The comparison that does not stop at the first difference is equality.\<close>

lemma admin_check_exact:
  "admin_check configured rq =
     (if authorised configured rq then Inr ()
      else Inl (401, error_literal ''A valid X-Admin-Token header is required''))"
proof (cases configured)
  case None
  then show ?thesis by (simp add: admin_check_def authorised_def)
next
  case (Some t)
  have "length (provided_token rq) = length t \<and>
      fold (\<lambda>(a, b) acc. acc OR (a XOR b)) (zip (as_bytes (provided_token rq)) (as_bytes t)) (0 :: byte) = 0 \<longleftrightarrow>
      provided_token rq = t"
    using fold_differences [of "as_bytes (provided_token rq)" "as_bytes t" 0]
    by (auto simp: as_bytes_inj)
  then show ?thesis
    using Some unfolding admin_check_def provided_token_def [symmetric] by (simp add: authorised_def)
qed

section \<open>Guarded routes\<close>

text \<open>
  A route that starts with the token check answers an unauthorised request at once and touches
  nothing.
\<close>

locale guarded_route =
  fixes env :: "('n, 'd, 'k, 'j) admin_env"
    and serve :: "admin_request \<Rightarrow> ('n, 'd, 'k, 'h, 'l, 'v) sys \<Rightarrow> ('n, 'd, 'k, 'h, 'l, 'v, 'j) served"
  assumes checks_first:
    "admin_check (ad_token env) rq = Inl (status, body) \<Longrightarrow> serve rq w = (json_response_status status body, w, None)"
begin

lemma refuses: "\<not> authorised (ad_token env) rq \<Longrightarrow> serve rq w = (UNAUTHORISED, w, None)"
  using checks_first by (simp add: admin_check_exact UNAUTHORISED_def)

end

interpretation maintenance: guarded_route env "queue_maintenance env action accepted" for env action accepted
  by unfold_locales (simp add: queue_maintenance_def)

interpretation msgs: guarded_route env "handle_messages env" for env
  by unfold_locales (simp add: handle_messages_def)

interpretation listing: guarded_route env "handle_sessions env" for env
  by unfold_locales (simp add: handle_sessions_def)

interpretation sending: guarded_route env "handle_send env" for env
  by unfold_locales (simp add: handle_send_def)

interpretation pairing: guarded_route env "handle_pair_code env" for env
  by unfold_locales (simp add: handle_pair_code_def)

lemmas guarded = maintenance.refuses msgs.refuses listing.refuses sending.refuses pairing.refuses

definition sensitive_routes :: "route set" where
  "sensitive_routes = {Get_Messages, Post_Send, Post_Pair_Code, Post_Reset, Post_Reboot, Get_Sessions, Delete_Sessions}"

text \<open>What anyone on the network may see.\<close>

definition public_view ::
  "('n, 'd, 'k, 'j) admin_env \<Rightarrow> ('n, 'd, 'k, 'h, 'l, 'v) sys \<Rightarrow> store_stats \<times> bool" where
  "public_view env w = (fst (stats (ad_platform env) (sys_store w)), connected (sys_status w))"

lemma redacted_device:
  "connected s = connected s' \<Longrightarrow>
     to_json_authenticated pj now False s = to_json_authenticated pj now False s'"
  by (simp add: to_json_authenticated_def)


section \<open>The dashboard and the maintenance task\<close>

text \<open>Every request is a few steps of the system that \<open>Maintenance\<close> studies.\<close>

lemma ask_Start_task: "fst (request a (sys_coord w)) = Start \<Longrightarrow> sys_task (ask a w) = Spawning"
  by (auto simp: ask_def split: prod.split)

lemma queue_reachable:
  assumes "reachable (ad_platform env) w0 w"
  shows "reachable (ad_platform env) w0 (fst (snd (queue_maintenance env a accepted rq w)))"
proof (cases "authorised (ad_token env) rq")
  case False
  then show ?thesis using assms by (simp add: guarded)
next
  case True
  have asked: "reachable (ad_platform env) w0 (ask a w)" by (rule reachable.step [OF assms asks])
  show ?thesis
  proof (cases "fst (request a (sys_coord w))")
    case Start
    note spawning = ask_Start_task [OF Start]
    show ?thesis
      using reachable.step [OF asked spawned [OF spawning]] reachable.step [OF asked not_spawned [OF spawning]]
      by (simp add: queue_maintenance_def admin_check_exact True Start)
  next
    case Queued
    then show ?thesis using asked by (simp add: queue_maintenance_def admin_check_exact True)
  next
    case Rejected
    then show ?thesis using assms by (simp add: queue_maintenance_def admin_check_exact True)
  qed
qed

lemma stats_reachable:
  "reachable p w0 w \<Longrightarrow> stats p (sys_store w) = (st, s) \<Longrightarrow> reachable p w0 (w\<lparr>sys_store := s\<rparr>)"
  using reachable.step [OF _ counts] by fastforce

lemma pair_reachable:
  assumes "reachable (ad_platform env) w0 w"
  shows "reachable (ad_platform env) w0 (fst (snd (handle_pair_code env rq w)))"
proof -
  obtain st t where stats: "stats (ad_platform env) (sys_store w) = (st, t)" by fastforce
  let ?w = "w\<lparr>sys_store := t\<rparr>"
  have w: "reachable (ad_platform env) w0 ?w" by (rule stats_reachable [OF assms stats])
  obtain r ds where began: "begin_pair_code (ad_now env) (sys_status w) = (r, ds)" by fastforce
  have ds: "reachable (ad_platform env) w0 (?w\<lparr>sys_status := ds\<rparr>)"
    using reachable.step [OF w shows_status, of "Begin_Pair_Code (ad_now env)"] began by simp
  have "reachable (ad_platform env) w0 (?w\<lparr>sys_status := fail_pair_code q m ds\<rparr>)" for q m
    using reachable.step [OF ds shows_status, of "Fail_Pair_Code q m"] by simp
  then show ?thesis
    using assms w ds
    by (auto simp: handle_pair_code_def stats began Let_def split: sum.split option.split)
qed

lemma handle_reachable:
  assumes "reachable (ad_platform env) w0 w"
  shows "reachable (ad_platform env) w0 (fst (snd (handle env r rq w)))"
proof -
  have lists: "reachable (ad_platform env) w0 (w\<lparr>sys_store := snd (list_sessions (ad_platform env) (sys_store w))\<rparr>)"
    by (rule reachable.step [OF assms lists])
  obtain found t where found: "list_sessions (ad_platform env) (sys_store w) = (found, t)" by fastforce
  have "reachable (ad_platform env) w0 (fst (snd (handle_sessions env rq w)))"
    using assms lists by (auto simp: handle_sessions_def found Let_def split: sum.split)
  moreover have "fst (snd (handle_send env rq w)) = w"
    by (auto simp: handle_send_def Let_def split: sum.split option.split)
  moreover have "reachable (ad_platform env) w0 (fst (snd (handle_root env w)))"
    using stats_reachable [OF assms] by (auto simp: handle_root_def split: prod.split)
  moreover have "fst (snd (handle_messages env rq w)) = w"
    by (auto simp: handle_messages_def split: sum.split)
  ultimately show ?thesis
    using assms queue_reachable [OF assms] pair_reachable [OF assms]
    by (cases r) (simp_all add: handle_def handle_device_def Let_def)
qed

definition maintenance_routes :: "(route \<times> maintenance_action) list" where
  "maintenance_routes = [(Post_Reboot, Reboot), (Delete_Sessions, ClearSessions), (Post_Reset, Reset)]"

text \<open>C16: the dashboard drives the maintenance task properly. Whatever requests it serves, the
system stays within the states of \<open>Maintenance\<close>, so its guarantees hold for the requests made
here. An authorised request for a reboot, a session clear or a reset is answered 409 exactly when
the reboot is already committed, and then changes nothing; 202 exactly when it is accepted and a
task exists or could be queued, and then what is asked for is at least this action and exactly
one task is under way; otherwise 503, and then no request is left behind without a task.\<close>

theorem dashboard_drives_maintenance:
  assumes "reachable (ad_platform env) w0 w" and "handle env r rq w = (reply, w', t)"
    and "(r, a) \<in> set maintenance_routes" and "authorised (ad_token env) rq"
  shows "reachable (ad_platform env) w0 w' \<and>
     (rs_status reply = 409 \<longleftrightarrow> \<not> accepting (sys_coord w)) \<and>
     (rs_status reply = 202 \<longleftrightarrow> accepting (sys_coord w) \<and> (running (sys_coord w) \<or> executor_open env)) \<and>
     (rs_status reply = 409 \<longrightarrow> w' = w) \<and>
     (rs_status reply = 202 \<longrightarrow> a \<le> requested (sys_coord w') \<and> requested (sys_coord w) \<le> requested (sys_coord w') \<and>
        running (sys_coord w') \<and> t = (if running (sys_coord w) then None else Some Run_Maintenance)) \<and>
     (rs_status reply \<notin> {202, 409} \<longrightarrow> rs_status reply = 503 \<and> is_idle (sys_coord w') \<and> t = None)"
proof -
  have reach: "reachable (ad_platform env) w0 w'" using handle_reachable [OF assms(1), of r rq] assms(2) by simp
  obtain accepted where q: "handle env r rq w = queue_maintenance env a accepted rq w"
    using assms(3) by (auto simp: maintenance_routes_def handle_def)
  show ?thesis
  proof (cases "accepting (sys_coord w)")
    case False
    then show ?thesis
      using reach assms(2,4) q by (auto simp: queue_maintenance_def admin_check_exact request_def json_response_status_def)
  next
    case True
    then show ?thesis
      using reach assms(2,4) q
      by (cases "running (sys_coord w)"; cases "executor_open env"; cases "requested_action (sys_coord w)")
        (auto simp: queue_maintenance_def admin_check_exact request_def json_response_status_def ask_def Let_def
          requested_def is_idle_def cancel_start_def)
  qed
qed

section \<open>Phone-number pairing\<close>

text \<open>A number the pairing request may carry: 7 to 15 digits, the first not a zero.\<close>

definition dialable :: "str \<Rightarrow> bool" where
  "dialable n \<longleftrightarrow> list_all is_digit n \<and> 7 \<le> length n \<and> length n \<le> 15 \<and> hd n \<noteq> CHR ''0''"

lemma leading_zero: "n \<noteq> [] \<Longrightarrow> starts_with n ''0'' \<longleftrightarrow> hd n = CHR ''0''"
  by (cases n) (simp_all add: starts_with_def)

lemma filtered_digits: "list_all is_digit (filter is_digit n)"
  by (induction n) simp_all

lemma dialable_filter:
  assumes "7 \<le> length (filter is_digit n)" and "length (filter is_digit n) \<le> 15" and "\<not> starts_with (filter is_digit n) ''0''"
  shows "dialable (filter is_digit n)"
proof -
  have "filter is_digit n \<noteq> []" using assms(1) by auto
  then show ?thesis using assms leading_zero filtered_digits by (simp add: dialable_def)
qed

lemma begin_pending: "begin_pair_code now ds = (Inr q, ds') \<Longrightarrow> pair_code ds' = Pair_Pending q"
  by (auto simp: begin_pair_code_def Let_def split: pair_code_state.splits if_splits)

lemma queued_pairing:
  assumes "handle_pair_code env rq w = (reply, w', Some (Run_Pair c q phone))"
  shows "authorised (ad_token env) rq \<and> rs_status reply = 202 \<and> dialable phone \<and>
     (\<exists>raw. phone = filter is_digit raw) \<and>
     is_idle (sys_coord w) \<and> is_current c (sys_active w) \<and> \<not> logged_in env c \<and>
     \<not> device_exists (fst (stats (ad_platform env) (sys_store w))) \<and> pair_code (sys_status w') = Pair_Pending q"
  using assms
  by (auto simp: handle_pair_code_def admin_check_exact Let_def json_response_status_def is_current_def current_def
      not_less not_le
      intro!: dialable_filter begin_pending
      split: sum.splits option.splits prod.splits if_splits)

lemma pairing_call:
  assumes "pair_task_ready env ready_socket c q phone w = (Some n, w')"
  shows "ready_socket \<and> n = phone \<and> is_current c (sys_active w) \<and> \<not> logged_in env c \<and> is_idle (sys_coord w) \<and>
     \<not> device_exists (fst (stats (ad_platform env) (sys_store w))) \<and> sys_status w' = sys_status w"
  using assms by (auto simp: pair_task_ready_def Let_def split: if_splits prod.splits)

lemma failed_attempt: "pair_code (fail_pair_code q m ds) \<noteq> Pair_Pending q"
  by (auto simp: fail_pair_code_def pair_code_request_is_def split: pair_code_state.splits)

lemma pairing_stops:
  "pair_task_ready env ready_socket c q phone w = (None, w') \<Longrightarrow> pair_code (sys_status w') \<noteq> Pair_Pending q"
  by (auto simp: pair_task_ready_def Let_def failed_attempt split: if_splits prod.splits)

lemma pairing_finishes: "pair_code (sys_status (pair_task_finish now q result w)) \<noteq> Pair_Pending q"
  by (auto simp: pair_task_finish_def failed_attempt complete_pair_code_def pair_code_request_is_def
      split: option.splits pair_code_state.splits)

text \<open>C32: a linking code is only asked for where it can be used, and no attempt hangs. A pairing task
is queued only for an authorised request, for 7 to 15 digits without a leading zero, on an
unpaired device without maintenance, for the running client, and the attempt is pending then. The
task calls \<open>pair_with_code\<close>, with that number, only if at that moment the client is still the
running one, the device is still unpaired and no maintenance has come in between; if it does not
call, or once the call has returned, the attempt is no longer pending.\<close>

theorem pairing_guarded:
  "(\<forall>reply w' c q phone. handle_pair_code env rq w = (reply, w', Some (Run_Pair c q phone)) \<longrightarrow>
      authorised (ad_token env) rq \<and> rs_status reply = 202 \<and> dialable phone \<and>
      is_idle (sys_coord w) \<and> is_current c (sys_active w) \<and> \<not> logged_in env c \<and>
      \<not> device_exists (fst (stats (ad_platform env) (sys_store w))) \<and> pair_code (sys_status w') = Pair_Pending q) \<and>
   (\<forall>n w'. pair_task_ready env ready_socket c q phone w = (Some n, w') \<longrightarrow>
      ready_socket \<and> n = phone \<and> is_current c (sys_active w) \<and> \<not> logged_in env c \<and> is_idle (sys_coord w) \<and>
      \<not> device_exists (fst (stats (ad_platform env) (sys_store w))) \<and> sys_status w' = sys_status w) \<and>
   (\<forall>w'. pair_task_ready env ready_socket c q phone w = (None, w') \<longrightarrow> pair_code (sys_status w') \<noteq> Pair_Pending q) \<and>
   pair_code (sys_status (pair_task_finish now q result w)) \<noteq> Pair_Pending q"
  using queued_pairing [of env rq w] pairing_call [of env ready_socket c q phone w]
    pairing_stops [of env ready_socket c q phone w] pairing_finishes [of now q result w]
  by (intro conjI allI impI) (blast+)

section \<open>Witnesses\<close>

text \<open>A device with a token, and requests that carry one.\<close>

definition demo_env :: "(sim, bytes, byte \<times> bytes, nat) admin_env" where
  "demo_env = \<lparr>ad_platform = sim_platform False, ad_token = Some ''secret'', ad_admission = None, ad_now = 0,
     logged_in = \<lambda>_. False, executor_open = True, heap_free = 0, heap_internal = 0, metrics_json = '''',
     dashboard_html = '''', qrcode_js = '''', print_json = \<lambda>_. '''',
     parse_json = \<lambda>_. Some (JObj [(''phone_number'', JStr ''+1 (555) 123-4567'')]),
     parse_jid = \<lambda>_. None, show_store_error = \<lambda>_. '''', key_order = \<lambda>_. []\<rparr>"

definition demo_rq :: "str \<Rightarrow> admin_request" where
  "demo_rq tok = \<lparr>rq_header = \<lambda>h. if h = TOKEN_HEADER then Some tok
       else if h = ''content-type'' then Some ''application/json'' else None,
     rq_content_len = Some 30, rq_read_exact = \<lambda>n. Some (replicate n 0)\<rparr>"

lemma demo_authorised: "authorised (ad_token demo_env) (demo_rq tok) \<longleftrightarrow> tok = ''secret''"
  by (simp add: authorised_def provided_token_def demo_env_def demo_rq_def)


theorem dashboard_drives_maintenance_witness:
  "rs_status (fst (handle demo_env Post_Reset (demo_rq ''secret'') demo_clear)) = 202 \<and>
   Reset \<le> requested (sys_coord (fst (snd (handle demo_env Post_Reset (demo_rq ''secret'') demo_clear))))"
proof -
  have p: "ad_platform demo_env = sim_platform False" by (simp add: demo_env_def)
  have c: "accepting (sys_coord demo_clear)" "running (sys_coord demo_clear)"
    by (simp_all add: demo_clear_def boot_def request_def coordinator_new_def Let_def)
  obtain reply w' t where h: "handle demo_env Post_Reset (demo_rq ''secret'') demo_clear = (reply, w', t)"
    using prod_cases3 by blast
  from dashboard_drives_maintenance [of demo_env, unfolded p, OF demo_clear_reachable h, of Reset] show ?thesis
    using c by (simp add: h demo_authorised maintenance_routes_def)
qed

definition demo_unpaired :: sim_sys where
  "demo_unpaired = (boot demo_store)\<lparr>sys_active := Some 5\<rparr>"

theorem pairing_guarded_witness:
  "\<exists>reply w' phone. handle_pair_code demo_env (demo_rq ''secret'') demo_unpaired =
      (reply, w', Some (Run_Pair 5 1 phone)) \<and> dialable phone \<and> pair_code (sys_status w') = Pair_Pending 1"
proof -
  obtain st t where st: "stats (sim_platform False) demo_store = (st, t)" by fastforce
  have "device_exists st = (device (inner demo_store) \<noteq> None)"
    using st by (auto simp: stats_def Let_def split: prod.splits if_splits)
  then have unpaired: "\<not> device_exists st" by (simp add: demo_store_def fresh_store_def inner_default_def)
  have "handle_pair_code demo_env (demo_rq ''secret'') demo_unpaired =
      (json_response_status 202 ''{\"result\":\"pending\"}'',
       demo_unpaired\<lparr>sys_store := t, sys_status := snd (begin_pair_code 0 status_new)\<rparr>, Some (Run_Pair 5 1 ''15551234567''))"
    using demo_authorised [of "''secret''"] unpaired
    by (simp add: handle_pair_code_def admin_check_exact read_json_body_def demo_rq_def TOKEN_HEADER_def demo_env_def
        starts_with_def usize_limit_def get_str_def phone_char_def is_digit_def digit_val_def demo_unpaired_def boot_def
        is_idle_def coordinator_new_def current_def st begin_pair_code_def status_new_def Let_def)
  then show ?thesis
    using pairing_guarded [of demo_env "demo_rq ''secret''" demo_unpaired] by blast
qed

end
