(* ===== verification/Client_Exit.thy ===== *)
theory Client_Exit
  imports Maintenance Send_Admission
begin

text \<open>
  How a client instance ends and what the supervisor loop of \<open>src/main.rs\<close> does about it:
  \<open>ClientExit\<close>, \<open>ClientExitObserver\<close>, the end of \<open>run_whatsapp_inner\<close> and the decision and the
  delay of \<open>run_whatsapp\<close>. Events reach the observer from any task; \<open>fetch_max\<close> and \<open>store\<close> are
  one step each.
\<close>

section \<open>The observer\<close>

datatype client_exit = Restart | Temporary_Ban | Preserve_Credentials | Reset_Credentials

text \<open>The \<open>repr(u8)\<close> value of a variant, and \<open>ClientExit::from_u8\<close>.\<close>

primrec exit_code :: "client_exit \<Rightarrow> 8 word" where
  "exit_code Restart = 0"
| "exit_code Temporary_Ban = 1"
| "exit_code Preserve_Credentials = 2"
| "exit_code Reset_Credentials = 3"

definition exit_from_u8 :: "8 word \<Rightarrow> client_exit" where
  "exit_from_u8 v =
     (if v = 3 then Reset_Credentials else if v = 2 then Preserve_Credentials
      else if v = 1 then Temporary_Ban else Restart)"

text \<open>
  The events the observer is interested in: a logout with or without the raw stanza and whether
  its reason is \<open>LoggedOut\<close>, a ban with its seconds (an \<open>i64\<close>), and a failure to connect with
  the SDK's \<open>should_reconnect\<close>.
\<close>

datatype client_event =
    Logged_Out bool bool
  | Temp_Ban "64 word"
  | Client_Outdated
  | Stream_Replaced
  | Connect_Failure bool
  | Other_Event

record exit_observer =
  eo_outcome :: "8 word"
  eo_ban_seconds :: u32

definition observer_new :: exit_observer where
  "observer_new = \<lparr>eo_outcome = exit_code Restart, eo_ban_seconds = 0\<rparr>"

text \<open>\<open>u32::try_from(secs.max(0)).unwrap_or(u32::MAX)\<close>.\<close>

definition ban_u32 :: "64 word \<Rightarrow> u32" where
  "ban_u32 secs = (let s = max (sint secs) 0 in if s < 2 ^ 32 then word_of_int s else - 1)"

definition event_outcome :: "client_event \<Rightarrow> client_exit option" where
  "event_outcome e =
     (case e of
        Logged_Out raw logged_out \<Rightarrow>
          if raw \<and> logged_out then Some Reset_Credentials
          else if raw then Some Preserve_Credentials else None
      | Temp_Ban _ \<Rightarrow> Some Temporary_Ban
      | Client_Outdated \<Rightarrow> Some Preserve_Credentials
      | Stream_Replaced \<Rightarrow> Some Preserve_Credentials
      | Connect_Failure should_reconnect \<Rightarrow> if \<not> should_reconnect then Some Preserve_Credentials else None
      | Other_Event \<Rightarrow> None)"

definition handle_event :: "client_event \<Rightarrow> exit_observer \<Rightarrow> exit_observer" where
  "handle_event e ob =
     (let ob = (case e of Temp_Ban secs \<Rightarrow> ob\<lparr>eo_ban_seconds := ban_u32 secs\<rparr> | _ \<Rightarrow> ob)
      in case event_outcome e of
           None \<Rightarrow> ob
         | Some outcome \<Rightarrow> ob\<lparr>eo_outcome := max (eo_outcome ob) (exit_code outcome)\<rparr>)"

text \<open>\<open>interest\<close>: the kinds of events the client dispatches to the observer.\<close>

datatype event_kind =
    Kind_Logged_Out | Kind_Client_Outdated | Kind_Stream_Replaced | Kind_Temporary_Ban | Kind_Connect_Failure | Kind_Other

definition interest :: "event_kind list" where
  "interest = [Kind_Logged_Out, Kind_Client_Outdated, Kind_Stream_Replaced, Kind_Temporary_Ban, Kind_Connect_Failure]"

definition kind_of :: "client_event \<Rightarrow> event_kind" where
  "kind_of e =
     (case e of
        Logged_Out _ _ \<Rightarrow> Kind_Logged_Out
      | Temp_Ban _ \<Rightarrow> Kind_Temporary_Ban
      | Client_Outdated \<Rightarrow> Kind_Client_Outdated
      | Stream_Replaced \<Rightarrow> Kind_Stream_Replaced
      | Connect_Failure _ \<Rightarrow> Kind_Connect_Failure
      | Other_Event \<Rightarrow> Kind_Other)"

section \<open>The end of a client instance\<close>

text \<open>The static \<open>TEMPORARY_BAN_WAIT\<close>, the status and the active client.\<close>

record exit_world =
  ew_ban_wait :: u32
  ew_status :: device_status
  ew_active :: active_client

definition saturating_add_u32 :: "u32 \<Rightarrow> u32 \<Rightarrow> u32" where
  "saturating_add_u32 a b = (if unat a + unat b < 2 ^ 32 then a + b else - 1)"

text \<open>After \<open>bot.run()\<close> of client \<open>c\<close>.\<close>

definition client_ended :: "client \<Rightarrow> exit_observer \<Rightarrow> exit_world \<Rightarrow> client_exit \<times> exit_world" where
  "client_ended c ob w =
     (let w = w\<lparr>ew_active := clear_if c (ew_active w)\<rparr>;
          outcome = exit_from_u8 (eo_outcome ob);
          w = w\<lparr>ew_status := (case outcome of
                  Reset_Credentials \<Rightarrow> set_logged_out (ew_status w)
                | _ \<Rightarrow> set_disconnected (ew_status w))\<rparr>
      in (outcome, w\<lparr>ew_ban_wait := saturating_add_u32 (eo_ban_seconds ob) 5\<rparr>))"

section \<open>The supervisor's decision\<close>

text \<open>Sleep and build the client again, stop for good, or run maintenance and stop.\<close>

datatype decision = Retry_In nat | Stop_Retrying | Erase_Credentials

text \<open>
  The \<open>match\<close> on the outcome of \<open>run_whatsapp_inner\<close> (\<open>None\<close>: it returned an error); \<open>swap(0)\<close>
  empties the ban wait.
\<close>

definition supervisor_decision :: "client_exit option \<Rightarrow> u32 \<Rightarrow> decision \<times> u32" where
  "supervisor_decision outcome ban_wait =
     (case outcome of
        Some Restart \<Rightarrow> (Retry_In 5, ban_wait)
      | Some Temporary_Ban \<Rightarrow> (Retry_In (unat (max ban_wait 1)), 0)
      | Some Preserve_Credentials \<Rightarrow> (Stop_Retrying, ban_wait)
      | Some Reset_Credentials \<Rightarrow> (Erase_Credentials, ban_wait)
      | None \<Rightarrow> (Retry_In 5, ban_wait))"

text \<open>One generation: the events it saw until \<open>bot.run()\<close> returned, or a failed build.\<close>

definition generation ::
  "(client \<times> client_event list) option \<Rightarrow> exit_world \<Rightarrow> decision \<times> exit_world" where
  "generation g w =
     (case g of
        None \<Rightarrow> (case supervisor_decision None (ew_ban_wait w) of (d, b) \<Rightarrow> (d, w\<lparr>ew_ban_wait := b\<rparr>))
      | Some (c, events) \<Rightarrow>
          (case client_ended c (fold handle_event events observer_new) (w\<lparr>ew_active := active_set c (ew_active w)\<rparr>) of
             (outcome, w') \<Rightarrow>
               (case supervisor_decision (Some outcome) (ew_ban_wait w') of
                  (d, b) \<Rightarrow> (d, w'\<lparr>ew_ban_wait := b\<rparr>))))"

text \<open>
  \<open>Erase_Credentials\<close> goes through the coordinator: \<open>Start\<close> makes the supervisor run
  \<open>run_maintenance\<close> itself, otherwise another task does; it waits for ever after either.
\<close>

definition erase_credentials ::
  "('n, 'd, 'k, 'h, 'l, 'v) sys \<Rightarrow> ('n, 'd, 'k, 'h, 'l, 'v) sys" where
  "erase_credentials w =
     (case fst (request Reset (sys_coord w)) of
        Start \<Rightarrow> (ask Reset w)\<lparr>sys_task := Entering\<rparr>
      | _ \<Rightarrow> ask Reset w)"

section \<open>The delay\<close>

text \<open>
  \<open>sleep d t\<close> is the time at which \<open>Runtime::sleep(d)\<close>, awaited at time \<open>t\<close>, returns: at once when
  no timer could be armed. \<open>nap t\<close> is when the 250 ms job of the blocking worker is over. The
  result is the time the loop ends; times are in nanoseconds.
\<close>

partial_function (option) delay_loop ::
  "(nat \<Rightarrow> nat \<Rightarrow> nat) \<Rightarrow> (nat \<Rightarrow> nat) \<Rightarrow> nat \<Rightarrow> nat \<Rightarrow> nat \<Rightarrow> nat option" where
  "delay_loop sleep nap delay_dur start now =
     (if now - start < delay_dur then
        let awake = sleep (delay_dur - (now - start)) now in
        delay_loop sleep nap delay_dur start (if awake - start < delay_dur then nap awake else awake)
      else Some now)"

section \<open>The strongest event wins\<close>

text \<open>No event that matters is filtered out before it reaches the observer.\<close>

lemma interest_complete: "event_outcome e \<noteq> None \<Longrightarrow> kind_of e \<in> set interest"
  by (cases e) (simp_all add: event_outcome_def kind_of_def interest_def)

lemma outcome_at_least:
  "k \<le> eo_outcome (fold handle_event es ob) \<longleftrightarrow>
     k \<le> eo_outcome ob \<or> (\<exists>e \<in> set es. \<exists>x. event_outcome e = Some x \<and> k \<le> exit_code x)"
proof (induction es arbitrary: ob)
  case (Cons e es)
  have "k \<le> eo_outcome (handle_event e ob) \<longleftrightarrow>
      k \<le> eo_outcome ob \<or> (\<exists>x. event_outcome e = Some x \<and> k \<le> exit_code x)"
    by (auto simp: handle_event_def Let_def le_max_iff_disj split: option.split client_event.split)
  then show ?case by (auto simp: Cons.IH)
qed simp

lemma exit_code_le: "exit_code x \<le> 3"
  by (cases x) simp_all

lemma exit_code_at_least:
  "3 \<le> exit_code x \<longleftrightarrow> x = Reset_Credentials"
  "2 \<le> exit_code x \<longleftrightarrow> x = Reset_Credentials \<or> x = Preserve_Credentials"
  "1 \<le> exit_code x \<longleftrightarrow> x \<noteq> Restart"
  by (cases x; simp add: word_le_nat_alt)+

lemma byte_upto_3:
  assumes "v \<le> (3 :: 8 word)" shows "v = 0 \<or> v = 1 \<or> v = 2 \<or> v = 3"
proof -
  have "unat v \<le> 3" using assms by (simp add: word_le_nat_alt)
  then have "unat v = 0 \<or> unat v = 1 \<or> unat v = 2 \<or> unat v = 3" by arith
  then show ?thesis by (elim disjE) (simp_all add: word_unat_eq_iff)
qed

lemma outcome_le: "eo_outcome ob \<le> 3 \<Longrightarrow> eo_outcome (fold handle_event es ob) \<le> 3"
proof (induction es arbitrary: ob)
  case (Cons e es)
  have "eo_outcome (handle_event e ob) \<le> 3"
    using Cons.prems exit_code_le
    by (auto simp: handle_event_def Let_def split: option.split client_event.split)
  then show ?case using Cons.IH by simp
qed simp

text \<open>The class of the events a client instance saw.\<close>

definition saw :: "client_exit \<Rightarrow> client_event list \<Rightarrow> bool" where
  "saw x es \<longleftrightarrow> (\<exists>e \<in> set es. event_outcome e = Some x)"

lemma outcome_strongest:
  "exit_from_u8 (eo_outcome (fold handle_event es observer_new)) =
     (if saw Reset_Credentials es then Reset_Credentials
      else if saw Preserve_Credentials es then Preserve_Credentials
      else if saw Temporary_Ban es then Temporary_Ban else Restart)"
proof -
  let ?v = "eo_outcome (fold handle_event es observer_new)"
  have zero: "eo_outcome observer_new = 0" by (simp add: observer_new_def)
  have three: "3 \<le> ?v \<longleftrightarrow> saw Reset_Credentials es"
    by (auto simp: outcome_at_least zero exit_code_at_least saw_def)
  have two: "2 \<le> ?v \<longleftrightarrow> saw Reset_Credentials es \<or> saw Preserve_Credentials es"
    by (auto simp: outcome_at_least zero exit_code_at_least saw_def)
  have one: "1 \<le> ?v \<longleftrightarrow> saw Reset_Credentials es \<or> saw Preserve_Credentials es \<or> saw Temporary_Ban es"
    by (auto simp: outcome_at_least zero exit_code_at_least saw_def) (metis client_exit.exhaust)+
  have "?v = 0 \<or> ?v = 1 \<or> ?v = 2 \<or> ?v = 3"
    by (rule byte_upto_3) (rule outcome_le, simp add: zero)
  then show ?thesis
    using three two one by (elim disjE) (simp_all add: exit_from_u8_def word_le_nat_alt)
qed

section \<open>The ban\<close>

definition ban_of :: "client_event \<Rightarrow> 64 word option" where
  "ban_of e = (case e of Temp_Ban secs \<Rightarrow> Some secs | _ \<Rightarrow> None)"

definition bans :: "client_event list \<Rightarrow> 64 word list" where
  "bans es = List.map_filter ban_of es"

lemma bans_simps [simp]:
  "bans [] = []" "bans (e # es) = (case ban_of e of None \<Rightarrow> bans es | Some s \<Rightarrow> s # bans es)"
  by (simp_all add: bans_def List.map_filter_simps split: option.split)

lemma ban_seconds_last:
  "eo_ban_seconds (fold handle_event es ob) = (if bans es = [] then eo_ban_seconds ob else ban_u32 (last (bans es)))"
proof (induction es arbitrary: ob)
  case (Cons e es)
  have "eo_ban_seconds (handle_event e ob) = (case ban_of e of None \<Rightarrow> eo_ban_seconds ob | Some s \<Rightarrow> ban_u32 s)"
    by (auto simp: handle_event_def Let_def ban_of_def event_outcome_def split: client_event.split)
  then show ?case by (simp add: Cons.IH split: option.split)
qed simp

lemma saw_ban: "saw Temporary_Ban es \<longleftrightarrow> bans es \<noteq> []"
proof (induction es)
  case (Cons e es)
  have "event_outcome e = Some Temporary_Ban \<longleftrightarrow> ban_of e \<noteq> None"
    by (auto simp: event_outcome_def ban_of_def split: client_event.split)
  then show ?case using Cons by (auto simp: saw_def split: option.split)
qed (simp add: saw_def)

text \<open>The seconds a ban asks for, as far as they fit.\<close>

definition asked_seconds :: "64 word \<Rightarrow> nat" where
  "asked_seconds secs = min (nat (sint secs)) (2 ^ 32 - 1)"

lemma unat_u32_max: "unat (- 1 :: u32) = 2 ^ 32 - 1"
  by (simp add: unsigned_minus_1_eq_mask mask_eq_exp_minus_1)

lemma unat_ban_u32: "unat (ban_u32 secs) = asked_seconds secs"
proof (cases "max (sint secs) 0 < 2 ^ 32")
  case True
  have "unat (word_of_int (max (sint secs) 0) :: u32) = nat (max (sint secs) 0)"
    using True by (simp add: unat_eq_nat_uint uint_word_of_int_eq take_bit_eq_mod)
  then show ?thesis using True by (auto simp: ban_u32_def Let_def asked_seconds_def min_def)
next
  case False
  then show ?thesis using unat_u32_max by (auto simp: ban_u32_def Let_def asked_seconds_def min_def)
qed

lemma unat_saturating: "unat (saturating_add_u32 a b) = min (unat a + unat b) (2 ^ 32 - 1)"
proof (cases "unat a + unat b < 2 ^ 32")
  case True
  then show ?thesis by (simp add: saturating_add_u32_def unat_plus_if' not_less)
next
  case False
  then show ?thesis using unat_u32_max by (simp add: saturating_add_u32_def)
qed

section \<open>Properties\<close>

text \<open>What the server said, as the supervisor should understand it.\<close>

definition unlinked :: "client_event list \<Rightarrow> bool" where
  "unlinked es \<longleftrightarrow> Logged_Out True True \<in> set es"

definition rejected :: "client_event list \<Rightarrow> bool" where
  "rejected es \<longleftrightarrow> (\<exists>e \<in> set es. e \<in> {Logged_Out True False, Client_Outdated, Stream_Replaced, Connect_Failure False})"

lemma saw_reset: "saw Reset_Credentials es \<longleftrightarrow> unlinked es"
proof -
  have "event_outcome e = Some Reset_Credentials \<longleftrightarrow> e = Logged_Out True True" for e
    by (auto simp: event_outcome_def split: client_event.split)
  then show ?thesis by (auto simp: saw_def unlinked_def)
qed

lemma saw_preserve: "saw Preserve_Credentials es \<longleftrightarrow> rejected es"
proof -
  have "event_outcome e = Some Preserve_Credentials \<longleftrightarrow>
      e \<in> {Logged_Out True False, Client_Outdated, Stream_Replaced, Connect_Failure False}" for e
    by (auto simp: event_outcome_def split: client_event.split)
  then show ?thesis by (auto simp: saw_def rejected_def)
qed

lemma ban_wait:
  assumes "bans es \<noteq> []"
  shows "unat (max (saturating_add_u32 (eo_ban_seconds (fold handle_event es observer_new)) 5) 1) =
     min (asked_seconds (last (bans es)) + 5) (2 ^ 32 - 1)"
proof -
  let ?w = "saturating_add_u32 (eo_ban_seconds (fold handle_event es observer_new)) 5"
  have u: "unat ?w = min (asked_seconds (last (bans es)) + 5) (2 ^ 32 - 1)"
    using assms by (simp add: unat_saturating ban_seconds_last unat_ban_u32)
  then have "1 \<le> ?w" by (simp add: word_le_nat_alt)
  then show ?thesis using u by (simp add: max_def)
qed

text \<open>C31: the supervisor obeys the strongest thing the server said to a client instance, in whatever
order and however often its events came. The stored credentials are given up exactly when the
server unlinked the device; a client rejected otherwise is not started again and keeps them; a
ban is sat out for the seconds the last ban named plus five, without overflow; anything else is
retried after five seconds, and so is a client that could not be built. Only an unlinked device
is shown as logged out, and the client is no longer the active one.\<close>

theorem supervisor_obeys_server:
  "fst (generation (Some (c, es)) w) =
     (if unlinked es then Erase_Credentials
      else if rejected es then Stop_Retrying
      else if bans es \<noteq> [] then Retry_In (min (asked_seconds (last (bans es)) + 5) (2 ^ 32 - 1))
      else Retry_In 5) \<and>
   ew_status (snd (generation (Some (c, es)) w)) =
     (if unlinked es then set_logged_out (ew_status w) else set_disconnected (ew_status w)) \<and>
   ew_active (snd (generation (Some (c, es)) w)) = None \<and>
   generation None w = (Retry_In 5, w)"
proof -
  let ?ob = "fold handle_event es observer_new"
  note outcome = outcome_strongest [of es, unfolded saw_reset saw_preserve saw_ban]
  have ended: "client_ended c ?ob (w\<lparr>ew_active := active_set c (ew_active w)\<rparr>) =
      (exit_from_u8 (eo_outcome ?ob),
       w\<lparr>ew_active := None,
         ew_status := (if unlinked es then set_logged_out (ew_status w) else set_disconnected (ew_status w)),
         ew_ban_wait := saturating_add_u32 (eo_ban_seconds ?ob) 5\<rparr>)"
    by (simp add: client_ended_def Let_def outcome clear_if_def active_set_def)
  show ?thesis
    using ban_wait [of es] by (simp add: generation_def ended outcome supervisor_decision_def)
qed

text \<open>The erasure goes through the coordinator, so it cannot run beside another one.\<close>

lemma erase_credentials_reachable:
  assumes "reachable p w0 w"
  shows "reachable p w0 (erase_credentials w)"
    and "accepting (sys_coord w) \<Longrightarrow> requested (sys_coord (erase_credentials w)) = Reset"
proof -
  have asked: "reachable p w0 (ask Reset w)" by (rule reachable.step [OF assms asks])
  have "sys_task (ask Reset w) = Spawning" if "fst (request Reset (sys_coord w)) = Start"
    using that by (auto simp: ask_def split: prod.split)
  then show "reachable p w0 (erase_credentials w)"
    using asked reachable.step [OF asked spawned]
    by (cases "fst (request Reset (sys_coord w))") (simp_all add: erase_credentials_def)
  show "requested (sys_coord (erase_credentials w)) = Reset" if "accepting (sys_coord w)"
    using that
    by (cases "running (sys_coord w)"; cases "requested_action (sys_coord w)")
      (auto simp: erase_credentials_def ask_def request_def requested_def Let_def max_def)
qed

section \<open>No restart storm\<close>

lemma delay_loop_ends:
  assumes "\<And>d t. t \<le> sleep d t" and "\<And>t. t < nap t" and "start \<le> now"
  shows "\<exists>t. delay_loop sleep nap delay start now = Some t \<and> start + delay \<le> t"
  using assms(3)
proof (induction "delay - (now - start)" arbitrary: now rule: less_induct)
  case less
  show ?case
  proof (cases "now - start < delay")
    case False
    then show ?thesis using less.prems by (subst delay_loop.simps) auto
  next
    case True
    define awake where "awake = sleep (delay - (now - start)) now"
    define later_on where "later_on = (if awake - start < delay then nap awake else awake)"
    have "now \<le> awake" using assms(1) by (simp add: awake_def)
    then have later: "start \<le> later_on" "delay - (later_on - start) < delay - (now - start)"
      using True less.prems assms(2) [of awake] by (auto simp: later_on_def)
    have "delay_loop sleep nap delay start now = delay_loop sleep nap delay start later_on"
      using True by (subst delay_loop.simps) (simp only: if_True Let_def later_on_def awake_def)
    then show ?thesis using less.hyps [OF later(2,1)] by simp
  qed
qed

text \<open>The supervisor's delay cannot be skipped and always ends. Even when no timer can be armed and
every \<open>Runtime::sleep\<close> returns at once, the loop returns, and not before the whole delay has
passed since its start; with working timers it returns exactly then, after one sleep.\<close>

lemma restart_delay_kept:
  assumes "\<And>d t. t \<le> sleep d t" and "\<And>t. t + from_millis 250 \<le> nap t"
  shows "(\<exists>t. delay_loop sleep nap (from_secs secs) start start = Some t \<and> start + from_secs secs \<le> t) \<and>
     (0 < secs \<longrightarrow> sleep (from_secs secs) start = start + from_secs secs \<longrightarrow>
        delay_loop sleep nap (from_secs secs) start start = Some (start + from_secs secs))"
proof (intro conjI impI)
  have "t < nap t" for t using assms(2) [of t] by (simp add: from_millis_def)
  then show "\<exists>t. delay_loop sleep nap (from_secs secs) start start = Some t \<and> start + from_secs secs \<le> t"
    by (rule delay_loop_ends [of sleep nap, OF assms(1)]) (rule order_refl)
  assume "0 < secs" and exact: "sleep (from_secs secs) start = start + from_secs secs"
  have "delay_loop sleep nap (from_secs secs) start (start + from_secs secs) = Some (start + from_secs secs)"
    by (subst delay_loop.simps) simp
  then show "delay_loop sleep nap (from_secs secs) start start = Some (start + from_secs secs)"
    using \<open>0 < secs\<close> exact by (subst delay_loop.simps) (auto simp: Let_def from_secs_def)
qed

end
