(* ===== verification/Watchdog.thy ===== *)
theory Watchdog
  imports Send_Admission
begin

text \<open>
  \<open>feed_task_watchdog\<close> of \<open>src/main.rs\<close>: the task that feeds the watchdog of the executor thread.
  A round feeds, makes sure there is a timer, and waits for it; what ESP-IDF answers in round
  \<open>i\<close> is the argument \<open>feed i\<close>. The loop normally never returns, so it is a partial function:
  \<open>Some n\<close> means that it unregistered the thread and returned in round \<open>n\<close>.
\<close>

definition FEED_INTERVAL :: nat where "FEED_INTERVAL = from_secs 5"
definition ERROR_RETRY_DELAY :: nat where "ERROR_RETRY_DELAY = from_millis 250"
definition MAX_CONSECUTIVE_FAILURES :: nat where "MAX_CONSECUTIVE_FAILURES = 12"

text \<open>Whether the four calls of a round would succeed.\<close>

record feed_answers =
  wdt_reset_ok :: bool
  service_ok :: bool
  timer_ok :: bool
  after_ok :: bool

record feeder =
  has_service :: bool
  has_timer :: bool
  failures :: nat

definition feeder_start :: "feed_answers \<Rightarrow> feeder" where
  "feeder_start a = \<lparr>has_service = service_ok a, has_timer = service_ok a \<and> timer_ok a, failures = 0\<rparr>"

datatype round_end = Fed | Backed_Off | Unregistered

definition feed_round :: "feed_answers \<Rightarrow> feeder \<Rightarrow> round_end \<times> feeder" where
  "feed_round a f =
     (let f = (if \<not> wdt_reset_ok a then f\<lparr>failures := failures f + 1\<rparr> else f);
          f = (if \<not> has_timer f then
                 let service = has_service f \<or> service_ok a
                 in f\<lparr>has_service := service, has_timer := service \<and> timer_ok a\<rparr>
               else f);
          feed_cycle_ok = (has_timer f \<and> after_ok a);
          f = (if \<not> feed_cycle_ok then f\<lparr>failures := failures f + 1\<rparr> else f)
      in if feed_cycle_ok \<and> wdt_reset_ok a then (Fed, f\<lparr>failures := 0\<rparr>)
         else if failures f \<ge> MAX_CONSECUTIVE_FAILURES then (Unregistered, f)
         else (Backed_Off, f))"

text \<open>How long a round takes: the timer's interval if it ran, and the back-off.\<close>

definition round_time :: "feed_answers \<Rightarrow> feeder \<Rightarrow> nat" where
  "round_time a f =
     (case feed_round a f of (e, f') \<Rightarrow>
        (if has_timer f' \<and> after_ok a then FEED_INTERVAL else 0) +
        (if e = Backed_Off then ERROR_RETRY_DELAY else 0))"

partial_function (option) feed_task_watchdog :: "(nat \<Rightarrow> feed_answers) \<Rightarrow> nat \<Rightarrow> feeder \<Rightarrow> nat option" where
  "feed_task_watchdog feed i f =
     (let (e, f') = feed_round (feed i) f
      in if e = Unregistered then Some i else feed_task_watchdog feed (Suc i) f')"

section \<open>Runs of the feeder\<close>

text \<open>The feeder at the head of round \<open>i\<close>, if it gets there.\<close>

primrec feeder_at :: "(nat \<Rightarrow> feed_answers) \<Rightarrow> feeder \<Rightarrow> nat \<Rightarrow> feeder" where
  "feeder_at feed f 0 = f"
| "feeder_at feed f (Suc i) = snd (feed_round (feed i) (feeder_at feed f i))"

abbreviation round_at :: "(nat \<Rightarrow> feed_answers) \<Rightarrow> feeder \<Rightarrow> nat \<Rightarrow> round_end" where
  "round_at feed f i \<equiv> fst (feed_round (feed i) (feeder_at feed f i))"

lemma feed_unroll:
  "feed_task_watchdog feed i (feeder_at feed f i) =
     (if round_at feed f i = Unregistered then Some i else feed_task_watchdog feed (Suc i) (feeder_at feed f (Suc i)))"
  by (subst feed_task_watchdog.simps) (simp add: case_prod_beta Let_def)

lemma feed_returns:
  assumes "\<And>j. i \<le> j \<Longrightarrow> j < n \<Longrightarrow> round_at feed f j \<noteq> Unregistered" and "round_at feed f n = Unregistered" and "i \<le> n"
  shows "feed_task_watchdog feed i (feeder_at feed f i) = Some n"
  using assms(3,1)
proof (induction i rule: inc_induct)
  case base
  show ?case using assms(2) by (subst feed_unroll) simp
next
  case (step i)
  have "feed_task_watchdog feed (Suc i) (feeder_at feed f (Suc i)) = Some n"
    by (rule step.IH) (use step.prems in simp)
  then show ?case using step.prems [of i] step.hyps by (subst feed_unroll) simp
qed

lemma feed_returned:
  assumes "feed_task_watchdog feed i g = Some n"
  shows "\<forall>f. g = feeder_at feed f i \<longrightarrow> i \<le> n \<and> round_at feed f n = Unregistered \<and>
     (\<forall>j. i \<le> j \<longrightarrow> j < n \<longrightarrow> round_at feed f j \<noteq> Unregistered)"
  using assms
proof (induction rule: feed_task_watchdog.raw_induct [rotated, consumes 1])
  case (1 loop feed i g n)
  show ?case
  proof (intro allI impI)
    fix f assume g: "g = feeder_at feed f i"
    show "i \<le> n \<and> round_at feed f n = Unregistered \<and> (\<forall>j. i \<le> j \<longrightarrow> j < n \<longrightarrow> round_at feed f j \<noteq> Unregistered)"
    proof (cases "round_at feed f i = Unregistered")
      case True
      then show ?thesis using 1(2) g by (auto simp: case_prod_beta Let_def)
    next
      case False
      then have "loop feed (Suc i) (feeder_at feed f (Suc i)) = Some n"
        using 1(2) g by (simp add: case_prod_beta Let_def)
      from 1(1) [OF this] have "Suc i \<le> n" "round_at feed f n = Unregistered"
        "\<forall>j. Suc i \<le> j \<longrightarrow> j < n \<longrightarrow> round_at feed f j \<noteq> Unregistered" by blast+
      then show ?thesis using False by (metis Suc_leD Suc_leI le_neq_implies_less)
    qed
  qed
qed

lemma feed_result:
  "feed_task_watchdog feed 0 f = Some n \<longleftrightarrow>
     round_at feed f n = Unregistered \<and> (\<forall>j<n. round_at feed f j \<noteq> Unregistered)"
  using feed_returned [of feed 0 f n] feed_returns [of 0 n feed f] by auto

section \<open>Counting failures\<close>

lemma round_failures:
  "feed_round a f = (e, f') \<Longrightarrow>
     (e = Fed \<longrightarrow> failures f' = 0) \<and> (e \<noteq> Fed \<longrightarrow> failures f < failures f' \<and> failures f' \<le> failures f + 2) \<and>
     (e = Unregistered \<longleftrightarrow> e \<noteq> Fed \<and> 12 \<le> failures f')"
  by (auto simp: feed_round_def Let_def MAX_CONSECUTIVE_FAILURES_def split: if_splits)

text \<open>A feeder with many failures has a history of failed rounds, two failures a round at most.\<close>

lemma failed_history:
  assumes "failures f = 0" and "k < 6" and "2 * k < failures (feeder_at feed f i)"
  shows "k < i \<and> round_at feed f (i - Suc k) \<noteq> Fed"
  using assms(2,3)
proof (induction k arbitrary: i)
  case 0
  then obtain j where "i = Suc j" using assms(1) by (cases i) auto
  then show ?case using 0 round_failures [OF prod.collapse [symmetric], of "feed j" "feeder_at feed f j"] by auto
next
  case (Suc k)
  then obtain j where i: "i = Suc j" using assms(1) by (cases i) auto
  have "round_at feed f j \<noteq> Fed" "failures (feeder_at feed f i) \<le> failures (feeder_at feed f j) + 2"
    using Suc.prems round_failures [OF prod.collapse [symmetric], of "feed j" "feeder_at feed f j"] by (auto simp: i)
  then have "2 * k < failures (feeder_at feed f j)" using Suc.prems by simp
  then show ?case using Suc.IH [of j] Suc.prems(1) by (simp add: i)
qed

text \<open>C37: the feeder does not give up lightly, and never leaves an armed watchdog behind. It returns
only by unregistering the thread, and only at the end of at least six failed rounds in a row, so
a device on which any six rounds in a row contain a good one is fed for ever; every round starts
with a feed and takes less than six seconds, far below the watchdog's thirty. A minute of failures
is not needed though: when no timer can be allocated, it gives up in its twelfth round, after
2.75 seconds.\<close>

theorem watchdog_feeder_persistent:
  assumes "f = feeder_start a"
  shows "(\<forall>n. feed_task_watchdog feed 0 f = Some n \<longrightarrow>
        5 \<le> n \<and> round_at feed f n = Unregistered \<and> (\<forall>k<6. round_at feed f (n - k) \<noteq> Fed)) \<and>
     ((\<forall>i. \<exists>k<6. round_at feed f (i + k) = Fed) \<longrightarrow> feed_task_watchdog feed 0 f = None) \<and>
     (\<forall>i. round_time (feed i) (feeder_at feed f i) < from_secs 6) \<and>
     ((\<forall>i. wdt_reset_ok (feed i) \<and> \<not> timer_ok (feed i)) \<longrightarrow> \<not> timer_ok a \<longrightarrow>
        feed_task_watchdog feed 0 f = Some 11 \<and>
        (\<Sum>i<12. round_time (feed i) (feeder_at feed f i)) = from_millis 2750)"
proof -
  have zero: "failures f = 0" by (simp add: assms feeder_start_def)
  have given_up: "5 \<le> n \<and> round_at feed f n = Unregistered \<and> (\<forall>k<6. round_at feed f (n - k) \<noteq> Fed)"
    if "feed_task_watchdog feed 0 f = Some n" for n
  proof -
    have un: "round_at feed f n = Unregistered" using that by (simp add: feed_result)
    then have "12 \<le> failures (feeder_at feed f (Suc n))"
      using round_failures [OF prod.collapse [symmetric], of "feed n" "feeder_at feed f n"] by auto
    then have "k < Suc n \<and> round_at feed f (Suc n - Suc k) \<noteq> Fed" if "k < 6" for k
      by (intro failed_history [OF zero that]) (use that in simp)
    then have all: "k \<le> n \<and> round_at feed f (n - k) \<noteq> Fed" if "k < 6" for k
      using that by (metis diff_Suc_Suc less_Suc_eq_le)
    then show ?thesis using un all [of 5] by simp
  qed
  have fed: "feed_task_watchdog feed 0 f = None" if good: "\<forall>i. \<exists>k<6. round_at feed f (i + k) = Fed"
  proof (cases "feed_task_watchdog feed 0 f")
    case (Some n)
    obtain k where k: "k < 6" "round_at feed f (n - 5 + k) = Fed" using good by blast
    have n: "5 \<le> n" "\<forall>k<6. round_at feed f (n - k) \<noteq> Fed" using given_up [OF Some] by auto
    have "n - 5 + k = n - (5 - k)" "5 - k < 6" using n(1) k(1) by auto
    then show ?thesis using n(2) k(2) by metis
  qed
  have short: "round_time (feed i) (feeder_at feed f i) < from_secs 6" for i
    by (simp add: round_time_def FEED_INTERVAL_def ERROR_RETRY_DELAY_def from_secs_def from_millis_def
        split: prod.split)
  have early: "feed_task_watchdog feed 0 f = Some 11 \<and>
      (\<Sum>i<12. round_time (feed i) (feeder_at feed f i)) = from_millis 2750"
    if no: "\<forall>i. wdt_reset_ok (feed i) \<and> \<not> timer_ok (feed i)" "\<not> timer_ok a"
  proof -
    have at: "\<not> has_timer (feeder_at feed f i) \<and> failures (feeder_at feed f i) = i" for i
    proof (induction i)
      case 0
      then show ?case using no by (simp add: assms feeder_start_def)
    next
      case (Suc i)
      then show ?case using no by (simp add: feed_round_def Let_def)
    qed
    have ends: "round_at feed f i = (if 11 \<le> i then Unregistered else Backed_Off)"
      "round_time (feed i) (feeder_at feed f i) = (if 11 \<le> i then 0 else ERROR_RETRY_DELAY)" for i
      using no at [of i] by (simp_all add: feed_round_def Let_def round_time_def MAX_CONSECUTIVE_FAILURES_def)
    show ?thesis
      by (simp add: feed_result ends ERROR_RETRY_DELAY_def from_millis_def lessThan_nat_numeral lessThan_Suc)
  qed
  show ?thesis using given_up fed short early by blast
qed

text \<open>A timer that never works.\<close>

theorem watchdog_feeder_persistent_witness:
  "let no_timer = \<lparr>wdt_reset_ok = True, service_ok = False, timer_ok = False, after_ok = False\<rparr>
   in feed_task_watchdog (\<lambda>_. no_timer) 0 (feeder_start no_timer) = Some 11"
  using watchdog_feeder_persistent [OF refl, of "\<lambda>_. \<lparr>wdt_reset_ok = True, service_ok = False, timer_ok = False, after_ok = False\<rparr>"
      "\<lparr>wdt_reset_ok = True, service_ok = False, timer_ok = False, after_ok = False\<rparr>"]
  by simp

end
