(* ===== verification/Firmware.thy ===== *)
theory Firmware
  imports Maintenance Http_Text
begin

text \<open>
  The demo firmware of \<open>src/main.rs\<close> around the supervisor: the admin token read at boot, the
  wait for the network, the callback for client events, and the answer to a ping message. Calls
  of the client library are recorded in the order they are made; how they end is an argument.
\<close>

section \<open>The admin token\<close>

text \<open>
  Opening namespace \<open>wa\<close> of the default partition and reading a string from it, with the error
  codes of ESP-IDF.
\<close>

record provisioning =
  open_wa :: "esp_err + unit"
  get_wa :: "str \<Rightarrow> esp_err + str option"

definition NVS_NOT_FOUND :: esp_err where "NVS_NOT_FOUND = 0x1102"

datatype startup_error = Namespace_Failed esp_err | Read_Failed str esp_err

definition nvs_string :: "provisioning \<Rightarrow> str \<Rightarrow> startup_error + str option" where
  "nvs_string part key =
     (case open_wa part of
        Inl e \<Rightarrow> if e = NVS_NOT_FOUND then Inr None else Inl (Namespace_Failed e)
      | Inr _ \<Rightarrow>
          (case get_wa part key of
             Inr (Some value) \<Rightarrow> if value \<noteq> '''' then Inr (Some value) else Inr None
           | Inr None \<Rightarrow> Inr None
           | Inl e \<Rightarrow> if e = NVS_NOT_FOUND then Inr None else Inl (Read_Failed key e)))"

text \<open>The token \<open>main\<close> starts the dashboard with; \<open>Inl\<close> is a startup that fails.\<close>

definition admin_token :: "str \<Rightarrow> provisioning \<Rightarrow> startup_error + str option" where
  "admin_token DEFAULT_ADMIN_TOKEN part =
     (case nvs_string part ''admin_token'' of
        Inr (Some t) \<Rightarrow> Inr (Some t)
      | Inr None \<Rightarrow> Inr (if DEFAULT_ADMIN_TOKEN \<noteq> '''' then Some DEFAULT_ADMIN_TOKEN else None)
      | Inl e \<Rightarrow> Inl e)"

section \<open>The network\<close>

text \<open>
  The association loop of \<open>bring_up_wifi\<close>: attempt \<open>i\<close> connects and then waits for the
  interface; a failed attempt disconnects, sleeps and tries again. The result is the attempt that
  came through.
\<close>

partial_function (option) wifi_loop :: "(nat \<Rightarrow> bool) \<Rightarrow> (nat \<Rightarrow> bool) \<Rightarrow> nat \<Rightarrow> nat option" where
  "wifi_loop connect_ok netif_up attempt =
     (if connect_ok attempt \<and> netif_up attempt then Some attempt
      else wifi_loop connect_ok netif_up (Suc attempt))"

text \<open>
  Creating, configuring and starting the driver may fail, and so may reading the address at the
  end; credentials that do not fit the driver's buffers panic (\<open>try_into().unwrap()\<close>).
\<close>

datatype wifi_error = Ssid_Empty | Credentials_Do_Not_Fit | Driver_Failed

definition bring_up_wifi ::
  "str \<Rightarrow> bool \<Rightarrow> bool \<Rightarrow> (nat \<Rightarrow> bool) \<Rightarrow> (nat \<Rightarrow> bool) \<Rightarrow> bool \<Rightarrow> (wifi_error + nat) option" where
  "bring_up_wifi WIFI_SSID fit setup_ok connect_ok netif_up ip_ok =
     (if WIFI_SSID = '''' then Some (Inl Ssid_Empty)
      else if \<not> fit then Some (Inl Credentials_Do_Not_Fit)
      else if \<not> setup_ok then Some (Inl Driver_Failed)
      else map_option (\<lambda>attempt. if ip_ok then Inr attempt else Inl Driver_Failed) (wifi_loop connect_ok netif_up 1))"

section \<open>Answering a ping\<close>

definition PING_TRIGGER :: str where
  "PING_TRIGGER = str_of_bytes [0xF0, 0x9F, 0xA6, 0x80] @ ''ping''"

definition PONG_TEXT :: str where
  "PONG_TEXT = str_of_bytes [0xF0, 0x9F, 0x8F, 0x93] @ '' Pong!''"

definition REACTION_EMOJI :: str where
  "REACTION_EMOJI = str_of_bytes [0xF0, 0x9F, 0x8F, 0x93]"

text \<open>An inbound message: what is logged of it.\<close>

type_synonym inbound = message_log_entry

datatype client_send =
    React str str
  | Reply_Quoting str str
  | Edit_Message str str
  | Scan_Qr str str

text \<open>
  How the client library answers while a message is handled: the id of the reply (\<open>None\<close>: it was
  not sent), the printed duration, and whether the client is still the active one once the memory
  gate has been acquired. Whether the reaction and the edit were sent is only logged.
\<close>

record ping_answers =
  reply_id :: "str option"
  duration :: str
  current_after_gate :: bool

text \<open>\<open>handle_message\<close>, with the text \<open>prepare_demo_edit\<close> builds.\<close>

definition handle_message :: "ping_answers \<Rightarrow> str \<Rightarrow> client_send list" where
  "handle_message a ident =
     [React ident REACTION_EMOJI, Reply_Quoting ident PONG_TEXT] @
     (case reply_id a of
        None \<Rightarrow> []
      | Some message_id \<Rightarrow> [Edit_Message message_id (PONG_TEXT @ ''\<newline>`'' @ duration a @ ''`'')])"

definition prepare_message_task :: "bool \<Rightarrow> ping_answers \<Rightarrow> str \<Rightarrow> client_send list" where
  "prepare_message_task gate a ident =
     (if \<not> gate then handle_message a ident
      else if current_after_gate a then handle_message a ident else [])"

section \<open>The event callback\<close>

datatype bot_event =
    Pairing_Qr_Code str
  | Pairing_Qr_Codes_Exhausted
  | Connected_Event "str option" "str option"
  | Disconnected_Event
  | Logged_Out_Event
  | Messages_Event "inbound list"
  | Undecryptable_Event
  | Other_Bot_Event

record callback_world =
  cb_status :: device_status
  cb_active :: active_client
  cb_scanned :: bool
  cb_sends :: "client_send list"

text \<open>\<open>auto_scan_qr\<close>: the URL on the mock server, if its address parses.\<close>

definition auto_scan_qr :: "str \<Rightarrow> str \<Rightarrow> client_send list" where
  "auto_scan_qr MOCK_SERVER_WS code =
     (case parse_url MOCK_SERVER_WS of
        Inl _ \<Rightarrow> []
      | Inr (host, port, _, tls) \<Rightarrow>
          [Scan_Qr ((if tls then ''https'' else ''http'') @ ''://'' @ host @ '':'' @ show_nat port @
                    ''/admin/mock-phone/scan-qr'') code])"

text \<open>\<open>MOCK_AUTOPAIR\<close> and the URL are compile-time constants; \<open>gate\<close> is whether there is a memory gate.\<close>

fun on_messages :: "bool \<Rightarrow> (str \<Rightarrow> ping_answers) \<Rightarrow> inbound list \<Rightarrow> callback_world \<Rightarrow> callback_world" where
  "on_messages gate ans [] w = w"
| "on_messages gate ans (m # batch) w =
     (let w = w\<lparr>cb_status := record_message m (cb_status w)\<rparr>;
          w = (if entry_text m = Some PING_TRIGGER
               then w\<lparr>cb_sends := cb_sends w @ prepare_message_task gate (ans (entry_id m)) (entry_id m)\<rparr> else w)
      in on_messages gate ans batch w)"

definition on_event ::
  "bool \<Rightarrow> str \<Rightarrow> bool \<Rightarrow> (str \<Rightarrow> ping_answers) \<Rightarrow> client \<Rightarrow> bot_event \<Rightarrow> callback_world \<Rightarrow> callback_world" where
  "on_event MOCK_AUTOPAIR MOCK_SERVER_WS gate ans c event w =
     (if \<not> is_current c (cb_active w) then w
      else case event of
        Pairing_Qr_Code code \<Rightarrow>
          let w = w\<lparr>cb_status := set_qr_code code (cb_status w)\<rparr> in
          if MOCK_AUTOPAIR then
            (if \<not> cb_scanned w
             then w\<lparr>cb_scanned := True, cb_sends := cb_sends w @ auto_scan_qr MOCK_SERVER_WS code\<rparr>
             else w)
          else w
      | Pairing_Qr_Codes_Exhausted \<Rightarrow> w\<lparr>cb_status := clear_qr_code (cb_status w)\<rparr>
      | Connected_Event p l \<Rightarrow> w\<lparr>cb_status := set_connected p l (cb_status w)\<rparr>
      | Disconnected_Event \<Rightarrow> w\<lparr>cb_status := set_disconnected (cb_status w)\<rparr>
      | Logged_Out_Event \<Rightarrow> w\<lparr>cb_status := set_logged_out (cb_status w)\<rparr>
      | Messages_Event batch \<Rightarrow> on_messages gate ans batch w
      | _ \<Rightarrow> w)"

text \<open>\<open>HANDLED_EVENTS\<close>: the kinds of events the callback is subscribed to.\<close>

datatype bot_event_kind =
    PairingQrCode | PairingQrCodesExhausted | Connected_Kind | Disconnected_Kind | LoggedOut | Messages_Kind
  | UndecryptableMessage | ClientOutdated | StreamReplaced | TemporaryBan | ConnectFailure | AppStateSyncFailed
  | DirtyState | OfflineSyncPreview | OfflineSyncCompleted | DeviceListUpdate | Unsubscribed_Kind

definition HANDLED_EVENTS :: "bot_event_kind list" where
  "HANDLED_EVENTS =
     [PairingQrCode, PairingQrCodesExhausted, Connected_Kind, Disconnected_Kind, LoggedOut, Messages_Kind,
      UndecryptableMessage, ClientOutdated, StreamReplaced, TemporaryBan, ConnectFailure, AppStateSyncFailed,
      DirtyState, OfflineSyncPreview, OfflineSyncCompleted, DeviceListUpdate]"

section \<open>The token is never lost\<close>

text \<open>What provisioning says: a token, none, or something that cannot be read.\<close>

definition no_token :: "provisioning \<Rightarrow> bool" where
  "no_token part \<longleftrightarrow>
     open_wa part = Inl NVS_NOT_FOUND \<or>
     open_wa part = Inr () \<and>
       get_wa part ''admin_token'' \<in> {Inr None, Inr (Some ''''), Inl NVS_NOT_FOUND}"

text \<open>Authentication fails closed. The dashboard is started without a token only if the
partition verifiably holds none (or an empty one) and the build names none; a readable token in the
partition wins over the built-in one; and any other failure to open or read the partition stops
the startup instead. A token in force is never empty.\<close>

lemma admin_token_fails_closed:
  "(admin_token built_in part = Inr None \<longleftrightarrow> no_token part \<and> built_in = '''') \<and>
   (admin_token built_in part = Inr (Some t) \<longleftrightarrow>
      t \<noteq> '''' \<and> (open_wa part = Inr () \<and> get_wa part ''admin_token'' = Inr (Some t) \<or> no_token part \<and> built_in = t)) \<and>
   ((\<exists>e. admin_token built_in part = Inl e) \<longleftrightarrow>
      (\<exists>e. e \<noteq> NVS_NOT_FOUND \<and> (open_wa part = Inl e \<or> open_wa part = Inr () \<and> get_wa part ''admin_token'' = Inl e)))"
  by (cases "open_wa part"; cases "get_wa part ''admin_token''")
    (auto simp: admin_token_def nvs_string_def no_token_def split: if_splits option.splits)

section \<open>The network comes up\<close>

lemma wifi_loop_first:
  assumes "connect_ok n \<and> netif_up n" and "i \<le> n" and "\<And>j. i \<le> j \<Longrightarrow> j < n \<Longrightarrow> \<not> (connect_ok j \<and> netif_up j)"
  shows "wifi_loop connect_ok netif_up i = Some n"
  using assms(2,3)
proof (induction i rule: inc_induct)
  case base
  show ?case using assms(1) by (subst wifi_loop.simps) simp
next
  case (step i)
  have "\<not> (connect_ok i \<and> netif_up i)" using step by simp
  moreover have "wifi_loop connect_ok netif_up (Suc i) = Some n"
    by (rule step.IH) (use step.prems in simp)
  ultimately show ?case by (subst wifi_loop.simps) auto
qed

lemma wifi_comes_up:
  assumes "WIFI_SSID \<noteq> ''''" and "1 \<le> n" and "connect_ok n \<and> netif_up n"
    and "\<And>j. 1 \<le> j \<Longrightarrow> j < n \<Longrightarrow> \<not> (connect_ok j \<and> netif_up j)"
  shows "bring_up_wifi WIFI_SSID True True connect_ok netif_up True = Some (Inr n)"
  using assms wifi_loop_first [of connect_ok n netif_up 1] by (simp add: bring_up_wifi_def)

section \<open>Events\<close>

lemma on_messages_status:
  "cb_status (on_messages gate ans batch w) = fold record_message batch (cb_status w)"
  by (induction batch arbitrary: w) (simp_all add: Let_def)

lemma on_messages_rest:
  "cb_active (on_messages gate ans batch w) = cb_active w \<and> cb_scanned (on_messages gate ans batch w) = cb_scanned w"
  by (induction batch arbitrary: w) (simp_all add: Let_def)

definition pings :: "inbound list \<Rightarrow> str list" where
  "pings batch = map entry_id (filter (\<lambda>m. entry_text m = Some PING_TRIGGER) batch)"

lemma on_messages_sends:
  "cb_sends (on_messages gate ans batch w) =
     cb_sends w @ concat (map (\<lambda>i. prepare_message_task gate (ans i) i) (pings batch))"
  by (induction batch arbitrary: w) (simp_all add: Let_def pings_def)

text \<open>The status operations an event stands for.\<close>

definition event_ops :: "bot_event \<Rightarrow> status_op list" where
  "event_ops event =
     (case event of
        Pairing_Qr_Code code \<Rightarrow> [Set_Qr_Code code]
      | Pairing_Qr_Codes_Exhausted \<Rightarrow> [Clear_Qr_Code]
      | Connected_Event p l \<Rightarrow> [Set_Connected p l]
      | Disconnected_Event \<Rightarrow> [Set_Disconnected]
      | Logged_Out_Event \<Rightarrow> [Set_Logged_Out]
      | Messages_Event batch \<Rightarrow> map Record_Message batch
      | _ \<Rightarrow> [])"

text \<open>The edits among some calls, and the QR codes handed to the mock server.\<close>

definition scans :: "client_send list \<Rightarrow> client_send list" where
  "scans sends = filter (\<lambda>x. case x of Scan_Qr _ _ \<Rightarrow> True | _ \<Rightarrow> False) sends"

lemma scans_append [simp]: "scans (xs @ ys) = scans xs @ scans ys"
  by (simp add: scans_def)

lemma scans_message: "scans (prepare_message_task gate a i) = []"
  by (simp add: prepare_message_task_def handle_message_def scans_def split: option.split)

lemma scans_messages: "scans (concat (map (\<lambda>i. prepare_message_task gate (ans i) i) is)) = []"
  by (induction "is") (simp_all add: scans_message, simp add: scans_def)

lemma scans_auto: "length (scans (auto_scan_qr url code)) \<le> 1"
  by (auto simp: auto_scan_qr_def scans_def split: sum.split)

lemma fold_record: "fold record_message batch ds = fold apply_op (map Record_Message batch) ds"
  by (induction batch arbitrary: ds) simp_all

lemma on_event_current:
  assumes "is_current c (cb_active w)"
  shows "cb_status (on_event auto url gate ans c event w) = fold apply_op (event_ops event) (cb_status w)"
  using assms
  by (cases event) (simp_all add: on_event_def event_ops_def on_messages_status fold_record Let_def)

lemma on_event_active [simp]: "cb_active (on_event auto url gate ans c event w) = cb_active w"
  by (simp add: on_event_def on_messages_rest Let_def split: bot_event.split)

lemma on_event_scans:
  "length (scans (cb_sends (on_event auto url gate ans c event w))) + (if cb_scanned (on_event auto url gate ans c event w) then 0 else 1) \<le>
   length (scans (cb_sends w)) + (if cb_scanned w then 0 else 1)"
  using scans_auto [of url]
  by (auto simp: on_event_def on_messages_rest on_messages_sends scans_messages Let_def split: bot_event.split)


definition demo_callback :: callback_world where
  "demo_callback = \<lparr>cb_status = status_new, cb_active = Some 1, cb_scanned = False, cb_sends = []\<rparr>"

definition demo_ping :: "str \<Rightarrow> ping_answers" where
  "demo_ping i = \<lparr>reply_id = Some ''R1'', duration = ''1ms'', current_after_gate = True\<rparr>"


text \<open>Every event that the callback acts on is one it is subscribed to.\<close>

definition kind_of_bot_event :: "bot_event \<Rightarrow> bot_event_kind option" where
  "kind_of_bot_event event =
     (case event of
        Pairing_Qr_Code _ \<Rightarrow> Some PairingQrCode
      | Pairing_Qr_Codes_Exhausted \<Rightarrow> Some PairingQrCodesExhausted
      | Connected_Event _ _ \<Rightarrow> Some Connected_Kind
      | Disconnected_Event \<Rightarrow> Some Disconnected_Kind
      | Logged_Out_Event \<Rightarrow> Some LoggedOut
      | Messages_Event _ \<Rightarrow> Some Messages_Kind
      | Undecryptable_Event \<Rightarrow> Some UndecryptableMessage
      | Other_Bot_Event \<Rightarrow> None)"

lemma callback_subscribed:
  assumes "on_event auto url gate ans c event w \<noteq> w"
  shows "\<exists>k. kind_of_bot_event event = Some k \<and> k \<in> set HANDLED_EVENTS"
  using assms
  by (cases event) (simp_all add: on_event_def kind_of_bot_event_def HANDLED_EVENTS_def split: if_splits)

end
