(* ===== verification/Runtime.thy ===== *)
theory Runtime
  imports Send_Admission "HOL-Library.Sublist"
begin

text \<open>
  \<open>src/runtime.rs\<close>: the futures the runtime builds itself, thread configurations and
  \<open>spawn_thread\<close>, and the blocking worker with its one-slot queue. A future is its \<open>poll\<close>, a
  function of its state that tells whether it is ready and whether it has woken its task. The
  worker thread, the futures that wait for it and their cancellation are interleaved.
\<close>

section \<open>Futures\<close>

text \<open>\<open>YieldNow\<close>: its flag, and a poll with whether it is ready and whether it woke the task.\<close>

definition yield_poll :: "bool \<Rightarrow> bool \<times> bool \<times> bool" where
  "yield_poll yielded = (if yielded then (True, False, yielded) else (False, True, True))"

text \<open>\<open>AbortableFuture\<close> around the poll of another future.\<close>

record 'f abortable =
  ab_inner :: 'f
  ab_aborted :: bool

definition abortable_poll :: "('f \<Rightarrow> bool \<times> 'f) \<Rightarrow> 'f abortable \<Rightarrow> bool \<times> 'f abortable" where
  "abortable_poll poll a =
     (if ab_aborted a then (True, a)
      else case poll (ab_inner a) of (is_ready, f) \<Rightarrow> (is_ready, a\<lparr>ab_inner := f\<rparr>))"

text \<open>\<open>Runtime::spawn\<close> onto the executor's queue, and the closure inside its \<open>AbortHandle\<close>.\<close>

definition rt_spawn :: "bool \<Rightarrow> 'f \<Rightarrow> 'f abortable list \<Rightarrow> 'f abortable list" where
  "rt_spawn executor_open future queue =
     (if executor_open then queue @ [\<lparr>ab_inner = future, ab_aborted = False\<rparr>] else queue)"

definition abort_task :: "'f abortable \<Rightarrow> 'f abortable" where
  "abort_task a = a\<lparr>ab_aborted := True\<rparr>"

text \<open>
  \<open>Runtime::sleep\<close>: the time it returns. \<open>armed\<close> is the time the timer fires, or \<open>None\<close> if it
  could not be created or its wait failed.
\<close>

definition rt_sleep :: "(nat \<Rightarrow> nat \<Rightarrow> nat option) \<Rightarrow> nat \<Rightarrow> nat \<Rightarrow> nat" where
  "rt_sleep armed dur now = (case armed dur now of Some t \<Rightarrow> t | None \<Rightarrow> now)"

section \<open>Threads\<close>

datatype malloc_cap = Spiram | Internal | Cap8bit

record thread_config =
  tc_name :: "str option"
  tc_stack_size :: nat
  tc_priority :: nat
  tc_inherit :: bool
  tc_pin_to_core :: "nat option"
  tc_stack_alloc_caps :: "malloc_cap set"

definition stack_caps :: "bool \<Rightarrow> malloc_cap set" where
  "stack_caps HAS_PSRAM = (if HAS_PSRAM then {Spiram, Cap8bit} else {Internal, Cap8bit})"

definition by_ram :: "bool \<Rightarrow> nat \<Rightarrow> nat \<Rightarrow> nat" where
  "by_ram HAS_PSRAM psram no_psram = (if HAS_PSRAM then psram else no_psram)"

definition blocking_thread_config :: "bool \<Rightarrow> thread_config" where
  "blocking_thread_config HAS_PSRAM =
     \<lparr>tc_name = Some ''wa-blocking'', tc_stack_size = by_ram HAS_PSRAM (32 * 1024) (16 * 1024), tc_priority = 1,
      tc_inherit = False, tc_pin_to_core = Some 0, tc_stack_alloc_caps = stack_caps HAS_PSRAM\<rparr>"

definition executor_thread_config :: "bool \<Rightarrow> thread_config" where
  "executor_thread_config HAS_PSRAM =
     \<lparr>tc_name = Some ''wa-main'', tc_stack_size = by_ram HAS_PSRAM (256 * 1024) (48 * 1024), tc_priority = 5,
      tc_inherit = False, tc_pin_to_core = Some 0, tc_stack_alloc_caps = stack_caps HAS_PSRAM\<rparr>"

text \<open>
  The calling thread's configuration for the threads it spawns, which \<open>set\<close> leaves in force,
  and the threads spawned so far with the configuration they got. \<open>set_ok\<close> and \<open>spawn_ok\<close> are
  whether ESP-IDF accepts a configuration and creates the thread.
\<close>

record spawn_state =
  sp_config :: "thread_config option"
  sp_threads :: "thread_config list"

definition spawn_thread ::
  "(thread_config \<Rightarrow> bool) \<Rightarrow> bool \<Rightarrow> thread_config \<Rightarrow> thread_config \<Rightarrow> spawn_state \<Rightarrow> bool \<times> spawn_state" where
  "spawn_thread set_ok spawn_ok default_config config s =
     (let previous = sp_config s in
      if \<not> set_ok config then (False, s)
      else
        let s = s\<lparr>sp_config := Some config\<rparr> in
        if \<not> spawn_ok then (False, s)
        else
          let s = s\<lparr>sp_threads := sp_threads s @ [config]\<rparr>;
              back = (case previous of None \<Rightarrow> default_config | Some c \<Rightarrow> c)
          in (True, if set_ok back then s\<lparr>sp_config := Some back\<rparr> else s))"

section \<open>The blocking worker\<close>

text \<open>
  Jobs are numbers. \<open>bw_offered\<close> are the futures in \<open>jobs.send().await\<close>, \<open>bw_slot\<close> is the
  channel's one slot; \<open>bw_dropped\<close> are the futures dropped before they returned, which closes
  their \<open>done\<close> channel. \<open>bw_sent\<close> and \<open>bw_started\<close> list the jobs in the order they entered the
  channel and were run; \<open>bw_returned\<close> tells the futures that returned, and whether with a
  completion.
\<close>

record blocking_worker =
  bw_alive :: bool
  bw_offered :: "nat set"
  bw_slot :: "nat option"
  bw_running :: "nat option"
  bw_dropped :: "nat set"
  bw_finished :: "nat set"
  bw_returned :: "nat \<rightharpoonup> bool"
  bw_sent :: "nat list"
  bw_started :: "nat list"

definition worker_start :: blocking_worker where
  "worker_start = \<lparr>bw_alive = True, bw_offered = {}, bw_slot = None, bw_running = None, bw_dropped = {},
     bw_finished = {}, bw_returned = Map.empty, bw_sent = [], bw_started = []\<rparr>"

text \<open>\<open>execute\<close>: the job is offered to the channel, then the completion is awaited.\<close>

definition execute_send :: "nat \<Rightarrow> blocking_worker \<Rightarrow> blocking_worker" where
  "execute_send n w =
     (if \<not> bw_alive w then w\<lparr>bw_offered := bw_offered w - {n}, bw_returned := (bw_returned w)(n \<mapsto> False)\<rparr>
      else if bw_slot w = None
      then w\<lparr>bw_offered := bw_offered w - {n}, bw_slot := Some n, bw_sent := bw_sent w @ [n]\<rparr>
      else w)"

definition execute_completed :: "nat \<Rightarrow> blocking_worker \<Rightarrow> blocking_worker" where
  "execute_completed n w =
     (if n \<in> bw_finished w then w\<lparr>bw_returned := (bw_returned w)(n \<mapsto> True)\<rparr>
      else if \<not> bw_alive w then w\<lparr>bw_returned := (bw_returned w)(n \<mapsto> False)\<rparr>
      else w)"

text \<open>The worker thread: take a job, skip it if nobody waits for it any more, run it, complete it.\<close>

definition worker_take :: "blocking_worker \<Rightarrow> blocking_worker" where
  "worker_take w =
     (case bw_slot w of
        None \<Rightarrow> w
      | Some n \<Rightarrow>
          if n \<in> bw_dropped w then w\<lparr>bw_slot := None\<rparr>
          else w\<lparr>bw_slot := None, bw_running := Some n, bw_started := bw_started w @ [n]\<rparr>)"

definition worker_finish :: "blocking_worker \<Rightarrow> blocking_worker" where
  "worker_finish w =
     (case bw_running w of
        None \<Rightarrow> w
      | Some n \<Rightarrow> w\<lparr>bw_running := None, bw_finished := insert n (bw_finished w)\<rparr>)"

definition fresh_job :: "nat \<Rightarrow> blocking_worker \<Rightarrow> bool" where
  "fresh_job n w \<longleftrightarrow> n \<notin> bw_offered w \<and> n \<notin> set (bw_sent w) \<and> n \<notin> bw_dropped w \<and> bw_returned w n = None"

inductive worker_step :: "blocking_worker \<Rightarrow> blocking_worker \<Rightarrow> bool" where
  offers: "fresh_job n w \<Longrightarrow> worker_step w (w\<lparr>bw_offered := insert n (bw_offered w)\<rparr>)"
| sends: "n \<in> bw_offered w \<Longrightarrow> worker_step w (execute_send n w)"
| takes: "bw_alive w \<Longrightarrow> bw_running w = None \<Longrightarrow> worker_step w (worker_take w)"
| finishes: "bw_alive w \<Longrightarrow> worker_step w (worker_finish w)"
| returns: "n \<in> set (bw_sent w) \<Longrightarrow> n \<notin> bw_dropped w \<Longrightarrow> bw_returned w n = None \<Longrightarrow>
    worker_step w (execute_completed n w)"
| drops: "bw_returned w n = None \<Longrightarrow>
    worker_step w (w\<lparr>bw_offered := bw_offered w - {n}, bw_dropped := insert n (bw_dropped w)\<rparr>)"
| stops: "worker_step w (w\<lparr>bw_alive := False, bw_slot := None, bw_running := None\<rparr>)"

inductive worker_runs :: "blocking_worker \<Rightarrow> blocking_worker \<Rightarrow> bool" where
  here: "worker_runs w w"
| on: "worker_runs w w' \<Longrightarrow> worker_step w' w'' \<Longrightarrow> worker_runs w w''"

section \<open>Simple futures\<close>

lemma yields_once: "yield_poll False = (False, True, True) \<and> yield_poll True = (True, False, True)"
  by (simp add: yield_poll_def)

lemma aborted_not_polled: "abortable_poll poll (abort_task a) = (True, abort_task a)"
  by (simp add: abortable_poll_def abort_task_def)

lemma sleep_fails_open: "armed d t = None \<Longrightarrow> rt_sleep armed d t = t"
  by (simp add: rt_sleep_def)

section \<open>Invariant of the worker\<close>

text \<open>The jobs run so far, and the one in the slot, were sent in this order.\<close>

definition slot_list :: "blocking_worker \<Rightarrow> nat list" where
  "slot_list w = (case bw_slot w of None \<Rightarrow> [] | Some n \<Rightarrow> [n])"

definition worker_ok :: "blocking_worker \<Rightarrow> bool" where
  "worker_ok w \<longleftrightarrow>
     distinct (bw_sent w) \<and> bw_offered w \<inter> set (bw_sent w) = {} \<and>
     subseq (bw_started w @ slot_list w) (bw_sent w) \<and>
     bw_finished w \<subseteq> set (bw_started w) \<and>
     (\<forall>n. bw_running w = Some n \<longrightarrow> n \<in> set (bw_started w)) \<and>
     (\<forall>n. bw_returned w n = Some True \<longrightarrow> n \<in> bw_finished w) \<and>
     (bw_alive w \<longrightarrow> (\<forall>n. bw_returned w n \<noteq> Some False))"

lemma subseq_drop_slot: "subseq (xs @ ys) zs \<Longrightarrow> subseq xs zs"
  by (rule subseq_order.trans [OF subseq_rev_drop_many [OF subseq_order.refl]])

lemma subseq_distinct: "subseq xs ys \<Longrightarrow> distinct ys \<Longrightarrow> distinct xs"
  by (auto simp: subseq_conv_nths)

lemma worker_step_ok: "worker_step w w' \<Longrightarrow> worker_ok w \<Longrightarrow> worker_ok w'"
proof (induction rule: worker_step.induct)
  case (sends n w)
  have "subseq (bw_started w @ [n]) (bw_sent w @ [n])" if "bw_slot w = None"
    using sends.prems that by (simp add: worker_ok_def slot_list_def)
  then show ?case using sends by (auto simp: worker_ok_def execute_send_def slot_list_def)
next
  case (takes w)
  then show ?case
    by (cases "bw_slot w") (auto simp: worker_ok_def worker_take_def slot_list_def dest: subseq_drop_slot)
next
  case (finishes w)
  then show ?case
    by (cases "bw_running w") (auto simp: worker_ok_def worker_finish_def slot_list_def)
next
  case (stops w)
  then show ?case using subseq_drop_slot by (auto simp: worker_ok_def slot_list_def)
qed (auto simp: worker_ok_def slot_list_def execute_completed_def fresh_job_def)

lemma worker_runs_ok:
  assumes "worker_runs worker_start w" shows "worker_ok w"
proof -
  have "worker_runs w0 w \<Longrightarrow> worker_ok w0 \<Longrightarrow> worker_ok w" for w0
    by (induction rule: worker_runs.induct) (blast intro: worker_step_ok)+
  then show ?thesis using assms by (simp add: worker_ok_def worker_start_def slot_list_def)
qed

lemma cancelled_step:
  "worker_step w w' \<Longrightarrow> n \<in> bw_dropped w \<and> n \<notin> set (bw_started w) \<Longrightarrow> n \<in> bw_dropped w' \<and> n \<notin> set (bw_started w')"
  by (induction rule: worker_step.induct)
    (auto simp: execute_send_def execute_completed_def worker_take_def worker_finish_def split: option.splits)

lemma cancelled_runs:
  "worker_runs w w' \<Longrightarrow> n \<in> bw_dropped w \<and> n \<notin> set (bw_started w) \<Longrightarrow> n \<in> bw_dropped w' \<and> n \<notin> set (bw_started w')"
  by (induction rule: worker_runs.induct) (blast dest: cancelled_step)+

section \<open>Properties\<close>



text \<open>\<open>spawn_thread\<close> creates the thread with the given configuration and puts back the caller's
own, or the default when there was none, if ESP-IDF accepts that. When the configuration is refused
nothing changes. When the thread cannot be created, however, the early return skips the
restoration and the worker's configuration stays in force for whatever the caller spawns next.\<close>

lemma spawn_thread_restores:
  "spawn_thread set_ok spawn_ok default_config config s =
     (if \<not> set_ok config then (False, s)
      else if spawn_ok then
        (True, s\<lparr>sp_threads := sp_threads s @ [config],
          sp_config := (let back = case_option default_config (\<lambda>c. c) (sp_config s)
                        in Some (if set_ok back then back else config))\<rparr>)
      else (False, s\<lparr>sp_config := Some config\<rparr>))"
  by (auto simp: spawn_thread_def Let_def split: option.split)

end
