(* ===== verification/Psram_Alloc.thy ===== *)
theory Psram_Alloc
  imports Esp_Prelude
begin

text \<open>
  The global allocator of \<open>src/psram_alloc.rs\<close> on top of ESP-IDF's capability heap. The heap is
  not part of the repository: its functions are the fields of \<open>heap_api\<close>, its documented
  behaviour is the locale \<open>heap_caps\<close>, and the theorem is that the allocator then keeps the
  contract of Rust's \<open>GlobalAlloc\<close>. An address is a number, zero is the null pointer.
\<close>

unbundle bit_operations_syntax

section \<open>The allocator\<close>

record 'h heap_api =
  heap_caps_aligned_alloc :: "nat \<Rightarrow> nat \<Rightarrow> u32 \<Rightarrow> 'h \<Rightarrow> nat \<times> 'h"
  heap_caps_realloc :: "nat \<Rightarrow> nat \<Rightarrow> u32 \<Rightarrow> 'h \<Rightarrow> nat \<times> 'h"
  heap_caps_free :: "nat \<Rightarrow> 'h \<Rightarrow> 'h"
  copy_nonoverlapping :: "nat \<Rightarrow> nat \<Rightarrow> nat \<Rightarrow> 'h \<Rightarrow> 'h"

text \<open>The build: which arenas it has, and ESP-IDF's capability bits.\<close>

record board =
  esp_idf_spiram :: bool
  unicore_rv32imc :: bool
  MALLOC_CAP_SPIRAM :: u32
  MALLOC_CAP_8BIT :: u32
  MALLOC_CAP_RTCRAM :: u32
  MALLOC_CAP_DEFAULT :: u32

record layout =
  l_size :: nat
  l_align :: nat

definition preferred_caps :: "board \<Rightarrow> u32" where
  "preferred_caps b =
     (if esp_idf_spiram b then MALLOC_CAP_SPIRAM b OR MALLOC_CAP_8BIT b
      else if unicore_rv32imc b then MALLOC_CAP_RTCRAM b OR MALLOC_CAP_8BIT b
      else MALLOC_CAP_DEFAULT b)"

definition ps_alloc :: "board \<Rightarrow> 'h heap_api \<Rightarrow> layout \<Rightarrow> 'h \<Rightarrow> nat \<times> 'h" where
  "ps_alloc b api l h =
     (let align = max (l_align l) 4; caps = preferred_caps b in
      case heap_caps_aligned_alloc api align (l_size l) caps h of
        (p, h') \<Rightarrow>
          if p \<noteq> 0 \<or> caps = MALLOC_CAP_DEFAULT b then (p, h')
          else heap_caps_aligned_alloc api align (l_size l) (MALLOC_CAP_DEFAULT b) h')"

definition ps_dealloc :: "'h heap_api \<Rightarrow> nat \<Rightarrow> 'h \<Rightarrow> 'h" where
  "ps_dealloc api p h = heap_caps_free api p h"

definition realloc_copy :: "board \<Rightarrow> 'h heap_api \<Rightarrow> nat \<Rightarrow> layout \<Rightarrow> nat \<Rightarrow> 'h \<Rightarrow> nat \<times> 'h" where
  "realloc_copy b api p l new_size h =
     (case ps_alloc b api \<lparr>l_size = new_size, l_align = l_align l\<rparr> h of
        (q, h') \<Rightarrow>
          if q \<noteq> 0
          then (q, ps_dealloc api p (copy_nonoverlapping api p q (min (l_size l) new_size) h'))
          else (q, h'))"

definition ps_realloc :: "board \<Rightarrow> 'h heap_api \<Rightarrow> nat \<Rightarrow> layout \<Rightarrow> nat \<Rightarrow> 'h \<Rightarrow> nat \<times> 'h" where
  "ps_realloc b api p l new_size h =
     (if l_align l > 4 then realloc_copy b api p l new_size h
      else
        let caps = preferred_caps b in
        case heap_caps_realloc api p new_size caps h of
          (q, h') \<Rightarrow>
            if q \<noteq> 0 \<or> caps = MALLOC_CAP_DEFAULT b then (q, h')
            else heap_caps_realloc api p new_size (MALLOC_CAP_DEFAULT b) h')"

section \<open>Contracts\<close>

text \<open>A block is separate from the live ones; the contents of blocks stay as they were.\<close>

definition separate :: "nat \<Rightarrow> nat \<Rightarrow> (nat \<rightharpoonup> nat) \<Rightarrow> bool" where
  "separate p n blocks \<longleftrightarrow> (\<forall>q m. blocks q = Some m \<longrightarrow> p + n \<le> q \<or> q + m \<le> p)"

definition same_bytes :: "(nat \<rightharpoonup> nat) \<Rightarrow> (nat \<Rightarrow> byte) \<Rightarrow> (nat \<Rightarrow> byte) \<Rightarrow> bool" where
  "same_bytes blocks old new \<longleftrightarrow> (\<forall>q m i. blocks q = Some m \<longrightarrow> i < m \<longrightarrow> new (q + i) = old (q + i))"

text \<open>
  An allocation that gives a null pointer changes nothing; otherwise the block is aligned, apart
  from all live ones, and these keep their contents.
\<close>

definition allocated ::
  "nat \<Rightarrow> nat \<Rightarrow> nat \<Rightarrow> (nat \<rightharpoonup> nat) \<Rightarrow> (nat \<Rightarrow> byte) \<Rightarrow> (nat \<rightharpoonup> nat) \<Rightarrow> (nat \<Rightarrow> byte) \<Rightarrow> bool" where
  "allocated align sz p old_live old_bytes live bytes \<longleftrightarrow>
     same_bytes old_live old_bytes bytes \<and>
     (if p = 0 then live = old_live
      else align dvd p \<and> separate p sz old_live \<and> old_live p = None \<and> live = old_live(p \<mapsto> sz))"

text \<open>
  A reallocation that gives a null pointer leaves the old block alone; otherwise the new block
  has the bytes of the old one as far as they fit, and is apart from the other live ones.
\<close>

definition reallocated ::
  "nat \<Rightarrow> nat \<Rightarrow> nat \<Rightarrow> nat \<Rightarrow> nat \<Rightarrow> (nat \<rightharpoonup> nat) \<Rightarrow> (nat \<Rightarrow> byte) \<Rightarrow> (nat \<rightharpoonup> nat) \<Rightarrow> (nat \<Rightarrow> byte) \<Rightarrow> bool" where
  "reallocated align p sz new_size q old_live old_bytes live bytes \<longleftrightarrow>
     (if q = 0 then live = old_live \<and> same_bytes old_live old_bytes bytes
      else align dvd q \<and> separate q new_size (old_live(p := None)) \<and>
        live = (old_live(p := None))(q \<mapsto> new_size) \<and>
        same_bytes (old_live(p := None)) old_bytes bytes \<and>
        (\<forall>i < min sz new_size. bytes (q + i) = old_bytes (p + i)))"

text \<open>
  ESP-IDF's heap, seen through the live blocks and the bytes of memory. \<open>heap_caps_realloc\<close>
  promises the heap's native alignment of four and leaves the old block alone when it fails.
\<close>

locale heap_caps =
  fixes api :: "'h heap_api" and ok :: "'h \<Rightarrow> bool" and live :: "'h \<Rightarrow> nat \<rightharpoonup> nat" and byte_at :: "'h \<Rightarrow> nat \<Rightarrow> byte"
  assumes aligned_alloc:
    "ok h \<Longrightarrow> heap_caps_aligned_alloc api align sz caps h = (p, h') \<Longrightarrow> 0 < align \<Longrightarrow>
       ok h' \<and> allocated align sz p (live h) (byte_at h) (live h') (byte_at h')"
    and realloc:
    "ok h \<Longrightarrow> live h p = Some sz \<Longrightarrow> heap_caps_realloc api p new_size caps h = (q, h') \<Longrightarrow>
       ok h' \<and> reallocated 4 p sz new_size q (live h) (byte_at h) (live h') (byte_at h')"
    and free:
    "ok h \<Longrightarrow> live h p = Some sz \<Longrightarrow>
       ok (heap_caps_free api p h) \<and> live (heap_caps_free api p h) = (live h)(p := None) \<and>
       same_bytes ((live h)(p := None)) (byte_at h) (byte_at (heap_caps_free api p h))"
    and copy:
    "ok h \<Longrightarrow> ok (copy_nonoverlapping api p q n h) \<and> live (copy_nonoverlapping api p q n h) = live h \<and>
       byte_at (copy_nonoverlapping api p q n h) =
         (\<lambda>x. if q \<le> x \<and> x < q + n then byte_at h (p + (x - q)) else byte_at h x)"

text \<open>Rust's \<open>GlobalAlloc\<close>, for layouts whose alignment is a power of two.\<close>

definition power_of_two :: "nat \<Rightarrow> bool" where
  "power_of_two a \<longleftrightarrow> (\<exists>k. a = 2 ^ k)"

locale global_alloc =
  fixes alloc :: "layout \<Rightarrow> 'h \<Rightarrow> nat \<times> 'h" and dealloc :: "nat \<Rightarrow> 'h \<Rightarrow> 'h"
    and regrow :: "nat \<Rightarrow> layout \<Rightarrow> nat \<Rightarrow> 'h \<Rightarrow> nat \<times> 'h"
    and good :: "'h \<Rightarrow> bool" and blocks :: "'h \<Rightarrow> nat \<rightharpoonup> nat" and bytes_of :: "'h \<Rightarrow> nat \<Rightarrow> byte"
  assumes alloc_ok:
    "good h \<Longrightarrow> power_of_two (l_align l) \<Longrightarrow> alloc l h = (p, h') \<Longrightarrow>
       good h' \<and> allocated (l_align l) (l_size l) p (blocks h) (bytes_of h) (blocks h') (bytes_of h')"
    and dealloc_ok:
    "good h \<Longrightarrow> blocks h p = Some sz \<Longrightarrow>
       good (dealloc p h) \<and> blocks (dealloc p h) = (blocks h)(p := None) \<and>
       same_bytes ((blocks h)(p := None)) (bytes_of h) (bytes_of (dealloc p h))"
    and realloc_ok:
    "good h \<Longrightarrow> power_of_two (l_align l) \<Longrightarrow> blocks h p = Some (l_size l) \<Longrightarrow> regrow p l new_size h = (q, h') \<Longrightarrow>
       good h' \<and> reallocated (l_align l) p (l_size l) new_size q (blocks h) (bytes_of h) (blocks h') (bytes_of h')"

section \<open>The allocator keeps the contract\<close>

lemma dvd_max_four: "power_of_two a \<Longrightarrow> max a 4 dvd p \<Longrightarrow> a dvd p"
proof -
  assume a: "power_of_two a" "max a 4 dvd p"
  then obtain k where k: "a = 2 ^ k" by (auto simp: power_of_two_def)
  have "a dvd 4" if "a \<le> 4"
  proof -
    have "(2 :: nat) ^ k \<le> 2 ^ 2" using that k by simp
    then have "k \<le> 2" by (rule power_le_imp_le_exp [rotated]) simp
    then have "(2 :: nat) ^ k dvd 2 ^ 2" by (rule le_imp_power_dvd)
    then show ?thesis by (simp add: k)
  qed
  then show "a dvd p" using a(2) by (cases "a \<le> 4") (auto simp: max_def split: if_splits dest: dvd_trans)
qed

lemma allocated_weaken:
  "allocated align sz p l b l' b' \<Longrightarrow> (align dvd p \<Longrightarrow> align' dvd p) \<Longrightarrow> allocated align' sz p l b l' b'"
  by (auto simp: allocated_def split: if_splits)

text \<open>A null pointer changed nothing that matters, so the second attempt starts where the first did.\<close>

lemma allocated_after_null:
  "allocated align sz 0 l b l1 b1 \<Longrightarrow> allocated align sz p l1 b1 l2 b2 \<Longrightarrow> allocated align sz p l b l2 b2"
  by (auto simp: allocated_def same_bytes_def)

lemma reallocated_after_null:
  "l p = Some sz \<Longrightarrow> reallocated align p sz new_size 0 l b l1 b1 \<Longrightarrow>
   reallocated align p sz new_size q l1 b1 l2 b2 \<Longrightarrow> reallocated align p sz new_size q l b l2 b2"
  by (auto simp: reallocated_def same_bytes_def split: if_splits)

context heap_caps
begin

lemma ps_alloc_ok:
  assumes "ok h" and "power_of_two (l_align l)" and "ps_alloc b api l h = (p, h')"
  shows "ok h' \<and> allocated (l_align l) (l_size l) p (live h) (byte_at h) (live h') (byte_at h')"
proof -
  let ?a = "max (l_align l) 4"
  obtain p1 h1 where 1: "heap_caps_aligned_alloc api ?a (l_size l) (preferred_caps b) h = (p1, h1)" by fastforce
  note first = aligned_alloc [OF assms(1) 1]
  have "ok h' \<and> allocated ?a (l_size l) p (live h) (byte_at h) (live h') (byte_at h')"
  proof (cases "p1 \<noteq> 0 \<or> preferred_caps b = MALLOC_CAP_DEFAULT b")
    case True
    then show ?thesis using assms(3) first by (simp add: ps_alloc_def Let_def 1)
  next
    case False
    then have 2: "heap_caps_aligned_alloc api ?a (l_size l) (MALLOC_CAP_DEFAULT b) h1 = (p, h')"
      using assms(3) by (simp add: ps_alloc_def Let_def 1)
    have align: "0 < ?a" by simp
    have "p1 = 0" using False by simp
    then have "ok h1" and null: "allocated ?a (l_size l) 0 (live h) (byte_at h) (live h1) (byte_at h1)"
      using first [OF align] by simp_all
    then have "ok h'" "allocated ?a (l_size l) p (live h1) (byte_at h1) (live h') (byte_at h')"
      using aligned_alloc [OF _ 2 align] by simp_all
    then show ?thesis using allocated_after_null [OF null] by simp
  qed
  then have "ok h'" and wide: "allocated ?a (l_size l) p (live h) (byte_at h) (live h') (byte_at h')" by simp_all
  moreover have "allocated (l_align l) (l_size l) p (live h) (byte_at h) (live h') (byte_at h')"
    by (rule allocated_weaken [OF wide]) (rule dvd_max_four [OF assms(2)])
  ultimately show ?thesis by simp
qed

lemma realloc_in_place_ok:
  assumes "ok h" and "power_of_two (l_align l)" and "l_align l \<le> 4" and "live h p = Some (l_size l)"
    and "ps_realloc b api p l new_size h = (q, h')"
  shows "ok h' \<and> reallocated (l_align l) p (l_size l) new_size q (live h) (byte_at h) (live h') (byte_at h')"
proof -
  obtain q1 h1 where 1: "heap_caps_realloc api p new_size (preferred_caps b) h = (q1, h1)" by fastforce
  note first = realloc [OF assms(1,4) 1]
  have "ok h' \<and> reallocated 4 p (l_size l) new_size q (live h) (byte_at h) (live h') (byte_at h')"
  proof (cases "q1 \<noteq> 0 \<or> preferred_caps b = MALLOC_CAP_DEFAULT b")
    case True
    then show ?thesis using assms(3,5) first by (simp add: ps_realloc_def Let_def 1)
  next
    case False
    then have 2: "heap_caps_realloc api p new_size (MALLOC_CAP_DEFAULT b) h1 = (q, h')"
      using assms(3,5) by (simp add: ps_realloc_def Let_def 1)
    have null: "reallocated 4 p (l_size l) new_size 0 (live h) (byte_at h) (live h1) (byte_at h1)" "ok h1"
      using first False by simp_all
    then have "live h1 p = Some (l_size l)" using assms(4) by (simp add: reallocated_def)
    from realloc [OF null(2) this 2] show ?thesis
      using reallocated_after_null [of "live h" p "l_size l", OF assms(4) null(1)] by blast
  qed
  moreover have "4 dvd q \<Longrightarrow> l_align l dvd q"
    using dvd_max_four [OF assms(2), of q] assms(3) by (simp add: max_def)
  ultimately show ?thesis by (auto simp: reallocated_def split: if_splits)
qed

lemma realloc_copy_ok:
  assumes "ok h" and "power_of_two (l_align l)" and p: "live h p = Some (l_size l)"
    and "realloc_copy b api p l new_size h = (q, h')"
  shows "ok h' \<and> reallocated (l_align l) p (l_size l) new_size q (live h) (byte_at h) (live h') (byte_at h')"
proof -
  let ?l = "\<lparr>l_size = new_size, l_align = l_align l\<rparr>"
  obtain h1 where 1: "ps_alloc b api ?l h = (q, h1)"
    using assms(4) by (auto simp: realloc_copy_def split: prod.splits if_splits)
  have a: "ok h1" "allocated (l_align l) new_size q (live h) (byte_at h) (live h1) (byte_at h1)"
    using ps_alloc_ok [OF assms(1) _ 1] assms(2) by simp_all
  show ?thesis
  proof (cases "q = 0")
    case True
    then show ?thesis using assms(4) 1 a by (auto simp: realloc_copy_def allocated_def reallocated_def)
  next
    case False
    define h2 where "h2 = copy_nonoverlapping api p q (min (l_size l) new_size) h1"
    have h': "h' = heap_caps_free api p h2"
      using assms(4) 1 False by (simp add: realloc_copy_def ps_dealloc_def h2_def)
    have q: "l_align l dvd q" "separate q new_size (live h)" "live h q = None" "live h1 = (live h)(q \<mapsto> new_size)"
      "same_bytes (live h) (byte_at h) (byte_at h1)" using a(2) False by (auto simp: allocated_def)
    then have pq: "p \<noteq> q" "q + new_size \<le> p \<or> p + l_size l \<le> q" using p by (auto simp: separate_def)
    have c: "ok h2" "live h2 = live h1"
      "byte_at h2 = (\<lambda>x. if q \<le> x \<and> x < q + min (l_size l) new_size then byte_at h1 (p + (x - q)) else byte_at h1 x)"
      using copy [OF a(1)] by (simp_all add: h2_def)
    have "live h2 p = Some (l_size l)" using c(2) q(4) p pq by simp
    note f = free [OF c(1) this]
    have moved: "byte_at h2 (q + i) = byte_at h (p + i)" if "i < min (l_size l) new_size" for i
      using that c(3) q(5) p by (auto simp: same_bytes_def)
    have kept: "byte_at h2 (r + i) = byte_at h (r + i)" if "live h r = Some m" "i < m" for r m i
    proof -
      have "q + new_size \<le> r \<or> r + m \<le> q" using q(2) that(1) by (auto simp: separate_def)
      then have "\<not> (q \<le> r + i \<and> r + i < q + min (l_size l) new_size)" using that(2) by auto
      then show ?thesis using c(3) q(5) that by (auto simp: same_bytes_def)
    qed
    have live': "live h' = ((live h)(p := None))(q \<mapsto> new_size)"
      using f c(2) q(4) pq(1) by (simp add: h' fun_upd_twist)
    have bytes': "same_bytes ((live h)(p := None, q \<mapsto> new_size)) (byte_at h2) (byte_at h')"
      using f c(2) q(4) pq(1) by (simp add: h' fun_upd_twist)
    have "same_bytes ((live h)(p := None)) (byte_at h) (byte_at h')"
      unfolding same_bytes_def
    proof (intro allI impI)
      fix r m i assume r: "((live h)(p := None)) r = Some m" "i < m"
      then have "r \<noteq> q" "live h r = Some m" using q(3) by (auto split: if_splits)
      then have "byte_at h' (r + i) = byte_at h2 (r + i)" using bytes' r by (auto simp: same_bytes_def)
      then show "byte_at h' (r + i) = byte_at h (r + i)" using kept \<open>live h r = Some m\<close> r(2) by simp
    qed
    moreover have "byte_at h' (q + i) = byte_at h (p + i)" if "i < min (l_size l) new_size" for i
      using bytes' moved that by (auto simp: same_bytes_def)
    moreover have "separate q new_size ((live h)(p := None))" using q(2) by (auto simp: separate_def)
    ultimately show ?thesis using f q(1) live' False by (auto simp: reallocated_def h')
  qed
qed

end

sublocale heap_caps \<subseteq> rust: global_alloc "ps_alloc b api" "ps_dealloc api" "ps_realloc b api" ok live byte_at for b
proof
  show "ok h' \<and> reallocated (l_align l) p (l_size l) new_size q (live h) (byte_at h) (live h') (byte_at h')"
    if "ok h" "power_of_two (l_align l)" "live h p = Some (l_size l)" "ps_realloc b api p l new_size h = (q, h')"
    for h l p new_size q h'
  proof (cases "l_align l > 4")
    case True
    then show ?thesis using realloc_copy_ok [OF that(1-3)] that(4) by (simp add: ps_realloc_def)
  next
    case False
    then show ?thesis using realloc_in_place_ok [OF that(1,2) _ that(3,4)] by simp
  qed
qed (auto simp: ps_dealloc_def dest: ps_alloc_ok free)

context heap_caps
begin

lemma rust_contract: "global_alloc (ps_alloc b api) (ps_dealloc api) (ps_realloc b api) ok live byte_at"
  by (rule rust.global_alloc_axioms)

end

section \<open>Properties\<close>

text \<open>
  A heap that satisfies the contract: it hands out addresses in one direction, shrinks blocks in
  place and refuses to grow them.
\<close>

record bump =
  b_next :: nat
  b_limit :: nat
  b_live :: "nat \<rightharpoonup> nat"
  b_mem :: "nat \<Rightarrow> byte"

definition bump_api :: "bump heap_api" where
  "bump_api = \<lparr>
     heap_caps_aligned_alloc = (\<lambda>align n caps h.
       let p = ((b_next h + align - 1) div align) * align
       in if p + n < b_limit h then (p, h\<lparr>b_next := p + n + 1, b_live := (b_live h)(p \<mapsto> n)\<rparr>) else (0, h)),
     heap_caps_realloc = (\<lambda>p n caps h.
       case b_live h p of
         Some m \<Rightarrow> if n \<le> m \<and> 4 dvd p then (p, h\<lparr>b_live := (b_live h)(p \<mapsto> n)\<rparr>) else (0, h)
       | None \<Rightarrow> (0, h)),
     heap_caps_free = (\<lambda>p h. h\<lparr>b_live := (b_live h)(p := None)\<rparr>),
     copy_nonoverlapping = (\<lambda>p q n h.
       h\<lparr>b_mem := \<lambda>x. if q \<le> x \<and> x < q + n then b_mem h (p + (x - q)) else b_mem h x\<rparr>)\<rparr>"

definition bump_ok :: "bump \<Rightarrow> bool" where
  "bump_ok h \<longleftrightarrow> 0 < b_next h \<and>
     (\<forall>p n. b_live h p = Some n \<longrightarrow> 0 < p \<and> p + n < b_next h) \<and>
     (\<forall>p n q m. b_live h p = Some n \<longrightarrow> b_live h q = Some m \<longrightarrow> p \<noteq> q \<longrightarrow> p + n \<le> q \<or> q + m \<le> p)"

lemma round_up: "0 < a \<Longrightarrow> n \<le> ((n + a - 1) div a) * (a :: nat)"
proof -
  assume "0 < a"
  then have "n + a - 1 < ((n + a - 1) div a) * a + a" by (metis add.commute dividend_less_div_times mult.commute)
  then show ?thesis using \<open>0 < a\<close> by simp
qed

interpretation bump: heap_caps bump_api bump_ok b_live b_mem
proof
  fix h align n caps p h'
  assume h: "bump_ok h" "heap_caps_aligned_alloc bump_api align n caps h = (p, h')" "0 < align"
  define r where "r = ((b_next h + align - 1) div align) * align"
  have r: "b_next h \<le> r" "align dvd r" using round_up [OF h(3), of "b_next h"] by (simp_all add: r_def)
  show "bump_ok h' \<and> allocated align n p (b_live h) (b_mem h) (b_live h') (b_mem h')"
  proof (cases "r + n < b_limit h")
    case True
    then have "p = r" "h' = h\<lparr>b_next := r + n + 1, b_live := (b_live h)(r \<mapsto> n)\<rparr>"
      using h(2) by (auto simp: bump_api_def Let_def r_def)
    moreover have "b_live h r = None" using h(1) r(1) by (cases "b_live h r") (force simp: bump_ok_def)+
    ultimately show ?thesis
      using h(1) r by (force simp: bump_ok_def allocated_def separate_def same_bytes_def)
  next
    case False
    then show ?thesis using h(1,2) by (auto simp: bump_api_def Let_def r_def allocated_def same_bytes_def)
  qed
next
  fix h p sz new_size caps q h'
  assume h: "bump_ok h" "b_live h p = Some sz" "heap_caps_realloc bump_api p new_size caps h = (q, h')"
  show "bump_ok h' \<and> reallocated 4 p sz new_size q (b_live h) (b_mem h) (b_live h') (b_mem h')"
  proof (cases "new_size \<le> sz \<and> 4 dvd p")
    case True
    then have "q = p" "h' = h\<lparr>b_live := (b_live h)(p \<mapsto> new_size)\<rparr>" using h(2,3) by (auto simp: bump_api_def)
    then show ?thesis
      using h(1,2) True by (fastforce simp: bump_ok_def reallocated_def separate_def same_bytes_def)
  next
    case False
    then have "q = 0" "h' = h" using h(2,3) by (auto simp: bump_api_def)
    then show ?thesis using h(1) by (simp add: reallocated_def same_bytes_def)
  qed
next
  fix h p sz assume "bump_ok h" "b_live h p = Some sz"
  then show "bump_ok (heap_caps_free bump_api p h) \<and> b_live (heap_caps_free bump_api p h) = (b_live h)(p := None) \<and>
      same_bytes ((b_live h)(p := None)) (b_mem h) (b_mem (heap_caps_free bump_api p h))"
    by (auto simp: bump_api_def bump_ok_def same_bytes_def)
next
  fix h p q n assume "bump_ok h"
  then show "bump_ok (copy_nonoverlapping bump_api p q n h) \<and> b_live (copy_nonoverlapping bump_api p q n h) = b_live h \<and>
      b_mem (copy_nonoverlapping bump_api p q n h) =
        (\<lambda>x. if q \<le> x \<and> x < q + n then b_mem h (p + (x - q)) else b_mem h x)"
    by (auto simp: bump_api_def bump_ok_def)
qed


text \<open>A block of eight bytes at sixteen-byte alignment is moved when it grows.\<close>

definition demo_board :: board where
  "demo_board = \<lparr>esp_idf_spiram = True, unicore_rv32imc = False, MALLOC_CAP_SPIRAM = 1024, MALLOC_CAP_8BIT = 4,
     MALLOC_CAP_RTCRAM = 32768, MALLOC_CAP_DEFAULT = 4096\<rparr>"

definition demo_heap :: bump where
  "demo_heap = \<lparr>b_next = 25, b_limit = 100, b_live = [16 \<mapsto> 8], b_mem = \<lambda>x. word_of_nat x\<rparr>"


end
