(* ===== verification/Crash_Log.thy ===== *)
theory Crash_Log
  imports Rust_Str
begin

text \<open>
  The crash diagnostics of \<open>src/crash.rs\<close>: the panic message kept in RTC RAM over a warm
  reset, and the core dump summary read from flash. \<open>record_panic\<close> writes the log with
  separate stores, and the chip may reset between any two of them, so the model keeps the
  stores apart. The panic information arrives in the pieces that its \<open>Display\<close> passes to
  \<open>write_str\<close>.
\<close>

unbundle bit_operations_syntax

section \<open>The panic log\<close>

definition CRASH_MAGIC :: u32 where "CRASH_MAGIC = 0xC0DEDEAD"
definition MSG_CAP :: nat where "MSG_CAP = 256"

text \<open>\<open>CRASH_LOG\<close>; the \<open>_pad\<close> field is never read.\<close>

record crash_log =
  magic :: u32
  log_len :: u16
  internal_free :: u32
  internal_largest :: u32
  msg :: bytes

text \<open>The static itself: whatever RTC RAM holds, its message has room for \<open>MSG_CAP\<close> bytes.\<close>

definition rtc_layout :: "crash_log \<Rightarrow> bool" where
  "rtc_layout c \<longleftrightarrow> length (msg c) = MSG_CAP"

text \<open>\<open>FixedBuf\<close>: a buffer of \<open>MSG_CAP\<close> bytes and how many of them are used.\<close>

record fixed_buf =
  fb_buf :: bytes
  fb_len :: nat

definition fixed_buf_new :: fixed_buf where
  "fixed_buf_new = \<lparr>fb_buf = replicate MSG_CAP 0, fb_len = 0\<rparr>"

text \<open>\<open>buf[at..at + b.len()].copy_from_slice(b)\<close> for a range that is in bounds.\<close>

definition copy_at :: "nat \<Rightarrow> 'a list \<Rightarrow> 'a list \<Rightarrow> 'a list" where
  "copy_at at b buf = take at buf @ b @ drop (at + length b) buf"

definition write_str :: "str \<Rightarrow> fixed_buf \<Rightarrow> fixed_buf" where
  "write_str s fb =
     (let b = as_bytes s;
          n = min (length b) (MSG_CAP - fb_len fb)
      in \<lparr>fb_buf = copy_at (fb_len fb) (take n b) (fb_buf fb), fb_len = fb_len fb + n\<rparr>)"

text \<open>
  The stores of \<open>record_panic\<close>: \<open>copy_nonoverlapping\<close> byte by byte, the three fields, and
  behind the fence the magic.
\<close>

definition record_panic_stores :: "str list \<Rightarrow> u32 \<Rightarrow> u32 \<Rightarrow> (crash_log \<Rightarrow> crash_log) list" where
  "record_panic_stores info free largest =
     (let fb = fold write_str info fixed_buf_new
      in map (\<lambda>i c. c\<lparr>msg := (msg c)[i := fb_buf fb ! i]\<rparr>) [0..<fb_len fb] @
         [\<lambda>c. c\<lparr>log_len := word_of_nat (fb_len fb)\<rparr>,
          \<lambda>c. c\<lparr>internal_free := free\<rparr>,
          \<lambda>c. c\<lparr>internal_largest := largest\<rparr>,
          \<lambda>c. c\<lparr>magic := CRASH_MAGIC\<rparr>])"

definition record_panic :: "str list \<Rightarrow> u32 \<Rightarrow> u32 \<Rightarrow> crash_log \<Rightarrow> crash_log" where
  "record_panic info free largest c = fold (\<lambda>f. f) (record_panic_stores info free largest) c"

definition take_last_panic :: "crash_log \<Rightarrow> str option \<times> crash_log" where
  "take_last_panic c =
     (if magic c \<noteq> CRASH_MAGIC then (None, c)
      else
        let len = min (unat (log_len c)) MSG_CAP;
            slice = take len (msg c);
            m = from_utf8_lossy slice @ '' | internal-DRAM @panic: free='' @
                show_nat (unat (internal_free c)) @ '' B, largest_block='' @
                show_nat (unat (internal_largest c)) @ '' B''
        in (Some m, c\<lparr>magic := 0\<rparr>))"

section \<open>The core dump\<close>

text \<open>\<open>CoredumpSummary\<close>, and what ESP-IDF's \<open>esp_core_dump_summary_t\<close> gives per architecture.\<close>

record coredump_summary =
  cd_task :: str
  cd_exc_pc :: u32
  cd_exc_cause :: u32
  cd_fault_addr :: u32
  cd_backtrace :: "u32 list"
  cd_bt_corrupted :: bool

datatype ex_info =
    Xtensa (xt_cause: u32) (xt_vaddr: u32) (xt_depth: u32) (xt_bt: "u32 list") (xt_corrupted: bool)
  | Riscv32 (rv_mcause: u32) (rv_mtval: u32) (rv_ra: u32)

record dump_summary =
  exc_task :: bytes
  exc_pc :: u32
  exc_info :: ex_info

text \<open>
  The core dump partition is ESP-IDF's: \<open>image_check\<close>, \<open>get_summary\<close> and \<open>image_erase\<close> are
  parameters, with \<open>None\<close> for a code other than \<open>ESP_OK\<close>. \<open>exc_task\<close> has 16 bytes.
\<close>

record 'p coredump_api =
  image_check :: "'p \<Rightarrow> bool"
  get_summary :: "'p \<Rightarrow> dump_summary option"
  image_erase :: "'p \<Rightarrow> 'p"

text \<open>\<open>CStr::from_bytes_until_nul\<close>, and the whole array when there is no NUL.\<close>

definition task_name :: "bytes \<Rightarrow> str" where
  "task_name raw = from_utf8_lossy (if 0 \<in> set raw then takeWhile (\<lambda>b. b \<noteq> 0) raw else raw)"

definition exc_fields :: "u32 \<Rightarrow> ex_info \<Rightarrow> u32 \<times> u32 \<times> u32 list \<times> bool" where
  "exc_fields pc info =
     (case info of
        Xtensa exc_cause vaddr depth bt corrupted \<Rightarrow>
          (exc_cause, vaddr, take (min (unat depth) (length bt)) bt, corrupted)
      | Riscv32 mcause mtval ra \<Rightarrow>
          (mcause, mtval, [pc] @ (if ra \<noteq> 0 \<and> ra \<noteq> pc then [ra] else []), False))"

definition take_coredump_summary :: "'p coredump_api \<Rightarrow> 'p \<Rightarrow> coredump_summary option \<times> 'p" where
  "take_coredump_summary api p =
     (if \<not> image_check api p then (None, p)
      else
        let s = get_summary api p; p' = image_erase api p
        in (map_option (\<lambda>s. case exc_fields (exc_pc s) (exc_info s) of
               (exc_cause, fault_addr, backtrace, bt_corrupted) \<Rightarrow>
                 \<lparr>cd_task = task_name (exc_task s), cd_exc_pc = exc_pc s, cd_exc_cause = exc_cause,
                  cd_fault_addr = fault_addr, cd_backtrace = backtrace,
                  cd_bt_corrupted = bt_corrupted\<rparr>) s, p'))"

section \<open>What the buffer holds\<close>

definition fb_text :: "fixed_buf \<Rightarrow> bytes" where
  "fb_text fb = take (fb_len fb) (fb_buf fb)"

definition fb_ok :: "fixed_buf \<Rightarrow> bool" where
  "fb_ok fb \<longleftrightarrow> length (fb_buf fb) = MSG_CAP \<and> fb_len fb \<le> MSG_CAP"

lemma length_copy_at [simp]: "at + length b \<le> length buf \<Longrightarrow> length (copy_at at b buf) = length buf"
  by (simp add: copy_at_def)

lemma take_copy_at: "at \<le> length buf \<Longrightarrow> take (at + length b) (copy_at at b buf) = take at buf @ b"
  by (simp add: copy_at_def min_def)

lemma length_as_bytes_MSG: "length (as_bytes s) = length s"
  by (simp add: as_bytes_def)

lemma take_as_bytes_min: "take (min (length s) k) (as_bytes s) = take k (as_bytes s)"
  by (cases "length s \<le> k") (simp_all add: length_as_bytes_MSG min_def)

lemma take_take_append: "take n (take n xs @ ys) = take n (xs @ ys)"
  by (cases "length xs \<le> n") simp_all

lemma fixed_buf_new_ok: "fb_ok fixed_buf_new" "fb_text fixed_buf_new = []"
  by (simp_all add: fb_ok_def fb_text_def fixed_buf_new_def)

lemma write_str_appends:
  assumes "fb_ok fb"
  shows "fb_ok (write_str s fb)" "fb_text (write_str s fb) = take MSG_CAP (fb_text fb @ as_bytes s)"
proof -
  let ?n = "min (length s) (MSG_CAP - fb_len fb)"
  have n: "fb_len fb + length (take ?n (as_bytes s)) \<le> length (fb_buf fb)"
    and len: "length (take ?n (as_bytes s)) = ?n"
    using assms by (auto simp: fb_ok_def length_as_bytes_MSG)
  show "fb_ok (write_str s fb)"
    using assms n by (auto simp: fb_ok_def write_str_def Let_def length_as_bytes_MSG)
  show "fb_text (write_str s fb) = take MSG_CAP (fb_text fb @ as_bytes s)"
    using assms take_copy_at [of "fb_len fb" "fb_buf fb" "take ?n (as_bytes s)"]
    by (auto simp: fb_ok_def fb_text_def write_str_def Let_def length_as_bytes_MSG len take_as_bytes_min)
qed

lemma formatted:
  "fb_ok fb \<Longrightarrow> fb_ok (fold write_str info fb) \<and>
     fb_text (fold write_str info fb) = take MSG_CAP (fb_text fb @ concat (map as_bytes info))"
proof (induction info arbitrary: fb)
  case Nil
  then show ?case by (simp add: fb_ok_def fb_text_def)
next
  case (Cons s info)
  have "fb_text (fold write_str (s # info) fb) =
      take MSG_CAP (take MSG_CAP (fb_text fb @ as_bytes s) @ concat (map as_bytes info))"
    using Cons write_str_appends [of fb s] by simp
  then show ?case
    using Cons write_str_appends [of fb s] by (simp only: take_take_append) simp
qed

section \<open>Stores and resets\<close>

abbreviation do_stores :: "(crash_log \<Rightarrow> crash_log) list \<Rightarrow> crash_log \<Rightarrow> crash_log" where
  "do_stores fs \<equiv> fold (\<lambda>f. f) fs"

lemma copied_bytes:
  "do_stores (map (\<lambda>i c. c\<lparr>msg := (msg c)[i := b ! i]\<rparr>) [0..<k]) c =
     c\<lparr>msg := map (\<lambda>i. if i < k then b ! i else msg c ! i) [0..<length (msg c)]\<rparr>"
proof (induction k)
  case 0
  then show ?case by (simp add: map_nth)
next
  case (Suc k)
  have "(map (\<lambda>i. if i < k then b ! i else msg c ! i) [0..<length (msg c)])[k := b ! k] =
      map (\<lambda>i. if i < Suc k then b ! i else msg c ! i) [0..<length (msg c)]"
    by (rule nth_equalityI) (auto simp: nth_list_update less_Suc_eq)
  then show ?case by (simp add: Suc.IH)
qed

lemma stores_until_magic:
  "\<exists>fs. record_panic_stores info free largest = fs @ [\<lambda>c. c\<lparr>magic := CRASH_MAGIC\<rparr>] \<and>
     (\<forall>f \<in> set fs. \<forall>c. magic (f c) = magic c)"
  by (auto simp: record_panic_stores_def Let_def)

lemma stores_keep_magic: "\<forall>f \<in> set fs. \<forall>c. magic (f c) = magic c \<Longrightarrow> magic (do_stores fs c) = magic c"
  by (induction fs arbitrary: c) auto

lemma interrupted_panic:
  assumes "k < length (record_panic_stores info free largest)"
  shows "magic (do_stores (take k (record_panic_stores info free largest)) c) = magic c"
proof -
  obtain fs where fs: "record_panic_stores info free largest = fs @ [\<lambda>c. c\<lparr>magic := CRASH_MAGIC\<rparr>]"
    and keep: "\<forall>f \<in> set fs. \<forall>c. magic (f c) = magic c"
    using stores_until_magic by blast
  have "magic (do_stores (take k fs) c) = magic c"
    by (rule stores_keep_magic) (use keep in \<open>auto dest: in_set_takeD\<close>)
  then show ?thesis using assms by (simp add: fs)
qed

text \<open>The text a panic leaves: what fits of the message, made valid, and the two heap figures.\<close>

definition panic_report :: "str list \<Rightarrow> u32 \<Rightarrow> u32 \<Rightarrow> str" where
  "panic_report info free largest =
     from_utf8_lossy (take MSG_CAP (concat (map as_bytes info))) @
     '' | internal-DRAM @panic: free='' @ show_nat (unat free) @
     '' B, largest_block='' @ show_nat (unat largest) @ '' B''"

lemma recorded_panic:
  assumes "rtc_layout c"
  shows "fst (take_last_panic (record_panic info free largest c)) = Some (panic_report info free largest)"
proof -
  let ?fb = "fold write_str info fixed_buf_new"
  have ok: "fb_ok ?fb" and content: "fb_text ?fb = take MSG_CAP (concat (map as_bytes info))"
    using formatted [OF fixed_buf_new_ok(1), of info] by (simp_all add: fixed_buf_new_ok(2))
  have len: "unat (word_of_nat (fb_len ?fb) :: u16) = fb_len ?fb"
    using ok by (simp add: fb_ok_def MSG_CAP_def unat_of_nat take_bit_eq_mod)
  have "take (fb_len ?fb) (map (\<lambda>i. if i < fb_len ?fb then fb_buf ?fb ! i else msg c ! i) [0..<length (msg c)]) =
      take (fb_len ?fb) (fb_buf ?fb)"
    using ok assms by (auto simp: fb_ok_def rtc_layout_def intro!: nth_equalityI)
  then show ?thesis
    using ok len content
    by (simp add: record_panic_def record_panic_stores_def Let_def copied_bytes take_last_panic_def
        panic_report_def fb_ok_def fb_text_def)
qed

lemma taken_panic: "magic (snd (take_last_panic c)) \<noteq> CRASH_MAGIC"
  by (simp add: take_last_panic_def CRASH_MAGIC_def Let_def)

lemma taken_layout: "rtc_layout (snd (take_last_panic c)) = rtc_layout c"
  by (simp add: take_last_panic_def rtc_layout_def Let_def)

lemma no_magic: "magic c \<noteq> CRASH_MAGIC \<Longrightarrow> take_last_panic c = (None, c)"
  by (simp add: take_last_panic_def)

text \<open>A panic is reported once and never half. Whatever RTC RAM holds at power-on, after a
boot has read the log, a panic that gets through \<open>record_panic\<close> is reported at the next boot with
the first 256 bytes of its message (made valid UTF-8) and its heap figures; a reset after any
smaller number of its stores leaves nothing to report; and the boot after that reports
nothing.\<close>

lemma panic_reported_once:
  assumes "rtc_layout c" and "booted = snd (take_last_panic c)"
    and "stores = record_panic_stores info free largest"
  shows "fst (take_last_panic (record_panic info free largest booted)) = Some (panic_report info free largest) \<and>
     (k < length stores \<longrightarrow> fst (take_last_panic (do_stores (take k stores) booted)) = None) \<and>
     fst (take_last_panic (snd (take_last_panic (do_stores (take k stores) booted)))) = None"
proof (intro conjI impI)
  show "fst (take_last_panic (record_panic info free largest booted)) = Some (panic_report info free largest)"
    using assms(1,2) by (simp add: recorded_panic taken_layout)
  show "fst (take_last_panic (do_stores (take k stores) booted)) = None" if "k < length stores"
    using that taken_panic [of c] interrupted_panic [of k info free largest booted] assms(2,3)
    by (simp add: no_magic)
  show "fst (take_last_panic (snd (take_last_panic (do_stores (take k stores) booted)))) = None"
    by (simp add: no_magic taken_panic)
qed

text \<open>A message of two pieces, recorded over a log full of old bytes.\<close>

definition demo_log :: crash_log where
  "demo_log = \<lparr>magic = 7, log_len = 9, internal_free = 0, internal_largest = 0, msg = replicate MSG_CAP 0xFF\<rparr>"

text \<open>
  The core dump is consumed by the boot that reads it, even when no summary comes out of it:
  erasing leaves no image, so it is reported once.
\<close>

lemma coredump_taken_once:
  assumes "\<And>p. \<not> image_check api (image_erase api p)"
  shows "fst (take_coredump_summary api (snd (take_coredump_summary api p))) = None"
  using assms by (simp add: take_coredump_summary_def Let_def)

lemma backtrace_bounded:
  "fst (take_coredump_summary api p) = Some s \<Longrightarrow> get_summary api p = Some d \<Longrightarrow>
     length (cd_backtrace s) \<le> (case exc_info d of Xtensa _ _ depth bt _ \<Rightarrow> min (unat depth) (length bt) | _ \<Rightarrow> 2)"
  by (auto simp: take_coredump_summary_def Let_def exc_fields_def split: ex_info.splits if_splits)

end
