(* ===== verification/Metrics.thy ===== *)
theory Metrics
  imports Crash_Log Device_Status Runtime
begin

text \<open>
  The telemetry of \<open>src/metrics.rs\<close>: the facts about the previous run that are captured once at
  boot, and the texts built from them and from the counters of ESP-IDF. The counters are read
  through the record \<open>readings\<close>; the JSON printer is \<open>serde_json\<close>'s.
\<close>

unbundle bit_operations_syntax

section \<open>What the previous run left\<close>

datatype reset_reason =
    PowerOn | Software | Panic | TaskWatchdog | InterruptWatchdog | Watchdog_Reset | Brownout | DeepSleep
  | ExternalPin | JTAG | USBPeripheral | Other_Reset

text \<open>The three \<open>OnceLock\<close>s: a second \<open>set\<close> is refused, and the refusal ignored.\<close>

record metrics_statics =
  LAST_RESET :: "reset_reason option"
  LAST_PANIC :: "str option option"
  LAST_COREDUMP :: "coredump_summary option option"

definition statics_new :: metrics_statics where
  "statics_new = \<lparr>LAST_RESET = None, LAST_PANIC = None, LAST_COREDUMP = None\<rparr>"

definition once_set :: "'a \<Rightarrow> 'a option \<Rightarrow> 'a option" where
  "once_set v cell = (case cell of None \<Rightarrow> Some v | Some old \<Rightarrow> Some old)"

definition set_last_reset :: "reset_reason \<Rightarrow> metrics_statics \<Rightarrow> metrics_statics" where
  "set_last_reset r s = s\<lparr>LAST_RESET := once_set r (LAST_RESET s)\<rparr>"

definition set_last_panic :: "str option \<Rightarrow> metrics_statics \<Rightarrow> metrics_statics" where
  "set_last_panic m s = s\<lparr>LAST_PANIC := once_set m (LAST_PANIC s)\<rparr>"

definition set_last_coredump :: "coredump_summary option \<Rightarrow> metrics_statics \<Rightarrow> metrics_statics" where
  "set_last_coredump c s = s\<lparr>LAST_COREDUMP := once_set c (LAST_COREDUMP s)\<rparr>"

text \<open>\<open>OnceLock::get\<close> and then the inner option.\<close>

definition last_panic :: "metrics_statics \<Rightarrow> str option" where
  "last_panic s = Option.bind (LAST_PANIC s) (\<lambda>m. m)"

definition last_panic_str :: "metrics_statics \<Rightarrow> str" where
  "last_panic_str s = (case last_panic s of Some m \<Rightarrow> '' | panic: '' @ m | None \<Rightarrow> '''')"

definition last_reset_str :: "metrics_statics \<Rightarrow> str" where
  "last_reset_str s =
     (case LAST_RESET s of
        Some PowerOn \<Rightarrow> ''PowerOn''
      | Some Software \<Rightarrow> ''Software (esp_restart)''
      | Some Panic \<Rightarrow> ''Panic / exception (crash)''
      | Some TaskWatchdog \<Rightarrow> ''TaskWatchdog''
      | Some InterruptWatchdog \<Rightarrow> ''InterruptWatchdog''
      | Some Watchdog_Reset \<Rightarrow> ''Watchdog''
      | Some Brownout \<Rightarrow> ''Brownout (power dip)''
      | Some DeepSleep \<Rightarrow> ''DeepSleep''
      | Some ExternalPin \<Rightarrow> ''ExternalPin''
      | Some JTAG \<Rightarrow> ''JTAG''
      | Some USBPeripheral \<Rightarrow> ''USBPeripheral''
      | Some _ \<Rightarrow> ''Other''
      | None \<Rightarrow> ''Unknown'')"

section \<open>Texts\<close>

text \<open>\<open>{:08x}\<close> behind \<open>0x\<close>; a \<open>u32\<close> never has more than eight digits.\<close>

definition hex_digit :: "nat \<Rightarrow> char" where
  "hex_digit n = ''0123456789abcdef'' ! n"

definition hex08 :: "u32 \<Rightarrow> str" where
  "hex08 w = ''0x'' @ map (\<lambda>i. hex_digit (unat (drop_bit (4 * i) w AND 15))) [7, 6, 5, 4, 3, 2, 1, 0]"

definition coredump_value :: "coredump_summary \<Rightarrow> json" where
  "coredump_value c = JObj
     [(''task'', JStr (cd_task c)),
      (''exc_pc'', JStr (hex08 (cd_exc_pc c))),
      (''exc_cause'', JNum (uint (cd_exc_cause c))),
      (''fault_addr'', JStr (hex08 (cd_fault_addr c))),
      (''backtrace'', JArr (map (\<lambda>p. JStr (hex08 p)) (cd_backtrace c))),
      (''bt_corrupted'', JBool (cd_bt_corrupted c))]"

definition coredump_json :: "metrics_statics \<Rightarrow> json option" where
  "coredump_json s = map_option coredump_value (Option.bind (LAST_COREDUMP s) (\<lambda>c. c))"

section \<open>Counters\<close>

text \<open>
  The accessors of ESP-IDF: \<open>tasks\<close> gives the stack high-water mark of a task by its name
  (\<open>xTaskGetHandle\<close> and \<open>uxTaskGetStackHighWaterMark\<close>), \<open>sta_rssi\<close> is \<open>None\<close> when
  \<open>esp_wifi_sta_get_rssi\<close> fails.
\<close>

record readings =
  free_heap :: u32
  free_internal_heap :: u32
  minimum_free_heap :: u32
  caps_free :: "malloc_cap set \<Rightarrow> u32"
  caps_largest :: "malloc_cap set \<Rightarrow> u32"
  caps_minimum :: "malloc_cap set \<Rightarrow> u32"
  timer_us :: nat
  tasks :: "str \<Rightarrow> u32 option"
  sta_rssi :: "int option"

definition stack_free_min :: "readings \<Rightarrow> str \<Rightarrow> u32 option" where
  "stack_free_min r name =
     (case tasks r name of
        Some hwm \<Rightarrow> Some hwm
      | None \<Rightarrow> if name = ''wa-main'' then tasks r ''main'' else None)"

definition heap_now :: "readings \<Rightarrow> u32 \<times> u32" where
  "heap_now r = (let cap = {Internal, Cap8bit} in (caps_free r cap, caps_largest r cap))"

abbreviation show_u32 :: "u32 \<Rightarrow> str" where
  "show_u32 w \<equiv> show_nat (unat w)"

text \<open>The \<open>Display\<close> of \<open>Note\<close>.\<close>

definition heap_note :: "bool \<Rightarrow> readings \<Rightarrow> str" where
  "heap_note HAS_PSRAM r =
     (if HAS_PSRAM then ''''
      else let cap = {Internal, Cap8bit}
           in '' heap='' @ show_u32 (caps_free r cap) @ ''/'' @ show_u32 (caps_largest r cap))"

text \<open>\<open>log_memory_profile\<close>: the lines it logs, the first of them under QEMU only.\<close>

definition show_opt :: "u32 option \<Rightarrow> str" where
  "show_opt v = (case v of Some v \<Rightarrow> show_u32 v | None \<Rightarrow> ''-'')"

definition log_memory_profile :: "bool \<Rightarrow> str \<Rightarrow> readings \<Rightarrow> str list" where
  "log_memory_profile qemu at r =
     (let stacks = ''wa-main='' @ show_opt (stack_free_min r ''wa-main'') @
            '' wa-blocking='' @ show_opt (stack_free_min r ''wa-blocking'') @
            '' ws-transport='' @ show_opt (stack_free_min r ''ws-transport'') @
            '' wa-nvs='' @ show_opt (stack_free_min r ''wa-nvs'');
          cap = {Internal, Cap8bit}
      in (if qemu then [''stack before heap at '' @ at @ '': '' @ stacks] else []) @
         [''memory at '' @ at @ '': internal heap '' @ show_u32 (caps_free r cap) @ '' free, largest block '' @
          show_u32 (caps_largest r cap) @ ''; stack never-used '' @ stacks])"

definition json_u32 :: "u32 \<Rightarrow> json" where
  "json_u32 w = JNum (uint w)"

definition json_u32_opt :: "u32 option \<Rightarrow> json" where
  "json_u32_opt v = (case v of None \<Rightarrow> JNull | Some w \<Rightarrow> json_u32 w)"

definition metrics_value :: "bool \<Rightarrow> metrics_statics \<Rightarrow> readings \<Rightarrow> json" where
  "metrics_value qemu s r =
     (let cap_8bit = {Internal, Cap8bit} in
      JObj
       [(''reset_reason'', JStr (last_reset_str s)),
        (''uptime_s'', JNum (int (timer_us r div 1000000))),
        (''heap_free'', json_u32 (free_heap r)),
        (''heap_internal_free'', json_u32 (free_internal_heap r)),
        (''heap_min_free'', json_u32 (minimum_free_heap r)),
        (''internal_largest_block'', json_u32 (caps_largest r {Internal})),
        (''internal_min_free'', json_u32 (caps_minimum r {Internal})),
        (''internal_8bit_largest_block'', json_u32 (caps_largest r cap_8bit)),
        (''internal_8bit_min_free'', json_u32 (caps_minimum r cap_8bit)),
        (''psram_free'', json_u32 (caps_free r {Spiram})),
        (''psram_largest_block'', json_u32 (caps_largest r {Spiram})),
        (''stack_wa_main_min'', json_u32_opt (stack_free_min r ''wa-main'')),
        (''stack_wa_blocking_min'', json_u32_opt (stack_free_min r ''wa-blocking'')),
        (''stack_wa_nvs_min'', json_u32_opt (stack_free_min r ''wa-nvs'')),
        (''stack_ws_transport_min'', json_u32_opt (stack_free_min r ''ws-transport'')),
        (''rssi_dbm'', (case (if qemu then None else sta_rssi r) of None \<Rightarrow> JNull | Some x \<Rightarrow> JNum x)),
        (''last_panic'', json_opt (last_panic s)),
        (''coredump'', (case coredump_json s of None \<Rightarrow> JNull | Some j \<Rightarrow> j))])"

definition system_metrics_json :: "(json \<Rightarrow> str) \<Rightarrow> bool \<Rightarrow> metrics_statics \<Rightarrow> readings \<Rightarrow> str" where
  "system_metrics_json print_json qemu s r = print_json (metrics_value qemu s r)"

section \<open>The texts lose nothing\<close>

text \<open>The value of lower-case hexadecimal digits.\<close>

definition hex_value :: "char \<Rightarrow> nat" where
  "hex_value c = (if of_char c \<le> (57 :: nat) then of_char c - 48 else of_char c - 87)"

definition hex_number :: "str \<Rightarrow> nat" where
  "hex_number = foldl (\<lambda>n c. 16 * n + hex_value c) 0"

lemma hex_digit_value:
  assumes "n < 16"
  shows "hex_value (hex_digit n) = n"
proof -
  have "\<forall>n \<in> set [0..<16]. hex_value (hex_digit n) = n" by code_simp
  then show ?thesis using assms by simp
qed

lemma nibble: "unat (drop_bit (4 * i) w AND 15) = unat w div 16 ^ i mod 16" for w :: u32
proof -
  have "drop_bit (4 * i) w AND 15 = take_bit 4 (drop_bit (4 * i) w)"
    by (simp add: take_bit_eq_mask mask_eq_exp_minus_1)
  then have "unat (drop_bit (4 * i) w AND 15) = take_bit 4 (drop_bit (4 * i) (take_bit 32 (unat w)))"
    by (simp add: unsigned_take_bit_eq unsigned_drop_bit_eq)
  moreover have "take_bit 32 (unat w) = unat w"
    using unsigned_less [of w] by (intro take_bit_nat_eq_self) simp
  ultimately show ?thesis by (simp add: take_bit_eq_mod drop_bit_eq_div power_mult)
qed

lemma hex_digits_value:
  "foldl (\<lambda>n c. 16 * n + hex_value c) acc (map (\<lambda>i. hex_digit (m div 16 ^ i mod 16)) (rev [0..<k])) =
     acc * 16 ^ k + m mod 16 ^ k"
proof (induction k arbitrary: acc)
  case (Suc k)
  have "m mod 16 ^ Suc k = 16 ^ k * (m div 16 ^ k mod 16) + m mod 16 ^ k"
    by (simp add: mod_mult2_eq mult.commute [of 16])
  then show ?case using Suc.IH [of "16 * acc + m div 16 ^ k mod 16"]
    by (simp add: hex_digit_value) (simp add: algebra_simps)
qed simp

lemma hex_number_hex08: "hex_number (drop 2 (hex08 w)) = unat w"
proof -
  have "unat w < 2 ^ 32" using unsigned_less [of w] by simp
  moreover have "[7, 6, 5, 4, 3, 2, 1, 0 :: nat] = rev [0..<8]" by code_simp
  ultimately show ?thesis
    by (simp add: hex08_def hex_number_def nibble hex_digits_value del: upt_conv_Cons rev_map list.map)
qed

lemma hex08_inject [simp]: "hex08 v = hex08 w \<longleftrightarrow> v = w"
  by (metis hex_number_hex08 word_unat_eq_iff)

lemma length_hex08 [simp]: "length (hex08 w) = 10"
  by (simp add: hex08_def)

lemma last_reset_str_inject:
  assumes "last_reset_str s = last_reset_str s'"
  shows "LAST_RESET s = LAST_RESET s'"
  using assms
  by (cases "LAST_RESET s"; cases "LAST_RESET s'")
    (simp_all add: last_reset_str_def split: reset_reason.splits)

lemma coredump_value_inject [simp]: "coredump_value c = coredump_value d \<longleftrightarrow> c = d"
proof -
  have "inj (\<lambda>p. JStr (hex08 p))" by (simp add: inj_def)
  then show ?thesis
    by (auto simp: coredump_value_def inj_map_eq_map word_uint_eq_iff intro: coredump_summary.equality)
qed

text \<open>A member of a JSON object.\<close>

definition json_field :: "str \<Rightarrow> json \<Rightarrow> json option" where
  "json_field key j = (case j of JObj entries \<Rightarrow> map_of entries key | _ \<Rightarrow> None)"

lemma metrics_value_crash:
  "json_field ''reset_reason'' (metrics_value qemu s r) = Some (JStr (last_reset_str s))"
  "json_field ''last_panic'' (metrics_value qemu s r) = Some (json_opt (last_panic s))"
  "json_field ''coredump'' (metrics_value qemu s r) = Some (case coredump_json s of None \<Rightarrow> JNull | Some j \<Rightarrow> j)"
  by (simp_all add: metrics_value_def json_field_def Let_def)

end
