(* ===== verification/Boot.thy ===== *)
theory Boot
  imports Firmware Metrics Admin Nvs_Open
begin

text \<open>
  The startup of the demo firmware, \<open>main\<close> and \<open>run_executor\<close> of \<open>src/main.rs\<close>, with
  \<open>start_admin_server\<close> of \<open>src/admin.rs\<close> and \<open>Esp32Runtime::create_default\<close> of
  \<open>src/runtime.rs\<close>. Whether a call into ESP-IDF succeeds is an argument; what the startup has done
  so far is recorded in order. A startup ends with the executor running, with an error returned
  from \<open>main\<close>, with a restart, or it waits for the network for ever.
\<close>

section \<open>Calls, actions and the board\<close>

datatype startup_call =
    Mount_Eventfs | Take_Peripherals | Take_Event_Loop | Take_Default_Nvs
  | Eth_New | Eth_Wrap | Eth_Blocking | Eth_Start | Eth_Netif_Up | Eth_Ip
  | Start_Sntp | Take_Mdns | Mdns_Hostname | Mdns_Instance | Mdns_Service
  | Spawn_Worker | New_Timer_Service | New_Http_Server | Register_Route route | Spawn_Executor

datatype boot_action =
    Install_Panic_Hook
  | Did startup_call
  | Opened_Store
  | Read_Token
  | Wifi_Up
  | Sleep_Secs nat
  | Restart_Chip
  | Set_Priority nat
  | Spawn_Feeder
  | Warm_Zlib_Pool
  | Block_On

datatype boot_stop =
    Call_Failed startup_call
  | Token_Unreadable startup_error
  | Wifi_Failed wifi_error
  | Waiting_For_Wifi
  | Retry_After_Restart open_error

record ('n, 'd, 'k, 'p) boot_env =
  be_admin :: bool
  be_qemu :: bool
  be_platform :: "('n, 'd, 'k) platform"
  be_reset :: reset_reason
  be_coredump :: "'p coredump_api"
  be_nvs_init :: "esp_err option"
  be_provisioning :: provisioning
  be_default_token :: str
  be_ok :: "startup_call \<Rightarrow> bool"
  WIFI_SSID :: str
  wifi_fits :: bool
  wifi_setup :: bool
  wifi_connects :: "nat \<Rightarrow> bool"
  wifi_netif_up :: "nat \<Rightarrow> bool"
  wifi_ip :: bool
  be_admission_timer :: bool
  be_watchdog_added :: bool

record ('n, 'p) boot_world =
  rtc :: crash_log
  dump_partition :: 'p
  statics :: metrics_statics
  nvs_driver :: 'n
  acts :: "boot_action list"

type_synonym ('n, 'p, 'a) boot_io = "(('n, 'p) boot_world, boot_stop, 'a) io"

definition act :: "boot_action \<Rightarrow> ('n, 'p, unit) boot_io" where
  "act a = modifyE (\<lambda>w. w\<lparr>acts := acts w @ [a]\<rparr>)"

text \<open>A call followed by \<open>?\<close>.\<close>

definition call :: "('n, 'd, 'k, 'p) boot_env \<Rightarrow> startup_call \<Rightarrow> ('n, 'p, unit) boot_io" where
  "call env c = (if be_ok env c then act (Did c) else throwE (Call_Failed c))"

fun calls :: "('n, 'd, 'k, 'p) boot_env \<Rightarrow> startup_call list \<Rightarrow> ('n, 'p, unit) boot_io" where
  "calls env [] = retE ()"
| "calls env (c # cs) = bindE (call env c) (\<lambda>_. calls env cs)"

section \<open>Parts of the startup\<close>

text \<open>Why the previous run ended: captured once, before anything can fail.\<close>

definition capture_crash :: "('n, 'd, 'k, 'p) boot_env \<Rightarrow> ('n, 'p, unit) boot_io" where
  "capture_crash env = modifyE (\<lambda>w.
     case take_last_panic (rtc w) of (panic, log) \<Rightarrow>
     case take_coredump_summary (be_coredump env) (dump_partition w) of (dump, part) \<Rightarrow>
       w\<lparr>rtc := log, dump_partition := part,
         statics := set_last_coredump dump (set_last_panic panic (set_last_reset (be_reset env) (statics w)))\<rparr>)"

text \<open>\<open>NvsStore::open_default\<close>; a store that does not open is retried after a restart.\<close>

definition open_default ::
  "('n, 'd, 'k, 'p) boot_env \<Rightarrow> ('n, 'p, ('n, 'd, 'k, 'h, 'l, 'v) nvs_store) boot_io" where
  "open_default env = (\<lambda>w.
     case open_store (be_platform env) (be_nvs_init env) (nvs_driver w) of
       (Inr store, g) \<Rightarrow> (Inr store, w\<lparr>nvs_driver := driver g, acts := acts w @ [Opened_Store]\<rparr>)
     | (Inl error, g) \<Rightarrow>
         (Inl (Retry_After_Restart error), w\<lparr>nvs_driver := driver g, acts := acts w @ [Sleep_Secs 5, Restart_Chip]\<rparr>))"

text \<open>The token, read only where there is a dashboard.\<close>

definition read_token :: "('n, 'd, 'k, 'p) boot_env \<Rightarrow> ('n, 'p, str option option) boot_io" where
  "read_token env =
     (if \<not> be_admin env then retE None
      else case admin_token (be_default_token env) (be_provisioning env) of
             Inl e \<Rightarrow> throwE (Token_Unreadable e)
           | Inr t \<Rightarrow> bindE (act Read_Token) (\<lambda>_. retE (Some t)))"

definition ethernet_calls :: "startup_call list" where
  "ethernet_calls = [Eth_New, Eth_Wrap, Eth_Blocking, Eth_Start, Eth_Netif_Up, Eth_Ip]"

text \<open>\<open>bring_up_ethernet\<close> and \<open>bring_up_wifi\<close>.\<close>

definition bring_up_ethernet :: "('n, 'd, 'k, 'p) boot_env \<Rightarrow> ('n, 'p, unit) boot_io" where
  "bring_up_ethernet env = calls env ethernet_calls"

definition bring_up_network :: "('n, 'd, 'k, 'p) boot_env \<Rightarrow> ('n, 'p, unit) boot_io" where
  "bring_up_network env =
     (if be_qemu env then bring_up_ethernet env
      else case bring_up_wifi (WIFI_SSID env) (wifi_fits env) (wifi_setup env) (wifi_connects env)
                    (wifi_netif_up env) (wifi_ip env) of
             None \<Rightarrow> throwE Waiting_For_Wifi
           | Some (Inl e) \<Rightarrow> throwE (Wifi_Failed e)
           | Some (Inr _) \<Rightarrow> act Wifi_Up)"

definition mdns_calls :: "startup_call list" where
  "mdns_calls = [Take_Mdns, Mdns_Hostname, Mdns_Instance, Mdns_Service]"

text \<open>\<open>Esp32Runtime::create_default\<close>: the worker thread first, then the timer service.\<close>

definition create_default :: "('n, 'd, 'k, 'p) boot_env \<Rightarrow> ('n, 'p, unit) boot_io" where
  "create_default env = calls env [Spawn_Worker, New_Timer_Service]"

section \<open>The dashboard server\<close>

definition DEFAULT_ADMIN_PORT :: nat where "DEFAULT_ADMIN_PORT = 8081"

record server_config =
  http_port :: nat
  stack_size :: nat
  max_sessions :: nat
  task_caps :: "malloc_cap set"

definition admin_configuration :: "bool \<Rightarrow> nat \<Rightarrow> server_config" where
  "admin_configuration HAS_PSRAM port =
     \<lparr>http_port = port, stack_size = 6144, max_sessions = (if HAS_PSRAM then 16 else 2),
      task_caps = (if HAS_PSRAM then {Spiram, Cap8bit} else {Internal, Cap8bit})\<rparr>"

text \<open>The handlers, in the order they are registered.\<close>

definition registered_routes :: "route list" where
  "registered_routes =
     [Get_Dashboard, Get_Qrcode_Js, Get_Root, Get_Device, Get_Messages, Post_Send, Post_Pair_Code, Get_Health,
      Post_Test_Panic, Get_Metrics, Post_Reset, Post_Reboot, Get_Sessions, Delete_Sessions]"

text \<open>
  What the server keeps: the token, and the admission for sends. There is a memory gate without
  PSRAM only, and its timer may be missing, which only the sends feel.
\<close>

record admin_server =
  sv_config :: server_config
  sv_token :: "str option"
  sv_admission :: "bool option"

definition start_admin_server ::
  "('n, 'd, 'k, 'p) boot_env \<Rightarrow> str option \<Rightarrow> nat \<Rightarrow> ('n, 'p, admin_server) boot_io" where
  "start_admin_server env tok port =
     (let psram = has_psram (be_platform env) in
      bindE (calls env (New_Http_Server # map Register_Route registered_routes)) (\<lambda>_.
      retE \<lparr>sv_config = admin_configuration psram port, sv_token = tok,
            sv_admission = (if psram then None else Some (be_admission_timer env))\<rparr>))"

definition start_dashboard ::
  "('n, 'd, 'k, 'p) boot_env \<Rightarrow> str option option \<Rightarrow> ('n, 'p, admin_server option) boot_io" where
  "start_dashboard env tok =
     (case tok of
        None \<Rightarrow> retE None
      | Some t \<Rightarrow> bindE (start_admin_server env t DEFAULT_ADMIN_PORT) (\<lambda>sv. retE (Some sv)))"

section \<open>The whole startup\<close>

text \<open>\<open>run_executor\<close>, on the main task or on a thread of its own.\<close>

definition run_executor :: "('n, 'd, 'k, 'p) boot_env \<Rightarrow> boot_action list" where
  "run_executor env =
     (if be_watchdog_added env then [Spawn_Feeder] else []) @
     (if has_psram (be_platform env) then [Warm_Zlib_Pool] else []) @ [Block_On]"

definition host_executor :: "('n, 'd, 'k, 'p) boot_env \<Rightarrow> ('n, 'p, unit) boot_io" where
  "host_executor env =
     bindE (if has_psram (be_platform env) then call env Spawn_Executor else act (Set_Priority 5)) (\<lambda>_.
     modifyE (\<lambda>w. w\<lparr>acts := acts w @ run_executor env\<rparr>))"

text \<open>Everything after the store is open, and everything after the crash records are read.\<close>

definition start_services ::
  "('n, 'd, 'k, 'p) boot_env \<Rightarrow> ('n, 'p, admin_server option) boot_io" where
  "start_services env =
     bindE (calls env [Take_Peripherals, Take_Event_Loop, Take_Default_Nvs]) (\<lambda>_.
     bindE (read_token env) (\<lambda>tok.
     bindE (bring_up_network env) (\<lambda>_.
     bindE (call env Start_Sntp) (\<lambda>_.
     bindE (act (Sleep_Secs 2)) (\<lambda>_.
     bindE (if be_admin env then calls env mdns_calls else retE ()) (\<lambda>_.
     bindE (create_default env) (\<lambda>_.
     bindE (start_dashboard env tok) (\<lambda>server.
     bindE (host_executor env) (\<lambda>_.
     retE server)))))))))"

definition start_firmware ::
  "('n, 'd, 'k, 'p) boot_env \<Rightarrow>
   ('n, 'p, ('n, 'd, 'k, 'h, 'l, 'v) nvs_store \<times> admin_server option) boot_io" where
  "start_firmware env =
     bindE (call env Mount_Eventfs) (\<lambda>_.
     bindE (open_default env) (\<lambda>store.
     bindE (start_services env) (\<lambda>server.
     retE (store, server))))"

definition main ::
  "('n, 'd, 'k, 'p) boot_env \<Rightarrow>
   ('n, 'p, ('n, 'd, 'k, 'h, 'l, 'v) nvs_store \<times> admin_server option) boot_io" where
  "main env =
     bindE (act Install_Panic_Hook) (\<lambda>_.
     bindE (capture_crash env) (\<lambda>_.
     start_firmware env))"

end
