(* ===== verification/Boot_Properties.thy ===== *)
theory Boot_Properties
  imports Boot Sim_Nvs "HOL-Library.Sublist"
begin

text \<open>
  What the startup guarantees: it performs the steps of a fixed plan in order and stops at the
  first that fails, the dashboard runs only with the token that provisioning asks for, and what
  the previous run left behind reaches \<open>/metrics\<close> once.
\<close>

section \<open>Following a plan\<close>

text \<open>What is done after a stop.\<close>

definition after_stop :: "boot_stop + 'a \<Rightarrow> boot_action list" where
  "after_stop r = (case r of Inl (Retry_After_Restart _) \<Rightarrow> [Sleep_Secs 5, Restart_Chip] | _ \<Rightarrow> [])"

text \<open>
  \<open>m\<close> follows a plan if it performs all of it and returns, or a proper prefix of it and stops.
\<close>

definition follows :: "('n, 'p, 'a) boot_io \<Rightarrow> boot_action list \<Rightarrow> bool" where
  "follows m plan \<longleftrightarrow> (\<forall>w r w'. m w = (r, w') \<longrightarrow>
     (\<exists>performed. acts w' = acts w @ performed @ after_stop r \<and>
        (case r of Inl _ \<Rightarrow> strict_prefix performed plan | Inr _ \<Rightarrow> performed = plan)))"

named_theorems plans \<open>the plans that parts of the startup follow\<close>

lemma followsE:
  assumes "follows m plan" and "m w = (r, w')"
  obtains performed where "acts w' = acts w @ performed @ after_stop r"
    and "case r of Inl _ \<Rightarrow> strict_prefix performed plan | Inr _ \<Rightarrow> performed = plan"
  using assms unfolding follows_def by blast

lemma after_stop_Inr [simp]: "after_stop (Inr x) = []"
  by (simp add: after_stop_def)

lemma after_stop_Inl_cong: "after_stop (Inl e :: boot_stop + 'a) = after_stop (Inl e :: boot_stop + 'b)"
  by (simp add: after_stop_def)

lemma follows_bindE:
  assumes "follows m p" and "\<And>x w w'. m w = (Inr x, w') \<Longrightarrow> follows (f x) q"
  shows "follows (bindE m f) (p @ q)"
  unfolding follows_def
proof (intro allI impI)
  fix w r w'
  assume "bindE m f w = (r, w')"
  then show "\<exists>performed. acts w' = acts w @ performed @ after_stop r \<and>
      (case r of Inl _ \<Rightarrow> strict_prefix performed (p @ q) | Inr _ \<Rightarrow> performed = p @ q)"
  proof (cases rule: bindE_cases)
    case (err e)
    from followsE [OF assms(1) err(1)] obtain performed
      where "acts w' = acts w @ performed @ after_stop (Inl e :: boot_stop + 'c)" "strict_prefix performed p"
      by auto
    then show ?thesis using err(2) after_stop_Inl_cong [of e] by (auto simp: strict_prefix_def)
  next
    case (ok x v)
    from followsE [OF assms(1) ok(1)] have v: "acts v = acts w @ p" by auto
    from followsE [OF assms(2) [OF ok(1)] ok(2)] obtain performed
      where "acts w' = acts v @ performed @ after_stop r"
        "case r of Inl _ \<Rightarrow> strict_prefix performed q | Inr _ \<Rightarrow> performed = q" by auto
    then show ?thesis using v
      by (intro exI [of _ "p @ performed"]) (auto simp: strict_prefix_def split: sum.splits)
  qed
qed

lemma follows_retE [plans]: "follows (retE x) []"
  by (simp add: follows_def)

lemma follows_act [plans]: "follows (act a) [a]"
  by (simp add: follows_def act_def)

lemma follows_throwE: "p \<noteq> [] \<Longrightarrow> (\<And>x. e \<noteq> Retry_After_Restart x) \<Longrightarrow> follows (throwE e) p"
  by (cases e) (auto simp: follows_def strict_prefix_def after_stop_def)

lemma follows_call [plans]: "follows (call env c) [Did c]"
  by (auto simp: call_def follows_act intro!: follows_throwE)

lemma follows_calls [plans]: "follows (calls env cs) (map Did cs)"
proof (induction cs)
  case (Cons c cs)
  then show ?case using follows_bindE [OF follows_call [of env c], of "\<lambda>_. calls env cs" "map Did cs"] by simp
qed (simp only: calls.simps list.map follows_retE)

lemma follows_modifyE: "follows (modifyE (\<lambda>w. w\<lparr>acts := acts w @ p\<rparr>)) p"
  by (simp add: follows_def)

section \<open>The plan of the startup\<close>

definition network_plan :: "('n, 'd, 'k, 'p) boot_env \<Rightarrow> boot_action list" where
  "network_plan env = (if be_qemu env then map Did ethernet_calls else [Wifi_Up])"

definition server_plan :: "boot_action list" where
  "server_plan = map Did (New_Http_Server # map Register_Route registered_routes)"

definition host_plan :: "('n, 'd, 'k, 'p) boot_env \<Rightarrow> boot_action list" where
  "host_plan env = [if has_psram (be_platform env) then Did Spawn_Executor else Set_Priority 5] @ run_executor env"

definition store_plan :: "boot_action list" where
  "store_plan = [Install_Panic_Hook, Did Mount_Eventfs, Opened_Store]"

definition services_plan :: "('n, 'd, 'k, 'p) boot_env \<Rightarrow> boot_action list" where
  "services_plan env =
     map Did [Take_Peripherals, Take_Event_Loop, Take_Default_Nvs] @
     (if be_admin env then [Read_Token] else []) @
     network_plan env @ [Did Start_Sntp, Sleep_Secs 2] @
     (if be_admin env then map Did mdns_calls else []) @
     map Did [Spawn_Worker, New_Timer_Service] @
     (if be_admin env then server_plan else []) @
     host_plan env"

definition boot_plan :: "('n, 'd, 'k, 'p) boot_env \<Rightarrow> boot_action list" where
  "boot_plan env = store_plan @ services_plan env"

lemma follows_open_default: "follows (open_default env) [Opened_Store]"
  by (auto simp: follows_def open_default_def after_stop_def strict_prefix_def split: prod.splits sum.splits)

lemma follows_read_token: "follows (read_token env) (if be_admin env then [Read_Token] else [])"
proof (cases "be_admin env")
  case True
  show ?thesis
  proof (cases "admin_token (be_default_token env) (be_provisioning env)")
    case (Inl e)
    then show ?thesis using True by (simp add: read_token_def follows_throwE)
  next
    case (Inr t)
    then show ?thesis
      using True follows_bindE [OF follows_act [of Read_Token] follows_retE, of "\<lambda>_. Some t"]
      by (simp add: read_token_def)
  qed
qed (simp add: read_token_def follows_retE)

lemma follows_bring_up_network: "follows (bring_up_network env) (network_plan env)"
  by (auto simp: bring_up_network_def network_plan_def bring_up_ethernet_def follows_calls follows_act
      intro!: follows_throwE split: option.split sum.split)

lemma follows_start_admin_server: "follows (start_admin_server env t port) server_plan"
  unfolding start_admin_server_def server_plan_def Let_def
  using follows_bindE [OF follows_calls follows_retE] by (simp only: append_Nil2)

lemma follows_host_executor: "follows (host_executor env) (host_plan env)"
  unfolding host_executor_def host_plan_def
  by (intro follows_bindE follows_modifyE) (simp add: follows_call follows_act)

lemma follows_mdns:
  "follows (if be_admin env then calls env mdns_calls else retE ()) (if be_admin env then map Did mdns_calls else [])"
  by (simp add: follows_calls follows_retE)

lemma follows_create_default: "follows (create_default env) (map Did [Spawn_Worker, New_Timer_Service])"
  unfolding create_default_def by (rule follows_calls)

lemmas stage_plans =
  follows_open_default follows_read_token follows_bring_up_network follows_start_admin_server follows_host_executor
  follows_mdns follows_create_default follows_retE follows_call follows_calls follows_act

text \<open>The token is known exactly where there is a dashboard.\<close>

lemma read_token_result:
  "read_token env w = (Inr tok, w') \<Longrightarrow>
     tok = (if be_admin env then Some (projr (admin_token (be_default_token env) (be_provisioning env))) else None) \<and>
     (be_admin env \<longrightarrow> (\<exists>t. admin_token (be_default_token env) (be_provisioning env) = Inr t))"
  by (auto simp: read_token_def act_def split: if_splits sum.splits)

section \<open>The whole startup\<close>

lemma capture_crash_plan: "follows (capture_crash env) []"
  by (auto simp: follows_def capture_crash_def split: prod.splits)

lemma start_services_follows: "follows (start_services env) (services_plan env)"
proof -
  have rearranged: "services_plan env = map Did [Take_Peripherals, Take_Event_Loop, Take_Default_Nvs] @
      (if be_admin env then [Read_Token] else []) @ network_plan env @ [Did Start_Sntp] @ [Sleep_Secs 2] @
      (if be_admin env then map Did mdns_calls else []) @ map Did [Spawn_Worker, New_Timer_Service] @
      (if be_admin env then server_plan else []) @ host_plan env @ []"
    by (simp add: services_plan_def)
  have server: "follows (start_dashboard env tok) (if be_admin env then server_plan else [])"
    if "read_token env w = (Inr tok, w')" for tok w w'
    using read_token_result [OF that] follows_bindE [OF follows_start_admin_server follows_retE]
    by (auto simp: start_dashboard_def follows_retE)
  show ?thesis
    unfolding start_services_def rearranged
    by (intro follows_bindE stage_plans) (rule server)
qed

text \<open>The stages before the services, with any plan the services follow.\<close>

lemma main_follows_services:
  assumes "follows (start_services env) p"
  shows "follows (main env) (store_plan @ p)"
proof -
  have "follows (main env) ([Install_Panic_Hook] @ [] @ [Did Mount_Eventfs] @ [Opened_Store] @ p @ [])"
    unfolding main_def start_firmware_def
    by (intro follows_bindE capture_crash_plan assms follows_act follows_call follows_open_default follows_retE)
  then show ?thesis by (simp add: store_plan_def)
qed

lemma main_follows: "follows (main env) (boot_plan env)"
  unfolding boot_plan_def by (intro main_follows_services start_services_follows)

section \<open>What the stages leave alone\<close>

text \<open>Only \<open>capture_crash\<close> touches the crash records, and only \<open>open_default\<close> the flash.\<close>

definition crash_state :: "('n, 'p) boot_world \<Rightarrow> crash_log \<times> 'p \<times> metrics_statics" where
  "crash_state w = (rtc w, dump_partition w, statics w)"

lemma act_keeps [keeps]:
  "preserves (\<lambda>w. crash_state w = c) (act a)" "preserves (\<lambda>w. nvs_driver w = n) (act a)"
  by (simp_all add: act_def crash_state_def preserves_modifyE)

lemma call_keeps [keeps]:
  "preserves (\<lambda>w. crash_state w = c) (call env x)" "preserves (\<lambda>w. nvs_driver w = n) (call env x)"
  unfolding call_def by (intro keeps)+

lemma calls_keep [keeps]:
  "preserves (\<lambda>w. crash_state w = c) (calls env cs)" "preserves (\<lambda>w. nvs_driver w = n) (calls env cs)"
proof (induction cs)
  case Nil
  show "preserves (\<lambda>w. crash_state w = c) (calls env [])" "preserves (\<lambda>w. nvs_driver w = n) (calls env [])"
    unfolding calls.simps by (intro keeps)+
next
  case (Cons x cs)
  show "preserves (\<lambda>w. crash_state w = c) (calls env (x # cs))" "preserves (\<lambda>w. nvs_driver w = n) (calls env (x # cs))"
    unfolding calls.simps by (intro keeps Cons)+
qed

lemma read_token_keeps [keeps]:
  "preserves (\<lambda>w. crash_state w = c) (read_token env)" "preserves (\<lambda>w. nvs_driver w = n) (read_token env)"
  unfolding read_token_def
  by (cases "admin_token (be_default_token env) (be_provisioning env)"; simp only: sum.case; intro keeps)+

lemma bring_up_network_keeps [keeps]:
  "preserves (\<lambda>w. crash_state w = c) (bring_up_network env)" "preserves (\<lambda>w. nvs_driver w = n) (bring_up_network env)"
  unfolding bring_up_network_def bring_up_ethernet_def
  by (intro keeps; simp add: keeps split: sum.split)+

lemma host_executor_keeps [keeps]:
  "preserves (\<lambda>w. crash_state w = c) (host_executor env)" "preserves (\<lambda>w. nvs_driver w = n) (host_executor env)"
  unfolding host_executor_def
  by (intro keeps preserves_modifyE; simp add: crash_state_def)+

lemma start_admin_server_keeps [keeps]:
  "preserves (\<lambda>w. crash_state w = c) (start_admin_server env t port)"
  "preserves (\<lambda>w. nvs_driver w = n) (start_admin_server env t port)"
  unfolding start_admin_server_def Let_def by (intro keeps)+

lemma open_default_keeps [keeps]: "preserves (\<lambda>w. crash_state w = c) (open_default env)"
  by (auto simp: triple_def open_default_def crash_state_def split: prod.splits sum.splits)

lemma start_services_keeps [keeps]: "preserves (\<lambda>w. crash_state w = c) (start_services env)"
  unfolding start_services_def create_default_def start_dashboard_def by (intro keeps)

lemma start_firmware_keeps: "preserves (\<lambda>w. crash_state w = c) (start_firmware env)"
  unfolding start_firmware_def by (intro keeps)

text \<open>The world that the rest of the startup begins with.\<close>

definition captured :: "('n, 'd, 'k, 'p) boot_env \<Rightarrow> ('n, 'p) boot_world \<Rightarrow> ('n, 'p) boot_world" where
  "captured env w = w\<lparr>acts := acts w @ [Install_Panic_Hook], rtc := snd (take_last_panic (rtc w)),
     dump_partition := snd (take_coredump_summary (be_coredump env) (dump_partition w)),
     statics := set_last_coredump (fst (take_coredump_summary (be_coredump env) (dump_partition w)))
       (set_last_panic (fst (take_last_panic (rtc w))) (set_last_reset (be_reset env) (statics w)))\<rparr>"

lemma main_captured: "main env w = start_firmware env (captured env w)"
  by (simp add: main_def act_def capture_crash_def captured_def split: prod.splits)

text \<open>The crash records after a startup, however it ended.\<close>

lemma main_captures:
  assumes "main env w = (r, w')"
  shows "rtc w' = snd (take_last_panic (rtc w))"
    and "dump_partition w' = snd (take_coredump_summary (be_coredump env) (dump_partition w))"
    and "statics w' = set_last_coredump (fst (take_coredump_summary (be_coredump env) (dump_partition w)))
           (set_last_panic (fst (take_last_panic (rtc w))) (set_last_reset (be_reset env) (statics w)))"
proof -
  from tripleD [OF start_firmware_keeps [of "crash_state (captured env w)" env] refl assms [unfolded main_captured]]
  have "crash_state w' = crash_state (captured env w)" .
  then show "rtc w' = snd (take_last_panic (rtc w))"
    and "dump_partition w' = snd (take_coredump_summary (be_coredump env) (dump_partition w))"
    and "statics w' = set_last_coredump (fst (take_coredump_summary (be_coredump env) (dump_partition w)))
           (set_last_panic (fst (take_last_panic (rtc w))) (set_last_reset (be_reset env) (statics w)))"
    by (simp_all add: crash_state_def captured_def)
qed

section \<open>Results of the startup\<close>

text \<open>The server that a startup with token \<open>t\<close> ends with.\<close>

definition server_for :: "('n, 'd, 'k, 'p) boot_env \<Rightarrow> str option \<Rightarrow> admin_server" where
  "server_for env t =
     \<lparr>sv_config = admin_configuration (has_psram (be_platform env)) DEFAULT_ADMIN_PORT, sv_token = t,
      sv_admission = (if has_psram (be_platform env) then None else Some (be_admission_timer env))\<rparr>"

lemma start_admin_server_result:
  "start_admin_server env t DEFAULT_ADMIN_PORT w = (Inr sv, w') \<Longrightarrow> sv = server_for env t"
  unfolding start_admin_server_def Let_def server_for_def by (erule bindE_InrE) simp

lemma start_services_result:
  assumes "start_services env w = (Inr server, w')"
  shows "if be_admin env
    then \<exists>t. admin_token (be_default_token env) (be_provisioning env) = Inr t \<and> server = Some (server_for env t)
    else server = None"
proof -
  from assms [unfolded start_services_def] obtain w3 w4 w5 w6 tok
    where tok: "read_token env w3 = (Inr tok, w4)" and server: "start_dashboard env tok w5 = (Inr server, w6)"
    by (elim bindE_InrE) (fastforce simp del: calls.simps)
  then show ?thesis
    using read_token_result [OF tok]
    by (auto simp: start_dashboard_def elim!: bindE_InrE dest!: start_admin_server_result)
qed

lemma open_default_result:
  "open_default env w = (Inr store, w') \<Longrightarrow>
     fst (open_store (be_platform env) (be_nvs_init env) (nvs_driver w)) = Inr store"
  "open_default env w = (Inl e, w') \<Longrightarrow> acts w' = acts w @ [Sleep_Secs 5, Restart_Chip]"
  by (auto simp: open_default_def split: prod.splits sum.splits)

lemma main_result:
  assumes "main env w = (Inr (store, server), w')"
  shows "fst (open_store (be_platform env) (be_nvs_init env) (nvs_driver w)) = Inr store"
    and "if be_admin env
      then \<exists>t. admin_token (be_default_token env) (be_provisioning env) = Inr t \<and> server = Some (server_for env t)
      else server = None"
proof -
  have driver: "nvs_driver (captured env w) = nvs_driver w" by (simp add: captured_def)
  from assms [unfolded main_captured start_firmware_def] obtain u w1 w2 w3
    where w1: "call env Mount_Eventfs (captured env w) = (Inr u, w1)"
      and opened: "open_default env w1 = (Inr store, w2)" and started: "start_services env w2 = (Inr server, w3)"
    by (elim bindE_InrE) fastforce
  from tripleD [OF call_keeps(2) [of "nvs_driver w" env Mount_Eventfs] driver w1]
  have "nvs_driver w1 = nvs_driver w" .
  with open_default_result(1) [OF opened]
  show "fst (open_store (be_platform env) (be_nvs_init env) (nvs_driver w)) = Inr store" by simp
  show "if be_admin env
      then \<exists>t. admin_token (be_default_token env) (be_provisioning env) = Inr t \<and> server = Some (server_for env t)
      else server = None"
    by (rule start_services_result [OF started])
qed

section \<open>The order of the startup\<close>

text \<open>A token that cannot be read stops the startup before the network and the dashboard.\<close>

definition token_plan :: "boot_action list" where
  "token_plan = store_plan @ map Did [Take_Peripherals, Take_Event_Loop, Take_Default_Nvs]"

lemma unreadable_token:
  assumes "be_admin env" and "admin_token (be_default_token env) (be_provisioning env) = Inl e"
  shows "follows (main env) (token_plan @ [Read_Token])"
proof -
  have read: "follows (read_token env) [Read_Token]" using follows_read_token [of env] assms(1) by simp
  have stops: "\<And>tok w w'. read_token env w = (Inr tok, w') \<Longrightarrow> False"
    using read_token_result assms by fastforce
  have "follows (start_services env)
      (map Did [Take_Peripherals, Take_Event_Loop, Take_Default_Nvs] @ [Read_Token] @ [])"
    unfolding start_services_def by (rule follows_bindE [OF follows_calls follows_bindE [OF read]]) (blast dest: stops)
  from main_follows_services [OF this] show ?thesis by (simp add: token_plan_def)
qed

text \<open>Only a store that does not open restarts the chip.\<close>

abbreviation no_restart :: "('n, 'p, 'a) boot_io \<Rightarrow> bool" where
  "no_restart m \<equiv> triple (\<lambda>_. True) m (\<lambda>r _. \<forall>e. r \<noteq> Inl (Retry_After_Restart e))"

named_theorems restart_free \<open>stages that never restart the chip\<close>

lemma no_restart_bindE [restart_free]: "no_restart m \<Longrightarrow> (\<And>x. no_restart (f x)) \<Longrightarrow> no_restart (bindE m f)"
  by (rule triple_bindE [where R = "\<lambda>r _. \<forall>e. r \<noteq> Inl (Retry_After_Restart e)"]) (auto simp: triple_def)

lemma no_restart_simple [restart_free]:
  "no_restart (retE x)" "no_restart (act a)" "no_restart (modifyE g)" "no_restart (call env c)"
  by (auto simp: triple_def act_def call_def split: if_splits)

lemma no_restart_cases [restart_free]:
  "no_restart m \<Longrightarrow> no_restart n \<Longrightarrow> no_restart (if c then m else n)"
  "no_restart l \<Longrightarrow> (\<And>x. no_restart (f x)) \<Longrightarrow> no_restart (case v of None \<Rightarrow> l | Some x \<Rightarrow> f x)"
  by (auto split: option.splits)

lemma no_restart_calls [restart_free]: "no_restart (calls env cs)"
  by (induction cs) (simp_all only: calls.simps, (intro restart_free)+)

lemma no_restart_stages [restart_free]:
  "no_restart (read_token env)" "no_restart (bring_up_network env)"
  unfolding read_token_def bring_up_network_def bring_up_ethernet_def
  by (auto simp: triple_def act_def split: option.splits sum.splits if_splits
      dest: tripleD [OF no_restart_calls TrueI])

lemma no_restart_dashboard [restart_free]: "no_restart (start_dashboard env tok)"
  unfolding start_dashboard_def start_admin_server_def Let_def by (intro restart_free)

lemma no_restart_executor [restart_free]: "no_restart (create_default env)" "no_restart (host_executor env)"
  unfolding create_default_def host_executor_def by (intro restart_free)+

lemma no_restart_services [restart_free]: "no_restart (start_services env)"
  unfolding start_services_def by (intro restart_free)

lemma restarts_to_retry:
  assumes "main env w = (Inl (Retry_After_Restart e), w')"
  shows "acts w' = acts w @ [Install_Panic_Hook, Did Mount_Eventfs, Sleep_Secs 5, Restart_Chip]"
proof -
  have first: "acts (captured env w) = acts w @ [Install_Panic_Hook]" by (simp add: captured_def)
  have called: "call env Mount_Eventfs v = (if be_ok env Mount_Eventfs
      then (Inr (), v\<lparr>acts := acts v @ [Did Mount_Eventfs]\<rparr>) else (Inl (Call_Failed Mount_Eventfs), v))"
    for v by (simp add: call_def act_def)
  from assms [unfolded main_captured start_firmware_def] show ?thesis
    by (auto simp: called first split: if_splits elim!: bindE_cases
        dest!: open_default_result(2) dest: tripleD [OF no_restart_services TrueI])
qed

section \<open>Properties\<close>

text \<open>The actions that open the device to the network.\<close>

definition exposed :: "boot_action set" where
  "exposed = {Wifi_Up} \<union> Did ` (set ethernet_calls \<union> set mdns_calls \<union> {New_Http_Server} \<union> range Register_Route)"

lemma token_plan_hidden: "prefix performed (token_plan @ [Read_Token]) \<Longrightarrow> set performed \<inter> exposed = {}"
  by (drule set_mono_prefix) (auto simp: token_plan_def store_plan_def exposed_def ethernet_calls_def mdns_calls_def)

text \<open>C34: the firmware starts in a fixed order and stops at the first step that fails. What it has done
is always a prefix of that plan, all of it exactly when the executor is reached. A store that does not
open is followed by nothing but a five-second wait and a restart, before any network is up. A device
whose token cannot be read opens neither the network nor the dashboard. A startup that reaches
the executor runs on the store that \<open>NvsStore::open\<close> returned, and its dashboard, if the build has
one, demands exactly the provisioned token; it demands none only if provisioning holds none and
the build names none.\<close>

theorem boot_sequence:
  assumes "main env w = (r, w')" and "acts w = []"
  shows "\<exists>performed. acts w' = performed @ after_stop r \<and> prefix performed (boot_plan env) \<and>
       (performed = boot_plan env \<longleftrightarrow> (\<exists>x. r = Inr x)) \<and>
       ((\<exists>e. r = Inl (Retry_After_Restart e)) \<longrightarrow> performed = [Install_Panic_Hook, Did Mount_Eventfs]) \<and>
       (be_admin env \<longrightarrow> (\<exists>e. admin_token (be_default_token env) (be_provisioning env) = Inl e) \<longrightarrow>
          set performed \<inter> exposed = {}) \<and>
       (\<forall>store server. r = Inr (store, server) \<longrightarrow>
          fst (open_store (be_platform env) (be_nvs_init env) (nvs_driver w)) = Inr store \<and>
          (if be_admin env
           then \<exists>sv. server = Some sv \<and>
             admin_token (be_default_token env) (be_provisioning env) = Inr (sv_token sv) \<and>
             (sv_token sv = None \<longleftrightarrow> no_token (be_provisioning env) \<and> be_default_token env = '''')
           else server = None))"
proof -
  from followsE [OF main_follows assms(1)] obtain performed where p: "acts w' = performed @ after_stop r"
    "case r of Inl _ \<Rightarrow> strict_prefix performed (boot_plan env) | Inr _ \<Rightarrow> performed = boot_plan env"
    using assms(2) by auto
  have "prefix performed (boot_plan env)" "performed = boot_plan env \<longleftrightarrow> (\<exists>x. r = Inr x)"
    using p(2) by (cases r; auto simp: strict_prefix_def)+
  moreover have "performed = [Install_Panic_Hook, Did Mount_Eventfs]" if "r = Inl (Retry_After_Restart e)" for e
    using restarts_to_retry [OF assms(1) [unfolded that]] p(1) assms(2) by (simp add: after_stop_def that)
  moreover have "set performed \<inter> exposed = {}"
    if "be_admin env" "admin_token (be_default_token env) (be_provisioning env) = Inl e" for e
  proof -
    note stopped = unreadable_token [OF that]
    obtain taken where "acts w' = acts w @ taken @ after_stop r"
      and "case r of Inl _ \<Rightarrow> strict_prefix taken (token_plan @ [Read_Token]) | Inr _ \<Rightarrow> taken = token_plan @ [Read_Token]"
      by (rule followsE [OF stopped assms(1)])
    then have "acts w' = taken @ after_stop r" "prefix taken (token_plan @ [Read_Token])"
      using assms(2) by (auto simp: strict_prefix_def split: sum.splits)
    then show ?thesis using p(1) token_plan_hidden [of taken] by simp
  qed
  moreover have "fst (open_store (be_platform env) (be_nvs_init env) (nvs_driver w)) = Inr store \<and>
      (if be_admin env
       then \<exists>sv. server = Some sv \<and> admin_token (be_default_token env) (be_provisioning env) = Inr (sv_token sv) \<and>
         (sv_token sv = None \<longleftrightarrow> no_token (be_provisioning env) \<and> be_default_token env = '''')
       else server = None)" if "r = Inr (store, server)" for store server
    using main_result [OF assms(1) [unfolded that]] admin_token_fails_closed [of "be_default_token env" "be_provisioning env"]
    by (auto simp: server_for_def)
  ultimately show ?thesis using p(1) by blast
qed

text \<open>A reset: RAM is lost, RTC RAM, the core dump partition and NVS stay.\<close>

definition power_up :: "('n, 'p) boot_world \<Rightarrow> ('n, 'p) boot_world" where
  "power_up w = w\<lparr>statics := statics_new, acts := []\<rparr>"

lemma metrics_after_boot:
  assumes "main env (power_up w) = (r, w')"
  shows "LAST_RESET (statics w') = Some (be_reset env)"
    and "last_panic (statics w') = fst (take_last_panic (rtc w))"
    and "coredump_json (statics w') =
      map_option coredump_value (fst (take_coredump_summary (be_coredump env) (dump_partition w)))"
    and "rtc w' = snd (take_last_panic (rtc w))"
    and "dump_partition w' = snd (take_coredump_summary (be_coredump env) (dump_partition w))"
  using main_captures [OF assms]
  by (simp_all add: power_up_def statics_new_def last_panic_def coredump_json_def set_last_reset_def set_last_panic_def
      set_last_coredump_def once_set_def)

text \<open>C38: the next boot tells why the last run ended, once and never wrongly, whichever way the
boots themselves end. After a boot, let a panic get through the first \<open>k\<close> of its stores and a crash
leave any image in the core dump partition. Then \<open>/metrics\<close> of the next boot shows the reason of the
reset, the panic's text with its heap figures if all stores were made and null otherwise, and the
summary of that image; and if erasing the partition leaves no image in it, the boot after that
shows neither the panic nor the core dump again.\<close>

theorem crash_reaches_metrics:
  assumes "rtc_layout (rtc w0)" and "main env w0 = (r1, w1)"
    and "stores = record_panic_stores info free largest"
    and "crashed = w1\<lparr>rtc := do_stores (take k stores) (rtc w1), dump_partition := dump\<rparr>"
    and "main env (power_up crashed) = (r2, w2)" and "main env (power_up w2) = (r3, w3)"
    and "\<And>p. \<not> image_check (be_coredump env) (image_erase (be_coredump env) p)"
  shows "json_field ''reset_reason'' (metrics_value qemu (statics w2) rd) = Some (JStr (last_reset_str (statics w2))) \<and>
     LAST_RESET (statics w2) = Some (be_reset env) \<and>
     json_field ''last_panic'' (metrics_value qemu (statics w2) rd) =
       Some (if length stores \<le> k then JStr (panic_report info free largest) else JNull) \<and>
     json_field ''coredump'' (metrics_value qemu (statics w2) rd) =
       Some (case fst (take_coredump_summary (be_coredump env) dump) of None \<Rightarrow> JNull | Some c \<Rightarrow> coredump_value c) \<and>
     json_field ''last_panic'' (metrics_value qemu (statics w3) rd) = Some JNull \<and>
     json_field ''coredump'' (metrics_value qemu (statics w3) rd) = Some JNull"
proof -
  note once = panic_reported_once [OF assms(1) main_captures(1) [OF assms(2)] assms(3)]
  note m2 = metrics_after_boot [OF assms(5)] and m3 = metrics_after_boot [OF assms(6)]
  have at: "rtc crashed = do_stores (take k stores) (rtc w1)" "dump_partition crashed = dump"
    by (simp_all add: assms(4))
  have "last_panic (statics w2) = (if length stores \<le> k then Some (panic_report info free largest) else None)"
    using once [of k] m2(2) at(1) by (auto simp: record_panic_def assms(3))
  moreover have "last_panic (statics w3) = None" using once [of k] m2(4) m3(2) at(1) by simp
  moreover have "coredump_json (statics w3) = None"
    using coredump_taken_once [OF assms(7)] m2(5) m3(3) at(2) by simp
  ultimately show ?thesis
    using m2(1,3) at(2) by (auto simp: metrics_value_crash json_opt_def split: option.splits)
qed

section \<open>Witnesses\<close>

text \<open>A board whose NVS partition needs repair and whose panic leaves its text behind.\<close>

definition demo_dump :: "bool coredump_api" where
  "demo_dump = \<lparr>image_check = \<lambda>p. p, get_summary = \<lambda>_. None, image_erase = \<lambda>_. False\<rparr>"

definition demo_boot :: "(sim, bytes, byte \<times> bytes, bool) boot_env" where
  "demo_boot = \<lparr>be_admin = True, be_qemu = False, be_platform = sim_platform False, be_reset = Panic,
     be_coredump = demo_dump, be_nvs_init = Some 0x110D,
     be_provisioning = \<lparr>open_wa = Inl NVS_NOT_FOUND, get_wa = \<lambda>_. Inr None\<rparr>, be_default_token = '''',
     be_ok = \<lambda>_. True, WIFI_SSID = ''lan'', wifi_fits = True, wifi_setup = True, wifi_connects = \<lambda>_. True,
     wifi_netif_up = \<lambda>_. True, wifi_ip = True, be_admission_timer = True, be_watchdog_added = True\<rparr>"

definition demo_power_on :: "(sim, bool) boot_world" where
  "demo_power_on = \<lparr>rtc = demo_log, dump_partition = True, statics = statics_new,
     nvs_driver = \<lparr>sim_data = [], sim_faults = [], sim_heap = 0\<rparr>, acts = []\<rparr>"

type_synonym demo_result = "boot_stop + (sim, bytes, byte \<times> bytes, nat, nat, nat) nvs_store \<times> admin_server option"

definition demo_main :: "(sim, bool) boot_world \<Rightarrow> demo_result \<times> (sim, bool) boot_world" where
  "demo_main = main demo_boot"

text \<open>A boot that finds the partition damaged touches nothing and restarts.\<close>

theorem boot_sequence_witness:
  "\<exists>r w'. demo_main demo_power_on = (r, w') \<and>
     acts w' = [Install_Panic_Hook, Did Mount_Eventfs, Sleep_Secs 5, Restart_Chip]"
proof -
  obtain r w' where run: "demo_main demo_power_on = (r, w')" by (rule prod.exhaust)
  then have "\<exists>e. r = Inl (Retry_After_Restart e)"
    by (auto simp: demo_main_def main_captured start_firmware_def call_def act_def open_default_def open_store_def
        demo_boot_def demo_power_on_def Let_def bindE_def)
  moreover have "acts demo_power_on = []" by (simp add: demo_power_on_def)
  ultimately show ?thesis
    using boot_sequence [OF run [unfolded demo_main_def]] run by (fastforce simp: after_stop_def)
qed

theorem crash_reaches_metrics_witness:
  "\<exists>w1 w2. snd (demo_main demo_power_on) = w1 \<and>
     snd (demo_main (power_up (w1\<lparr>rtc := do_stores (record_panic_stores [''boom''] 4096 512) (rtc w1),
       dump_partition := True\<rparr>))) = w2 \<and>
     (\<forall>rd. json_field ''last_panic'' (metrics_value False (statics w2) rd) =
        Some (JStr (panic_report [''boom''] 4096 512)))"
proof -
  let ?stores = "record_panic_stores [''boom''] 4096 512"
  obtain r1 w1 where run1: "demo_main demo_power_on = (r1, w1)" by (rule prod.exhaust)
  define crashed where "crashed = w1\<lparr>rtc := do_stores (take (length ?stores) ?stores) (rtc w1), dump_partition := True\<rparr>"
  obtain r2 w2 where run2: "demo_main (power_up crashed) = (r2, w2)" by (rule prod.exhaust)
  obtain r3 w3 where run3: "demo_main (power_up w2) = (r3, w3)" by (rule prod.exhaust)
  have layout: "rtc_layout (rtc demo_power_on)" by (simp add: demo_power_on_def rtc_layout_def demo_log_def)
  have erased: "\<not> image_check (be_coredump demo_boot) (image_erase (be_coredump demo_boot) p)" for p
    by (simp add: demo_boot_def demo_dump_def)
  have "json_field ''last_panic'' (metrics_value False (statics w2) rd) = Some (JStr (panic_report [''boom''] 4096 512))" for rd
    using crash_reaches_metrics [OF layout run1 [unfolded demo_main_def] refl crashed_def
        run2 [unfolded demo_main_def] run3 [unfolded demo_main_def] erased, of False rd] by simp
  then show ?thesis using run1 run2 by (auto simp: crashed_def)
qed

end
