(* ===== verification/Flash_Worker.thy ===== *)
theory Flash_Worker
  imports Nvs_Store Runtime
begin

text \<open>
  \<open>FlashWorker\<close> of \<open>src/storage.rs\<close>: the thread that owns the flash, its one-slot job queue, and the
  callers of \<open>run\<close> that wait for their results. Any number of callers are interleaved with the
  worker, which may also die of a panic in a job. The history of calls, executions and answers is
  recorded so that it can be compared with running the jobs one after the other.
\<close>

section \<open>State\<close>

text \<open>
  Calls are numbers, and \<open>jobs n\<close> is the operation of call \<open>n\<close>. A call is in \<open>jobs.send\<close>, waits in \<open>result_rx.recv\<close>, or has returned: with the result of its
  job, or with one of the two errors of \<open>run\<close>.
\<close>

datatype run_error = Worker_Stopped | Result_Dropped

datatype 'r call_phase = Call_Sending | Call_Waiting | Call_Returned "run_error + 'r"

datatype worker_phase = W_Idle | W_Taken nat | W_Replying nat

datatype run_event = Invoked nat | Executed nat | Answered nat

record ('f, 'r) flash_worker =
  fw_alive :: bool
  fw_flash :: 'f
  fw_slot :: "nat option"
  fw_phase :: worker_phase
  fw_reply :: "'r option"
  fw_calls :: "nat \<rightharpoonup> 'r call_phase"
  fw_hist :: "run_event list"

text \<open>The worker's thread: internal RAM on every board, since the cache is off while flash is written.\<close>

definition nvs_thread_config :: "bool \<Rightarrow> thread_config" where
  "nvs_thread_config HAS_PSRAM =
     \<lparr>tc_name = Some ''wa-nvs'', tc_stack_size = by_ram HAS_PSRAM (32 * 1024) (4 * 1024), tc_priority = 5,
      tc_inherit = False, tc_pin_to_core = None, tc_stack_alloc_caps = {Internal, Cap8bit}\<rparr>"

definition flash_worker_start :: "'f \<Rightarrow> ('f, 'r) flash_worker" where
  "flash_worker_start f = \<lparr>fw_alive = True, fw_flash = f, fw_slot = None, fw_phase = W_Idle, fw_reply = None,
     fw_calls = Map.empty, fw_hist = []\<rparr>"

section \<open>Steps\<close>

text \<open>\<open>run\<close>: a new call, and \<open>jobs.send\<close>, which fails only when the worker is gone.\<close>

definition run_invoke :: "nat \<Rightarrow> ('f, 'r) flash_worker \<Rightarrow> ('f, 'r) flash_worker" where
  "run_invoke n w = w\<lparr>fw_calls := (fw_calls w)(n \<mapsto> Call_Sending), fw_hist := fw_hist w @ [Invoked n]\<rparr>"

definition run_send :: "nat \<Rightarrow> ('f, 'r) flash_worker \<Rightarrow> ('f, 'r) flash_worker" where
  "run_send n w =
     (if \<not> fw_alive w then w\<lparr>fw_calls := (fw_calls w)(n \<mapsto> Call_Returned (Inl Worker_Stopped))\<rparr>
      else if fw_slot w = None then w\<lparr>fw_slot := Some n, fw_calls := (fw_calls w)(n \<mapsto> Call_Waiting)\<rparr>
      else w)"

text \<open>The worker: \<open>receiver.recv\<close>, the job, and the rendezvous that hands over its result.\<close>

definition fw_take :: "nat \<Rightarrow> ('f, 'r) flash_worker \<Rightarrow> ('f, 'r) flash_worker" where
  "fw_take n w = w\<lparr>fw_slot := None, fw_phase := W_Taken n\<rparr>"

definition fw_execute ::
  "(nat \<Rightarrow> 'f \<Rightarrow> 'r \<times> 'f) \<Rightarrow> nat \<Rightarrow> ('f, 'r) flash_worker \<Rightarrow> ('f, 'r) flash_worker" where
  "fw_execute jobs n w =
     (case jobs n (fw_flash w) of
        (r, f) \<Rightarrow> w\<lparr>fw_flash := f, fw_phase := W_Replying n, fw_reply := Some r, fw_hist := fw_hist w @ [Executed n]\<rparr>)"

definition fw_answer :: "nat \<Rightarrow> 'r \<Rightarrow> ('f, 'r) flash_worker \<Rightarrow> ('f, 'r) flash_worker" where
  "fw_answer n r w = w\<lparr>fw_phase := W_Idle, fw_reply := None, fw_calls := (fw_calls w)(n \<mapsto> Call_Returned (Inr r)),
     fw_hist := fw_hist w @ [Answered n]\<rparr>"

text \<open>A job that panics ends the thread and leaves flash as it is then; the senders of results are dropped.\<close>

definition fw_panic :: "'f \<Rightarrow> ('f, 'r) flash_worker \<Rightarrow> ('f, 'r) flash_worker" where
  "fw_panic f w = w\<lparr>fw_alive := False, fw_flash := f, fw_slot := None, fw_phase := W_Idle\<rparr>"

definition run_dropped :: "nat \<Rightarrow> ('f, 'r) flash_worker \<Rightarrow> ('f, 'r) flash_worker" where
  "run_dropped n w = w\<lparr>fw_calls := (fw_calls w)(n \<mapsto> Call_Returned (Inl Result_Dropped))\<rparr>"

text \<open>Steps that bring the calls forward, and all steps.\<close>

inductive fw_progress ::
  "(nat \<Rightarrow> 'f \<Rightarrow> 'r \<times> 'f) \<Rightarrow> ('f, 'r) flash_worker \<Rightarrow> ('f, 'r) flash_worker \<Rightarrow> bool" for jobs where
  sends: "fw_calls w n = Some Call_Sending \<Longrightarrow> \<not> fw_alive w \<or> fw_slot w = None \<Longrightarrow> fw_progress jobs w (run_send n w)"
| takes: "fw_alive w \<Longrightarrow> fw_phase w = W_Idle \<Longrightarrow> fw_slot w = Some n \<Longrightarrow> fw_progress jobs w (fw_take n w)"
| executes: "fw_alive w \<Longrightarrow> fw_phase w = W_Taken n \<Longrightarrow> fw_progress jobs w (fw_execute jobs n w)"
| answers: "fw_alive w \<Longrightarrow> fw_phase w = W_Replying n \<Longrightarrow> fw_reply w = Some r \<Longrightarrow>
    fw_calls w n = Some Call_Waiting \<Longrightarrow> fw_progress jobs w (fw_answer n r w)"
| drops: "\<not> fw_alive w \<Longrightarrow> fw_calls w n = Some Call_Waiting \<Longrightarrow> fw_progress jobs w (run_dropped n w)"

inductive fw_step ::
  "(nat \<Rightarrow> 'f \<Rightarrow> 'r \<times> 'f) \<Rightarrow> ('f, 'r) flash_worker \<Rightarrow> ('f, 'r) flash_worker \<Rightarrow> bool" for jobs where
  invokes: "fw_calls w n = None \<Longrightarrow> fw_step jobs w (run_invoke n w)"
| goes_on: "fw_progress jobs w w' \<Longrightarrow> fw_step jobs w w'"
| panics: "fw_alive w \<Longrightarrow> fw_phase w = W_Taken n \<Longrightarrow> fw_step jobs w (fw_panic f w)"

inductive fw_runs ::
  "(nat \<Rightarrow> 'f \<Rightarrow> 'r \<times> 'f) \<Rightarrow> ('f, 'r) flash_worker \<Rightarrow> ('f, 'r) flash_worker \<Rightarrow> bool" for jobs where
  start: "fw_runs jobs w w"
| more: "fw_runs jobs w w' \<Longrightarrow> fw_step jobs w' w'' \<Longrightarrow> fw_runs jobs w w''"

section \<open>Running the jobs one after the other\<close>

fun executed :: "run_event list \<Rightarrow> nat list" where
  "executed [] = []"
| "executed (Executed n # h) = n # executed h"
| "executed (_ # h) = executed h"

definition serial :: "(nat \<Rightarrow> 'f \<Rightarrow> 'r \<times> 'f) \<Rightarrow> nat list \<Rightarrow> 'f \<Rightarrow> 'f" where
  "serial jobs ns f = fold (\<lambda>n f. snd (jobs n f)) ns f"

text \<open>
  A call is linearised: its job was executed once, between its invocation and its answer, and its
  result is that of the job on the flash which the jobs executed before it had left.
\<close>

definition linearised :: "'f \<Rightarrow> (nat \<Rightarrow> 'f \<Rightarrow> 'r \<times> 'f) \<Rightarrow> run_event list \<Rightarrow> nat \<Rightarrow> 'r \<Rightarrow> bool" where
  "linearised f0 jobs h n r \<longleftrightarrow>
     (\<exists>h1 h2. h = h1 @ Executed n # h2 \<and> Invoked n \<in> set h1 \<and> Answered n \<in> set h2 \<and>
        Executed n \<notin> set h1 \<and> Executed n \<notin> set h2 \<and> Answered n \<notin> set h1 \<and>
        r = fst (jobs n (serial jobs (executed h1) f0)))"

section \<open>The invariant\<close>

lemma executed_append [simp]: "executed (h @ h') = executed h @ executed h'"
  by (induction h rule: executed.induct) simp_all

lemma set_executed [simp]: "set (executed h) = {n. Executed n \<in> set h}"
  by (induction h rule: executed.induct) auto

lemma serial_snoc [simp]: "serial jobs (ns @ [n]) f = snd (jobs n (serial jobs ns f))"
  by (simp add: serial_def)

text \<open>An execution that has not been answered yet.\<close>

definition awaiting :: "'f \<Rightarrow> (nat \<Rightarrow> 'f \<Rightarrow> 'r \<times> 'f) \<Rightarrow> run_event list \<Rightarrow> nat \<Rightarrow> 'r \<Rightarrow> bool" where
  "awaiting f0 jobs h n r \<longleftrightarrow>
     (\<exists>h1 h2. h = h1 @ Executed n # h2 \<and> Invoked n \<in> set h1 \<and> Executed n \<notin> set h1 \<and> Executed n \<notin> set h2 \<and>
        Answered n \<notin> set h \<and> r = fst (jobs n (serial jobs (executed h1) f0)))"

lemma awaiting_start:
  "Invoked n \<in> set h \<Longrightarrow> Executed n \<notin> set h \<Longrightarrow> Answered n \<notin> set h \<Longrightarrow>
     awaiting f0 jobs (h @ [Executed n]) n (fst (jobs n (serial jobs (executed h) f0)))"
  unfolding awaiting_def by (intro exI [of _ h] exI [of _ "[]"]) simp

lemma awaiting_snoc:
  assumes "awaiting f0 jobs h n r" and "e \<noteq> Executed n" and "e \<noteq> Answered n"
  shows "awaiting f0 jobs (h @ [e]) n r"
proof -
  obtain h1 h2 where "h = h1 @ Executed n # h2" "Invoked n \<in> set h1" "Executed n \<notin> set h1" "Executed n \<notin> set h2"
    "Answered n \<notin> set h" "r = fst (jobs n (serial jobs (executed h1) f0))"
    using assms(1) unfolding awaiting_def by blast
  then show ?thesis unfolding awaiting_def using assms(2,3) by (intro exI [of _ h1] exI [of _ "h2 @ [e]"]) auto
qed

lemma linearised_snoc:
  assumes "linearised f0 jobs h n r" and "e \<noteq> Executed n"
  shows "linearised f0 jobs (h @ [e]) n r"
proof -
  obtain h1 h2 where "h = h1 @ Executed n # h2" "Invoked n \<in> set h1" "Answered n \<in> set h2" "Executed n \<notin> set h1"
    "Executed n \<notin> set h2" "Answered n \<notin> set h1" "r = fst (jobs n (serial jobs (executed h1) f0))"
    using assms(1) unfolding linearised_def by blast
  then show ?thesis unfolding linearised_def using assms(2) by (intro exI [of _ h1] exI [of _ "h2 @ [e]"]) auto
qed

lemma awaiting_answered:
  assumes "awaiting f0 jobs h n r"
  shows "linearised f0 jobs (h @ [Answered n]) n r"
proof -
  obtain h1 h2 where "h = h1 @ Executed n # h2" "Invoked n \<in> set h1" "Executed n \<notin> set h1" "Executed n \<notin> set h2"
    "Answered n \<notin> set h" "r = fst (jobs n (serial jobs (executed h1) f0))"
    using assms unfolding awaiting_def by blast
  then show ?thesis unfolding linearised_def by (intro exI [of _ h1] exI [of _ "h2 @ [Answered n]"]) auto
qed

definition not_held :: "nat \<Rightarrow> ('f, 'r) flash_worker \<Rightarrow> bool" where
  "not_held n w \<longleftrightarrow> fw_slot w \<noteq> Some n \<and> fw_phase w \<noteq> W_Taken n \<and> fw_phase w \<noteq> W_Replying n"

definition call_ok :: "'f \<Rightarrow> (nat \<Rightarrow> 'f \<Rightarrow> 'r \<times> 'f) \<Rightarrow> ('f, 'r) flash_worker \<Rightarrow> nat \<Rightarrow> bool" where
  "call_ok f0 jobs w n \<longleftrightarrow>
     (case fw_calls w n of
        None \<Rightarrow> Invoked n \<notin> set (fw_hist w) \<and> Executed n \<notin> set (fw_hist w) \<and> Answered n \<notin> set (fw_hist w) \<and> not_held n w
      | Some Call_Sending \<Rightarrow>
          Invoked n \<in> set (fw_hist w) \<and> Executed n \<notin> set (fw_hist w) \<and> Answered n \<notin> set (fw_hist w) \<and> not_held n w
      | Some Call_Waiting \<Rightarrow>
          Invoked n \<in> set (fw_hist w) \<and> Answered n \<notin> set (fw_hist w) \<and>
          (if fw_phase w = W_Replying n
           then fw_slot w \<noteq> Some n \<and> (\<exists>r. fw_reply w = Some r \<and> awaiting f0 jobs (fw_hist w) n r)
           else Executed n \<notin> set (fw_hist w) \<and>
             (fw_alive w \<longrightarrow> (fw_slot w = Some n) = (fw_phase w \<noteq> W_Taken n)))
      | Some (Call_Returned (Inr r)) \<Rightarrow> linearised f0 jobs (fw_hist w) n r \<and> not_held n w
      | Some (Call_Returned (Inl _)) \<Rightarrow> Executed n \<notin> set (fw_hist w) \<and> not_held n w)"

definition worker_inv :: "'f \<Rightarrow> (nat \<Rightarrow> 'f \<Rightarrow> 'r \<times> 'f) \<Rightarrow> ('f, 'r) flash_worker \<Rightarrow> bool" where
  "worker_inv f0 jobs w \<longleftrightarrow>
     (\<forall>n. call_ok f0 jobs w n) \<and> distinct (executed (fw_hist w)) \<and>
     (fw_alive w \<longrightarrow> fw_flash w = serial jobs (executed (fw_hist w)) f0) \<and>
     (\<not> fw_alive w \<longrightarrow> fw_slot w = None \<and> fw_phase w = W_Idle)"

lemma worker_inv_start: "worker_inv f0 jobs (flash_worker_start f0)"
  by (simp add: worker_inv_def flash_worker_start_def call_ok_def not_held_def serial_def)

lemma call_ok_other:
  assumes "call_ok f0 jobs w m" and "m \<noteq> n" and "fw_calls w' m = fw_calls w m"
    and "fw_hist w' = fw_hist w \<or> (\<exists>e \<in> {Invoked n, Executed n, Answered n}. fw_hist w' = fw_hist w @ [e])"
    and "fw_slot w = Some m \<longleftrightarrow> fw_slot w' = Some m" and "fw_phase w = W_Taken m \<longleftrightarrow> fw_phase w' = W_Taken m"
    and "fw_phase w = W_Replying m \<longleftrightarrow> fw_phase w' = W_Replying m"
    and "fw_phase w = W_Replying m \<Longrightarrow> fw_reply w' = fw_reply w" and "fw_alive w' \<Longrightarrow> fw_alive w"
  shows "call_ok f0 jobs w' m"
  using assms
  by (auto simp: call_ok_def not_held_def split: option.splits call_phase.splits sum.splits
      intro!: awaiting_snoc linearised_snoc)

text \<open>One step moves call \<open>n\<close> and leaves the others alone.\<close>

lemma worker_inv_moves:
  assumes "worker_inv f0 jobs w" and "call_ok f0 jobs w' n"
    and "\<And>m. m \<noteq> n \<Longrightarrow> fw_calls w' m = fw_calls w m \<and> (fw_slot w = Some m \<longleftrightarrow> fw_slot w' = Some m) \<and>
      (fw_phase w = W_Taken m \<longleftrightarrow> fw_phase w' = W_Taken m) \<and> (fw_phase w = W_Replying m \<longleftrightarrow> fw_phase w' = W_Replying m) \<and>
      (fw_phase w = W_Replying m \<longrightarrow> fw_reply w' = fw_reply w)"
    and "fw_hist w' = fw_hist w \<or> (\<exists>e \<in> {Invoked n, Executed n, Answered n}. fw_hist w' = fw_hist w @ [e])"
    and "distinct (executed (fw_hist w'))" and "fw_alive w' \<Longrightarrow> fw_alive w"
    and "fw_alive w' \<Longrightarrow> fw_flash w' = serial jobs (executed (fw_hist w')) f0"
    and "\<not> fw_alive w' \<Longrightarrow> fw_slot w' = None \<and> fw_phase w' = W_Idle"
  shows "worker_inv f0 jobs w'"
proof -
  have "call_ok f0 jobs w' m" if "m \<noteq> n" for m
    by (rule call_ok_other [of f0 jobs w m n]) (use assms that in \<open>auto simp: worker_inv_def\<close>)
  then have "\<forall>m. call_ok f0 jobs w' m" using assms(2) by metis
  then show ?thesis using assms(5-8) by (auto simp: worker_inv_def)
qed

lemma worker_invD:
  assumes "worker_inv f0 jobs w"
  shows "call_ok f0 jobs w n" "distinct (executed (fw_hist w))"
    "fw_alive w \<Longrightarrow> fw_flash w = serial jobs (executed (fw_hist w)) f0"
    "\<not> fw_alive w \<Longrightarrow> fw_slot w = None" "\<not> fw_alive w \<Longrightarrow> fw_phase w = W_Idle"
  using assms by (simp_all add: worker_inv_def)

lemma held_waiting: "call_ok f0 jobs w n \<Longrightarrow> \<not> not_held n w \<Longrightarrow> fw_calls w n = Some Call_Waiting"
  by (auto simp: call_ok_def split: option.splits call_phase.splits sum.splits)

lemma progress_inv:
  assumes "fw_progress jobs w w'" and "worker_inv f0 jobs w"
  shows "worker_inv f0 jobs w'"
  using assms(1)
proof cases
  note inv = worker_invD [OF assms(2)]
  case (sends n)
  show ?thesis
    by (rule worker_inv_moves [OF assms(2), of w' n])
      (use sends inv(1) [of n] inv(2-5) in \<open>auto simp: run_send_def call_ok_def not_held_def split: if_splits\<close>)
next
  note inv = worker_invD [OF assms(2)]
  case (takes n)
  then have "fw_calls w n = Some Call_Waiting" by (intro held_waiting [OF inv(1)]) (simp add: not_held_def)
  then show ?thesis
    by (intro worker_inv_moves [OF assms(2), of w' n])
      (use takes inv(1) [of n] inv(2-5) in \<open>auto simp: fw_take_def call_ok_def not_held_def\<close>)
next
  note inv = worker_invD [OF assms(2)]
  case (executes n)
  then have waiting: "fw_calls w n = Some Call_Waiting" by (intro held_waiting [OF inv(1)]) (simp add: not_held_def)
  obtain r f where job: "jobs n (fw_flash w) = (r, f)" by (rule prod.exhaust)
  have fresh: "Invoked n \<in> set (fw_hist w)" "Executed n \<notin> set (fw_hist w)" "Answered n \<notin> set (fw_hist w)"
    "fw_slot w \<noteq> Some n"
    using inv(1) [of n] waiting executes by (simp_all add: call_ok_def)
  have here: "jobs n (serial jobs (executed (fw_hist w)) f0) = (r, f)" using inv(3) executes job by simp
  then have "awaiting f0 jobs (fw_hist w @ [Executed n]) n r"
    using awaiting_start [OF fresh(1-3), of f0 jobs] by simp
  then show ?thesis
    by (intro worker_inv_moves [OF assms(2), of w' n])
      (use executes waiting fresh job here inv(2,4,5) in \<open>auto simp: fw_execute_def call_ok_def not_held_def\<close>)
next
  note inv = worker_invD [OF assms(2)]
  case (answers n r)
  then have "awaiting f0 jobs (fw_hist w) n r" "fw_slot w \<noteq> Some n"
    using inv(1) [of n] by (simp_all add: call_ok_def)
  then have "linearised f0 jobs (fw_hist w @ [Answered n]) n r" "fw_slot w \<noteq> Some n"
    by (simp_all add: awaiting_answered)
  then show ?thesis
    by (intro worker_inv_moves [OF assms(2), of w' n])
      (use answers inv(2-5) in \<open>auto simp: fw_answer_def call_ok_def not_held_def\<close>)
next
  note inv = worker_invD [OF assms(2)]
  case (drops n)
  then show ?thesis
    by (intro worker_inv_moves [OF assms(2), of w' n])
      (use drops inv(1) [of n] inv(2-5) in \<open>auto simp: run_dropped_def call_ok_def not_held_def\<close>)
qed

lemma panic_inv:
  assumes "fw_phase w = W_Taken n" and "worker_inv f0 jobs w"
  shows "worker_inv f0 jobs (fw_panic f w)"
proof -
  have "call_ok f0 jobs (fw_panic f w) m" for m
    using worker_invD(1) [OF assms(2), of m] assms(1)
    by (auto simp: call_ok_def not_held_def fw_panic_def split: option.splits call_phase.splits sum.splits)
  then show ?thesis using worker_invD(2) [OF assms(2)] by (simp add: worker_inv_def fw_panic_def)
qed

lemma step_inv:
  assumes "fw_step jobs w w'" and "worker_inv f0 jobs w"
  shows "worker_inv f0 jobs w'"
  using assms(1)
proof cases
  note inv = worker_invD [OF assms(2)]
  case (invokes n)
  then show ?thesis
    by (intro worker_inv_moves [OF assms(2), of w' n])
      (use invokes inv(1) [of n] inv(2-5) in \<open>auto simp: run_invoke_def call_ok_def not_held_def\<close>)
next
  case goes_on
  then show ?thesis by (rule progress_inv [OF _ assms(2)])
next
  case (panics n f)
  then show ?thesis using panic_inv [OF _ assms(2)] by simp
qed

lemma runs_inv:
  assumes "fw_runs jobs (flash_worker_start f0) w"
  shows "worker_inv f0 jobs w"
  using assms
  by (induction "flash_worker_start f0 :: ('a, 'b) flash_worker" w rule: fw_runs.induct)
    (auto intro: worker_inv_start step_inv)

section \<open>Every call returns\<close>

text \<open>Calls that have not returned, and how many steps they have left at most.\<close>

definition in_phase :: "'r call_phase \<Rightarrow> ('f, 'r) flash_worker \<Rightarrow> nat set" where
  "in_phase p w = {n. fw_calls w n = Some p}"

definition rank :: "('f, 'r) flash_worker \<Rightarrow> nat" where
  "rank w = 5 * card (in_phase Call_Sending w) + card (in_phase Call_Waiting w) +
     (if fw_slot w = None then 0 else 3) + (case fw_phase w of W_Idle \<Rightarrow> 0 | W_Taken _ \<Rightarrow> 2 | W_Replying _ \<Rightarrow> 1)"

lemma in_phase_upd:
  assumes "fw_calls w' = (fw_calls w)(n \<mapsto> p)"
  shows "in_phase q w' = (if p = q then insert n (in_phase q w) else in_phase q w - {n})"
  using assms by (auto simp: in_phase_def)

lemma finite_calls: "fw_runs jobs (flash_worker_start f0) w \<Longrightarrow> finite (dom (fw_calls w))"
proof (induction "flash_worker_start f0 :: ('a, 'b) flash_worker" w rule: fw_runs.induct)
  case (more w' w'')
  from more.hyps(3) more.hyps(2) show ?case
    by (auto simp: run_invoke_def run_send_def fw_take_def fw_execute_def fw_answer_def fw_panic_def run_dropped_def
        elim!: fw_step.cases fw_progress.cases split: prod.splits if_splits)
qed (simp add: flash_worker_start_def)

lemma progress_rank:
  assumes "fw_progress jobs w w'" and "finite (dom (fw_calls w))"
  shows "rank w' < rank w"
proof -
  have fin: "finite (in_phase p w)" for p
    by (rule finite_subset [OF _ assms(2)]) (auto simp: in_phase_def)
  have pos: "card (in_phase p w) > 0" if "n \<in> in_phase p w" for n p
    using that fin [of p] by (auto simp: card_gt_0_iff)
  have same: "in_phase p (fw_take n w) = in_phase p w" "in_phase p (fw_execute jobs n w) = in_phase p w" for p n
    by (simp_all add: in_phase_def fw_take_def fw_execute_def split: prod.split)
  show ?thesis
    using assms(1)
  proof cases
    case (sends n)
    then have n: "n \<in> in_phase Call_Sending w" "n \<notin> in_phase Call_Waiting w" by (auto simp: in_phase_def)
    have stopped: "in_phase q w' = in_phase q w - {n}" if "\<not> fw_alive w" "q = Call_Sending \<or> q = Call_Waiting" for q
      using sends that by (subst in_phase_upd [of w' w n "Call_Returned (Inl Worker_Stopped)"]) (auto simp: run_send_def)
    have sent: "in_phase q w' = (if q = Call_Waiting then insert n (in_phase q w) else in_phase q w - {n})" if "fw_alive w" for q
      using sends that by (subst in_phase_upd [of w' w n Call_Waiting]) (auto simp: run_send_def)
    show ?thesis
      using sends n fin pos [OF n(1)] stopped sent
      by (cases "fw_alive w") (auto simp: rank_def run_send_def)
  next
    case (takes n)
    then show ?thesis by (simp add: rank_def same) (simp add: fw_take_def)
  next
    case (executes n)
    then show ?thesis by (simp add: rank_def same) (simp add: fw_execute_def split: prod.split)
  next
    case (answers n r)
    then have n: "n \<in> in_phase Call_Waiting w" "n \<notin> in_phase Call_Sending w" by (auto simp: in_phase_def)
    have "in_phase q w' = in_phase q w - {n}" if "q = Call_Sending \<or> q = Call_Waiting" for q
      using answers that by (subst in_phase_upd [of w' w n "Call_Returned (Inr r)"]) (auto simp: fw_answer_def)
    then show ?thesis using answers n fin pos [OF n(1)] by (auto simp: rank_def) (auto simp: fw_answer_def)
  next
    case (drops n)
    then have n: "n \<in> in_phase Call_Waiting w" "n \<notin> in_phase Call_Sending w" by (auto simp: in_phase_def)
    have "in_phase q w' = in_phase q w - {n}" if "q = Call_Sending \<or> q = Call_Waiting" for q
      using drops that by (subst in_phase_upd [of w' w n "Call_Returned (Inl Result_Dropped)"]) (auto simp: run_dropped_def)
    then show ?thesis using drops n fin pos [OF n(1)] by (auto simp: rank_def) (auto simp: run_dropped_def)
  qed
qed

text \<open>As long as a call has not returned, something can be done about it.\<close>

lemma never_stuck:
  assumes "worker_inv f0 jobs w" and "fw_calls w n = Some p" and "p = Call_Sending \<or> p = Call_Waiting"
  shows "\<exists>w'. fw_progress jobs w w'"
proof (cases "fw_alive w")
  case False
  then show ?thesis using assms(2,3) fw_progress.sends fw_progress.drops by blast
next
  case alive: True
  show ?thesis
  proof (cases "fw_phase w")
    case W_Idle
    show ?thesis
    proof (cases "fw_slot w")
      case None
      have "p \<noteq> Call_Waiting"
        using worker_invD(1) [OF assms(1), of n] assms(2) alive None W_Idle by (auto simp: call_ok_def)
      then show ?thesis using assms(2,3) None fw_progress.sends by blast
    next
      case (Some m)
      then show ?thesis using alive W_Idle fw_progress.takes by blast
    qed
  next
    case (W_Taken m)
    then show ?thesis using alive fw_progress.executes by blast
  next
    case (W_Replying m)
    then have waiting: "fw_calls w m = Some Call_Waiting"
      by (intro held_waiting [OF worker_invD(1) [OF assms(1)]]) (simp add: not_held_def)
    then obtain r where "fw_reply w = Some r"
      using worker_invD(1) [OF assms(1), of m] W_Replying by (auto simp: call_ok_def)
    from fw_progress.answers [OF alive W_Replying this waiting] show ?thesis by blast
  qed
qed

section \<open>Properties\<close>

lemma progress_calls: "fw_progress jobs w w' \<Longrightarrow> dom (fw_calls w') = dom (fw_calls w)"
  by (auto simp: run_send_def fw_take_def fw_execute_def fw_answer_def run_dropped_def
      elim!: fw_progress.cases split: prod.splits if_splits)

lemma relpowp_calls: "(fw_progress jobs ^^ k) w v \<Longrightarrow> dom (fw_calls v) = dom (fw_calls w)"
  by (induction k arbitrary: v) (simp, metis progress_calls relpowp_Suc_E)

lemma progress_bounded:
  "(fw_progress jobs ^^ k) w w' \<Longrightarrow> finite (dom (fw_calls w)) \<Longrightarrow> k + rank w' \<le> rank w"
proof (induction k arbitrary: w')
  case (Suc k)
  then obtain v where v: "(fw_progress jobs ^^ k) w v" "fw_progress jobs v w'" by auto
  have "dom (fw_calls v) = dom (fw_calls w)"
    using v(1) by (rule relpowp_calls)
  then have "rank w' < rank v" using progress_rank [OF v(2)] Suc.prems(2) by simp
  then show ?case using Suc.IH [OF v(1) Suc.prems(2)] by simp
qed simp

text \<open>C3: concurrent calls of the flash worker behave like the atomic operations that the store is
built from. However any number of callers and the worker interleave, flash is the result of running the
executed jobs one after the other, each at most once. A call that returns the result of its job had
it executed exactly once, after the call began and before it returned, and the result and the new
flash are those of \<open>run\<close> on a store with the flash that was there. A call that reports a stopped
worker had no job completed. As long as a call has not returned there is a step that brings one
forward, and without new calls there are at most \<open>rank w\<close> such steps, so every call returns.\<close>

theorem flash_jobs_linearise:
  fixes jobs :: "nat \<Rightarrow> ('n, 'a) flash_io"
  assumes "fw_runs jobs (flash_worker_start f0) w"
  shows "distinct (executed (fw_hist w)) \<and>
     (fw_alive w \<longrightarrow> fw_flash w = serial jobs (executed (fw_hist w)) f0) \<and>
     (\<forall>n r. fw_calls w n = Some (Call_Returned (Inr r)) \<longrightarrow>
        (\<exists>h1 h2. fw_hist w = h1 @ Executed n # h2 \<and> Invoked n \<in> set h1 \<and> Answered n \<in> set h2 \<and>
           Executed n \<notin> set h1 \<and> Executed n \<notin> set h2 \<and>
           (\<forall>s :: ('n, 'd, 'k, 'h, 'l, 'v) nvs_store. worker_alive s \<longrightarrow> flash s = serial jobs (executed h1) f0 \<longrightarrow>
              run (jobs n) s = (r, s\<lparr>flash := serial jobs (executed h1 @ [n]) f0\<rparr>)))) \<and>
     (\<forall>n e. fw_calls w n = Some (Call_Returned (Inl e)) \<longrightarrow> Executed n \<notin> set (fw_hist w)) \<and>
     (\<forall>n. fw_calls w n \<in> {Some Call_Sending, Some Call_Waiting} \<longrightarrow> (\<exists>w'. fw_progress jobs w w')) \<and>
     (\<forall>k w'. (fw_progress jobs ^^ k) w w' \<longrightarrow> k \<le> rank w)"
proof (intro conjI allI impI)
  note inv = worker_invD [OF runs_inv [OF assms]]
  show "distinct (executed (fw_hist w))" by (rule inv(2))
  show "fw_flash w = serial jobs (executed (fw_hist w)) f0" if "fw_alive w" using that by (rule inv(3))
  show "\<exists>h1 h2. fw_hist w = h1 @ Executed n # h2 \<and> Invoked n \<in> set h1 \<and> Answered n \<in> set h2 \<and>
      Executed n \<notin> set h1 \<and> Executed n \<notin> set h2 \<and>
      (\<forall>s :: ('n, 'd, 'k, 'h, 'l, 'v) nvs_store. worker_alive s \<longrightarrow> flash s = serial jobs (executed h1) f0 \<longrightarrow>
         run (jobs n) s = (r, s\<lparr>flash := serial jobs (executed h1 @ [n]) f0\<rparr>))"
    if "fw_calls w n = Some (Call_Returned (Inr r))" for n r
  proof -
    have "linearised f0 jobs (fw_hist w) n r" using inv(1) [of n] that by (simp add: call_ok_def)
    then obtain h1 h2 where "fw_hist w = h1 @ Executed n # h2" "Invoked n \<in> set h1" "Answered n \<in> set h2"
      "Executed n \<notin> set h1" "Executed n \<notin> set h2" "r = fst (jobs n (serial jobs (executed h1) f0))"
      unfolding linearised_def by blast
    then show ?thesis by (intro exI [of _ h1] exI [of _ h2]) (auto simp: run_def split: prod.split)
  qed
  show "Executed n \<notin> set (fw_hist w)" if "fw_calls w n = Some (Call_Returned (Inl e))" for n e
    using inv(1) [of n] that by (simp add: call_ok_def)
  show "\<exists>w'. fw_progress jobs w w'" if "fw_calls w n \<in> {Some Call_Sending, Some Call_Waiting}" for n
    using that never_stuck [OF runs_inv [OF assms]] by blast
  show "k \<le> rank w" if "(fw_progress jobs ^^ k) w w'" for k w'
    using progress_bounded [OF that finite_calls [OF assms]] by simp
qed

text \<open>Two callers; the second gets through first, and the first is still waiting to send.\<close>

definition demo_jobs :: "nat \<Rightarrow> (nat, nat) flash_io" where
  "demo_jobs n f = (Inr (driver f), f\<lparr>driver := driver f + n\<rparr>)"

definition demo_namespaces :: "nat flash_namespaces" where
  "demo_namespaces = \<lparr>driver = 10, validated_sessions = slots_default\<rparr>"

definition demo_calls :: "(nat flash_namespaces, store_error + nat) flash_worker" where
  "demo_calls = run_invoke 2 (run_invoke 1 (flash_worker_start demo_namespaces))"

definition demo_end :: "(nat flash_namespaces, store_error + nat) flash_worker" where
  "demo_end = fw_answer 2 (Inr 10) (fw_execute demo_jobs 2 (fw_take 2 (run_send 2 demo_calls)))"

lemmas demo_steps =
  demo_calls_def demo_end_def run_invoke_def run_send_def fw_take_def fw_execute_def fw_answer_def
  flash_worker_start_def demo_jobs_def demo_namespaces_def

lemma demo_runs: "fw_runs demo_jobs (flash_worker_start demo_namespaces) demo_end"
proof -
  let ?w0 = "flash_worker_start demo_namespaces :: (nat flash_namespaces, store_error + nat) flash_worker"
  let ?w1 = "run_invoke 1 ?w0" and ?w3 = "run_send 2 demo_calls"
  have "fw_step demo_jobs ?w0 ?w1" by (rule fw_step.invokes) (simp add: flash_worker_start_def)
  moreover have "fw_step demo_jobs ?w1 demo_calls"
    unfolding demo_calls_def by (rule fw_step.invokes) (simp add: demo_steps)
  moreover have "fw_step demo_jobs demo_calls ?w3"
    by (intro fw_step.goes_on fw_progress.sends) (simp_all add: demo_steps)
  moreover have "fw_step demo_jobs ?w3 (fw_take 2 ?w3)"
    by (intro fw_step.goes_on fw_progress.takes) (simp_all add: demo_steps)
  moreover have "fw_step demo_jobs (fw_take 2 ?w3) (fw_execute demo_jobs 2 (fw_take 2 ?w3))"
    by (intro fw_step.goes_on fw_progress.executes) (simp_all add: demo_steps)
  moreover have "fw_step demo_jobs (fw_execute demo_jobs 2 (fw_take 2 ?w3)) demo_end"
    unfolding demo_end_def by (intro fw_step.goes_on fw_progress.answers) (simp_all add: demo_steps)
  ultimately show ?thesis by (meson fw_runs.intros)
qed

theorem flash_jobs_linearise_witness:
  "fw_runs demo_jobs (flash_worker_start demo_namespaces) demo_end \<and>
   fw_calls demo_end 2 = Some (Call_Returned (Inr (Inr 10))) \<and>
   fw_flash demo_end = serial demo_jobs [2] demo_namespaces \<and> (\<exists>w'. fw_progress demo_jobs demo_end w')"
proof -
  note p = flash_jobs_linearise [OF demo_runs]
  have "fw_alive demo_end" "executed (fw_hist demo_end) = [2]" "fw_calls demo_end 1 = Some Call_Sending"
    "fw_calls demo_end 2 = Some (Call_Returned (Inr (Inr 10)))"
    by (simp_all add: demo_steps)
  then show ?thesis using p demo_runs by auto
qed

end
