(* ===== verification/Connections.thy ===== *)
theory Connections
  imports Transport Http_Client Flash_Worker
begin

text \<open>
  How connections are set up around the protocols: the life of a TLS handle and the socket timeouts of
  \<open>EspTlsStream\<close> (\<open>src/transport.rs\<close>), the stream of the HTTP client (\<open>src/http_client.rs\<close>), the
  transport factory, and the threads that the firmware asks for.
\<close>

section \<open>TLS handles\<close>

text \<open>\<open>Drop for EspTlsStream\<close>, on the handles that are not destroyed yet.\<close>

definition tls_drop :: "'h \<Rightarrow> 'h list \<Rightarrow> 'h list" where
  "tls_drop tls hs = remove1 tls hs"

definition CONNECT_TIMEOUT :: nat where "CONNECT_TIMEOUT = 30000"

definition tls_connect_default ::
  "('h list \<Rightarrow> 'h option) \<Rightarrow> (str \<Rightarrow> nat \<Rightarrow> tls_cfg \<Rightarrow> 'h \<Rightarrow> int) \<Rightarrow> str \<Rightarrow> nat \<Rightarrow> bool \<Rightarrow> ('h list, tls_error, 'h) io" where
  "tls_connect_default init conn_new host port skip_tls_verify =
     tls_connect_with_timeout init conn_new host port skip_tls_verify CONNECT_TIMEOUT"

text \<open>
  A connection owns one handle and dropping it gives the handle back; a failed attempt keeps none,
  with one exception: a host with a null byte loses the handle that was already made.
\<close>

lemma tls_handles_balance:
  assumes "tls_connect_with_timeout init conn_new host port skip timeout hs = (r, hs')"
  shows "case r of
      Inr tls \<Rightarrow> init hs = Some tls \<and> hs' = tls # hs \<and> tls_drop tls hs' = hs
    | Inl Host_Has_Nul \<Rightarrow> CHR 0x00 \<in> set host \<and> (\<exists>tls. init hs = Some tls \<and> hs' = tls # hs)
    | Inl _ \<Rightarrow> hs' = hs"
  using assms
  by (auto simp: tls_connect_with_timeout_def tls_drop_def Let_def split: option.splits if_splits)

section \<open>Socket timeouts\<close>

datatype sock_option = SO_RCVTIMEO | SO_SNDTIMEO

datatype sock_error = No_Sockfd int | Setsockopt_Failed sock_option

type_synonym sock_options = "int \<times> sock_option \<rightharpoonup> nat \<times> nat"

text \<open>
  \<open>sockfd\<close> is what \<open>esp_tls_get_conn_sockfd\<close> gives, \<open>set_ok\<close> whether \<open>lwip_setsockopt\<close> accepts an
  option; the state is the options in force per socket.
\<close>

definition set_socket_timeout_ms ::
  "int + int \<Rightarrow> (int \<Rightarrow> sock_option \<Rightarrow> bool) \<Rightarrow> sock_option \<Rightarrow> nat \<Rightarrow> (sock_options, sock_error, unit) io" where
  "set_socket_timeout_ms sockfd set_ok opt ms = (\<lambda>opts.
     case sockfd of
       Inl err \<Rightarrow> (Inl (No_Sockfd err), opts)
     | Inr fd \<Rightarrow>
         if set_ok fd opt then (Inr (), opts((fd, opt) \<mapsto> socket_timeout ms))
         else (Inl (Setsockopt_Failed opt), opts))"

definition set_read_timeout_ms ::
  "int + int \<Rightarrow> (int \<Rightarrow> sock_option \<Rightarrow> bool) \<Rightarrow> nat \<Rightarrow> (sock_options, sock_error, unit) io" where
  "set_read_timeout_ms sockfd set_ok ms = set_socket_timeout_ms sockfd set_ok SO_RCVTIMEO ms"

definition set_write_timeout_ms ::
  "int + int \<Rightarrow> (int \<Rightarrow> sock_option \<Rightarrow> bool) \<Rightarrow> nat \<Rightarrow> (sock_options, sock_error, unit) io" where
  "set_write_timeout_ms sockfd set_ok ms = set_socket_timeout_ms sockfd set_ok SO_SNDTIMEO ms"

definition HTTP_IO_TIMEOUT :: nat where "HTTP_IO_TIMEOUT = 30000"

text \<open>\<open>HttpStream\<close>; a \<open>TcpStream\<close> is its socket, and \<open>set_read_timeout\<close> sets the same option on it.\<close>

datatype ('t, 'c) http_stream = Http_Tls 't | Http_Tcp 'c

definition http_set_timeouts ::
  "('t \<Rightarrow> int + int) \<Rightarrow> ('c \<Rightarrow> int) \<Rightarrow> (int \<Rightarrow> sock_option \<Rightarrow> bool) \<Rightarrow> ('t, 'c) http_stream \<Rightarrow>
   (sock_options, sock_error, unit) io" where
  "http_set_timeouts tls_fd tcp_fd set_ok stream =
     (let sockfd = (case stream of Http_Tls t \<Rightarrow> tls_fd t | Http_Tcp c \<Rightarrow> Inr (tcp_fd c)) in
      bindE (set_read_timeout_ms sockfd set_ok HTTP_IO_TIMEOUT) (\<lambda>_.
      set_write_timeout_ms sockfd set_ok HTTP_IO_TIMEOUT))"

text \<open>\<open>Read\<close> and \<open>Write\<close> for \<open>HttpStream\<close>: the methods of the stream inside.\<close>

definition http_stream_io ::
  "('t \<Rightarrow> 'x \<Rightarrow> 'r \<times> 't) \<Rightarrow> ('c \<Rightarrow> 'x \<Rightarrow> 'r \<times> 'c) \<Rightarrow> ('t, 'c) http_stream \<Rightarrow> 'x \<Rightarrow> 'r \<times> ('t, 'c) http_stream" where
  "http_stream_io tls_io tcp_io stream x =
     (case stream of
        Http_Tls t \<Rightarrow> (case tls_io t x of (r, t') \<Rightarrow> (r, Http_Tls t'))
      | Http_Tcp c \<Rightarrow> (case tcp_io c x of (r, c') \<Rightarrow> (r, Http_Tcp c')))"

text \<open>The \<open>timeval\<close> is normalised and is exactly the timeout.\<close>

lemma socket_timeout_exact:
  "snd (socket_timeout ms) < 1000000" "1000000 * fst (socket_timeout ms) + snd (socket_timeout ms) = 1000 * ms"
  unfolding socket_timeout_def fst_conv snd_conv using div_mult_mod_eq [of ms 1000] by linarith+

lemma http_timeouts_in_force:
  assumes "http_set_timeouts tls_fd tcp_fd set_ok stream opts = (Inr (), opts')"
  shows "\<exists>fd. (case stream of Http_Tls t \<Rightarrow> tls_fd t = Inr fd | Http_Tcp c \<Rightarrow> tcp_fd c = fd) \<and>
    opts' (fd, SO_RCVTIMEO) = Some (30, 0) \<and> opts' (fd, SO_SNDTIMEO) = Some (30, 0)"
  using assms
  by (auto simp: http_set_timeouts_def Let_def set_read_timeout_ms_def set_write_timeout_ms_def set_socket_timeout_ms_def
      HTTP_IO_TIMEOUT_def socket_timeout_def split: http_stream.splits sum.splits if_splits elim!: bindE_InrE)

section \<open>The transport factory\<close>

definition transport_thread_config :: "bool \<Rightarrow> thread_config" where
  "transport_thread_config HAS_PSRAM =
     \<lparr>tc_name = Some ''ws-transport'', tc_stack_size = by_ram HAS_PSRAM (16 * 1024) (6 * 1024), tc_priority = 5,
      tc_inherit = False, tc_pin_to_core = Some 0, tc_stack_alloc_caps = stack_caps HAS_PSRAM\<rparr>"

record transport_factory =
  tf_ws_url :: str
  tf_skip_tls_verify :: bool
  tf_thread :: thread_config

definition factory_new :: "bool \<Rightarrow> str \<Rightarrow> bool \<Rightarrow> transport_factory" where
  "factory_new HAS_PSRAM ws_url skip_tls_verify =
     \<lparr>tf_ws_url = ws_url, tf_skip_tls_verify = skip_tls_verify, tf_thread = transport_thread_config HAS_PSRAM\<rparr>"

definition with_thread_config :: "thread_config \<Rightarrow> transport_factory \<Rightarrow> transport_factory" where
  "with_thread_config thread f = f\<lparr>tf_thread := thread\<rparr>"

definition factory_default :: "bool \<Rightarrow> str \<Rightarrow> transport_factory" where
  "factory_default HAS_PSRAM WHATSAPP_WEB_WS_URL = factory_new HAS_PSRAM WHATSAPP_WEB_WS_URL False"

text \<open>
  \<open>create_transport\<close>: the channels, and the thread that connects and then drives the socket. \<open>None\<close> in
  the second component is a thread that could not be spawned; otherwise it is what the thread has
  of the connection when it starts.
\<close>

record transport_parts =
  pt_event_capacity :: "nat option"
  pt_send_capacity :: nat
  pt_ws_url :: str
  pt_skip_tls_verify :: bool
  pt_shutdown :: bool

definition create_transport ::
  "bool \<Rightarrow> (thread_config \<Rightarrow> bool) \<Rightarrow> bool \<Rightarrow> thread_config \<Rightarrow> transport_factory \<Rightarrow> spawn_state \<Rightarrow>
   transport_parts option \<times> spawn_state" where
  "create_transport HAS_PSRAM set_ok spawn_ok default_config f s =
     (case spawn_thread set_ok spawn_ok default_config (tf_thread f) s of
        (spawned, s') \<Rightarrow>
          (if spawned
           then Some \<lparr>pt_event_capacity = event_capacity HAS_PSRAM, pt_send_capacity = SEND_QUEUE_CAP HAS_PSRAM,
                      pt_ws_url = tf_ws_url f, pt_skip_tls_verify = tf_skip_tls_verify f, pt_shutdown = False\<rparr>
           else None, s'))"

text \<open>\<open>Drop for Esp32Transport\<close>.\<close>

definition transport_drop :: "('s, 'c) transport \<Rightarrow> ('s, 'c) transport" where
  "transport_drop t = t\<lparr>tp_shutdown := True\<rparr>"

text \<open>
  The default factory verifies the server: the configuration it connects with attaches the root bundle
  and matches the name, whatever the timeout.
\<close>

lemma default_factory_verifies:
  "crt_bundle_attach (tls_config (tf_skip_tls_verify (factory_default psram url)) timeout)"
  "\<not> skip_common_name (tls_config (tf_skip_tls_verify (factory_default psram url)) timeout)"
  by (simp_all add: factory_default_def factory_new_def tls_config_def)

lemma created_transport:
  assumes "create_transport psram set_ok spawn_ok default_config f s = (Some parts, s')"
  shows "last (sp_threads s') = tf_thread f" "length (sp_threads s') = Suc (length (sp_threads s))"
    and "pt_skip_tls_verify parts = tf_skip_tls_verify f" "\<not> pt_shutdown parts"
  using assms
  by (auto simp: create_transport_def spawn_thread_def Let_def split: if_splits prod.splits)

text \<open>No thread asks for PSRAM on a board without it, and the flash worker never does.\<close>

lemma thread_stacks_fit:
  "Spiram \<in> tc_stack_alloc_caps (config psram) \<longleftrightarrow> psram"
  if "config \<in> {blocking_thread_config, executor_thread_config, transport_thread_config}"
  using that
  by (auto simp: blocking_thread_config_def executor_thread_config_def transport_thread_config_def stack_caps_def
      split: if_splits)

lemma flash_stack_internal: "Spiram \<notin> tc_stack_alloc_caps (nvs_thread_config psram)"
  by (simp add: nvs_thread_config_def)

end
