(* ===== verification/Executor.thy ===== *)
theory Executor
  imports Runtime
begin

text \<open>
  \<open>Esp32Executor::block_on\<close> of \<open>src/runtime.rs\<close>: the main future is polled together with a pump that
  moves spawned futures from the runtime's queue to the executor. How the executor of
  \<open>edge_executor\<close> runs them is not part of the repository; the model follows the futures until they
  are handed to it. Spawns come from any thread at any time, and the queue is closed once every
  runtime is dropped.
\<close>

section \<open>State and steps\<close>

text \<open>
  \<open>bo_sent\<close> lists the futures accepted by the queue, \<open>bo_tasks\<close> those given to the executor. A poll
  of the main future tells its value once it is ready, and what it spawned meanwhile.
\<close>

record ('t, 'm, 'v) block_on =
  bo_queue :: "'t list"
  bo_closed :: bool
  bo_pumping :: bool
  bo_tasks :: "'t list"
  bo_main :: 'm
  bo_result :: "'v option"
  bo_sent :: "'t list"

definition block_on_start :: "'t list \<Rightarrow> 'm \<Rightarrow> ('t, 'm, 'v) block_on" where
  "block_on_start queue main_future = \<lparr>bo_queue = queue, bo_closed = False, bo_pumping = True, bo_tasks = [],
     bo_main = main_future, bo_result = None, bo_sent = queue\<rparr>"

text \<open>\<open>while let Ok(future) = task_rx.recv().await\<close>: pending on an empty queue, over when it is also closed.\<close>

fun pump :: "bool \<Rightarrow> 't list \<Rightarrow> 't list \<Rightarrow> bool \<times> 't list" where
  "pump closed [] tasks = (closed, tasks)"
| "pump closed (future # queue) tasks = pump closed queue (tasks @ [future])"

text \<open>One poll of \<open>select(main, pump)\<close>, or of \<open>main\<close> alone once the pump is over.\<close>

definition block_on_poll :: "('m \<Rightarrow> 'v option \<times> 't list \<times> 'm) \<Rightarrow> ('t, 'm, 'v) block_on \<Rightarrow> ('t, 'm, 'v) block_on" where
  "block_on_poll poll e =
     (case poll (bo_main e) of
        (r, spawned, m) \<Rightarrow>
          let accepted = (if bo_closed e then [] else spawned);
              e = e\<lparr>bo_main := m, bo_queue := bo_queue e @ accepted, bo_sent := bo_sent e @ accepted\<rparr>
          in case r of
               Some v \<Rightarrow> e\<lparr>bo_result := Some v\<rparr>
             | None \<Rightarrow>
                 if bo_pumping e
                 then (case pump (bo_closed e) (bo_queue e) (bo_tasks e) of
                         (ended, tasks) \<Rightarrow> e\<lparr>bo_queue := [], bo_tasks := tasks, bo_pumping := \<not> ended\<rparr>)
                 else e)"

text \<open>\<open>try_send\<close> of a spawned future: refused once the receiver is gone.\<close>

definition spawn_on :: "'t \<Rightarrow> ('t, 'm, 'v) block_on \<Rightarrow> ('t, 'm, 'v) block_on" where
  "spawn_on t e =
     (if bo_result e = None \<and> bo_pumping e then e\<lparr>bo_queue := bo_queue e @ [t], bo_sent := bo_sent e @ [t]\<rparr> else e)"

inductive executor_step ::
  "('m \<Rightarrow> 'v option \<times> 't list \<times> 'm) \<Rightarrow> ('t, 'm, 'v) block_on \<Rightarrow> ('t, 'm, 'v) block_on \<Rightarrow> bool" for poll where
  spawns: "\<not> bo_closed e \<Longrightarrow> executor_step poll e (spawn_on t e)"
| closes: "executor_step poll e (e\<lparr>bo_closed := True\<rparr>)"
| polls: "bo_result e = None \<Longrightarrow> executor_step poll e (block_on_poll poll e)"

inductive executor_runs ::
  "('m \<Rightarrow> 'v option \<times> 't list \<times> 'm) \<Rightarrow> ('t, 'm, 'v) block_on \<Rightarrow> ('t, 'm, 'v) block_on \<Rightarrow> bool" for poll where
  start: "executor_runs poll e e"
| more: "executor_runs poll e e' \<Longrightarrow> executor_step poll e' e'' \<Longrightarrow> executor_runs poll e e''"

section \<open>Nothing spawned is lost\<close>

lemma pump_all [simp]: "pump closed queue tasks = (closed, tasks @ queue)"
  by (induction closed queue tasks rule: pump.induct) simp_all

text \<open>The states of the main future that a number of polls leads to.\<close>

fun main_after :: "('m \<Rightarrow> 'v option \<times> 't list \<times> 'm) \<Rightarrow> nat \<Rightarrow> 'm \<Rightarrow> 'm" where
  "main_after poll 0 m = m"
| "main_after poll (Suc k) m = main_after poll k (snd (snd (poll m)))"

definition executor_ok ::
  "('m \<Rightarrow> 'v option \<times> 't list \<times> 'm) \<Rightarrow> 'm \<Rightarrow> ('t, 'm, 'v) block_on \<Rightarrow> bool" where
  "executor_ok poll m0 e \<longleftrightarrow>
     bo_sent e = bo_tasks e @ bo_queue e \<and> (\<not> bo_pumping e \<longrightarrow> bo_closed e \<and> bo_queue e = []) \<and>
     (\<exists>k. bo_main e = main_after poll k m0 \<and>
        (case bo_result e of
           None \<Rightarrow> (\<forall>j<k. fst (poll (main_after poll j m0)) = None)
         | Some v \<Rightarrow> 0 < k \<and> fst (poll (main_after poll (k - 1) m0)) = Some v \<and>
             (\<forall>j<k - 1. fst (poll (main_after poll j m0)) = None)))"

lemma main_after_Suc: "main_after poll (Suc k) m = snd (snd (poll (main_after poll k m)))"
  by (induction k arbitrary: m) simp_all

lemma executor_ok_poll:
  assumes "executor_ok poll m0 e" and "bo_result e = None"
  shows "executor_ok poll m0 (block_on_poll poll e)"
proof -
  obtain k where k: "bo_main e = main_after poll k m0" "\<forall>j<k. fst (poll (main_after poll j m0)) = None"
    using assms by (auto simp: executor_ok_def)
  obtain r spawned m where p: "poll (bo_main e) = (r, spawned, m)" by (metis surj_pair)
  have m: "m = main_after poll (Suc k) m0" unfolding main_after_Suc using p k(1) by simp
  have "bo_sent e = bo_tasks e @ bo_queue e" "\<not> bo_pumping e \<longrightarrow> bo_closed e \<and> bo_queue e = []"
    using assms(1) by (auto simp: executor_ok_def)
  then show ?thesis
    unfolding executor_ok_def
    using p k assms(2)
    by (intro conjI exI [of _ "Suc k"])
      (auto simp: block_on_poll_def Let_def m less_Suc_eq simp del: main_after.simps split: option.splits)
qed

lemma executor_start_ok: "executor_ok poll m0 (block_on_start queue m0)"
  unfolding executor_ok_def block_on_start_def by (intro conjI exI [of _ 0]) simp_all

lemma executor_step_ok:
  assumes "executor_step poll e e'" and "executor_ok poll m0 e"
  shows "executor_ok poll m0 e'"
  using assms(1)
proof cases
  case (spawns t)
  then show ?thesis using assms(2) by (cases "bo_result e") (auto simp: executor_ok_def spawn_on_def)
next
  case closes
  then show ?thesis using assms(2) by (simp add: executor_ok_def)
next
  case polls
  then show ?thesis using executor_ok_poll [OF assms(2)] by simp
qed

lemma executor_runs_keep: "executor_runs poll e0 e \<Longrightarrow> executor_ok poll m0 e0 \<Longrightarrow> executor_ok poll m0 e"
proof (induction rule: executor_runs.induct)
  case (more e0 e' e'')
  from executor_step_ok [OF more.hyps(2) more.IH [OF more.prems]] show ?case .
qed

lemma executor_runs_ok: "executor_runs poll (block_on_start queue m0) e \<Longrightarrow> executor_ok poll m0 e"
  by (erule executor_runs_keep) (rule executor_start_ok)

text \<open>
  In every state of \<open>block_on\<close> the futures accepted are those given to the executor followed by
  those still queued, in the order they were spawned; a poll that leaves it running leaves none
  queued; and it returns exactly the value of the first poll of its main future that is ready, also
  after every runtime is gone.
\<close>

lemma block_on_runs_spawned:
  assumes "executor_runs poll (block_on_start queue m0) e"
  shows "bo_sent e = bo_tasks e @ bo_queue e"
    and "bo_result e = None \<Longrightarrow> bo_result (block_on_poll poll e) = None \<Longrightarrow>
      bo_tasks (block_on_poll poll e) = bo_sent (block_on_poll poll e)"
    and "bo_result e = Some v \<Longrightarrow> \<exists>k. fst (poll (main_after poll k m0)) = Some v \<and>
      (\<forall>j<k. fst (poll (main_after poll j m0)) = None)"
    and "bo_result e = None \<Longrightarrow> bo_result (block_on_poll poll e) = fst (poll (bo_main e))"
proof -
  note ok = executor_runs_ok [OF assms]
  show "bo_sent e = bo_tasks e @ bo_queue e" using ok by (simp add: executor_ok_def)
  show "bo_tasks (block_on_poll poll e) = bo_sent (block_on_poll poll e)"
    if "bo_result e = None" "bo_result (block_on_poll poll e) = None"
    using that ok
    by (auto simp: block_on_poll_def executor_ok_def Let_def split: prod.splits option.splits)
  show "\<exists>k. fst (poll (main_after poll k m0)) = Some v \<and> (\<forall>j<k. fst (poll (main_after poll j m0)) = None)"
    if "bo_result e = Some v"
    using ok that by (auto simp: executor_ok_def)
  show "bo_result (block_on_poll poll e) = fst (poll (bo_main e))" if "bo_result e = None"
    using that by (auto simp: block_on_poll_def Let_def split: prod.splits option.splits)
qed

end
