(* ===== verification/Spec2Isabelle.thy ===== *)
theory Spec2Isabelle
  imports Open_Properties Maintenance Ws_Properties Transport_Properties Http_Execute
    Admin_Properties Client_Exit Watchdog Firmware Runtime Psram_Alloc Boot_Properties Connections
    Executor
begin

text \<open>
  Verification of the WhatsApp client firmware for ESP32 boards (\<open>src/src\<close>).

  \<^bold>\<open>The program.\<close> The firmware runs a WhatsApp client, a library that is not part of the
  repository, on an ESP32. Around it the repository has: a store for credentials and Signal records
  in NVS flash with mirrors in RAM (\<open>storage.rs\<close>); a WebSocket client and the socket thread that
  drives it (\<open>ws.rs\<close>, \<open>transport.rs\<close>); an HTTP client (\<open>http_client.rs\<close>,
  \<open>http_chunked.rs\<close>); the runtime with its executor and blocking worker (\<open>runtime.rs\<close>); a
  dashboard over HTTP (\<open>admin.rs\<close>); the shared device status and the arbiter of reboots
  (\<open>supervisor.rs\<close>); crash diagnostics and telemetry (\<open>crash.rs\<close>, \<open>metrics.rs\<close>); the
  global allocator (\<open>psram_alloc.rs\<close>); and the demo firmware that wires them together
  (\<open>main.rs\<close>). \<open>main\<close> opens the store before the network, starts the dashboard, and runs the
  supervisor loop on the executor. The dashboard shares the store, the status, the running client
  and the arbiter with that loop, and hands its work to the executor; every path that ends in a
  reboot goes through the arbiter, and the store refuses writes from then on.

  \<^bold>\<open>Conventions.\<close> A Rust struct is a record, an enum a datatype, \<open>Result\<close> a sum with the error
  on the left, a stateful operation a function in the result-and-state type \<open>io\<close> of
  \<open>Esp_Prelude\<close>; bytes and fixed-width integers are words. A Rust string is its bytes
  (\<open>Rust_Str\<close>). What threads do concurrently is cut at the accesses to shared state and
  interleaved by inductive step relations. Code outside the repository (ESP-IDF, serde_json,
  SHA-256 and SHA-1, base64, the client library, the clock) is an argument of the definitions; what
  is relied upon is a named hypothesis or a locale with an interpretation.

  \<^bold>\<open>Storage.\<close>
  \<^item> \<open>Record_Codec\<close>: names and layout of records; encoding and decoding are inverse.
  \<^item> \<open>Nvs_Driver\<close>, \<open>Session_Slots\<close>, \<open>Nvs_Flash\<close>: the NVS driver as an interface, the cache of
    validated slots, and \<open>FlashNamespaces\<close>. \<open>Flash_Table\<close>, \<open>Flash_Reset\<close> and
    \<open>Flash_Properties\<close> show that put, delete and load are insert, delete and lookup on a table of
    logical keys on every driver outcome, and that an interrupted reset is completed.
    \<open>Sim_Nvs\<close> is an executable driver on which the interfaces are interpreted.
  \<^item> \<open>Lru_Mirror\<close>, \<open>Nvs_Store\<close>, \<open>Ram_Store\<close>, \<open>Nvs_Open\<close>: \<open>NvsStore\<close> with its mirrors, caps
    and seal, the tables kept in RAM only, and opening. \<open>Store_Ops\<close>, \<open>Store_Coherence\<close>,
    \<open>Store_Run\<close>, \<open>Store_Properties\<close> and \<open>Open_Properties\<close> show that any history of operations
    refines a persistent map, that the mirrors stay within their caps, that the seal freezes
    flash, and that a store which opens is sound whatever flash held. \<open>Flash_Worker\<close> shows that the
    worker thread makes concurrent flash jobs atomic, as these theories assume of \<open>run\<close>.

  \<^bold>\<open>Network.\<close>
  \<^item> \<open>Ws_Codec\<close>, \<open>Ws_Client\<close>, \<open>Ws_Handshake\<close>: frames, the reader, the upgrade. \<open>Ws_Refine\<close> and
    \<open>Ws_Properties\<close> relate the reader to a decoder of the whole byte stream, however the socket
    cuts it, and show round trips and memory bounds.
  \<^item> \<open>Transport\<close>, \<open>Transport_Properties\<close>: the socket thread, its write queue and event channel,
    interleaved with the client; delivery in order, true completions, progress of writes.
  \<^item> \<open>Byte_Reader\<close>, \<open>Http_Text\<close>, \<open>Http_Head\<close>, \<open>Http_Body\<close>, \<open>Http_Chunks\<close>, \<open>Http_Client\<close>: URLs,
    heads, framing, body readers and requests. \<open>Http_Flat\<close>, \<open>Http_Refine\<close> and
    \<open>Http_Properties\<close> show that a returned response is the one in the bytes received, complete and
    within the limits, that both kinds of request agree, and that no input injects a header;
    \<open>Http_Execute\<close> carries this from the URL to the response of \<open>EspHttpClient\<close>.
  \<^item> \<open>Connections\<close>: TLS handles, socket timeouts, the transport factory and thread configurations.

  \<^bold>\<open>Firmware.\<close>
  \<^item> \<open>Device_Status\<close>, \<open>Maintenance\<close>: the status and message log, linking codes, the arbiter and
    \<open>run_maintenance\<close> interleaved with requests; a reboot has applied what was accepted.
  \<^item> \<open>Admin\<close>, \<open>Admin_Properties\<close>, \<open>Send_Admission\<close>, \<open>Send_Race\<close>: every route of the dashboard,
    the token check, and the send with its handler, timeout and memory gate in all interleavings.
  \<^item> \<open>Client_Exit\<close>, \<open>Watchdog\<close>, \<open>Firmware\<close>: the decision of the supervisor loop, the watchdog
    feeder, provisioning, the wait for WiFi, the event callback and the answer to a ping.
  \<^item> \<open>Runtime\<close>, \<open>Executor\<close>: futures, threads, the blocking worker, and the executor's main loop.
  \<^item> \<open>Crash_Log\<close>, \<open>Metrics\<close>, \<open>Boot\<close>, \<open>Boot_Properties\<close>: the panic log with interrupted stores, the
    telemetry, and \<open>main\<close> up to the executor with all its early returns.
  \<^item> \<open>Psram_Alloc\<close>: the allocator over any heap with the contract of ESP-IDF.

  \<^bold>\<open>Loops.\<close> Loops over data are recursive functions that Isabelle proves total. The reading loops
  of the WebSocket and HTTP clients and the waiting loops of the firmware may run as long as the
  surroundings make them, so they are \<open>partial_function (option)\<close>, where not returning is \<open>None\<close>;
  the properties that speak of their results also show that they return (from the bytes that
  arrive, the clock that advances, or the failures that end). No fuel is used.

  \<^bold>\<open>Not modelled.\<close> The client library and its builder options, serde_json, mbedTLS, the async mutex
  behind \<open>MemoryGate\<close> (its users keep the gate's owner in their state) and ESP-IDF itself are
  outside the repository or thin calls into it; they are arguments here. Log lines are left out
  except where they are a function's result. The page and script served by the dashboard are
  constants that the model takes as arguments. The build script, the example, the shell scripts
  and the unit tests have no logic of the running firmware. Time is a number of microseconds or
  milliseconds that the surroundings choose; stack use and scheduling priorities are not
  expressed.
\<close>

end
